(* ===== verification/Kernel_Prelude.thy ===== *)
theory Kernel_Prelude
  imports Main "HOL-Library.Word" "HOL-Library.Multiset" "HOL-Library.Monad_Syntax"
begin

text \<open>
  Shared vocabulary of the development: the Rust standard-library pieces the kernel uses
  (\<open>Result\<close>, \<open>checked_add\<close>, \<open>checked_sub\<close>, the fallible integer conversions, slice
  \<open>get\<close>), the widths of the machine integers, and the generic lemmas on lists, options
  and words that the component theories share.

  Conventions. A Rust \<open>Result<T, E>\<close> is \<open>('t, 'e) result\<close>. A function that can panic
  (\<open>expect\<close>, \<open>assert!\<close>, \<open>panic!\<close>, an index out of range) returns an \<open>option\<close> whose
  \<open>None\<close> is the panic, so that \<^emph>\<open>does not panic\<close> is a provable statement. A method on
  \<open>&mut self\<close> returns the new state beside its result, also when the result is an error.
  Fixed-width integers are words; a \<open>usize\<close> that only indexes or counts is a \<open>nat\<close>, with
  the 64-bit bound written out where the code checks it.
\<close>

section \<open>Machine integers\<close>

type_synonym u8 = "8 word"
type_synonym u16 = "16 word"
type_synonym u32 = "32 word"
type_synonym u64 = "64 word"

unbundle bit_operations_syntax

definition checked_add :: "'a::len word \<Rightarrow> 'a word \<Rightarrow> 'a word option" where
  "checked_add a b = (if unat a + unat b < 2 ^ LENGTH('a) then Some (a + b) else None)"

definition checked_sub :: "'a::len word \<Rightarrow> 'a word \<Rightarrow> 'a word option" where
  "checked_sub a b = (if b \<le> a then Some (a - b) else None)"

definition checked_add_usize :: "nat \<Rightarrow> nat \<Rightarrow> nat option" where
  "checked_add_usize a b = (if a + b < 2 ^ 64 then Some (a + b) else None)"

definition checked_sub_usize :: "nat \<Rightarrow> nat \<Rightarrow> nat option" where
  "checked_sub_usize a b = (if b \<le> a then Some (a - b) else None)"

definition u32_try_from_usize :: "nat \<Rightarrow> u32 option" where
  "u32_try_from_usize n = (if n < 2 ^ 32 then Some (of_nat n) else None)"

definition u32_try_from_u64 :: "u64 \<Rightarrow> u32 option" where
  "u32_try_from_u64 w = (if unat w < 2 ^ 32 then Some (ucast w) else None)"

definition u16_try_from_usize :: "nat \<Rightarrow> u16 option" where
  "u16_try_from_usize n = (if n < 2 ^ 16 then Some (of_nat n) else None)"

definition u8_try_from_usize :: "nat \<Rightarrow> u8 option" where
  "u8_try_from_usize n = (if n < 2 ^ 8 then Some (of_nat n) else None)"

text \<open>\<open>x.checked_add(1).filter(|next| *next != 0)\<close>: the idiom every generation counter uses.\<close>

definition checked_next :: "'a::len word \<Rightarrow> 'a word option" where
  "checked_next w = Option.bind (checked_add w 1) (\<lambda>next. if next \<noteq> 0 then Some next else None)"

lemma unat_u32_limit: "unat (w :: u32) < 4294967296"
proof -
  have "unat w < 2 ^ LENGTH(32)" by (rule unsigned_less)
  then show ?thesis by simp
qed

lemma unat_ucast_u32_u64 [simp]: "unat (ucast (a :: u32) :: u64) = unat a"
  using unat_u32_limit [of a] by (simp add: unsigned_ucast_eq take_bit_nat_eq_self_iff)

lemma unat_plus_one:
  "unat w + 1 < 2 ^ LENGTH('a) \<Longrightarrow> unat (w + 1 :: 'a::len word) = unat w + 1"
  by (cases "LENGTH('a) = 1") (auto simp: unat_word_ariths)

lemma checked_add_Some_iff:
  "checked_add a b = Some c \<longleftrightarrow> unat a + unat b < 2 ^ LENGTH('a) \<and> c = a + (b :: 'a::len word)"
  by (auto simp: checked_add_def)

lemma checked_add_unat: "checked_add a b = Some c \<Longrightarrow> unat c = unat a + unat b"
  by (auto simp: checked_add_def unat_word_ariths split: if_splits)

lemma checked_sub_unat: "checked_sub a b = Some c \<Longrightarrow> unat c + unat b = unat a"
  by (auto simp: checked_sub_def unat_sub word_le_nat_alt split: if_splits)

lemma checked_next_unat: "checked_next w = Some n \<Longrightarrow> unat n = unat w + 1"
  by (auto simp: checked_next_def bind_eq_Some_conv dest!: checked_add_unat split: if_splits)

lemma checked_next_neq_0: "checked_next w = Some n \<Longrightarrow> n \<noteq> 0"
  by (auto simp: checked_next_def bind_eq_Some_conv split: if_splits)

lemma checked_next_None_iff: "checked_next w = None \<longleftrightarrow> w = (- 1 :: 'a::len word)"
proof -
  have "unat w < 2 ^ LENGTH('a)" by (rule unsigned_less)
  moreover have "w = - 1 \<longleftrightarrow> unat w = 2 ^ LENGTH('a) - 1"
    by (simp add: word_unat_eq_iff unsigned_minus_1_eq_mask mask_eq_exp_minus_1)
  ultimately have "unat w + 1 < 2 ^ LENGTH('a) \<longleftrightarrow> w \<noteq> - 1" by linarith
  then show ?thesis
    by (auto simp: checked_next_def checked_add_def bind_eq_None_conv
        eq_neg_iff_add_eq_0 dest: unat_plus_one
        split: if_splits)
qed

section \<open>Result\<close>

datatype ('a, 'e) result = Ok 'a | Err 'e

primrec and_then :: "('a, 'e) result \<Rightarrow> ('a \<Rightarrow> ('b, 'e) result) \<Rightarrow> ('b, 'e) result" where
  "and_then (Ok a) f = f a"
| "and_then (Err e) f = Err e"

primrec map_err :: "('e \<Rightarrow> 'f) \<Rightarrow> ('a, 'e) result \<Rightarrow> ('a, 'f) result" where
  "map_err f (Ok a) = Ok a"
| "map_err f (Err e) = Err (f e)"

primrec ok_or :: "'e \<Rightarrow> 'a option \<Rightarrow> ('a, 'e) result" where
  "ok_or e None = Err e"
| "ok_or e (Some a) = Ok a"

text \<open>\<open>expect\<close> and \<open>unwrap\<close> on a \<open>Result\<close>: the error case is the panic.\<close>

primrec expect_ok :: "('a, 'e) result \<Rightarrow> 'a option" where
  "expect_ok (Ok a) = Some a"
| "expect_ok (Err e) = None"

text \<open>\<open>assert!\<close>: a failed assertion is the panic.\<close>

definition assert_panic :: "bool \<Rightarrow> unit option" where
  "assert_panic b = (if b then Some () else None)"

named_theorems panic_simps \<open>rewriting the panic monad and results in assumptions\<close>

lemma and_then_Ok_iff [panic_simps]:
  "and_then r f = Ok b \<longleftrightarrow> (\<exists>a. r = Ok a \<and> f a = Ok b)"
  by (cases r) auto

lemma and_then_Err_iff [panic_simps]:
  "and_then r f = Err e \<longleftrightarrow> r = Err e \<or> (\<exists>a. r = Ok a \<and> f a = Err e)"
  by (cases r) auto

lemma map_err_Ok_iff [panic_simps, simp]: "map_err f r = Ok a \<longleftrightarrow> r = Ok a"
  by (cases r) auto

lemma map_err_Err_iff [panic_simps]: "map_err f r = Err e \<longleftrightarrow> (\<exists>d. r = Err d \<and> e = f d)"
  by (cases r) auto

lemma ok_or_Ok_iff [panic_simps, simp]: "ok_or e m = Ok a \<longleftrightarrow> m = Some a"
  by (cases m) auto

lemma ok_or_Err_iff [panic_simps, simp]: "ok_or e m = Err d \<longleftrightarrow> m = None \<and> d = e"
  by (cases m) auto

lemma expect_ok_Some_iff [panic_simps, simp]: "expect_ok r = Some a \<longleftrightarrow> r = Ok a"
  by (cases r) auto

lemma assert_panic_Some_iff [panic_simps, simp]: "assert_panic b = Some u \<longleftrightarrow> b"
  by (simp add: assert_panic_def)

lemma assert_panic_True [simp]: "assert_panic True = Some ()"
  by (simp add: assert_panic_def)

lemma result_unit_cases: "(\<exists>e. r = Err e) \<or> r = Ok ()"
  by (cases r) auto

lemmas bind_Some_iff [panic_simps] = bind_eq_Some_conv

lemma result_case_eq_iff:
  "(case r of Ok a \<Rightarrow> f a | Err e \<Rightarrow> g e) = y \<longleftrightarrow>
    (\<exists>a. r = Ok a \<and> f a = y) \<or> (\<exists>e. r = Err e \<and> g e = y)"
  by (cases r) auto

lemma prod_case_eq_iff: "(case p of (a, b) \<Rightarrow> f a b) = y \<longleftrightarrow> (\<exists>a b. p = (a, b) \<and> f a b = y)"
  by (cases p) auto

lemma option_case_eq_iff:
  "(case m of None \<Rightarrow> z | Some a \<Rightarrow> f a) = y \<longleftrightarrow> m = None \<and> z = y \<or> (\<exists>a. m = Some a \<and> f a = y)"
  by (cases m) auto

lemmas case_eq_iffs = result_case_eq_iff prod_case_eq_iff option_case_eq_iff

lemma result_case_Some_iff [panic_simps]:
  "(case r of Ok a \<Rightarrow> f a | Err e \<Rightarrow> g e) = Some y \<longleftrightarrow>
    (\<exists>a. r = Ok a \<and> f a = Some y) \<or> (\<exists>e. r = Err e \<and> g e = Some y)"
  by (cases r) auto

section \<open>Lists read and written by index\<close>

text \<open>\<open>slice.get(i)\<close>; with the \<open>None\<close> read as the panic it is also \<open>slice[i]\<close>.\<close>

definition slice_get :: "'a list \<Rightarrow> nat \<Rightarrow> 'a option" where
  "slice_get xs i = (if i < length xs then Some (xs ! i) else None)"

lemma slice_get_Some_iff [panic_simps, simp]:
  "slice_get xs i = Some x \<longleftrightarrow> i < length xs \<and> x = xs ! i"
  by (auto simp: slice_get_def)

lemma slice_get_None_iff [simp]: "slice_get xs i = None \<longleftrightarrow> length xs \<le> i"
  by (auto simp: slice_get_def)

lemma slice_get_in [simp]: "i < length xs \<Longrightarrow> slice_get xs i = Some (xs ! i)"
  by (simp add: slice_get_def)

text \<open>\<open>iter().position(..)\<close>, which is also the index behind \<open>iter_mut().find(..)\<close>.\<close>

primrec position :: "('a \<Rightarrow> bool) \<Rightarrow> 'a list \<Rightarrow> nat option" where
  "position P [] = None"
| "position P (x # xs) = (if P x then Some 0 else map_option Suc (position P xs))"

lemma position_Some_iff:
  "position P xs = Some i \<longleftrightarrow> i < length xs \<and> P (xs ! i) \<and> (\<forall>j<i. \<not> P (xs ! j))"
proof (induction xs arbitrary: i)
  case Nil
  then show ?case by simp
next
  case (Cons x xs)
  then show ?case by (cases i) (auto simp: nth_Cons split: nat.splits)
qed

lemma position_None_iff: "position P xs = None \<longleftrightarrow> (\<forall>x\<in>set xs. \<not> P x)"
  by (induction xs) auto

lemma position_SomeD: "position P xs = Some i \<Longrightarrow> i < length xs \<and> P (xs ! i)"
  by (simp add: position_Some_iff)

lemma nth_update_if: "j < length xs \<Longrightarrow> xs[i := x] ! j = (if i = j then x else xs ! j)"
  by (cases "i < length xs") (auto simp: nth_list_update list_update_beyond)

lemma in_set_update:
  "i < length xs \<Longrightarrow> y \<in> set (xs[i := x]) \<longleftrightarrow> y = x \<or> (\<exists>j<length xs. j \<noteq> i \<and> xs ! j = y)"
  by (auto simp: in_set_conv_nth nth_list_update split: if_splits)

lemma count_list_filter_update:
  assumes "i < length xs"
  shows "length (filter P (xs[i := y])) + (if P (xs ! i) then 1 else 0)
    = length (filter P xs) + (if P y then 1 else 0)"
  using assms
proof (induction xs arbitrary: i)
  case Nil
  then show ?case by simp
next
  case (Cons x xs)
  then show ?case by (cases i) auto
qed

lemma length_filter_update_same:
  "i < length xs \<Longrightarrow> P y = P (xs ! i) \<Longrightarrow> length (filter P (xs[i := y])) = length (filter P xs)"
  using count_list_filter_update [of i xs P y] by simp

lemma length_filter_pos: "i < length xs \<Longrightarrow> P (xs ! i) \<Longrightarrow> 0 < length (filter P xs)"
  by (metis filter_empty_conv length_greater_0_conv nth_mem)

lemma sum_list_update_mset:
  "i < length xs \<Longrightarrow> sum_list (map f (xs[i := x])) + f (xs ! i) = sum_list (map f xs) + (f x :: 'b multiset)"
proof (induction xs arbitrary: i)
  case (Cons y ys)
  then show ?case by (cases i) (auto simp: ac_simps)
qed simp

text \<open>Filling an array of options from the front.\<close>

lemma padded_update:
  assumes "length xs < n"
  shows "(map Some xs @ replicate (n - length xs) None)[length xs := Some x] =
    map Some (xs @ [x]) @ replicate (n - length (xs @ [x])) None"
proof -
  have "replicate (n - length xs) (None :: 'a option) = None # replicate (n - Suc (length xs)) None"
    using assms by (metis Suc_diff_Suc replicate_Suc)
  then show ?thesis by (simp add: list_update_append)
qed

section \<open>Evaluation of concrete runs\<close>

text \<open>The definitions that the simplifier unfolds to compute an operation on a concrete state.\<close>

named_theorems eval_simps

lemmas prelude_eval [eval_simps] =
  checked_add_def checked_sub_def checked_add_usize_def checked_sub_usize_def u32_try_from_usize_def
  u32_try_from_u64_def u16_try_from_usize_def u8_try_from_usize_def checked_next_def assert_panic_def
  slice_get_def Let_def

end
