(* ===== verification/Abi.thy ===== *)
theory Abi
  imports Kernel_Prelude
begin

text \<open>
  The native ABI vocabulary the core depends on, from
  \<^verbatim>\<open>abi/generated/deepwyrm_abi.rs\<close>: handle, rights, object-type, signal and status
  values (transparent newtypes over machine integers, modelled as the integers) and the
  generated compatibility masks of each object type.
\<close>

type_synonym dw_handle = u64
type_synonym dw_rights = u64
type_synonym dw_object_type = u32
type_synonym dw_signals = u64
type_synonym dw_status = int

abbreviation (input) DW_STATUS_SUCCESS :: dw_status where "DW_STATUS_SUCCESS \<equiv> 0"
abbreviation (input) DW_STATUS_INVALID_ARGUMENT :: dw_status where "DW_STATUS_INVALID_ARGUMENT \<equiv> - 1"
abbreviation (input) DW_STATUS_BAD_HANDLE :: dw_status where "DW_STATUS_BAD_HANDLE \<equiv> - 2"
abbreviation (input) DW_STATUS_WRONG_OBJECT_TYPE :: dw_status where "DW_STATUS_WRONG_OBJECT_TYPE \<equiv> - 3"
abbreviation (input) DW_STATUS_ACCESS_DENIED :: dw_status where "DW_STATUS_ACCESS_DENIED \<equiv> - 4"
abbreviation (input) DW_STATUS_NO_RESOURCES :: dw_status where "DW_STATUS_NO_RESOURCES \<equiv> - 13"
abbreviation (input) DW_STATUS_NOT_SUPPORTED :: dw_status where "DW_STATUS_NOT_SUPPORTED \<equiv> - 14"

abbreviation (input) DW_RIGHT_READ :: dw_rights where "DW_RIGHT_READ \<equiv> 1"
abbreviation (input) DW_RIGHT_WRITE :: dw_rights where "DW_RIGHT_WRITE \<equiv> 2"
abbreviation (input) DW_RIGHT_WAIT :: dw_rights where "DW_RIGHT_WAIT \<equiv> 16"
abbreviation (input) DW_RIGHT_DUPLICATE :: dw_rights where "DW_RIGHT_DUPLICATE \<equiv> 64"
abbreviation (input) DW_RIGHT_TRANSFER :: dw_rights where "DW_RIGHT_TRANSFER \<equiv> 128"
abbreviation (input) DW_RIGHT_INSPECT :: dw_rights where "DW_RIGHT_INSPECT \<equiv> 256"

abbreviation (input) DW_OBJECT_TYPE_TASK_GROUP :: dw_object_type where "DW_OBJECT_TYPE_TASK_GROUP \<equiv> 1"
abbreviation (input) DW_OBJECT_TYPE_PROCESS :: dw_object_type where "DW_OBJECT_TYPE_PROCESS \<equiv> 2"
abbreviation (input) DW_OBJECT_TYPE_THREAD :: dw_object_type where "DW_OBJECT_TYPE_THREAD \<equiv> 3"
abbreviation (input) DW_OBJECT_TYPE_MEMORY_OBJECT :: dw_object_type where "DW_OBJECT_TYPE_MEMORY_OBJECT \<equiv> 4"
abbreviation (input) DW_OBJECT_TYPE_ADDRESS_REGION :: dw_object_type where "DW_OBJECT_TYPE_ADDRESS_REGION \<equiv> 5"
abbreviation (input) DW_OBJECT_TYPE_CHANNEL :: dw_object_type where "DW_OBJECT_TYPE_CHANNEL \<equiv> 6"
abbreviation (input) DW_OBJECT_TYPE_EVENT :: dw_object_type where "DW_OBJECT_TYPE_EVENT \<equiv> 7"
abbreviation (input) DW_OBJECT_TYPE_TIMER :: dw_object_type where "DW_OBJECT_TYPE_TIMER \<equiv> 8"
abbreviation (input) DW_OBJECT_TYPE_INTERRUPT :: dw_object_type where "DW_OBJECT_TYPE_INTERRUPT \<equiv> 16"
abbreviation (input) DW_OBJECT_TYPE_DEVICE_RESOURCE :: dw_object_type where "DW_OBJECT_TYPE_DEVICE_RESOURCE \<equiv> 17"

abbreviation (input) DW_SIGNAL_READABLE :: dw_signals where "DW_SIGNAL_READABLE \<equiv> 1"
abbreviation (input) DW_SIGNAL_WRITABLE :: dw_signals where "DW_SIGNAL_WRITABLE \<equiv> 2"
abbreviation (input) DW_SIGNAL_PEER_CLOSED :: dw_signals where "DW_SIGNAL_PEER_CLOSED \<equiv> 4"
abbreviation (input) DW_SIGNAL_EXITED :: dw_signals where "DW_SIGNAL_EXITED \<equiv> 8"
abbreviation (input) DW_SIGNAL_SIGNALED :: dw_signals where "DW_SIGNAL_SIGNALED \<equiv> 16"

abbreviation (input) DW_HANDLE_INVALID :: dw_handle where "DW_HANDLE_INVALID \<equiv> 0"
abbreviation (input) DW_CHANNEL_MAX_PAYLOAD :: nat where "DW_CHANNEL_MAX_PAYLOAD \<equiv> 65536"
abbreviation (input) DW_CHANNEL_MAX_HANDLES :: nat where "DW_CHANNEL_MAX_HANDLES \<equiv> 16"

abbreviation (input) DW_RIGHTS_KNOWN_MASK :: dw_rights where "DW_RIGHTS_KNOWN_MASK \<equiv> 2047"

definition dw_object_compatible_rights :: "dw_object_type \<Rightarrow> dw_rights" where
  "dw_object_compatible_rights object_type =
    (if object_type = 1 then 1984
     else if object_type = 2 then 976
     else if object_type = 3 then 980
     else if object_type = 4 then 463
     else if object_type = 5 then 968
     else if object_type = 6 then 467
     else if object_type = 7 then 496
     else if object_type = 8 then 976
     else if object_type = 16 then 912
     else if object_type = 17 then 963
     else 0)"

definition dw_rights_are_known :: "dw_rights \<Rightarrow> bool" where
  "dw_rights_are_known rights \<longleftrightarrow> rights AND NOT DW_RIGHTS_KNOWN_MASK = 0"

definition dw_rights_are_compatible :: "dw_object_type \<Rightarrow> dw_rights \<Rightarrow> bool" where
  "dw_rights_are_compatible object_type rights \<longleftrightarrow>
    rights AND NOT (dw_object_compatible_rights object_type) = 0"

definition dw_object_compatible_signals :: "dw_object_type \<Rightarrow> dw_signals" where
  "dw_object_compatible_signals object_type =
    (if object_type = 1 then 0
     else if object_type = 2 then 8
     else if object_type = 3 then 8
     else if object_type = 4 then 0
     else if object_type = 5 then 0
     else if object_type = 6 then 7
     else if object_type = 7 then 16
     else if object_type = 8 then 16
     else if object_type = 16 then 16
     else if object_type = 17 then 0
     else 0)"

definition dw_signals_are_compatible :: "dw_object_type \<Rightarrow> dw_signals \<Rightarrow> bool" where
  "dw_signals_are_compatible object_type signals \<longleftrightarrow>
    signals AND NOT (dw_object_compatible_signals object_type) = 0"

section \<open>Bit sets\<close>

text \<open>Inclusion of bit sets, in the two spellings the code uses.\<close>

lemma and_not_eq_0_iff_bit:
  "a AND NOT b = (0 :: 'a::len word) \<longleftrightarrow> (\<forall>n. bit a n \<longrightarrow> bit b n)"
  by (auto simp: bit_eq_iff bit_simps dest: bit_imp_le_length)

lemma and_eq_iff_bit:
  "a AND b = (b :: 'a::len word) \<longleftrightarrow> (\<forall>n. bit b n \<longrightarrow> bit a n)"
  by (auto simp: bit_eq_iff bit_simps dest: bit_imp_le_length)

lemma and_not_trans:
  "a AND NOT b = (0 :: 'a::len word) \<Longrightarrow> b AND NOT c = 0 \<Longrightarrow> a AND NOT c = 0"
  by (auto simp: and_not_eq_0_iff_bit)

lemma compatible_rights_known: "dw_object_compatible_rights object_type AND NOT 2047 = 0"
  by (simp add: dw_object_compatible_rights_def)

lemma compatible_imp_known: "dw_rights_are_compatible ty rights \<Longrightarrow> dw_rights_are_known rights"
  unfolding dw_rights_are_compatible_def dw_rights_are_known_def
  by (rule and_not_trans [OF _ compatible_rights_known])

end
