(* ===== verification/Generation_Codec.thy ===== *)
theory Generation_Codec
  imports Kernel_Prelude
begin

text \<open>
  Slot/generation identities. Object identities (\<^verbatim>\<open>kernel/src/object/mod.rs\<close>) and handle
  values (\<^verbatim>\<open>kernel/src/handle/table.rs\<close>) both pack a one-based slot index into the low
  half and a non-zero generation into the high half of a 64-bit word. The interface a slot
  table needs of such a packing is the locale \<open>generation_codec\<close>; each table interprets it
  on its own encoder and decoder.
\<close>

lemma pack_high:
  "ucast (drop_bit 32 (push_bit 32 (ucast (g :: u32)) OR (ucast (s :: u32)) :: u64)) = g"
  by (rule bit_word_eqI) (auto simp: bit_simps dest: bit_imp_le_length)

lemma mask32: "(4294967295 :: u64) = mask 32"
  by (simp add: mask_eq_exp_minus_1)

lemma pack_low:
  "((push_bit 32 (ucast (g :: u32)) OR (ucast (s :: u32)) :: u64) AND 4294967295) = ucast s"
  unfolding mask32 by (rule bit_word_eqI) (auto simp: bit_simps dest: bit_imp_le_length)

lemma unpack_pack:
  "(push_bit 32 (ucast (ucast (drop_bit 32 raw) :: u32)) OR (raw AND 4294967295) :: u64) = raw"
  unfolding mask32
  by (rule bit_word_eqI) (auto simp: bit_simps not_less dest: bit_imp_le_length)

lemma unat_low_half: "unat ((raw :: u64) AND 4294967295) < 2 ^ 32"
  unfolding mask32 take_bit_eq_mask [symmetric] unsigned_take_bit_eq
  by (rule take_bit_nat_less_exp)

lemma ucast_u32_low_half: "(ucast (ucast (raw AND 4294967295) :: u32) :: u64) = raw AND 4294967295"
  unfolding mask32 by (rule bit_word_eqI) (auto simp: bit_simps dest: bit_imp_le_length)

lemma ucast_u32_u64_u32 [simp]: "(ucast (ucast (x :: u32) :: u64) :: u32) = x"
  by (rule bit_word_eqI) (auto simp: bit_simps dest: bit_imp_le_length)

locale generation_codec =
  fixes encode :: "nat \<Rightarrow> u32 \<Rightarrow> u64 option"
    and decode :: "u64 \<Rightarrow> (nat \<times> u32) option"
  assumes decode_encode: "encode slot g = Some raw \<Longrightarrow> decode raw = Some (slot, g)"
    and encode_decode: "decode raw = Some (slot, g) \<Longrightarrow> encode slot g = Some raw"
    and encode_defined: "(\<exists>raw. encode slot g = Some raw) \<longleftrightarrow> slot + 1 < 2 ^ 32 \<and> g \<noteq> 0"
begin

lemma encode_inj:
  assumes "encode slot g = Some raw" and "encode slot' g' = Some raw"
  shows "slot = slot' \<and> g = g'"
  using assms by (auto dest!: decode_encode)

lemma decode_inj: "decode raw = Some p \<Longrightarrow> decode raw' = Some p \<Longrightarrow> raw = raw'"
  by (cases p) (auto dest!: encode_decode)

lemma decode_generation_neq_0: "decode raw = Some (slot, g) \<Longrightarrow> g \<noteq> 0"
  using encode_decode encode_defined by blast

end

end
