(* ===== verification/Object_Registry.thy ===== *)
theory Object_Registry
  imports Abi Generation_Codec
begin

text \<open>
  The kernel-object identity and strong-lifetime registry, \<^verbatim>\<open>kernel/src/object/mod.rs\<close>.
  An \<open>ObjectId\<close> names a slot, a slot generation and the registry's domain; lifetime is
  carried by move-only tokens (creation, bound-creation, handle, internal and final-release
  references) that only the registry mints or transforms. The registry itself keeps two
  32-bit counters per live object. This theory holds the data and every operation; the
  accounting of tokens against counters is in \<^verbatim>\<open>Object_Ledger\<close>.
\<close>

section \<open>Data\<close>

text \<open>The static domain counters: \<open>fetch_update\<close> returns the previous value.\<close>

definition mint_registry_domain :: "u64 \<Rightarrow> (u64 \<times> u64) option" where
  "mint_registry_domain next_domain =
    (case checked_next next_domain of None \<Rightarrow> None | Some n \<Rightarrow> Some (next_domain, n))"

record object_id =
  id_domain :: u64
  id_raw :: u64

definition object_id_generation :: "object_id \<Rightarrow> u64" where
  "object_id_generation i = drop_bit 32 (id_raw i)"

definition diagnostic_identity :: "object_id \<Rightarrow> u64" where
  "diagnostic_identity i = id_raw i"

datatype object_registry_error =
    InvalidObjectType
  | Capacity
  | ForeignReference
  | StaleReference
  | ObjectTypeMismatch
  | ReferenceCountExhausted
  | ReferenceCountUnderflow
  | NotFinalizing

datatype reference_kind = Handle | Internal

record creation_ref =
  cr_id :: object_id
  cr_object_type :: dw_object_type

record bound_creation =
  bc_reference :: creation_ref

record handle_ref =
  hr_id :: object_id
  hr_object_type :: dw_object_type

record internal_ref =
  ir_id :: object_id
  ir_object_type :: dw_object_type

record final_release =
  fr_id :: object_id
  fr_object_type :: dw_object_type

record 'r reference_error =
  re_error :: object_registry_error
  re_reference :: 'r

record live_object =
  lo_object_type :: dw_object_type
  lo_handle_refs :: u32
  lo_internal_refs :: u32

datatype slot_state = Vacant | Live live_object | Finalizing dw_object_type | Retired

record object_slot =
  os_generation :: u32
  os_state :: slot_state

definition EMPTY_SLOT :: object_slot where
  "EMPTY_SLOT = \<lparr>os_generation = 0, os_state = Vacant\<rparr>"

record object_registry =
  or_domain :: u64
  or_slots :: "object_slot list"

section \<open>Identity encoding\<close>

definition next_generation :: "u32 \<Rightarrow> u32 option" where
  "next_generation generation = checked_next generation"

definition encode_object_id :: "nat \<Rightarrow> u32 \<Rightarrow> u64 option" where
  "encode_object_id slot generation =
    do { one_based \<leftarrow> checked_add_usize slot 1;
         slot32 \<leftarrow> u32_try_from_usize one_based;
         if generation \<noteq> 0
         then Some (push_bit 32 (ucast generation) OR ucast slot32)
         else None }"

definition decode_object_id :: "u64 \<Rightarrow> (nat \<times> u32) option" where
  "decode_object_id raw =
    (let generation = ucast (drop_bit 32 raw) in
     do { low \<leftarrow> u32_try_from_u64 (raw AND 4294967295);
          slot \<leftarrow> checked_sub low 1;
          if generation \<noteq> 0 then Some (unat slot, generation) else None })"

lemma encode_object_id_eq:
  "encode_object_id slot generation =
    (if slot + 1 < 2 ^ 32 \<and> generation \<noteq> 0
     then Some (push_bit 32 (ucast generation) OR ucast (of_nat (slot + 1) :: u32)) else None)"
  by (auto simp: encode_object_id_def checked_add_usize_def u32_try_from_usize_def)

lemma unat_of_nat_pred:
  assumes "slot + 1 < 2 ^ 32"
  shows "unat ((of_nat (slot + 1) :: u32) - 1) = slot"
proof -
  have "(of_nat (slot + 1) :: u32) - 1 = of_nat slot" by simp
  with assms show ?thesis by (simp add: unat_of_nat)
qed

lemma of_nat_slot_ge_1: "slot + 1 < 2 ^ 32 \<Longrightarrow> (1 :: u32) \<le> of_nat (slot + 1)"
  by (simp add: word_le_nat_alt unat_of_nat del: of_nat_Suc of_nat_add)

lemma decode_encode_object_id:
  assumes "encode_object_id slot g = Some raw"
  shows "decode_object_id raw = Some (slot, g)"
proof -
  from assms have b: "slot + 1 < 2 ^ 32" and g: "g \<noteq> 0"
    and raw: "raw = push_bit 32 (ucast g) OR ucast (of_nat (slot + 1) :: u32)"
    by (auto simp: encode_object_id_eq split: if_splits)
  have lo: "raw AND 4294967295 = ucast (of_nat (slot + 1) :: u32)"
    and hi: "ucast (drop_bit 32 raw) = g"
    unfolding raw by (rule pack_low, rule pack_high)
  have "u32_try_from_u64 (raw AND 4294967295) = Some (of_nat (slot + 1))"
    using unat_low_half [of raw] unfolding u32_try_from_u64_def lo by simp
  moreover have "checked_sub (of_nat (slot + 1) :: u32) 1 = Some (of_nat (slot + 1) - 1)"
    using of_nat_slot_ge_1 [OF b] by (simp only: checked_sub_def if_True)
  ultimately show ?thesis
    unfolding decode_object_id_def Let_def hi
    using g by (simp only: bind.simps unat_of_nat_pred [OF b] simp_thms if_True)
qed

lemma encode_decode_object_id:
  assumes "decode_object_id raw = Some (slot, g)"
  shows "encode_object_id slot g = Some raw"
proof -
  define low :: u32 where "low = ucast (raw AND 4294967295)"
  from assms have g: "g = ucast (drop_bit 32 raw)" "g \<noteq> 0"
    and low: "1 \<le> low" "slot = unat (low - 1)"
    by (auto simp: decode_object_id_def Let_def bind_eq_Some_conv checked_sub_def
        u32_try_from_u64_def low_def split: if_splits)
  have slot: "slot + 1 = unat low"
    using low by (simp add: unat_sub word_le_nat_alt)
  have "slot + 1 < 2 ^ 32" unfolding slot using unsigned_less [of low] by simp
  moreover have "(of_nat (slot + 1) :: u32) = low" unfolding slot by simp
  ultimately show ?thesis
    using g unpack_pack [of raw] unfolding encode_object_id_eq
    by (simp add: low_def ucast_u32_low_half del: of_nat_Suc of_nat_add)
qed

interpretation object_codec: generation_codec encode_object_id decode_object_id
proof
  show "(\<exists>raw. encode_object_id slot g = Some raw) \<longleftrightarrow> slot + 1 < 2 ^ 32 \<and> g \<noteq> 0" for slot g
    by (simp add: encode_object_id_eq)
qed (fact decode_encode_object_id encode_decode_object_id)+

section \<open>Operations\<close>

text \<open>\<open>new\<close> takes the static domain counter and returns its next value.\<close>

definition object_registry_new :: "nat \<Rightarrow> u64 \<Rightarrow> (object_registry \<times> u64) option" where
  "object_registry_new capacity next_domain =
    do { (domain, next_domain') \<leftarrow> mint_registry_domain next_domain;
         Some (\<lparr>or_domain = domain, or_slots = replicate capacity EMPTY_SLOT\<rparr>, next_domain') }"

text \<open>
  The scan of \<open>create\<close> from slot \<open>slot\<close> on: slots that are not vacant are passed over, a
  vacant slot whose next generation or identity cannot be represented is retired.
\<close>

fun create_scan ::
  "u64 \<Rightarrow> dw_object_type \<Rightarrow> nat \<Rightarrow> object_slot list \<Rightarrow>
   (creation_ref, object_registry_error) result \<times> object_slot list" where
  "create_scan domain ty slot [] = (Err Capacity, [])"
| "create_scan domain ty slot (s # rest) =
    (if os_state s \<noteq> Vacant
     then (case create_scan domain ty (slot + 1) rest of (r, rest') \<Rightarrow> (r, s # rest'))
     else (case next_generation (os_generation s) of
         None \<Rightarrow> (case create_scan domain ty (slot + 1) rest of
            (r, rest') \<Rightarrow> (r, s\<lparr>os_state := Retired\<rparr> # rest'))
       | Some generation \<Rightarrow> (case encode_object_id slot generation of
            None \<Rightarrow> (case create_scan domain ty (slot + 1) rest of
              (r, rest') \<Rightarrow> (r, s\<lparr>os_state := Retired\<rparr> # rest'))
          | Some raw \<Rightarrow>
              (Ok \<lparr>cr_id = \<lparr>id_domain = domain, id_raw = raw\<rparr>, cr_object_type = ty\<rparr>,
               \<lparr>os_generation = generation,
                os_state = Live \<lparr>lo_object_type = ty, lo_handle_refs = 0, lo_internal_refs = 1\<rparr>\<rparr>
               # rest))))"

definition create ::
  "object_registry \<Rightarrow> dw_object_type \<Rightarrow>
   (creation_ref, object_registry_error) result \<times> object_registry" where
  "create reg object_type =
    (if dw_object_compatible_rights object_type = 0 then (Err InvalidObjectType, reg)
     else (case create_scan (or_domain reg) object_type 0 (or_slots reg) of
        (r, slots') \<Rightarrow> (r, reg\<lparr>or_slots := slots'\<rparr>)))"

definition reference_slot :: "object_registry \<Rightarrow> object_id \<Rightarrow> (nat, object_registry_error) result" where
  "reference_slot reg i =
    (if id_domain i \<noteq> or_domain reg then Err ForeignReference
     else and_then (ok_or StaleReference (decode_object_id (id_raw i)))
       (\<lambda>(slot, _). and_then (ok_or StaleReference (slice_get (or_slots reg) slot))
          (\<lambda>_. Ok slot)))"

fun kind_refs :: "reference_kind \<Rightarrow> live_object \<Rightarrow> u32" where
  "kind_refs Handle live = lo_handle_refs live"
| "kind_refs Internal live = lo_internal_refs live"

fun set_kind_refs :: "reference_kind \<Rightarrow> u32 \<Rightarrow> live_object \<Rightarrow> live_object" where
  "set_kind_refs Handle n live = live\<lparr>lo_handle_refs := n\<rparr>"
| "set_kind_refs Internal n live = live\<lparr>lo_internal_refs := n\<rparr>"

definition validate_reference ::
  "object_registry \<Rightarrow> object_id \<Rightarrow> dw_object_type \<Rightarrow> reference_kind \<Rightarrow>
   (unit, object_registry_error) result" where
  "validate_reference reg i object_type kind =
    and_then (reference_slot reg i) (\<lambda>slot.
    and_then (ok_or StaleReference (decode_object_id (id_raw i))) (\<lambda>(_, generation).
      let entry = or_slots reg ! slot in
      if os_generation entry \<noteq> generation then Err StaleReference
      else (case os_state entry of
          Live live \<Rightarrow>
            if lo_object_type live \<noteq> object_type then Err ObjectTypeMismatch
            else if kind_refs kind live = 0 then Err ReferenceCountUnderflow
            else Ok ()
        | _ \<Rightarrow> Err StaleReference)))"

text \<open>\<open>self.slots[slot].state = state\<close>.\<close>

definition set_state :: "object_registry \<Rightarrow> nat \<Rightarrow> slot_state \<Rightarrow> object_registry" where
  "set_state reg slot state =
    reg\<lparr>or_slots := (or_slots reg)[slot := (or_slots reg ! slot)\<lparr>os_state := state\<rparr>]\<rparr>"

definition retain_reference ::
  "object_registry \<Rightarrow> object_id \<Rightarrow> dw_object_type \<Rightarrow> reference_kind \<Rightarrow> reference_kind \<Rightarrow>
   (unit, object_registry_error) result \<times> object_registry" where
  "retain_reference reg i object_type source_kind retained_kind =
    (case validate_reference reg i object_type source_kind of
      Err e \<Rightarrow> (Err e, reg)
    | Ok _ \<Rightarrow> (case reference_slot reg i of
        Err e \<Rightarrow> (Err e, reg)
      | Ok slot \<Rightarrow> (case os_state (or_slots reg ! slot) of
          Live live \<Rightarrow> (case checked_add (kind_refs retained_kind live) 1 of
              None \<Rightarrow> (Err ReferenceCountExhausted, reg)
            | Some n \<Rightarrow> (Ok (), set_state reg slot (Live (set_kind_refs retained_kind n live))))
        | _ \<Rightarrow> (Err StaleReference, reg))))"

definition transition_reference ::
  "object_registry \<Rightarrow> object_id \<Rightarrow> dw_object_type \<Rightarrow> reference_kind \<Rightarrow> reference_kind \<Rightarrow>
   (unit, object_registry_error) result \<times> object_registry" where
  "transition_reference reg i object_type src dst =
    (case validate_reference reg i object_type src of
      Err e \<Rightarrow> (Err e, reg)
    | Ok _ \<Rightarrow>
       if src = dst then (Ok (), reg)
       else (case reference_slot reg i of
          Err e \<Rightarrow> (Err e, reg)
        | Ok slot \<Rightarrow> (case os_state (or_slots reg ! slot) of
            Live live \<Rightarrow> (case checked_add (kind_refs dst live) 1 of
                None \<Rightarrow> (Err ReferenceCountExhausted, reg)
              | Some n \<Rightarrow> (case checked_sub (kind_refs src live) 1 of
                  None \<Rightarrow> (Err ReferenceCountUnderflow, reg)
                | Some m \<Rightarrow>
                   (Ok (), set_state reg slot (Live (set_kind_refs dst n (set_kind_refs src m live))))))
          | _ \<Rightarrow> (Err StaleReference, reg))))"

definition release_reference ::
  "object_registry \<Rightarrow> object_id \<Rightarrow> dw_object_type \<Rightarrow> reference_kind \<Rightarrow>
   (final_release option, object_registry_error) result \<times> object_registry" where
  "release_reference reg i object_type kind =
    (case validate_reference reg i object_type kind of
      Err e \<Rightarrow> (Err e, reg)
    | Ok _ \<Rightarrow> (case reference_slot reg i of
        Err e \<Rightarrow> (Err e, reg)
      | Ok slot \<Rightarrow> (case os_state (or_slots reg ! slot) of
          Live live \<Rightarrow> (case checked_sub (kind_refs kind live) 1 of
              None \<Rightarrow> (Err ReferenceCountUnderflow, reg)
            | Some n \<Rightarrow>
               let live' = set_kind_refs kind n live;
                   reg' = set_state reg slot (Live live') in
               if (ucast (lo_handle_refs live') + ucast (lo_internal_refs live') :: u64) = 0
               then (Ok (Some \<lparr>fr_id = i, fr_object_type = object_type\<rparr>),
                     set_state reg' slot (Finalizing object_type))
               else (Ok None, reg'))
        | _ \<Rightarrow> (Err StaleReference, reg))))"

definition complete_finalization_inner ::
  "object_registry \<Rightarrow> final_release \<Rightarrow>
   ((unit, object_registry_error) result \<times> object_registry) option" where
  "complete_finalization_inner reg final_release =
    (case reference_slot reg (fr_id final_release) of
      Err e \<Rightarrow> Some (Err e, reg)
    | Ok slot \<Rightarrow>
       do { (_, generation) \<leftarrow> decode_object_id (id_raw (fr_id final_release));
            let entry = or_slots reg ! slot;
            Some (if os_generation entry \<noteq> generation then (Err StaleReference, reg)
              else (case os_state entry of
                  Finalizing object_type \<Rightarrow>
                    if object_type = fr_object_type final_release
                    then (Ok (), set_state reg slot
                       (if next_generation (os_generation entry) \<noteq> None then Vacant else Retired))
                    else (Err ObjectTypeMismatch, reg)
                | _ \<Rightarrow> (Err NotFinalizing, reg))) })"

text \<open>
  The typed front of the registry: each operation consumes a token of one kind and mints a
  token of another; on an error the consumed token comes back inside the \<open>ReferenceError\<close>.
  A payload-binding or payload-cleanup proof is a sealed wrapper whose only content is the
  creation or final-release token it yields, so the operations take that token.
\<close>

definition reference_failure :: "object_registry_error \<Rightarrow> 'r \<Rightarrow> ('a, 'r reference_error) result" where
  "reference_failure e r = Err \<lparr>re_error = e, re_reference = r\<rparr>"

definition finish_payload_binding ::
  "object_registry \<Rightarrow> creation_ref \<Rightarrow> (bound_creation, creation_ref reference_error) result" where
  "finish_payload_binding reg reference =
    (case validate_reference reg (cr_id reference) (cr_object_type reference) Internal of
      Err e \<Rightarrow> reference_failure e reference
    | Ok _ \<Rightarrow> Ok \<lparr>bc_reference = reference\<rparr>)"

definition retain_handle_from_bound ::
  "object_registry \<Rightarrow> bound_creation \<Rightarrow>
   (handle_ref, object_registry_error) result \<times> object_registry" where
  "retain_handle_from_bound reg bound =
    (let c = bc_reference bound in
     case retain_reference reg (cr_id c) (cr_object_type c) Internal Handle of
      (Err e, reg') \<Rightarrow> (Err e, reg')
    | (Ok _, reg') \<Rightarrow> (Ok \<lparr>hr_id = cr_id c, hr_object_type = cr_object_type c\<rparr>, reg'))"

definition bound_into_handle ::
  "object_registry \<Rightarrow> bound_creation \<Rightarrow>
   (handle_ref, bound_creation reference_error) result \<times> object_registry" where
  "bound_into_handle reg bound =
    (let c = bc_reference bound in
     case transition_reference reg (cr_id c) (cr_object_type c) Internal Handle of
      (Err e, reg') \<Rightarrow> (reference_failure e \<lparr>bc_reference = c\<rparr>, reg')
    | (Ok _, reg') \<Rightarrow> (Ok \<lparr>hr_id = cr_id c, hr_object_type = cr_object_type c\<rparr>, reg'))"

definition bound_into_internal ::
  "object_registry \<Rightarrow> bound_creation \<Rightarrow> (internal_ref, bound_creation reference_error) result" where
  "bound_into_internal reg bound =
    (let c = bc_reference bound in
     case validate_reference reg (cr_id c) (cr_object_type c) Internal of
      Err e \<Rightarrow> reference_failure e \<lparr>bc_reference = c\<rparr>
    | Ok _ \<Rightarrow> Ok \<lparr>ir_id = cr_id c, ir_object_type = cr_object_type c\<rparr>)"

definition handle_into_internal ::
  "object_registry \<Rightarrow> handle_ref \<Rightarrow>
   (internal_ref, handle_ref reference_error) result \<times> object_registry" where
  "handle_into_internal reg reference =
    (case transition_reference reg (hr_id reference) (hr_object_type reference) Handle Internal of
      (Err e, reg') \<Rightarrow> (reference_failure e reference, reg')
    | (Ok _, reg') \<Rightarrow>
        (Ok \<lparr>ir_id = hr_id reference, ir_object_type = hr_object_type reference\<rparr>, reg'))"

definition internal_into_handle ::
  "object_registry \<Rightarrow> internal_ref \<Rightarrow>
   (handle_ref, internal_ref reference_error) result \<times> object_registry" where
  "internal_into_handle reg reference =
    (case transition_reference reg (ir_id reference) (ir_object_type reference) Internal Handle of
      (Err e, reg') \<Rightarrow> (reference_failure e reference, reg')
    | (Ok _, reg') \<Rightarrow>
        (Ok \<lparr>hr_id = ir_id reference, hr_object_type = ir_object_type reference\<rparr>, reg'))"

definition retain_handle ::
  "object_registry \<Rightarrow> handle_ref \<Rightarrow> (handle_ref, object_registry_error) result \<times> object_registry" where
  "retain_handle reg source =
    (case retain_reference reg (hr_id source) (hr_object_type source) Handle Handle of
      (Err e, reg') \<Rightarrow> (Err e, reg')
    | (Ok _, reg') \<Rightarrow> (Ok \<lparr>hr_id = hr_id source, hr_object_type = hr_object_type source\<rparr>, reg'))"

definition retain_internal_from_handle ::
  "object_registry \<Rightarrow> handle_ref \<Rightarrow>
   (internal_ref, object_registry_error) result \<times> object_registry" where
  "retain_internal_from_handle reg source =
    (case retain_reference reg (hr_id source) (hr_object_type source) Handle Internal of
      (Err e, reg') \<Rightarrow> (Err e, reg')
    | (Ok _, reg') \<Rightarrow> (Ok \<lparr>ir_id = hr_id source, ir_object_type = hr_object_type source\<rparr>, reg'))"

definition retain_internal ::
  "object_registry \<Rightarrow> internal_ref \<Rightarrow>
   (internal_ref, object_registry_error) result \<times> object_registry" where
  "retain_internal reg source =
    (case retain_reference reg (ir_id source) (ir_object_type source) Internal Internal of
      (Err e, reg') \<Rightarrow> (Err e, reg')
    | (Ok _, reg') \<Rightarrow> (Ok \<lparr>ir_id = ir_id source, ir_object_type = ir_object_type source\<rparr>, reg'))"

definition cancel_creation ::
  "object_registry \<Rightarrow> creation_ref \<Rightarrow>
   ((unit, creation_ref reference_error) result \<times> object_registry) option" where
  "cancel_creation reg reference =
    (case release_reference reg (cr_id reference) (cr_object_type reference) Internal of
      (Ok (Some final_release), reg') \<Rightarrow>
        do { (r, reg'') \<leftarrow> complete_finalization_inner reg' final_release;
             _ \<leftarrow> expect_ok r;
             Some (Ok (), reg'') }
    | (Ok None, reg') \<Rightarrow> None
    | (Err e, reg') \<Rightarrow> Some (reference_failure e reference, reg'))"

definition release_creation ::
  "object_registry \<Rightarrow> creation_ref \<Rightarrow>
   (final_release option, creation_ref reference_error) result \<times> object_registry" where
  "release_creation reg reference =
    (case release_reference reg (cr_id reference) (cr_object_type reference) Internal of
      (Ok final_release, reg') \<Rightarrow> (Ok final_release, reg')
    | (Err e, reg') \<Rightarrow> (reference_failure e reference, reg'))"

definition release_handle ::
  "object_registry \<Rightarrow> handle_ref \<Rightarrow>
   (final_release option, handle_ref reference_error) result \<times> object_registry" where
  "release_handle reg reference =
    (case release_reference reg (hr_id reference) (hr_object_type reference) Handle of
      (Ok final_release, reg') \<Rightarrow> (Ok final_release, reg')
    | (Err e, reg') \<Rightarrow> (reference_failure e reference, reg'))"

definition release_internal ::
  "object_registry \<Rightarrow> internal_ref \<Rightarrow>
   (final_release option, internal_ref reference_error) result \<times> object_registry" where
  "release_internal reg reference =
    (case release_reference reg (ir_id reference) (ir_object_type reference) Internal of
      (Ok final_release, reg') \<Rightarrow> (Ok final_release, reg')
    | (Err e, reg') \<Rightarrow> (reference_failure e reference, reg'))"

definition complete_payload_finalization ::
  "object_registry \<Rightarrow> final_release \<Rightarrow>
   ((unit, final_release reference_error) result \<times> object_registry) option" where
  "complete_payload_finalization reg final_release =
    do { (r, reg') \<leftarrow> complete_finalization_inner reg final_release;
         Some (case r of Err e \<Rightarrow> reference_failure e final_release | Ok _ \<Rightarrow> Ok (), reg') }"

lemmas registry_eval [eval_simps] =
  EMPTY_SLOT_def dw_object_compatible_rights_def mint_registry_domain_def object_registry_new_def
  create_def next_generation_def encode_object_id_eq decode_object_id_def reference_slot_def
  validate_reference_def set_state_def retain_reference_def transition_reference_def
  release_reference_def complete_finalization_inner_def reference_failure_def
  finish_payload_binding_def retain_handle_from_bound_def bound_into_handle_def
  bound_into_internal_def handle_into_internal_def internal_into_handle_def retain_handle_def
  retain_internal_from_handle_def retain_internal_def cancel_creation_def release_creation_def
  release_handle_def release_internal_def complete_payload_finalization_def

end
