(* ===== verification/Object_Ledger.thy ===== *)
theory Object_Ledger
  imports Object_Registry
begin

text \<open>
  The contract of the object registry. The abstract state is a partial map from identities
  to phases (live with two reference counts, or finalizing); \<open>phase_at\<close> reads it off the
  concrete slots and every operation is shown to refine the corresponding update of that
  map. On top of it, \<open>accounts\<close> says that the counters are exactly the multiset of
  outstanding move-only tokens (the \<open>ledger\<close>), which is the ownership discipline the
  Rust types enforce on the registry's clients. The locales of \<^verbatim>\<open>Object_Lifetime\<close> state
  these laws per token kind for the components that hold tokens.
\<close>

section \<open>The abstract map of a registry\<close>

datatype object_phase = PLive dw_object_type nat nat | PFinal dw_object_type

fun phase_of_state :: "slot_state \<Rightarrow> object_phase option" where
  "phase_of_state (Live live) =
    Some (PLive (lo_object_type live) (unat (lo_handle_refs live)) (unat (lo_internal_refs live)))"
| "phase_of_state (Finalizing ty) = Some (PFinal ty)"
| "phase_of_state Vacant = None"
| "phase_of_state Retired = None"

definition slot_for :: "object_registry \<Rightarrow> object_id \<Rightarrow> nat option" where
  "slot_for reg i =
    (if id_domain i = or_domain reg
     then (case decode_object_id (id_raw i) of
         None \<Rightarrow> None
       | Some (slot, generation) \<Rightarrow>
          if slot < length (or_slots reg) \<and> os_generation (or_slots reg ! slot) = generation
          then Some slot else None)
     else None)"

definition phase_at :: "object_registry \<Rightarrow> object_id \<Rightarrow> object_phase option" where
  "phase_at reg i =
    Option.bind (slot_for reg i) (\<lambda>slot. phase_of_state (os_state (or_slots reg ! slot)))"

lemma phase_at_case:
  "phase_at reg i = (case slot_for reg i of None \<Rightarrow> None
    | Some slot \<Rightarrow> phase_of_state (os_state (or_slots reg ! slot)))"
  by (simp add: phase_at_def split: option.split)

text \<open>
  The well-formedness invariant: live objects have at least one reference, no live or
  finalizing slot has generation zero, and every such slot has an encodable identity.
\<close>

definition slot_wf :: "nat \<Rightarrow> object_slot \<Rightarrow> bool" where
  "slot_wf slot s =
    (case os_state s of
       Live live \<Rightarrow> os_generation s \<noteq> 0 \<and> slot + 1 < 2 ^ 32 \<and>
         (lo_handle_refs live \<noteq> 0 \<or> lo_internal_refs live \<noteq> 0) \<and>
         dw_object_compatible_rights (lo_object_type live) \<noteq> 0
     | Finalizing _ \<Rightarrow> os_generation s \<noteq> 0 \<and> slot + 1 < 2 ^ 32
     | _ \<Rightarrow> True)"

definition registry_wf :: "object_registry \<Rightarrow> bool" where
  "registry_wf reg \<longleftrightarrow> (\<forall>slot < length (or_slots reg). slot_wf slot (or_slots reg ! slot))"

lemma slot_for_inj: "slot_for reg i = Some slot \<Longrightarrow> slot_for reg j = Some slot \<Longrightarrow> i = j"
proof -
  assume "slot_for reg i = Some slot" and "slot_for reg j = Some slot"
  then have "id_domain i = id_domain j"
    and "decode_object_id (id_raw i) = Some (slot, os_generation (or_slots reg ! slot))"
    and "decode_object_id (id_raw j) = Some (slot, os_generation (or_slots reg ! slot))"
    by (auto simp: slot_for_def split: if_splits option.splits)
  then show "i = j" by (auto dest: object_codec.decode_inj intro: object_id.equality)
qed

lemma slot_for_less: "slot_for reg i = Some slot \<Longrightarrow> slot < length (or_slots reg)"
  by (auto simp: slot_for_def split: if_splits option.splits)

lemma slot_for_set_state [simp]: "slot_for (set_state reg slot st) i = slot_for reg i"
  by (auto simp: slot_for_def set_state_def nth_update_if split: option.splits)

lemma set_state_set_state [simp]:
  "set_state (set_state reg slot st) slot st' = set_state reg slot st'"
  by (cases "slot < length (or_slots reg)") (simp_all add: set_state_def list_update_beyond)

lemma phase_at_set_state:
  assumes "slot_for reg i = Some slot"
  shows "phase_at (set_state reg slot st) = (phase_at reg)(i := phase_of_state st)"
proof
  fix j
  have "slot < length (or_slots reg)" using assms by (rule slot_for_less)
  moreover have "j = i" if "slot_for reg j = Some slot" using slot_for_inj [OF that assms] .
  ultimately show "phase_at (set_state reg slot st) j = ((phase_at reg)(i := phase_of_state st)) j"
    using assms
    by (cases "slot_for reg j") (auto simp: phase_at_def slot_for_less, auto simp: set_state_def nth_update_if slot_for_less)
qed

lemma registry_wf_set_state:
  "registry_wf reg \<Longrightarrow> slot_wf slot ((or_slots reg ! slot)\<lparr>os_state := st\<rparr>) \<Longrightarrow>
   registry_wf (set_state reg slot st)"
  by (auto simp: registry_wf_def set_state_def nth_update_if)

section \<open>The private operations in terms of the abstract map\<close>

lemma reference_slot_slot_for:
  "slot_for reg i = Some slot \<Longrightarrow> reference_slot reg i = Ok slot"
  by (auto simp: slot_for_def reference_slot_def split: if_splits option.splits)

text \<open>The counter of one kind in a phase.\<close>

fun phase_refs :: "reference_kind \<Rightarrow> object_phase \<Rightarrow> nat" where
  "phase_refs Handle (PLive ty h n) = h"
| "phase_refs Internal (PLive ty h n) = n"
| "phase_refs _ (PFinal ty) = 0"

lemma kind_not_Handle [simp]: "k \<noteq> Handle \<longleftrightarrow> k = Internal"
  by (cases k) auto

lemma kind_not_Internal [simp]: "k \<noteq> Internal \<longleftrightarrow> k = Handle"
  by (cases k) auto

text \<open>What validation answers, for every identity, in terms of the abstract phase.\<close>

lemma validate_reference_Ok_iff:
  "validate_reference reg i ty k = Ok u \<longleftrightarrow>
    (\<exists>h n. phase_at reg i = Some (PLive ty h n) \<and> phase_refs k (PLive ty h n) \<noteq> 0)"
  by (cases k)
    (auto simp: validate_reference_def reference_slot_def and_then_Ok_iff phase_at_def slot_for_def
      Let_def unat_gt_0 split: if_splits option.splits slot_state.splits prod.splits)

lemma validate_reference_cases:
  assumes "validate_reference reg i ty k = Ok u"
  obtains slot live where "slot_for reg i = Some slot"
    and "os_state (or_slots reg ! slot) = Live live" and "lo_object_type live = ty"
    and "kind_refs k live \<noteq> 0" and "reference_slot reg i = Ok slot"
  using assms
  by (auto simp: validate_reference_def reference_slot_def and_then_Ok_iff slot_for_def Let_def
      split: if_splits option.splits slot_state.splits prod.splits)

text \<open>The abstract counterparts: adding and dropping one reference, and settling a release.\<close>

fun add_ref :: "reference_kind \<Rightarrow> object_phase \<Rightarrow> object_phase" where
  "add_ref Handle (PLive ty h n) = PLive ty (Suc h) n"
| "add_ref Internal (PLive ty h n) = PLive ty h (Suc n)"
| "add_ref _ (PFinal ty) = PFinal ty"

fun drop_ref :: "reference_kind \<Rightarrow> object_phase \<Rightarrow> object_phase" where
  "drop_ref Handle (PLive ty h n) = PLive ty (h - 1) n"
| "drop_ref Internal (PLive ty h n) = PLive ty h (n - 1)"
| "drop_ref _ (PFinal ty) = PFinal ty"

fun settle :: "object_phase \<Rightarrow> object_phase" where
  "settle (PLive ty h n) = (if h + n = 0 then PFinal ty else PLive ty h n)"
| "settle (PFinal ty) = PFinal ty"

text \<open>Operations other than creation never touch the domain, the capacity or a generation.\<close>

definition same_generations :: "object_registry \<Rightarrow> object_registry \<Rightarrow> bool" where
  "same_generations reg reg' \<longleftrightarrow> or_domain reg' = or_domain reg \<and>
    map os_generation (or_slots reg') = map os_generation (or_slots reg)"

lemma same_generations_refl [simp]: "same_generations reg reg"
  by (simp add: same_generations_def)

lemma same_generations_trans [trans]:
  "same_generations r1 r2 \<Longrightarrow> same_generations r2 r3 \<Longrightarrow> same_generations r1 r3"
  by (simp add: same_generations_def)

lemma same_generations_set_state [simp]: "same_generations reg (set_state reg slot st)"
proof (cases "slot < length (or_slots reg)")
  case True
  then show ?thesis
    by (simp add: same_generations_def set_state_def map_update list_update_same_conv)
next
  case False
  then show ?thesis
    by (simp add: same_generations_def set_state_def list_update_beyond)
qed

lemma sum_refs_eq_0_iff:
  "(ucast (a :: u32) + ucast (b :: u32) :: u64) = 0 \<longleftrightarrow> a = 0 \<and> b = 0"
proof -
  have "unat (ucast a + ucast b :: u64) = unat a + unat b"
    using unat_u32_limit [of a] unat_u32_limit [of b] by (simp add: unat_word_ariths)
  then show ?thesis
    by (metis add_eq_0_iff_both_eq_0 unat_0_iff)
qed

lemma phase_at_live:
  "slot_for reg i = Some slot \<Longrightarrow> os_state (or_slots reg ! slot) = Live live \<Longrightarrow>
   phase_at reg i =
    Some (PLive (lo_object_type live) (unat (lo_handle_refs live)) (unat (lo_internal_refs live)))"
  by (simp add: phase_at_def)

lemma slot_wf_at: "registry_wf reg \<Longrightarrow> slot_for reg i = Some slot \<Longrightarrow> slot_wf slot (or_slots reg ! slot)"
  by (auto simp: registry_wf_def dest: slot_for_less)

lemma retain_reference_Err_validate:
  "validate_reference reg i ty src = Err e \<Longrightarrow> retain_reference reg i ty src k = (Err e, reg)"
  by (simp add: retain_reference_def)

lemma live_reference_cases:
  assumes "phase_at reg i = Some (PLive ty h n)" and "phase_refs src (PLive ty h n) \<noteq> 0"
  obtains slot lo where "slot_for reg i = Some slot" and "os_state (or_slots reg ! slot) = Live lo"
    and "lo_object_type lo = ty" and "unat (lo_handle_refs lo) = h" and "unat (lo_internal_refs lo) = n"
    and "reference_slot reg i = Ok slot" and "validate_reference reg i ty src = Ok ()"
proof -
  from assms have ok: "validate_reference reg i ty src = Ok ()"
    by (auto simp: validate_reference_Ok_iff)
  then obtain slot lo where slot: "slot_for reg i = Some slot"
    and lo: "os_state (or_slots reg ! slot) = Live lo" and ref: "reference_slot reg i = Ok slot"
    by (rule validate_reference_cases)
  show thesis using that [OF slot lo _ _ _ ref ok] assms(1) phase_at_live [OF slot lo] by simp
qed

text \<open>Replacing the counters of a live slot is an update of the abstract map.\<close>

lemma set_live_refines:
  assumes slot: "slot_for reg i = Some slot" and live: "os_state (or_slots reg ! slot) = Live lo"
    and refs: "lo_handle_refs lo' \<noteq> 0 \<or> lo_internal_refs lo' \<noteq> 0"
    and ty: "lo_object_type lo' = lo_object_type lo"
  shows "phase_at (set_state reg slot (Live lo')) = (phase_at reg)(i := phase_of_state (Live lo'))"
    and "registry_wf reg \<Longrightarrow> registry_wf (set_state reg slot (Live lo'))"
proof -
  show "phase_at (set_state reg slot (Live lo')) = (phase_at reg)(i := phase_of_state (Live lo'))"
    by (rule phase_at_set_state [OF slot])
  assume wf: "registry_wf reg"
  from slot_wf_at [OF wf slot] live refs ty
  have "slot_wf slot ((or_slots reg ! slot)\<lparr>os_state := Live lo'\<rparr>)"
    by (auto simp: slot_wf_def)
  with wf show "registry_wf (set_state reg slot (Live lo'))" by (rule registry_wf_set_state)
qed

lemma word_plus_1_neq_0: "unat (w :: u32) + 1 < 4294967296 \<Longrightarrow> w + 1 \<noteq> 0"
  using unat_plus_one [of w] by fastforce

lemma unat_word_minus_1: "w \<noteq> 0 \<Longrightarrow> unat (w - 1 :: u32) = unat w - 1"
  by (metis unat_minus_one)

lemma checked_sub_1: "w \<noteq> 0 \<Longrightarrow> checked_sub w 1 = Some (w - 1 :: u32)"
  by (simp add: checked_sub_def word_le_nat_alt unat_gt_0 Suc_le_eq)

lemma retain_reference_refines:
  assumes live: "phase_at reg i = Some (PLive ty h n)"
    and src: "phase_refs src (PLive ty h n) \<noteq> 0"
  shows "if phase_refs k (PLive ty h n) + 1 < 4294967296
    then \<exists>reg'. retain_reference reg i ty src k = (Ok (), reg') \<and>
      phase_at reg' = (phase_at reg)(i \<mapsto> add_ref k (PLive ty h n)) \<and>
      same_generations reg reg' \<and> (registry_wf reg \<longrightarrow> registry_wf reg')
    else retain_reference reg i ty src k = (Err ReferenceCountExhausted, reg)"
  using live src
proof (rule live_reference_cases)
  fix slot lo
  assume slot: "slot_for reg i = Some slot" and lo: "os_state (or_slots reg ! slot) = Live lo"
    and p: "lo_object_type lo = ty" "unat (lo_handle_refs lo) = h" "unat (lo_internal_refs lo) = n"
    and ok: "reference_slot reg i = Ok slot" "validate_reference reg i ty src = Ok ()"
  note upd = set_live_refines [OF slot lo, of "set_kind_refs k (kind_refs k lo + 1) lo"]
  have "phase_refs k (PLive ty h n) = unat (kind_refs k lo)" using p by (cases k) auto
  then show ?thesis
    using ok lo p upd word_plus_1_neq_0 [of "kind_refs k lo"] unat_plus_one [of "kind_refs k lo"]
    by (cases k) (auto simp: retain_reference_def checked_add_def)
qed

lemma transition_reference_refines:
  assumes live: "phase_at reg i = Some (PLive ty h n)"
    and src: "phase_refs src (PLive ty h n) \<noteq> 0" and neq: "src \<noteq> dst"
  shows "if phase_refs dst (PLive ty h n) + 1 < 4294967296
    then \<exists>reg'. transition_reference reg i ty src dst = (Ok (), reg') \<and>
      phase_at reg' = (phase_at reg)(i \<mapsto> add_ref dst (drop_ref src (PLive ty h n))) \<and>
      same_generations reg reg' \<and> (registry_wf reg \<longrightarrow> registry_wf reg')
    else transition_reference reg i ty src dst = (Err ReferenceCountExhausted, reg)"
  using live src
proof (rule live_reference_cases)
  fix slot lo
  assume slot: "slot_for reg i = Some slot" and lo: "os_state (or_slots reg ! slot) = Live lo"
    and p: "lo_object_type lo = ty" "unat (lo_handle_refs lo) = h" "unat (lo_internal_refs lo) = n"
    and ok: "reference_slot reg i = Ok slot" "validate_reference reg i ty src = Ok ()"
  note upd = set_live_refines [OF slot lo,
      of "set_kind_refs dst (kind_refs dst lo + 1) (set_kind_refs src (kind_refs src lo - 1) lo)"]
  have "phase_refs dst (PLive ty h n) = unat (kind_refs dst lo)" using p by (cases dst) auto
  moreover have "kind_refs src lo \<noteq> 0" using src p by (cases src) auto
  ultimately show ?thesis
    using neq ok lo p upd word_plus_1_neq_0 [of "kind_refs dst lo"] unat_plus_one [of "kind_refs dst lo"]
      unat_word_minus_1 [of "kind_refs src lo"] checked_sub_1 [of "kind_refs src lo"]
    by (cases src; cases dst) (auto simp: transition_reference_def checked_add_def)
qed

text \<open>
  A release drops one reference. The object becomes final exactly when that was the last
  reference of either kind, and only then is a final-release token minted.
\<close>

lemma release_reference_refines:
  assumes live: "phase_at reg i = Some (PLive ty h n)"
    and src: "phase_refs k (PLive ty h n) \<noteq> 0"
  shows "\<exists>reg'. release_reference reg i ty k =
      (Ok (if h + n = 1 then Some \<lparr>fr_id = i, fr_object_type = ty\<rparr> else None), reg') \<and>
      phase_at reg' = (phase_at reg)(i \<mapsto> settle (drop_ref k (PLive ty h n))) \<and>
      same_generations reg reg' \<and> (registry_wf reg \<longrightarrow> registry_wf reg')"
  using live src
proof (rule live_reference_cases)
  fix slot lo
  assume slot: "slot_for reg i = Some slot" and lo: "os_state (or_slots reg ! slot) = Live lo"
    and p: "lo_object_type lo = ty" "unat (lo_handle_refs lo) = h" "unat (lo_internal_refs lo) = n"
    and ok: "reference_slot reg i = Ok slot" "validate_reference reg i ty k = Ok ()"
  define lo' where "lo' = set_kind_refs k (kind_refs k lo - 1) lo"
  have nz: "kind_refs k lo \<noteq> 0" using src p by (cases k) auto
  have ty': "lo_object_type lo' = lo_object_type lo" by (cases k) (simp_all add: lo'_def)
  have drop: "phase_of_state (Live lo') = Some (drop_ref k (PLive ty h n))"
    using p unat_word_minus_1 [OF nz] by (cases k) (simp_all add: lo'_def)
  have final: "(ucast (lo_handle_refs lo') + ucast (lo_internal_refs lo') :: u64) = 0 \<longleftrightarrow> h + n = 1"
    unfolding sum_refs_eq_0_iff using p nz unat_word_minus_1 [OF nz]
    by (cases k) (auto simp: lo'_def simp flip: unat_eq_zero unat_gt_0)
  show ?thesis
  proof (cases "h + n = 1")
    case True
    have "registry_wf (set_state reg slot (Finalizing ty))" if "registry_wf reg"
      using slot_wf_at [OF that slot] that lo
      by (intro registry_wf_set_state) (auto simp: slot_wf_def)
    moreover have "settle (drop_ref k (PLive ty h n)) = PFinal ty"
      using True src by (cases k) auto
    ultimately show ?thesis
      using True final ok lo checked_sub_1 [OF nz]
      by (auto simp: release_reference_def Let_def phase_at_set_state [OF slot]
          simp flip: lo'_def)
  next
    case False
    then have refs: "lo_handle_refs lo' \<noteq> 0 \<or> lo_internal_refs lo' \<noteq> 0"
      using final sum_refs_eq_0_iff by blast
    have "settle (drop_ref k (PLive ty h n)) = drop_ref k (PLive ty h n)"
      using False src by (cases k) auto
    then show ?thesis
      using False final ok lo checked_sub_1 [OF nz] drop set_live_refines [OF slot lo refs ty']
      by (auto simp: release_reference_def Let_def simp flip: lo'_def)
  qed
qed

text \<open>
  Completing a finalization never panics: the \<open>unwrap\<close> of the decoded identity follows a
  successful slot lookup. It succeeds exactly on a final-release token of a finalizing object
  of that type, and then the identity leaves the map.
\<close>

lemma complete_finalization_no_panic:
  "\<exists>r reg'. complete_finalization_inner reg f = Some (r, reg')"
  by (auto simp: complete_finalization_inner_def reference_slot_def Let_def and_then_Ok_iff
      split: result.splits if_splits option.splits prod.splits)

lemma complete_finalization_refines:
  assumes "phase_at reg (fr_id f) = Some (PFinal (fr_object_type f))"
  shows "\<exists>reg'. complete_finalization_inner reg f = Some (Ok (), reg') \<and>
    phase_at reg' = (phase_at reg)(fr_id f := None) \<and>
    same_generations reg reg' \<and> (registry_wf reg \<longrightarrow> registry_wf reg')"
proof -
  from assms obtain slot where slot: "slot_for reg (fr_id f) = Some slot"
    and st: "phase_of_state (os_state (or_slots reg ! slot)) = Some (PFinal (fr_object_type f))"
    by (auto simp: phase_at_def bind_eq_Some_conv)
  from st have fin: "os_state (or_slots reg ! slot) = Finalizing (fr_object_type f)"
    by (cases "os_state (or_slots reg ! slot)") auto
  obtain g where g: "decode_object_id (id_raw (fr_id f)) = Some (slot, g)"
    "os_generation (or_slots reg ! slot) = g"
    using slot by (auto simp: slot_for_def split: if_splits option.splits)
  let ?st = "if next_generation g \<noteq> None then Vacant else Retired"
  have "complete_finalization_inner reg f = Some (Ok (), set_state reg slot ?st)"
    using g fin by (simp add: complete_finalization_inner_def reference_slot_slot_for [OF slot] Let_def)
  moreover have "phase_at (set_state reg slot ?st) = (phase_at reg)(fr_id f := None)"
    by (simp add: phase_at_set_state [OF slot])
  moreover have "registry_wf (set_state reg slot ?st)" if "registry_wf reg"
    using that by (intro registry_wf_set_state) (auto simp: slot_wf_def)
  ultimately show ?thesis by auto
qed

lemma complete_finalization_Ok_iff:
  "(\<exists>reg'. complete_finalization_inner reg f = Some (Ok (), reg')) \<longleftrightarrow>
    phase_at reg (fr_id f) = Some (PFinal (fr_object_type f))"
proof
  assume "\<exists>reg'. complete_finalization_inner reg f = Some (Ok (), reg')"
  then show "phase_at reg (fr_id f) = Some (PFinal (fr_object_type f))"
    by (auto simp: complete_finalization_inner_def reference_slot_def Let_def and_then_Ok_iff
        phase_at_def slot_for_def bind_eq_Some_conv
        split: result.splits if_splits option.splits prod.splits slot_state.splits)
qed (use complete_finalization_refines in blast)

lemma complete_finalization_Err:
  "complete_finalization_inner reg f = Some (Err e, reg') \<Longrightarrow> reg' = reg"
  by (auto simp: complete_finalization_inner_def Let_def bind_eq_Some_conv
      split: result.splits if_splits option.splits prod.splits slot_state.splits)

subsection \<open>Creation\<close>

text \<open>What a scan may do to a slot it passes over.\<close>

definition slot_kept :: "object_slot \<Rightarrow> object_slot \<Rightarrow> bool" where
  "slot_kept s s' \<longleftrightarrow> s' = s \<or> os_state s = Vacant \<and> s' = s\<lparr>os_state := Retired\<rparr>"

definition slot_usable :: "nat \<Rightarrow> object_slot \<Rightarrow> bool" where
  "slot_usable slot s \<longleftrightarrow> os_state s = Vacant \<and>
    (\<exists>g. next_generation (os_generation s) = Some g \<and> encode_object_id slot g \<noteq> None)"

definition fresh_slot :: "dw_object_type \<Rightarrow> u32 \<Rightarrow> object_slot" where
  "fresh_slot ty g = \<lparr>os_generation = g,
    os_state = Live \<lparr>lo_object_type = ty, lo_handle_refs = 0, lo_internal_refs = 1\<rparr>\<rparr>"

lemma create_scan_spec:
  assumes "create_scan d ty k ss = (r, ss')"
  shows "length ss' = length ss \<and>
    (case r of
      Err e \<Rightarrow> e = Capacity \<and> (\<forall>j<length ss. slot_kept (ss ! j) (ss' ! j) \<and> \<not> slot_usable (k + j) (ss ! j))
    | Ok c \<Rightarrow> \<exists>p<length ss. \<exists>g raw. slot_usable (k + p) (ss ! p) \<and>
        next_generation (os_generation (ss ! p)) = Some g \<and> encode_object_id (k + p) g = Some raw \<and>
        c = \<lparr>cr_id = \<lparr>id_domain = d, id_raw = raw\<rparr>, cr_object_type = ty\<rparr> \<and>
        ss' ! p = fresh_slot ty g \<and> (\<forall>j<length ss. j \<noteq> p \<longrightarrow> slot_kept (ss ! j) (ss' ! j)))"
  using assms
proof (induction ss arbitrary: k r ss')
  case Nil
  then show ?case by auto
next
  case (Cons s ss)
  show ?case
  proof (cases "slot_usable k s")
    case True
    then obtain g raw where g: "next_generation (os_generation s) = Some g" "encode_object_id k g = Some raw"
      by (auto simp: slot_usable_def)
    with True Cons.prems have "r = Ok \<lparr>cr_id = \<lparr>id_domain = d, id_raw = raw\<rparr>, cr_object_type = ty\<rparr>"
      and "ss' = fresh_slot ty g # ss"
      by (auto simp: slot_usable_def fresh_slot_def)
    with True g show ?thesis
      by (auto simp: slot_kept_def nth_Cons split: nat.splits intro!: exI [of _ 0])
  next
    case False
    then obtain s' rest' where ss': "ss' = s' # rest'" "slot_kept s s'"
      and rest: "create_scan d ty (k + 1) ss = (r, rest')"
      using Cons.prems
      by (fastforce simp: slot_usable_def slot_kept_def split: if_splits option.splits prod.splits)
    note IH = Cons.IH [OF rest]
    show ?thesis
    proof (cases r)
      case (Ok c)
      with IH obtain p g raw where "p < length ss" "slot_usable (k + 1 + p) (ss ! p)"
        "next_generation (os_generation (ss ! p)) = Some g" "encode_object_id (k + 1 + p) g = Some raw"
        "c = \<lparr>cr_id = \<lparr>id_domain = d, id_raw = raw\<rparr>, cr_object_type = ty\<rparr>"
        "rest' ! p = fresh_slot ty g" "\<forall>j<length ss. j \<noteq> p \<longrightarrow> slot_kept (ss ! j) (rest' ! j)"
        by auto
      with Ok IH ss' show ?thesis
        by (auto simp: nth_Cons split: nat.splits intro!: exI [of _ "Suc p"])
    next
      case (Err e)
      with IH ss' False show ?thesis
        by (auto simp: nth_Cons split: nat.splits)
    qed
  qed
qed

lemma phase_of_slot_kept: "slot_kept s s' \<Longrightarrow> phase_of_state (os_state s') = phase_of_state (os_state s)"
  by (auto simp: slot_kept_def)

lemma slot_kept_generation: "slot_kept s s' \<Longrightarrow> os_generation s' = os_generation s"
  by (auto simp: slot_kept_def)

lemma slot_kept_wf: "slot_kept s s' \<Longrightarrow> slot_wf slot s \<Longrightarrow> slot_wf slot s'"
  by (auto simp: slot_kept_def slot_wf_def)

text \<open>Generations only grow: the order along which a registry moves.\<close>

definition evolves :: "object_registry \<Rightarrow> object_registry \<Rightarrow> bool" where
  "evolves reg reg' \<longleftrightarrow> or_domain reg' = or_domain reg \<and>
    length (or_slots reg') = length (or_slots reg) \<and>
    (\<forall>j<length (or_slots reg). unat (os_generation (or_slots reg ! j)) \<le> unat (os_generation (or_slots reg' ! j)))"

lemma evolves_refl [simp]: "evolves reg reg"
  by (simp add: evolves_def)

lemma evolves_trans [trans]: "evolves r1 r2 \<Longrightarrow> evolves r2 r3 \<Longrightarrow> evolves r1 r3"
  by (force simp: evolves_def)

lemma same_generations_evolves: "same_generations reg reg' \<Longrightarrow> evolves reg reg'"
  unfolding same_generations_def evolves_def by (metis length_map nth_map order_refl)

lemma create_scan_phase_at:
  assumes len: "length slots' = length (or_slots reg)"
    and kept: "\<forall>j<length (or_slots reg). slot_kept (or_slots reg ! j) (slots' ! j)"
  shows "phase_at (reg\<lparr>or_slots := slots'\<rparr>) = phase_at reg"
    and "registry_wf reg \<Longrightarrow> registry_wf (reg\<lparr>or_slots := slots'\<rparr>)"
    and "evolves reg (reg\<lparr>or_slots := slots'\<rparr>)"
proof -
  have "slot_for (reg\<lparr>or_slots := slots'\<rparr>) i = slot_for reg i" for i
    using len kept by (auto simp: slot_for_def slot_kept_generation split: option.splits)
  then show "phase_at (reg\<lparr>or_slots := slots'\<rparr>) = phase_at reg"
    using kept
    by (auto simp: phase_at_case fun_eq_iff phase_of_slot_kept dest!: slot_for_less split: option.split)
  show "registry_wf (reg\<lparr>or_slots := slots'\<rparr>)" if "registry_wf reg"
    using that len kept by (auto simp: registry_wf_def intro: slot_kept_wf)
  show "evolves reg (reg\<lparr>or_slots := slots'\<rparr>)"
    using len kept by (auto simp: evolves_def slot_kept_generation)
qed

lemma create_Err:
  assumes "create reg ty = (Err e, reg')"
  shows "phase_at reg' = phase_at reg" and "registry_wf reg \<Longrightarrow> registry_wf reg'"
    and "evolves reg reg'"
    and "e = InvalidObjectType \<and> dw_object_compatible_rights ty = 0 \<or>
      e = Capacity \<and> (\<forall>j<length (or_slots reg). \<not> slot_usable j (or_slots reg ! j))"
  using assms
  by (auto simp: create_def create_scan_phase_at dest!: create_scan_spec split: if_splits prod.splits)

lemma create_Ok:
  assumes "create reg ty = (Ok c, reg')"
  obtains p g where "p < length (or_slots reg)" "slot_usable p (or_slots reg ! p)"
    "next_generation (os_generation (or_slots reg ! p)) = Some g"
    "encode_object_id p g = Some (id_raw (cr_id c))" "id_domain (cr_id c) = or_domain reg"
    "cr_object_type c = ty" "or_domain reg' = or_domain reg"
    "length (or_slots reg') = length (or_slots reg)" "or_slots reg' ! p = fresh_slot ty g"
    "\<forall>j<length (or_slots reg). j \<noteq> p \<longrightarrow> slot_kept (or_slots reg ! j) (or_slots reg' ! j)"
    "dw_object_compatible_rights ty \<noteq> 0"
proof -
  from assms obtain ss' where scan: "create_scan (or_domain reg) ty 0 (or_slots reg) = (Ok c, ss')"
    and ty: "dw_object_compatible_rights ty \<noteq> 0" and reg': "reg' = reg\<lparr>or_slots := ss'\<rparr>"
    by (auto simp: create_def split: if_splits prod.splits)
  show thesis using create_scan_spec [OF scan] reg' ty by (auto intro!: that)
qed

lemma create_refines:
  assumes create: "create reg ty = (Ok c, reg')"
  shows "cr_object_type c = ty \<and> phase_at reg (cr_id c) = None \<and>
    phase_at reg' = (phase_at reg)(cr_id c \<mapsto> PLive ty 0 1) \<and>
    (registry_wf reg \<longrightarrow> registry_wf reg') \<and> evolves reg reg'"
  using create
proof (rule create_Ok)
  fix p g
  assume p: "p < length (or_slots reg)" and use: "slot_usable p (or_slots reg ! p)"
    and g: "next_generation (os_generation (or_slots reg ! p)) = Some g"
    and enc: "encode_object_id p g = Some (id_raw (cr_id c))"
    and dom: "id_domain (cr_id c) = or_domain reg" "or_domain reg' = or_domain reg"
    and ty: "cr_object_type c = ty" "dw_object_compatible_rights ty \<noteq> 0"
    and len: "length (or_slots reg') = length (or_slots reg)"
    and fresh: "or_slots reg' ! p = fresh_slot ty g"
    and kept: "\<forall>j<length (or_slots reg). j \<noteq> p \<longrightarrow> slot_kept (or_slots reg ! j) (or_slots reg' ! j)"
  have dec: "decode_object_id (id_raw (cr_id c)) = Some (p, g)"
    by (rule decode_encode_object_id [OF enc])
  have grow: "unat g = unat (os_generation (or_slots reg ! p)) + 1"
    using g by (auto simp: next_generation_def dest: checked_next_unat)
  then have none: "phase_at reg (cr_id c) = None"
    using dec by (auto simp: phase_at_def slot_for_def)
  have here: "slot_for reg' (cr_id c) = Some p"
    using dec dom p len fresh by (simp add: slot_for_def fresh_slot_def)
  have there: "slot_for reg' i = (if i = cr_id c then Some p else if slot_for reg i = Some p then None else slot_for reg i)"
    for i
  proof (cases "i = cr_id c")
    case False
    then have "slot_for reg' i \<noteq> Some p" using slot_for_inj [OF _ here] by blast
    with False len kept dom show ?thesis
      by (auto simp: slot_for_def slot_kept_generation split: option.splits if_splits)
  qed (simp add: here)
  have "phase_at reg' i = ((phase_at reg)(cr_id c \<mapsto> PLive ty 0 1)) i" for i
    using there [of i] fresh kept use slot_for_less [of reg i]
    by (auto simp: phase_at_case fresh_slot_def slot_usable_def phase_of_slot_kept
        split: if_splits option.splits)
  then have "phase_at reg' = (phase_at reg)(cr_id c \<mapsto> PLive ty 0 1)" by blast
  moreover have "registry_wf reg'" if "registry_wf reg"
  proof -
    have "slot_wf p (fresh_slot ty g)"
      using enc ty by (auto simp: slot_wf_def fresh_slot_def encode_object_id_eq split: if_splits)
    with that len kept fresh show ?thesis
      unfolding registry_wf_def by (metis slot_kept_wf)
  qed
  moreover have "evolves reg reg'"
  proof -
    have "unat (os_generation (or_slots reg ! j)) \<le> unat (os_generation (or_slots reg' ! j))"
      if "j < length (or_slots reg)" for j
      using that kept fresh grow by (cases "j = p") (auto simp: fresh_slot_def slot_kept_generation)
    with len dom show ?thesis by (simp add: evolves_def)
  qed
  ultimately show ?thesis using ty none by blast
qed

section \<open>The ledger of outstanding tokens\<close>

type_synonym token = "object_id \<times> dw_object_type"

record ledger =
  lg_live :: "reference_kind \<Rightarrow> token multiset"
  lg_final :: "token multiset"

definition ledger_add :: "reference_kind \<Rightarrow> token \<Rightarrow> ledger \<Rightarrow> ledger" where
  "ledger_add k t L = L\<lparr>lg_live := (lg_live L)(k := add_mset t (lg_live L k))\<rparr>"

definition ledger_remove :: "reference_kind \<Rightarrow> token \<Rightarrow> ledger \<Rightarrow> ledger" where
  "ledger_remove k t L = L\<lparr>lg_live := (lg_live L)(k := lg_live L k - {#t#})\<rparr>"

text \<open>Giving up a token of kind \<open>k\<close> against the answer \<open>f\<close> of a release.\<close>

definition ledger_release :: "reference_kind \<Rightarrow> token \<Rightarrow> final_release option \<Rightarrow> ledger \<Rightarrow> ledger" where
  "ledger_release k t f L =
    (case f of None \<Rightarrow> ledger_remove k t L
     | Some fr \<Rightarrow> (ledger_remove k t L)
         \<lparr>lg_final := add_mset (fr_id fr, fr_object_type fr) (lg_final L)\<rparr>)"

definition ledger_finalize :: "token \<Rightarrow> ledger \<Rightarrow> ledger" where
  "ledger_finalize t L = L\<lparr>lg_final := lg_final L - {#t#}\<rparr>"

fun live_tokens :: "reference_kind \<Rightarrow> object_phase option \<Rightarrow> dw_object_type \<Rightarrow> nat" where
  "live_tokens k (Some (PLive t h n)) ty = (if t = ty then phase_refs k (PLive t h n) else 0)"
| "live_tokens k _ ty = 0"

fun final_tokens :: "object_phase option \<Rightarrow> dw_object_type \<Rightarrow> nat" where
  "final_tokens (Some (PFinal t)) ty = (if t = ty then 1 else 0)"
| "final_tokens _ ty = 0"

definition accounts :: "object_registry \<Rightarrow> ledger \<Rightarrow> bool" where
  "accounts reg L \<longleftrightarrow> registry_wf reg \<and>
    (\<forall>k i ty. count (lg_live L k) (i, ty) = live_tokens k (phase_at reg i) ty) \<and>
    (\<forall>i ty. count (lg_final L) (i, ty) = final_tokens (phase_at reg i) ty)"

lemma accounts_wf: "accounts reg L \<Longrightarrow> registry_wf reg"
  by (simp add: accounts_def)

lemma accounts_live:
  assumes "accounts reg L" and "(i, ty) \<in># lg_live L k"
  obtains h n where "phase_at reg i = Some (PLive ty h n)" "phase_refs k (PLive ty h n) \<noteq> 0"
proof -
  from assms have "live_tokens k (phase_at reg i) ty \<noteq> 0"
    by (metis accounts_def count_eq_zero_iff)
  then show thesis using that by (cases "(k, phase_at reg i, ty)" rule: live_tokens.cases)
    (auto split: if_splits)
qed

lemma accounts_final:
  assumes "accounts reg L" and "(i, ty) \<in># lg_final L"
  shows "phase_at reg i = Some (PFinal ty)"
proof -
  from assms have "final_tokens (phase_at reg i) ty \<noteq> 0"
    by (metis accounts_def count_eq_zero_iff)
  then show ?thesis by (cases "(phase_at reg i, ty)" rule: final_tokens.cases) (auto split: if_splits)
qed

lemma accounts_validates:
  "accounts reg L \<Longrightarrow> (i, ty) \<in># lg_live L k \<Longrightarrow> validate_reference reg i ty k = Ok ()"
  by (elim accounts_live) (auto simp: validate_reference_Ok_iff)

text \<open>The four laws of the private operations, and those of creation and completion.\<close>

lemma accounts_retain_Ok:
  assumes acc: "accounts reg L" and t: "(i, ty) \<in># lg_live L src"
    and ret: "retain_reference reg i ty src k = (Ok u, reg')"
  shows "accounts reg' (ledger_add k (i, ty) L) \<and> same_generations reg reg'"
proof -
  from acc t obtain h n where p: "phase_at reg i = Some (PLive ty h n)"
    and src: "phase_refs src (PLive ty h n) \<noteq> 0" by (rule accounts_live)
  from retain_reference_refines [OF p src, of k] ret
  have "phase_at reg' = (phase_at reg)(i \<mapsto> add_ref k (PLive ty h n))" "same_generations reg reg'"
    "registry_wf reg \<longrightarrow> registry_wf reg'"
    by (auto split: if_splits)
  with acc p show ?thesis
    by (cases k) (auto simp: accounts_def ledger_add_def)
qed

lemma accounts_retain_Err:
  assumes acc: "accounts reg L" and t: "(i, ty) \<in># lg_live L src"
    and ret: "retain_reference reg i ty src k = (Err e, reg')"
  shows "e = ReferenceCountExhausted \<and> reg' = reg"
proof -
  from acc t obtain h n where "phase_at reg i = Some (PLive ty h n)"
    and "phase_refs src (PLive ty h n) \<noteq> 0" by (rule accounts_live)
  from retain_reference_refines [OF this, of k] ret show ?thesis by (auto split: if_splits)
qed

lemma accounts_release:
  assumes acc: "accounts reg L" and t: "(i, ty) \<in># lg_live L k"
  shows "\<exists>f reg'. release_reference reg i ty k = (Ok f, reg') \<and>
    accounts reg' (ledger_release k (i, ty) f L) \<and> same_generations reg reg' \<and>
    f = (if count (lg_live L Handle) (i, ty) + count (lg_live L Internal) (i, ty) = 1
         then Some \<lparr>fr_id = i, fr_object_type = ty\<rparr> else None)"
proof -
  from acc t obtain h n where p: "phase_at reg i = Some (PLive ty h n)"
    and src: "phase_refs k (PLive ty h n) \<noteq> 0" by (rule accounts_live)
  from release_reference_refines [OF p src] obtain reg' where
    rel: "release_reference reg i ty k =
      (Ok (if h + n = 1 then Some \<lparr>fr_id = i, fr_object_type = ty\<rparr> else None), reg')"
    and ph: "phase_at reg' = (phase_at reg)(i \<mapsto> settle (drop_ref k (PLive ty h n)))"
    and sg: "same_generations reg reg'" and wf: "registry_wf reg \<longrightarrow> registry_wf reg'"
    by blast
  have "count (lg_live L Handle) (i, ty) + count (lg_live L Internal) (i, ty) = h + n"
    using acc p by (simp add: accounts_def)
  moreover have "accounts reg' (ledger_release k (i, ty)
      (if h + n = 1 then Some \<lparr>fr_id = i, fr_object_type = ty\<rparr> else None) L)"
    using acc p src ph wf
    by (cases k) (auto simp: accounts_def ledger_release_def ledger_remove_def)
  ultimately show ?thesis using rel sg by auto
qed

lemma accounts_transition_Ok:
  assumes acc: "accounts reg L" and t: "(i, ty) \<in># lg_live L src" and neq: "src \<noteq> dst"
    and tr: "transition_reference reg i ty src dst = (Ok u, reg')"
  shows "accounts reg' (ledger_add dst (i, ty) (ledger_remove src (i, ty) L)) \<and>
    same_generations reg reg'"
proof -
  from acc t obtain h n where p: "phase_at reg i = Some (PLive ty h n)"
    and src: "phase_refs src (PLive ty h n) \<noteq> 0" by (rule accounts_live)
  from transition_reference_refines [OF p src neq] tr
  have "phase_at reg' = (phase_at reg)(i \<mapsto> add_ref dst (drop_ref src (PLive ty h n)))"
    "same_generations reg reg'" "registry_wf reg \<longrightarrow> registry_wf reg'"
    by (auto split: if_splits)
  with acc p src neq show ?thesis
    by (cases src; cases dst) (auto simp: accounts_def ledger_add_def ledger_remove_def)
qed

lemma accounts_create:
  assumes acc: "accounts reg L" and cr: "create reg ty = (Ok c, reg')"
  shows "accounts reg' (ledger_add Internal (cr_id c, ty) L)"
  using acc create_refines [OF cr] by (auto simp: accounts_def ledger_add_def split: if_splits)

lemma accounts_create_Err:
  assumes "accounts reg L" and "create reg ty = (Err e, reg')"
  shows "accounts reg' L"
  using assms create_Err [OF assms(2)] by (auto simp: accounts_def)

lemma accounts_complete:
  assumes acc: "accounts reg L" and t: "(fr_id f, fr_object_type f) \<in># lg_final L"
  shows "\<exists>reg'. complete_finalization_inner reg f = Some (Ok (), reg') \<and>
    accounts reg' (ledger_finalize (fr_id f, fr_object_type f) L) \<and> same_generations reg reg'"
proof -
  have p: "phase_at reg (fr_id f) = Some (PFinal (fr_object_type f))"
    using acc t by (rule accounts_final)
  from complete_finalization_refines [OF p] obtain reg' where
    "complete_finalization_inner reg f = Some (Ok (), reg')"
    "phase_at reg' = (phase_at reg)(fr_id f := None)" "same_generations reg reg'"
    "registry_wf reg \<longrightarrow> registry_wf reg'" by blast
  moreover from this acc p have "accounts reg' (ledger_finalize (fr_id f, fr_object_type f) L)"
    by (auto simp: accounts_def ledger_finalize_def)
  ultimately show ?thesis by blast
qed

end
