(* ===== verification/Object_Lifetime.thy ===== *)
theory Object_Lifetime
  imports Object_Ledger
begin

text \<open>
  Lifetime properties of the object registry over whole runs: identities are never reused,
  whatever tokens are presented; and under the ownership discipline (a holder spends only
  tokens it was given) the counters are exact, every held token stays valid and each object
  is finalized exactly once. The locales \<open>token_release\<close>, \<open>token_retain\<close>
  and \<open>token_convert\<close> are the contracts the handle table relies on; the registry's typed
  operations interpret them.
\<close>

section \<open>Any sequence of operations\<close>

inductive registry_step :: "object_registry \<Rightarrow> object_registry \<Rightarrow> bool" where
  step_create: "create reg ty = (r, reg') \<Longrightarrow> registry_step reg reg'"
| step_retain: "retain_reference reg i ty src k = (r', reg') \<Longrightarrow> registry_step reg reg'"
| step_transition: "transition_reference reg i ty src dst = (r', reg') \<Longrightarrow> registry_step reg reg'"
| step_release: "release_reference reg i ty k = (r'', reg') \<Longrightarrow> registry_step reg reg'"
| step_complete: "complete_finalization_inner reg f = Some (r', reg') \<Longrightarrow> registry_step reg reg'"

text \<open>
  What an operation on an existing object may do to the abstract map: nothing, or rewrite the
  entry of an identity that has one.
\<close>

definition rewrites_existing :: "object_registry \<Rightarrow> object_registry \<Rightarrow> bool" where
  "rewrites_existing reg reg' \<longleftrightarrow> same_generations reg reg' \<and> (registry_wf reg \<longrightarrow> registry_wf reg') \<and>
    (\<forall>i. phase_at reg i = None \<longrightarrow> phase_at reg' i = None)"

lemma rewrites_existing_refl [simp]: "rewrites_existing reg reg"
  by (simp add: rewrites_existing_def)

lemma rewrites_existing_upd:
  assumes "phase_at reg i = Some p" and "phase_at reg' = (phase_at reg)(i := q)"
    and "same_generations reg reg'" and "registry_wf reg \<longrightarrow> registry_wf reg'"
  shows "rewrites_existing reg reg'"
  using assms by (auto simp: rewrites_existing_def)

lemma retain_rewrites: "retain_reference reg i ty src k = (r, reg') \<Longrightarrow> rewrites_existing reg reg'"
proof (cases "validate_reference reg i ty src")
  case (Ok u)
  assume ret: "retain_reference reg i ty src k = (r, reg')"
  from Ok obtain h n where p: "phase_at reg i = Some (PLive ty h n)" "phase_refs src (PLive ty h n) \<noteq> 0"
    by (auto simp: validate_reference_Ok_iff)
  from retain_reference_refines [OF p, of k] ret show ?thesis
    by (auto intro: rewrites_existing_upd [OF p(1)] split: if_splits)
qed (auto simp: retain_reference_def)

lemma transition_rewrites:
  "transition_reference reg i ty src dst = (r, reg') \<Longrightarrow> rewrites_existing reg reg'"
proof (cases "validate_reference reg i ty src")
  case (Ok u)
  assume tr: "transition_reference reg i ty src dst = (r, reg')"
  show ?thesis
  proof (cases "src = dst")
    case False
    from Ok obtain h n where p: "phase_at reg i = Some (PLive ty h n)" "phase_refs src (PLive ty h n) \<noteq> 0"
      by (auto simp: validate_reference_Ok_iff)
    from transition_reference_refines [OF p False] tr show ?thesis
      by (auto intro: rewrites_existing_upd [OF p(1)] split: if_splits)
  qed (use tr Ok in \<open>auto simp: transition_reference_def\<close>)
qed (auto simp: transition_reference_def)

lemma release_rewrites: "release_reference reg i ty k = (r, reg') \<Longrightarrow> rewrites_existing reg reg'"
proof (cases "validate_reference reg i ty k")
  case (Ok u)
  assume rel: "release_reference reg i ty k = (r, reg')"
  from Ok obtain h n where p: "phase_at reg i = Some (PLive ty h n)" "phase_refs k (PLive ty h n) \<noteq> 0"
    by (auto simp: validate_reference_Ok_iff)
  from release_reference_refines [OF p] rel show ?thesis
    by (auto intro: rewrites_existing_upd [OF p(1)])
qed (auto simp: release_reference_def)

lemma complete_rewrites:
  assumes "complete_finalization_inner reg f = Some (r, reg')"
  shows "rewrites_existing reg reg'"
proof (cases r)
  case (Ok u)
  with assms have p: "phase_at reg (fr_id f) = Some (PFinal (fr_object_type f))"
    using complete_finalization_Ok_iff by auto
  from complete_finalization_refines [OF p] assms show ?thesis
    by (auto intro: rewrites_existing_upd [OF p])
qed (use assms in \<open>auto dest: complete_finalization_Err\<close>)

lemma registry_step_cases:
  assumes "registry_step reg reg'"
  obtains "rewrites_existing reg reg'" | ty e where "create reg ty = (Err e, reg')"
    | ty c where "create reg ty = (Ok c, reg')"
  using assms
proof (cases rule: registry_step.cases)
  case (step_create ty r)
  then show ?thesis using that by (cases r) auto
qed (auto intro: that(1) retain_rewrites transition_rewrites release_rewrites complete_rewrites)

lemma registry_step_evolves: "registry_step reg reg' \<Longrightarrow> evolves reg reg'"
  by (erule registry_step_cases)
    (auto simp: rewrites_existing_def intro: same_generations_evolves create_Err dest: create_refines)

lemma registry_step_wf: "registry_step reg reg' \<Longrightarrow> registry_wf reg \<Longrightarrow> registry_wf reg'"
  by (erule registry_step_cases)
    (auto simp: rewrites_existing_def intro: create_Err dest: create_refines)

text \<open>An identity is issued once its slot has reached its generation.\<close>

definition issued :: "object_registry \<Rightarrow> object_id \<Rightarrow> bool" where
  "issued reg i \<longleftrightarrow> id_domain i = or_domain reg \<and>
    (case decode_object_id (id_raw i) of None \<Rightarrow> False
     | Some (slot, g) \<Rightarrow> slot < length (or_slots reg) \<and>
         unat g \<le> unat (os_generation (or_slots reg ! slot)))"

lemma issued_evolves: "issued reg i \<Longrightarrow> evolves reg reg' \<Longrightarrow> issued reg' i"
  by (auto simp: issued_def evolves_def split: option.splits)

lemma create_not_issued:
  assumes "create reg ty = (Ok c, reg')"
  shows "\<not> issued reg (cr_id c) \<and> issued reg' (cr_id c)"
  using assms
proof (rule create_Ok)
  fix p g
  assume "p < length (or_slots reg)" "next_generation (os_generation (or_slots reg ! p)) = Some g"
    and enc: "encode_object_id p g = Some (id_raw (cr_id c))" and "id_domain (cr_id c) = or_domain reg"
    and "length (or_slots reg') = length (or_slots reg)" "or_slots reg' ! p = fresh_slot ty g"
    and "or_domain reg' = or_domain reg"
  then show ?thesis
    by (auto simp: issued_def decode_encode_object_id [OF enc] next_generation_def fresh_slot_def
        dest: checked_next_unat)
qed

text \<open>A dead identity was issued and is neither live nor finalizing: it stays so forever.\<close>

definition dead :: "object_registry \<Rightarrow> object_id \<Rightarrow> bool" where
  "dead reg i \<longleftrightarrow> issued reg i \<and> phase_at reg i = None"

lemma registry_step_dead:
  assumes step: "registry_step reg reg'" and dead: "dead reg i"
  shows "dead reg' i"
proof -
  have iss: "issued reg' i"
    using dead registry_step_evolves [OF step] by (auto simp: dead_def intro: issued_evolves)
  from step have "phase_at reg' i = None"
  proof (cases rule: registry_step_cases)
    case 1
    with dead show ?thesis by (auto simp: rewrites_existing_def dead_def)
  next
    case (2 ty e)
    with dead show ?thesis by (simp add: create_Err dead_def)
  next
    case (3 ty c)
    have "cr_id c \<noteq> i" using create_not_issued [OF 3] dead by (auto simp: dead_def)
    with dead create_refines [OF 3] show ?thesis by (auto simp: dead_def)
  qed
  with iss show ?thesis by (simp add: dead_def)
qed

lemma registry_steps_dead: "registry_step\<^sup>*\<^sup>* reg reg' \<Longrightarrow> dead reg i \<Longrightarrow> dead reg' i"
  by (induction rule: rtranclp_induct) (auto intro: registry_step_dead)

lemma registry_steps_evolves: "registry_step\<^sup>*\<^sup>* reg reg' \<Longrightarrow> evolves reg reg'"
  by (induction rule: rtranclp_induct) (auto intro: evolves_trans registry_step_evolves)

section \<open>Token interfaces\<close>

text \<open>
  The clients of the registry hold typed tokens. A release consumes one, a retention copies
  one into a new token, a conversion exchanges one for another kind. Each contract is stated
  once and holds for every typed operation of that shape.
\<close>

definition creation_token :: "creation_ref \<Rightarrow> token" where
  "creation_token c = (cr_id c, cr_object_type c)"

definition handle_token :: "handle_ref \<Rightarrow> token" where
  "handle_token h = (hr_id h, hr_object_type h)"

definition internal_token :: "internal_ref \<Rightarrow> token" where
  "internal_token r = (ir_id r, ir_object_type r)"

definition bound_token :: "bound_creation \<Rightarrow> token" where
  "bound_token b = creation_token (bc_reference b)"

lemmas token_defs = creation_token_def handle_token_def internal_token_def bound_token_def

definition last_token :: "ledger \<Rightarrow> token \<Rightarrow> bool" where
  "last_token L t \<longleftrightarrow> count (lg_live L Handle) t + count (lg_live L Internal) t = 1"

text \<open>Release a list of tokens in order, stopping at the first error.\<close>

fun release_all :: "('reg \<Rightarrow> 'h \<Rightarrow> (final_release option, 'e) result \<times> 'reg) \<Rightarrow> 'reg \<Rightarrow> 'h list \<Rightarrow>
    (final_release list, 'e) result \<times> 'reg" where
  "release_all rel reg [] = (Ok [], reg)"
| "release_all rel reg (h # hs) =
    (case rel reg h of
      (Err e, reg') \<Rightarrow> (Err e, reg')
    | (Ok f, reg') \<Rightarrow>
        (case release_all rel reg' hs of
          (Err e, reg'') \<Rightarrow> (Err e, reg'')
        | (Ok fs, reg'') \<Rightarrow> (Ok (case f of None \<Rightarrow> fs | Some fr \<Rightarrow> fr # fs), reg'')))"

definition final_token :: "final_release \<Rightarrow> token" where
  "final_token f = (fr_id f, fr_object_type f)"

definition ledger_release_many :: "reference_kind \<Rightarrow> token multiset \<Rightarrow> final_release list \<Rightarrow> ledger \<Rightarrow> ledger" where
  "ledger_release_many k ts fs L =
    L\<lparr>lg_live := (lg_live L)(k := lg_live L k - ts),
      lg_final := lg_final L + mset (map final_token fs)\<rparr>"

lemma ledger_release_many_simps:
  "ledger_release_many k {#} [] L = L"
  "ledger_release_many k ts fs (ledger_release k t f L) =
    ledger_release_many k (add_mset t ts) (case f of None \<Rightarrow> fs | Some fr \<Rightarrow> fr # fs) L"
  by (auto simp: ledger_release_many_def ledger_release_def ledger_remove_def final_token_def
      split: option.splits)

lemma ledger_release_live:
  "lg_live (ledger_release k t f L) = (lg_live L)(k := lg_live L k - {#t#})"
  by (auto simp: ledger_release_def ledger_remove_def split: option.splits)

locale token_release =
  fixes kind :: reference_kind
    and tok :: "'h \<Rightarrow> token"
    and rel :: "object_registry \<Rightarrow> 'h \<Rightarrow> (final_release option, 'e) result \<times> object_registry"
  assumes release_law: "accounts reg L \<Longrightarrow> tok h \<in># lg_live L kind \<Longrightarrow>
    \<exists>f reg'. rel reg h = (Ok f, reg') \<and> accounts reg' (ledger_release kind (tok h) f L) \<and>
      same_generations reg reg' \<and>
      f = (if last_token L (tok h) then Some \<lparr>fr_id = fst (tok h), fr_object_type = snd (tok h)\<rparr> else None)"
begin

lemma release_Ok:
  assumes "accounts reg L" and "tok h \<in># lg_live L kind"
  obtains f reg' where "rel reg h = (Ok f, reg')" "accounts reg' (ledger_release kind (tok h) f L)"
    "same_generations reg reg'" "f \<noteq> None \<longleftrightarrow> last_token L (tok h)"
  using release_law [OF assms] by auto

lemma release_all_Ok:
  assumes "accounts reg L" and "mset (map tok hs) \<subseteq># lg_live L kind"
  shows "\<exists>fs reg'. release_all rel reg hs = (Ok fs, reg') \<and>
    accounts reg' (ledger_release_many kind (mset (map tok hs)) fs L) \<and> same_generations reg reg'"
  using assms
proof (induction hs arbitrary: reg L)
  case Nil
  then show ?case by (simp add: ledger_release_many_simps)
next
  case (Cons h hs)
  have "tok h \<in># lg_live L kind" using Cons.prems(2) by (auto dest: mset_subset_eq_insertD)
  with Cons.prems(1) show ?case
  proof (rule release_Ok)
    fix f reg'
    assume h: "rel reg h = (Ok f, reg')" and sg: "same_generations reg reg'"
      and acc: "accounts reg' (ledger_release kind (tok h) f L)"
    have "mset (map tok hs) \<subseteq># lg_live (ledger_release kind (tok h) f L) kind"
      using Cons.prems(2) by (simp add: ledger_release_live insert_subset_eq_iff)
    from Cons.IH [OF acc this] obtain fs reg'' where
      hs: "release_all rel reg' hs = (Ok fs, reg'')"
      "accounts reg'' (ledger_release_many kind (mset (map tok hs)) fs (ledger_release kind (tok h) f L))"
      "same_generations reg' reg''" by blast
    show ?case
      using h hs same_generations_trans [OF sg hs(3)] by (simp add: ledger_release_many_simps)
  qed
qed

end

locale token_retain =
  fixes src dst :: reference_kind
    and stok :: "'s \<Rightarrow> token" and dtok :: "'d \<Rightarrow> token"
    and ret :: "object_registry \<Rightarrow> 's \<Rightarrow> ('d, object_registry_error) result \<times> object_registry"
  assumes retain_Ok: "accounts reg L \<Longrightarrow> stok s \<in># lg_live L src \<Longrightarrow> ret reg s = (Ok d, reg') \<Longrightarrow>
      dtok d = stok s \<and> accounts reg' (ledger_add dst (stok s) L) \<and> same_generations reg reg'"
    and retain_Err: "accounts reg L \<Longrightarrow> stok s \<in># lg_live L src \<Longrightarrow> ret reg s = (Err e, reg') \<Longrightarrow>
      e = ReferenceCountExhausted \<and> reg' = reg"

locale token_convert =
  fixes src dst :: reference_kind
    and stok :: "'s \<Rightarrow> token" and dtok :: "'d \<Rightarrow> token"
    and conv :: "object_registry \<Rightarrow> 's \<Rightarrow> ('d, 's reference_error) result \<times> object_registry"
  assumes convert_Ok: "accounts reg L \<Longrightarrow> stok s \<in># lg_live L src \<Longrightarrow> conv reg s = (Ok d, reg') \<Longrightarrow>
      dtok d = stok s \<and> accounts reg' (ledger_add dst (stok s) (ledger_remove src (stok s) L)) \<and>
      same_generations reg reg'"
    and convert_Err: "accounts reg L \<Longrightarrow> stok s \<in># lg_live L src \<Longrightarrow> conv reg s = (Err e, reg') \<Longrightarrow>
      e = \<lparr>re_error = ReferenceCountExhausted, re_reference = s\<rparr> \<and> reg' = reg"

lemma accounts_transition_Err:
  assumes acc: "accounts reg L" and t: "(i, ty) \<in># lg_live L src" and neq: "src \<noteq> dst"
    and tr: "transition_reference reg i ty src dst = (Err e, reg')"
  shows "e = ReferenceCountExhausted \<and> reg' = reg"
proof -
  from acc t obtain h n where "phase_at reg i = Some (PLive ty h n)"
    and "phase_refs src (PLive ty h n) \<noteq> 0" by (rule accounts_live)
  from transition_reference_refines [OF this neq] tr show ?thesis by (auto split: if_splits)
qed

interpretation handle_release: token_release Handle handle_token release_handle
proof
  fix reg L h
  assume "accounts reg L" and "handle_token h \<in># lg_live L Handle"
  from accounts_release [OF this [unfolded handle_token_def]]
  show "\<exists>f reg'. release_handle reg h = (Ok f, reg') \<and> accounts reg' (ledger_release Handle (handle_token h) f L) \<and>
      same_generations reg reg' \<and> f = (if last_token L (handle_token h)
        then Some \<lparr>fr_id = fst (handle_token h), fr_object_type = snd (handle_token h)\<rparr> else None)"
    by (auto simp: release_handle_def handle_token_def last_token_def)
qed

interpretation internal_release: token_release Internal internal_token release_internal
proof
  fix reg L h
  assume "accounts reg L" and "internal_token h \<in># lg_live L Internal"
  from accounts_release [OF this [unfolded internal_token_def]]
  show "\<exists>f reg'. release_internal reg h = (Ok f, reg') \<and> accounts reg' (ledger_release Internal (internal_token h) f L) \<and>
      same_generations reg reg' \<and> f = (if last_token L (internal_token h)
        then Some \<lparr>fr_id = fst (internal_token h), fr_object_type = snd (internal_token h)\<rparr> else None)"
    by (auto simp: release_internal_def internal_token_def last_token_def)
qed

interpretation creation_release: token_release Internal creation_token release_creation
proof
  fix reg L h
  assume "accounts reg L" and "creation_token h \<in># lg_live L Internal"
  from accounts_release [OF this [unfolded creation_token_def]]
  show "\<exists>f reg'. release_creation reg h = (Ok f, reg') \<and> accounts reg' (ledger_release Internal (creation_token h) f L) \<and>
      same_generations reg reg' \<and> f = (if last_token L (creation_token h)
        then Some \<lparr>fr_id = fst (creation_token h), fr_object_type = snd (creation_token h)\<rparr> else None)"
    by (auto simp: release_creation_def creation_token_def last_token_def)
qed

interpretation handle_retain: token_retain Handle Handle handle_token handle_token retain_handle
proof (unfold_locales, goal_cases)
  case (1 reg L s d reg')
  then show ?case
    by (fastforce simp: retain_handle_def token_defs Let_def split: prod.splits result.splits
        dest: accounts_retain_Ok)
next
  case (2 reg L s e reg')
  then show ?case
    by (fastforce simp: retain_handle_def token_defs Let_def split: prod.splits result.splits
        dest: accounts_retain_Err)
qed

interpretation handle_pin: token_retain Handle Internal handle_token internal_token retain_internal_from_handle
proof (unfold_locales, goal_cases)
  case (1 reg L s d reg')
  then show ?case
    by (fastforce simp: retain_internal_from_handle_def token_defs Let_def split: prod.splits result.splits
        dest: accounts_retain_Ok)
next
  case (2 reg L s e reg')
  then show ?case
    by (fastforce simp: retain_internal_from_handle_def token_defs Let_def split: prod.splits result.splits
        dest: accounts_retain_Err)
qed

interpretation internal_retain: token_retain Internal Internal internal_token internal_token retain_internal
proof (unfold_locales, goal_cases)
  case (1 reg L s d reg')
  then show ?case
    by (fastforce simp: retain_internal_def token_defs Let_def split: prod.splits result.splits
        dest: accounts_retain_Ok)
next
  case (2 reg L s e reg')
  then show ?case
    by (fastforce simp: retain_internal_def token_defs Let_def split: prod.splits result.splits
        dest: accounts_retain_Err)
qed

interpretation bound_retain: token_retain Internal Handle bound_token handle_token retain_handle_from_bound
proof (unfold_locales, goal_cases)
  case (1 reg L s d reg')
  then show ?case
    by (fastforce simp: retain_handle_from_bound_def token_defs Let_def split: prod.splits result.splits
        dest: accounts_retain_Ok)
next
  case (2 reg L s e reg')
  then show ?case
    by (fastforce simp: retain_handle_from_bound_def token_defs Let_def split: prod.splits result.splits
        dest: accounts_retain_Err)
qed

interpretation bound_convert: token_convert Internal Handle bound_token handle_token bound_into_handle
proof (unfold_locales, goal_cases)
  case (1 reg L s d reg')
  then show ?case
    by (fastforce simp: bound_into_handle_def token_defs Let_def reference_failure_def split: prod.splits result.splits
        dest: accounts_transition_Ok)
next
  case (2 reg L s e reg')
  then show ?case
    by (fastforce simp: bound_into_handle_def token_defs Let_def reference_failure_def split: prod.splits result.splits
        dest: accounts_transition_Err)
qed

interpretation handle_convert: token_convert Handle Internal handle_token internal_token handle_into_internal
proof (unfold_locales, goal_cases)
  case (1 reg L s d reg')
  then show ?case
    by (fastforce simp: handle_into_internal_def token_defs Let_def reference_failure_def split: prod.splits result.splits
        dest: accounts_transition_Ok)
next
  case (2 reg L s e reg')
  then show ?case
    by (fastforce simp: handle_into_internal_def token_defs Let_def reference_failure_def split: prod.splits result.splits
        dest: accounts_transition_Err)
qed

interpretation internal_convert: token_convert Internal Handle internal_token handle_token internal_into_handle
proof (unfold_locales, goal_cases)
  case (1 reg L s d reg')
  then show ?case
    by (fastforce simp: internal_into_handle_def token_defs Let_def reference_failure_def split: prod.splits result.splits
        dest: accounts_transition_Ok)
next
  case (2 reg L s e reg')
  then show ?case
    by (fastforce simp: internal_into_handle_def token_defs Let_def reference_failure_def split: prod.splits result.splits
        dest: accounts_transition_Err)
qed

section \<open>Runs under the ownership discipline\<close>

definition empty_ledger :: ledger where
  "empty_ledger = \<lparr>lg_live = (\<lambda>_. {#}), lg_final = {#}\<rparr>"

text \<open>
  A run starts from a new registry; each step creates an object or spends a token that an
  earlier step handed out. This is what the move-only Rust types allow safe code to do.
\<close>

inductive ledger_run :: "object_registry \<Rightarrow> ledger \<Rightarrow> bool" where
  run_new: "object_registry_new capacity d = Some (reg, d') \<Longrightarrow> ledger_run reg empty_ledger"
| run_create: "ledger_run reg L \<Longrightarrow> create reg ty = (Ok c, reg') \<Longrightarrow>
    ledger_run reg' (ledger_add Internal (creation_token c) L)"
| run_create_full: "ledger_run reg L \<Longrightarrow> create reg ty = (Err e, reg') \<Longrightarrow> ledger_run reg' L"
| run_retain: "ledger_run reg L \<Longrightarrow> (i, ty) \<in># lg_live L src \<Longrightarrow>
    retain_reference reg i ty src k = (Ok u, reg') \<Longrightarrow> ledger_run reg' (ledger_add k (i, ty) L)"
| run_transition: "ledger_run reg L \<Longrightarrow> (i, ty) \<in># lg_live L src \<Longrightarrow> src \<noteq> dst \<Longrightarrow>
    transition_reference reg i ty src dst = (Ok u, reg') \<Longrightarrow>
    ledger_run reg' (ledger_add dst (i, ty) (ledger_remove src (i, ty) L))"
| run_release: "ledger_run reg L \<Longrightarrow> (i, ty) \<in># lg_live L k \<Longrightarrow>
    release_reference reg i ty k = (Ok f, reg') \<Longrightarrow> ledger_run reg' (ledger_release k (i, ty) f L)"
| run_complete: "ledger_run reg L \<Longrightarrow> final_token f \<in># lg_final L \<Longrightarrow>
    complete_finalization_inner reg f = Some (Ok u, reg') \<Longrightarrow>
    ledger_run reg' (ledger_finalize (final_token f) L)"

lemma phase_at_new:
  "object_registry_new capacity d = Some (reg, d') \<Longrightarrow> phase_at reg = Map.empty \<and> registry_wf reg"
  by (auto simp: object_registry_new_def bind_eq_Some_conv phase_at_case slot_for_def EMPTY_SLOT_def
      registry_wf_def slot_wf_def fun_eq_iff split: option.splits)

lemma accounts_new:
  "object_registry_new capacity d = Some (reg, d') \<Longrightarrow> accounts reg empty_ledger"
  using phase_at_new [of capacity d reg d'] by (simp add: accounts_def empty_ledger_def)

lemma ledger_run_accounts: "ledger_run reg L \<Longrightarrow> accounts reg L"
proof (induction rule: ledger_run.induct)
  case (run_create reg L ty c reg')
  then show ?case
    using accounts_create create_refines [OF run_create.hyps(2)] by (fastforce simp: creation_token_def)
next
  case (run_release reg L i ty k f reg')
  then show ?case using accounts_release [OF run_release.IH run_release.hyps(2)] by auto
next
  case (run_complete reg L f u reg')
  then show ?case using accounts_complete [OF run_complete.IH, of f] by (auto simp: final_token_def)
qed (auto intro: accounts_new accounts_create_Err dest: accounts_retain_Ok accounts_transition_Ok)

lemma accounts_final_unique:
  assumes "accounts reg L"
  shows "count (lg_final L) (i, ty) \<le> 1"
    and "(i, ty) \<in># lg_final L \<Longrightarrow> (i, ty') \<notin># lg_live L k"
proof -
  show "count (lg_final L) (i, ty) \<le> 1"
    using assms by (cases "(phase_at reg i, ty)" rule: final_tokens.cases) (auto simp: accounts_def)
  show "(i, ty') \<notin># lg_live L k" if "(i, ty) \<in># lg_final L"
    using accounts_final [OF assms that] accounts_live [OF assms, of i ty' k] by auto
qed

lemma complete_dead:
  assumes "complete_finalization_inner reg f = Some (Ok u, reg')"
  shows "dead reg' (fr_id f)"
proof -
  have p: "phase_at reg (fr_id f) = Some (PFinal (fr_object_type f))"
    using assms complete_finalization_Ok_iff by auto
  then have "issued reg (fr_id f)"
    by (auto simp: issued_def phase_at_case slot_for_def split: option.splits if_splits)
  moreover have "evolves reg reg'" "phase_at reg' (fr_id f) = None"
    using complete_finalization_refines [OF p] assms by (auto intro: same_generations_evolves)
  ultimately show ?thesis by (auto simp: dead_def intro: issued_evolves)
qed

lemma create_succeeds_iff:
  assumes "dw_object_compatible_rights ty \<noteq> 0"
  shows "(\<exists>c reg'. create reg ty = (Ok c, reg')) \<longleftrightarrow>
    (\<exists>j<length (or_slots reg). slot_usable j (or_slots reg ! j))"
proof (cases "create reg ty")
  case (Pair r reg')
  then show ?thesis
  proof (cases r)
    case (Ok c)
    with Pair create_Ok [of reg ty c reg'] show ?thesis by (metis (no_types, lifting))
  next
    case (Err e)
    with Pair create_Err(4) [of reg ty e reg'] assms show ?thesis by auto
  qed
qed

section \<open>The registry refines an abstract lifetime machine\<close>

text \<open>
  The specification: a map from identities to phases. An identity that is absent may appear
  as live with one internal reference; a live object gains, exchanges or loses a reference
  it has; losing the last one makes it final; a final object disappears.
\<close>

inductive abs_step :: "(object_id \<rightharpoonup> object_phase) \<Rightarrow> (object_id \<rightharpoonup> object_phase) \<Rightarrow> bool" where
  abs_create: "m i = None \<Longrightarrow> abs_step m (m(i \<mapsto> PLive ty 0 1))"
| abs_retain: "m i = Some (PLive ty h n) \<Longrightarrow> phase_refs src (PLive ty h n) \<noteq> 0 \<Longrightarrow>
    phase_refs k (PLive ty h n) + 1 < 2 ^ 32 \<Longrightarrow> abs_step m (m(i \<mapsto> add_ref k (PLive ty h n)))"
| abs_transition: "m i = Some (PLive ty h n) \<Longrightarrow> phase_refs src (PLive ty h n) \<noteq> 0 \<Longrightarrow> src \<noteq> dst \<Longrightarrow>
    phase_refs dst (PLive ty h n) + 1 < 2 ^ 32 \<Longrightarrow>
    abs_step m (m(i \<mapsto> add_ref dst (drop_ref src (PLive ty h n))))"
| abs_release: "m i = Some (PLive ty h n) \<Longrightarrow> phase_refs k (PLive ty h n) \<noteq> 0 \<Longrightarrow>
    abs_step m (m(i \<mapsto> settle (drop_ref k (PLive ty h n))))"
| abs_complete: "m i = Some (PFinal ty) \<Longrightarrow> abs_step m (m(i := None))"

lemma retain_simulated:
  "retain_reference reg i ty src k = (r, reg') \<Longrightarrow> abs_step\<^sup>=\<^sup>= (phase_at reg) (phase_at reg')"
proof (cases "validate_reference reg i ty src")
  case (Ok u)
  assume ret: "retain_reference reg i ty src k = (r, reg')"
  from Ok obtain h n where p: "phase_at reg i = Some (PLive ty h n)" "phase_refs src (PLive ty h n) \<noteq> 0"
    by (auto simp: validate_reference_Ok_iff)
  from retain_reference_refines [OF p, of k] ret abs_retain [of "phase_at reg", OF p, of k] show ?thesis
    by (auto split: if_splits)
qed (auto simp: retain_reference_def)

lemma transition_simulated:
  "transition_reference reg i ty src dst = (r, reg') \<Longrightarrow> abs_step\<^sup>=\<^sup>= (phase_at reg) (phase_at reg')"
proof (cases "validate_reference reg i ty src")
  case (Ok u)
  assume tr: "transition_reference reg i ty src dst = (r, reg')"
  show ?thesis
  proof (cases "src = dst")
    case False
    from Ok obtain h n where p: "phase_at reg i = Some (PLive ty h n)" "phase_refs src (PLive ty h n) \<noteq> 0"
      by (auto simp: validate_reference_Ok_iff)
    from transition_reference_refines [OF p False] tr abs_transition [of "phase_at reg", OF p False]
    show ?thesis by (auto split: if_splits)
  qed (use tr Ok in \<open>auto simp: transition_reference_def\<close>)
qed (auto simp: transition_reference_def)

lemma release_simulated:
  "release_reference reg i ty k = (r, reg') \<Longrightarrow> abs_step\<^sup>=\<^sup>= (phase_at reg) (phase_at reg')"
proof (cases "validate_reference reg i ty k")
  case (Ok u)
  assume rel: "release_reference reg i ty k = (r, reg')"
  from Ok obtain h n where p: "phase_at reg i = Some (PLive ty h n)" "phase_refs k (PLive ty h n) \<noteq> 0"
    by (auto simp: validate_reference_Ok_iff)
  from release_reference_refines [OF p] rel abs_release [of "phase_at reg", OF p] show ?thesis
    by auto
qed (auto simp: release_reference_def)

lemma complete_simulated:
  assumes "complete_finalization_inner reg f = Some (r, reg')"
  shows "abs_step\<^sup>=\<^sup>= (phase_at reg) (phase_at reg')"
proof (cases r)
  case (Ok u)
  with assms have p: "phase_at reg (fr_id f) = Some (PFinal (fr_object_type f))"
    using complete_finalization_Ok_iff by auto
  from complete_finalization_refines [OF p] assms abs_complete [of "phase_at reg", OF p] show ?thesis
    by auto
qed (use assms in \<open>auto dest: complete_finalization_Err\<close>)

lemma create_simulated:
  "create reg ty = (r, reg') \<Longrightarrow> abs_step\<^sup>=\<^sup>= (phase_at reg) (phase_at reg')"
  using create_refines [of reg ty _ reg'] create_Err(1) [of reg ty _ reg'] abs_create [of "phase_at reg"]
  by (cases r) auto

section \<open>Fresh creations\<close>

text \<open>
  What every typed authority relies on: a creation that was just made can be cancelled, which
  undoes it, or bound and turned into the first handle reference.
\<close>

text \<open>Cancelling a creation, possibly after a failed creation of something else.\<close>

lemma cancel_fresh:
  assumes "accounts reg L" and "create reg ty = (Ok c, reg1)"
    and "accounts reg2 (ledger_add Internal (cr_id c, ty) L)" and "phase_at reg2 = phase_at reg1"
  shows "\<exists>reg3. cancel_creation reg2 c = Some (Ok (), reg3) \<and> phase_at reg3 = phase_at reg \<and> accounts reg3 L"
proof -
  let ?f = "\<lparr>fr_id = cr_id c, fr_object_type = ty\<rparr>"
  have c: "cr_object_type c = ty" "phase_at reg (cr_id c) = None"
    "phase_at reg2 = (phase_at reg)(cr_id c \<mapsto> PLive ty 0 1)" "registry_wf reg2"
    using create_refines [OF assms(2)] assms(3,4) by (auto simp: accounts_def)
  then obtain reg' where rel: "release_reference reg2 (cr_id c) ty Internal = (Ok (Some ?f), reg')"
    and fin: "phase_at reg' = (phase_at reg2)(cr_id c \<mapsto> PFinal ty)" "registry_wf reg'"
    using release_reference_refines [of reg2 "cr_id c" ty 0 1 Internal] by auto
  then obtain reg3 where cmp: "complete_finalization_inner reg' ?f = Some (Ok (), reg3)"
    "phase_at reg3 = (phase_at reg')(cr_id c := None)" "registry_wf reg3"
    using complete_finalization_refines [of reg' ?f] by auto
  have "phase_at reg3 = phase_at reg" using c fin cmp by (auto simp: fun_eq_iff)
  moreover from this have "accounts reg3 L" using assms(1) c fin cmp by (auto simp: accounts_def)
  moreover have "cancel_creation reg2 c = Some (Ok (), reg3)"
    using rel cmp(1) c(1) by (simp add: cancel_creation_def)
  ultimately show ?thesis by blast
qed

lemma cancel_creation_undoes:
  assumes "accounts reg L" and "create reg ty = (Ok c, reg1)"
  shows "\<exists>reg2. cancel_creation reg1 c = Some (Ok (), reg2) \<and> phase_at reg2 = phase_at reg \<and> accounts reg2 L"
  using cancel_fresh [OF assms accounts_create [OF assms]] by simp

lemma seal_fresh:
  assumes acc: "accounts reg (ledger_add Internal (cr_id c, ty) L)" and "cr_object_type c = ty"
    and fresh: "phase_at reg (cr_id c) = Some (PLive ty 0 1)"
  shows "finish_payload_binding reg c = Ok \<lparr>bc_reference = c\<rparr> \<and>
    (\<exists>reg2. bound_into_handle reg \<lparr>bc_reference = c\<rparr> = (Ok \<lparr>hr_id = cr_id c, hr_object_type = ty\<rparr>, reg2) \<and>
      accounts reg2 (ledger_add Handle (cr_id c, ty) L) \<and> phase_at reg2 = (phase_at reg)(cr_id c \<mapsto> PLive ty 1 0))"
proof -
  have held: "(cr_id c, ty) \<in># lg_live (ledger_add Internal (cr_id c, ty) L) Internal" by (simp add: ledger_add_def)
  have "finish_payload_binding reg c = Ok \<lparr>bc_reference = c\<rparr>"
    using accounts_validates [OF acc held] assms(2) by (simp add: finish_payload_binding_def)
  moreover obtain reg2 where tr: "transition_reference reg (cr_id c) ty Internal Handle = (Ok (), reg2)"
    "phase_at reg2 = (phase_at reg)(cr_id c \<mapsto> PLive ty 1 0)"
    using transition_reference_refines [OF fresh, of Internal Handle] by (auto split: if_splits)
  moreover have "accounts reg2 (ledger_add Handle (cr_id c, ty) L)"
  proof -
    have "ledger_add Handle (cr_id c, ty) (ledger_remove Internal (cr_id c, ty) (ledger_add Internal (cr_id c, ty) L)) =
        ledger_add Handle (cr_id c, ty) L"
      by (simp add: ledger_add_def ledger_remove_def fun_upd_twist)
    with accounts_transition_Ok [OF acc held _ tr(1)] show ?thesis by simp
  qed
  ultimately show ?thesis using assms(2) by (simp add: bound_into_handle_def Let_def)
qed

lemma create_bound_handle:
  assumes "accounts reg L" and "create reg ty = (Ok c, reg1)"
  shows "cr_object_type c = ty \<and> phase_at reg (cr_id c) = None \<and>
    finish_payload_binding reg1 c = Ok \<lparr>bc_reference = c\<rparr> \<and>
    (\<exists>reg2. bound_into_handle reg1 \<lparr>bc_reference = c\<rparr> = (Ok \<lparr>hr_id = cr_id c, hr_object_type = ty\<rparr>, reg2) \<and>
      accounts reg2 (ledger_add Handle (cr_id c, ty) L))"
proof -
  have "cr_object_type c = ty" "phase_at reg (cr_id c) = None" "phase_at reg1 (cr_id c) = Some (PLive ty 0 1)"
    using create_refines [OF assms(2)] by auto
  with seal_fresh [OF accounts_create [OF assms]] show ?thesis by blast
qed

text \<open>Two creations in a row, both turned into handles.\<close>

lemma two_fresh_handles:
  assumes acc: "accounts reg L" and c1: "create reg ty = (Ok first, reg1)" and c2: "create reg1 ty = (Ok second, reg2)"
  shows "cr_object_type first = ty \<and> cr_object_type second = ty \<and> cr_id first \<noteq> cr_id second \<and>
    phase_at reg (cr_id first) = None \<and> phase_at reg (cr_id second) = None \<and>
    finish_payload_binding reg2 first = Ok \<lparr>bc_reference = first\<rparr> \<and>
    finish_payload_binding reg2 second = Ok \<lparr>bc_reference = second\<rparr> \<and>
    (\<exists>reg3 reg4. bound_into_handle reg2 \<lparr>bc_reference = first\<rparr> = (Ok \<lparr>hr_id = cr_id first, hr_object_type = ty\<rparr>, reg3) \<and>
      bound_into_handle reg3 \<lparr>bc_reference = second\<rparr> = (Ok \<lparr>hr_id = cr_id second, hr_object_type = ty\<rparr>, reg4) \<and>
      accounts reg4 (ledger_add Handle (cr_id first, ty) (ledger_add Handle (cr_id second, ty) L)))"
proof -
  have p1: "cr_object_type first = ty" "phase_at reg (cr_id first) = None" "phase_at reg1 = (phase_at reg)(cr_id first \<mapsto> PLive ty 0 1)"
    using create_refines [OF c1] by auto
  have p2: "cr_object_type second = ty" "phase_at reg1 (cr_id second) = None" "phase_at reg2 = (phase_at reg1)(cr_id second \<mapsto> PLive ty 0 1)"
    using create_refines [OF c2] by auto
  then have neq: "cr_id first \<noteq> cr_id second" "phase_at reg (cr_id second) = None" using p1(3) by (auto split: if_splits)
  have acc2: "accounts reg2 (ledger_add Internal (cr_id first, ty) (ledger_add Internal (cr_id second, ty) L))"
    using accounts_create [OF accounts_create [OF acc c1] c2] by (simp add: ledger_add_def add_mset_commute)
  have f1: "phase_at reg2 (cr_id first) = Some (PLive ty 0 1)" using p1(3) p2(3) neq by simp
  obtain reg3 where s1: "finish_payload_binding reg2 first = Ok \<lparr>bc_reference = first\<rparr>"
    "bound_into_handle reg2 \<lparr>bc_reference = first\<rparr> = (Ok \<lparr>hr_id = cr_id first, hr_object_type = ty\<rparr>, reg3)"
    "accounts reg3 (ledger_add Handle (cr_id first, ty) (ledger_add Internal (cr_id second, ty) L))"
    "phase_at reg3 = (phase_at reg2)(cr_id first \<mapsto> PLive ty 1 0)"
    using seal_fresh [OF acc2 p1(1) f1] by blast
  have swap: "ledger_add Handle t (ledger_add Internal u M) = ledger_add Internal u (ledger_add Handle t M)" for t u M
    by (simp add: ledger_add_def fun_upd_twist)
  have f2: "phase_at reg3 (cr_id second) = Some (PLive ty 0 1)" "phase_at reg2 (cr_id second) = Some (PLive ty 0 1)"
    using s1(4) p2(3) neq by simp_all
  have "finish_payload_binding reg2 second = Ok \<lparr>bc_reference = second\<rparr>"
    using seal_fresh [of reg2 second ty "ledger_add Internal (cr_id first, ty) L"] acc2 p2(1) f2(2)
    by (simp add: ledger_add_def add_mset_commute)
  moreover obtain reg4 where "bound_into_handle reg3 \<lparr>bc_reference = second\<rparr> = (Ok \<lparr>hr_id = cr_id second, hr_object_type = ty\<rparr>, reg4)"
    "accounts reg4 (ledger_add Handle (cr_id second, ty) (ledger_add Handle (cr_id first, ty) L))"
    using seal_fresh [OF s1(3) [unfolded swap] p2(1) f2(1)] by blast
  moreover from this(2) have "accounts reg4 (ledger_add Handle (cr_id first, ty) (ledger_add Handle (cr_id second, ty) L))"
    by (simp add: ledger_add_def add_mset_commute)
  ultimately show ?thesis using p1 p2 neq s1 by blast
qed

lemma complete_payload_Ok:
  assumes "accounts reg L" and "final_token f \<in># lg_final L"
  shows "\<exists>reg'. complete_payload_finalization reg f = Some (Ok (), reg') \<and>
    accounts reg' (ledger_finalize (final_token f) L)"
  using accounts_complete [of reg L f] assms
  by (auto simp: final_token_def complete_payload_finalization_def)

section \<open>Sample registries\<close>

definition sample_registry :: object_registry where
  "sample_registry = \<lparr>or_domain = 1, or_slots = [EMPTY_SLOT, EMPTY_SLOT]\<rparr>"

definition sample_id :: object_id where
  "sample_id = \<lparr>id_domain = 1, id_raw = 0x100000001\<rparr>"

definition sample_live :: "u32 \<Rightarrow> u32 \<Rightarrow> object_registry" where
  "sample_live h n = \<lparr>or_domain = 1, or_slots = [\<lparr>os_generation = 1,
    os_state = Live \<lparr>lo_object_type = DW_OBJECT_TYPE_CHANNEL, lo_handle_refs = h, lo_internal_refs = n\<rparr>\<rparr>,
    EMPTY_SLOT]\<rparr>"

definition sample_final :: object_registry where
  "sample_final = \<lparr>or_domain = 1, or_slots = [\<lparr>os_generation = 1, os_state = Finalizing DW_OBJECT_TYPE_CHANNEL\<rparr>,
    EMPTY_SLOT]\<rparr>"

lemmas sample_defs = sample_registry_def sample_id_def sample_live_def sample_final_def

section \<open>Properties\<close>

text \<open>
  C1: every operation of the registry, on any arguments, keeps the well-formedness invariant
  and is either invisible or exactly one step of the abstract lifetime machine.
\<close>

theorem registry_refines_lifetime_machine:
  assumes "registry_wf reg" and "registry_step reg reg'"
  shows "registry_wf reg' \<and> abs_step\<^sup>=\<^sup>= (phase_at reg) (phase_at reg')"
  using assms(2) registry_step_wf [OF assms(2,1)]
  by (cases rule: registry_step.cases)
    (blast dest: create_simulated retain_simulated transition_simulated release_simulated complete_simulated)+

theorem registry_refines_lifetime_machine_witness:
  "registry_wf sample_registry \<and>
    registry_step sample_registry (sample_live 0 1) \<and> registry_wf (sample_live 0 1) \<and>
    abs_step\<^sup>=\<^sup>= (phase_at sample_registry) (phase_at (sample_live 0 1))"
proof -
  have wf: "registry_wf sample_registry"
    by (simp add: sample_registry_def registry_wf_def slot_wf_def EMPTY_SLOT_def nth_Cons split: nat.splits)
  have "create sample_registry DW_OBJECT_TYPE_CHANNEL =
      (Ok \<lparr>cr_id = sample_id, cr_object_type = DW_OBJECT_TYPE_CHANNEL\<rparr>, sample_live 0 1)"
    by (simp add: eval_simps sample_defs)
  then have "registry_step sample_registry (sample_live 0 1)" by (rule step_create)
  with registry_refines_lifetime_machine [OF wf this] wf show ?thesis by simp
qed

text \<open>
  C2: identities are never reused. Once an object's finalization has completed, no later
  sequence of operations, with any arguments, makes its identity validate again, and no
  creation returns it.
\<close>

theorem completed_identity_never_returns:
  assumes "complete_finalization_inner reg f = Some (Ok u, reg1)" and "registry_step\<^sup>*\<^sup>* reg1 reg2"
  shows "(\<forall>ty k. \<exists>e. validate_reference reg2 (fr_id f) ty k = Err e) \<and>
    (\<forall>ty c reg3. create reg2 ty = (Ok c, reg3) \<longrightarrow> cr_id c \<noteq> fr_id f)"
proof (intro conjI allI impI)
  have dead: "dead reg2 (fr_id f)" using assms(2) complete_dead [OF assms(1)] by (rule registry_steps_dead)
  show "\<exists>e. validate_reference reg2 (fr_id f) ty k = Err e" for ty k
    using dead by (cases "validate_reference reg2 (fr_id f) ty k") (auto simp: validate_reference_Ok_iff dead_def)
  show "cr_id c \<noteq> fr_id f" if "create reg2 ty = (Ok c, reg3)" for ty c reg3
    using create_not_issued [OF that] dead by (auto simp: dead_def)
qed

theorem completed_identity_never_returns_witness:
  "\<exists>reg1 reg2. complete_finalization_inner sample_final \<lparr>fr_id = sample_id, fr_object_type = DW_OBJECT_TYPE_CHANNEL\<rparr>
      = Some (Ok (), reg1) \<and> create reg1 DW_OBJECT_TYPE_EVENT = (Ok \<lparr>cr_id = \<lparr>id_domain = 1, id_raw = 0x200000001\<rparr>,
        cr_object_type = DW_OBJECT_TYPE_EVENT\<rparr>, reg2) \<and>
    (\<exists>e. validate_reference reg2 sample_id DW_OBJECT_TYPE_EVENT Internal = Err e)"
proof -
  let ?r1 = "sample_final\<lparr>or_slots := [\<lparr>os_generation = 1, os_state = Vacant\<rparr>, EMPTY_SLOT]\<rparr>"
  let ?r2 = "sample_final\<lparr>or_slots := [\<lparr>os_generation = 2, os_state = Live \<lparr>lo_object_type = DW_OBJECT_TYPE_EVENT,
    lo_handle_refs = 0, lo_internal_refs = 1\<rparr>\<rparr>, EMPTY_SLOT]\<rparr>"
  let ?f = "\<lparr>fr_id = sample_id, fr_object_type = DW_OBJECT_TYPE_CHANNEL\<rparr>"
  have 1: "complete_finalization_inner sample_final ?f = Some (Ok (), ?r1)" by (simp add: eval_simps sample_defs)
  have 2: "create ?r1 DW_OBJECT_TYPE_EVENT = (Ok \<lparr>cr_id = \<lparr>id_domain = 1, id_raw = 0x200000001\<rparr>,
        cr_object_type = DW_OBJECT_TYPE_EVENT\<rparr>, ?r2)" by (simp add: eval_simps sample_defs)
  have "registry_step\<^sup>*\<^sup>* ?r1 ?r2" using step_create [OF 2] by blast
  from completed_identity_never_returns [OF 1 this] have
    "\<exists>e. validate_reference ?r2 sample_id DW_OBJECT_TYPE_EVENT Internal = Err e" by simp
  with 1 2 show ?thesis by blast
qed

text \<open>
  C3: under the ownership discipline the counters equal the outstanding tokens: every held
  token validates, and an object has at most one final-release token, which excludes any
  live token of it (no use after finalization, no double finalization).
\<close>

theorem held_tokens_are_exact:
  assumes "ledger_run reg L"
  shows "(\<forall>k i ty. count (lg_live L k) (i, ty) = live_tokens k (phase_at reg i) ty) \<and>
    (\<forall>k i ty. (i, ty) \<in># lg_live L k \<longrightarrow> validate_reference reg i ty k = Ok ()) \<and>
    (\<forall>i ty. count (lg_final L) (i, ty) \<le> 1 \<and>
      ((i, ty) \<in># lg_final L \<longrightarrow> (\<forall>k ty'. (i, ty') \<notin># lg_live L k)))"
proof -
  have acc: "accounts reg L" using assms by (rule ledger_run_accounts)
  show ?thesis
  proof (intro conjI allI impI)
    show "count (lg_live L k) (i, ty) = live_tokens k (phase_at reg i) ty" for k i ty
      using acc by (simp add: accounts_def)
    show "count (lg_final L) (i, ty) \<le> 1" for i ty by (rule accounts_final_unique(1) [OF acc])
  qed (blast intro: accounts_validates [OF acc] dest: accounts_final_unique(2) [OF acc])+
qed

theorem held_tokens_are_exact_witness:
  "\<exists>L. ledger_run (sample_live 0 1) L \<and> count (lg_live L Internal) (sample_id, DW_OBJECT_TYPE_CHANNEL) = 1 \<and>
    validate_reference (sample_live 0 1) sample_id DW_OBJECT_TYPE_CHANNEL Internal = Ok ()"
proof -
  let ?L = "ledger_add Internal (creation_token \<lparr>cr_id = sample_id, cr_object_type = DW_OBJECT_TYPE_CHANNEL\<rparr>) empty_ledger"
  have "object_registry_new (Suc (Suc 0)) 1 = Some (sample_registry, 2)"
    by (simp add: eval_simps sample_defs)
  then have "ledger_run sample_registry empty_ledger" by (rule run_new)
  moreover have "create sample_registry DW_OBJECT_TYPE_CHANNEL =
      (Ok \<lparr>cr_id = sample_id, cr_object_type = DW_OBJECT_TYPE_CHANNEL\<rparr>, sample_live 0 1)"
    by (simp add: eval_simps sample_defs)
  ultimately have run: "ledger_run (sample_live 0 1) ?L" by (rule run_create)
  moreover have "(sample_id, DW_OBJECT_TYPE_CHANNEL) \<in># lg_live ?L Internal"
    by (simp add: ledger_add_def creation_token_def)
  ultimately have "validate_reference (sample_live 0 1) sample_id DW_OBJECT_TYPE_CHANNEL Internal = Ok ()"
    using held_tokens_are_exact [OF run] by blast
  with run show ?thesis
    by (intro exI [of _ ?L]) (simp add: ledger_add_def creation_token_def empty_ledger_def)
qed

text \<open>
  C4: releasing a held handle token always succeeds; it yields a final-release token exactly
  when it was the object's last token of either kind, and the counters stay exact.
\<close>

theorem release_handle_finalizes_exactly_last:
  assumes "accounts reg L" and "handle_token h \<in># lg_live L Handle"
  shows "\<exists>f reg'. release_handle reg h = (Ok f, reg') \<and>
    (f \<noteq> None \<longleftrightarrow> count (lg_live L Handle) (handle_token h) + count (lg_live L Internal) (handle_token h) = 1) \<and>
    accounts reg' (ledger_release Handle (handle_token h) f L)"
  using handle_release.release_Ok [OF assms] unfolding last_token_def by metis

definition sample_ledger :: "nat \<Rightarrow> nat \<Rightarrow> ledger" where
  "sample_ledger h n = \<lparr>lg_live = (\<lambda>k. replicate_mset (case k of Handle \<Rightarrow> h | Internal \<Rightarrow> n)
    (sample_id, DW_OBJECT_TYPE_CHANNEL)), lg_final = {#}\<rparr>"

lemma phase_at_sample_live:
  "phase_at (sample_live h n) i =
    (if i = sample_id then Some (PLive DW_OBJECT_TYPE_CHANNEL (unat h) (unat n)) else None)"
proof -
  have "slot_for (sample_live h n) sample_id = Some 0" by (simp add: slot_for_def eval_simps sample_defs)
  moreover have "slot_for (sample_live h n) i = Some 0 \<Longrightarrow> i = sample_id"
    by (rule slot_for_inj [OF _ calculation])
  ultimately show ?thesis
    by (auto simp: phase_at_case sample_live_def EMPTY_SLOT_def nth_Cons split: option.splits nat.splits
        dest!: slot_for_less)
qed

lemma accounts_sample:
  assumes "h \<noteq> 0 \<or> n \<noteq> 0"
  shows "accounts (sample_live h n) (sample_ledger (unat h) (unat n))"
proof -
  have "live_tokens k (Some (PLive DW_OBJECT_TYPE_CHANNEL a b)) ty =
      (if ty = DW_OBJECT_TYPE_CHANNEL then (case k of Handle \<Rightarrow> a | Internal \<Rightarrow> b) else 0)" for k a b ty
    by (cases k) auto
  moreover have "registry_wf (sample_live h n)"
    using assms by (simp add: registry_wf_def slot_wf_def eval_simps sample_live_def nth_Cons split: nat.splits)
  ultimately show ?thesis by (auto simp: accounts_def phase_at_sample_live sample_ledger_def)
qed

theorem release_handle_finalizes_exactly_last_witness:
  "\<exists>f reg'. release_handle (sample_live 1 0) \<lparr>hr_id = sample_id, hr_object_type = DW_OBJECT_TYPE_CHANNEL\<rparr>
    = (Ok (Some f), reg')"
proof -
  have acc: "accounts (sample_live 1 0) (sample_ledger 1 0)" using accounts_sample [of 1 0] by simp
  show ?thesis
    using release_handle_finalizes_exactly_last
      [OF acc, of "\<lparr>hr_id = sample_id, hr_object_type = DW_OBJECT_TYPE_CHANNEL\<rparr>"]
    by (auto simp: sample_ledger_def handle_token_def)
qed

text \<open>
  Creation succeeds for a known object type exactly when some slot is vacant with a
  representable next generation and identity, and the new object has one internal reference
  under an identity that was never issued before.
\<close>

theorem create_exactly_when_usable:
  assumes "dw_object_compatible_rights ty \<noteq> 0"
  shows "((\<exists>c reg'. create reg ty = (Ok c, reg')) \<longleftrightarrow>
      (\<exists>j<length (or_slots reg). slot_usable j (or_slots reg ! j))) \<and>
    (\<forall>c reg'. create reg ty = (Ok c, reg') \<longrightarrow> \<not> issued reg (cr_id c) \<and>
      phase_at reg' = (phase_at reg)(cr_id c \<mapsto> PLive ty 0 1))"
  using create_succeeds_iff [OF assms] create_not_issued create_refines by blast

theorem create_exactly_when_usable_witness:
  "\<exists>c reg'. create sample_registry DW_OBJECT_TYPE_CHANNEL = (Ok c, reg')"
  using create_exactly_when_usable [of DW_OBJECT_TYPE_CHANNEL sample_registry]
  by (auto simp: slot_usable_def eval_simps sample_registry_def intro!: exI [of _ 0])

text \<open>
  Cancelling a creation that was not yet bound never panics and undoes it: the abstract
  map and the ledger are as before the creation.
\<close>

theorem cancel_creation_undoes_create:
  assumes "accounts reg L" and "create reg ty = (Ok c, reg1)"
  shows "\<exists>reg2. cancel_creation reg1 c = Some (Ok (), reg2) \<and> phase_at reg2 = phase_at reg \<and> accounts reg2 L"
  using assms by (rule cancel_creation_undoes)

theorem cancel_creation_undoes_create_witness:
  "\<exists>c reg1 reg2. create (sample_live 1 0) DW_OBJECT_TYPE_EVENT = (Ok c, reg1) \<and>
    cancel_creation reg1 c = Some (Ok (), reg2) \<and> phase_at reg2 = phase_at (sample_live 1 0)"
proof -
  have acc: "accounts (sample_live 1 0) (sample_ledger 1 0)" using accounts_sample [of 1 0] by simp
  obtain c reg1 where "create (sample_live 1 0) DW_OBJECT_TYPE_EVENT = (Ok c, reg1)"
    by (simp add: eval_simps sample_live_def)
  with cancel_creation_undoes_create [OF acc this] show ?thesis by blast
qed

end
