(* ===== verification/Rights.thy ===== *)
theory Rights
  imports Abi
begin

text \<open>
  Generated-rights validation, \<^verbatim>\<open>kernel/src/handle/rights.rs\<close>. Every check is a
  \<open>Result<(), RightsValidationError>\<close>; the lemmas give the exact condition under which
  each one accepts, as inclusions of bit sets.
\<close>

datatype rights_validation_error = Zero | Unknown | Incompatible | Missing | Escalation

definition validate_requested_syntax :: "dw_rights \<Rightarrow> (unit, rights_validation_error) result" where
  "validate_requested_syntax rights =
    (if rights = 0 then Err Zero
     else if \<not> dw_rights_are_known rights then Err Unknown
     else Ok ())"

definition validate_required_syntax :: "dw_rights \<Rightarrow> (unit, rights_validation_error) result" where
  "validate_required_syntax rights =
    (if \<not> dw_rights_are_known rights then Err Unknown else Ok ())"

definition validate_compatible ::
  "dw_object_type \<Rightarrow> dw_rights \<Rightarrow> (unit, rights_validation_error) result" where
  "validate_compatible object_type rights =
    (if \<not> dw_rights_are_compatible object_type rights then Err Incompatible else Ok ())"

definition require_held :: "dw_rights \<Rightarrow> dw_rights \<Rightarrow> (unit, rights_validation_error) result" where
  "require_held held required =
    (if held AND required \<noteq> required then Err Missing else Ok ())"

definition require_subset :: "dw_rights \<Rightarrow> dw_rights \<Rightarrow> (unit, rights_validation_error) result" where
  "require_subset held requested =
    (if requested AND NOT held \<noteq> 0 then Err Escalation else Ok ())"

section \<open>What the checks accept\<close>

text \<open>The authority order: \<open>r\<close> carries no right that \<open>s\<close> lacks.\<close>

definition rights_le :: "dw_rights \<Rightarrow> dw_rights \<Rightarrow> bool" where
  "rights_le r s \<longleftrightarrow> r AND NOT s = 0"

text \<open>The rights a live entry of a table may carry for an object of type \<open>ty\<close>.\<close>

definition rights_wf :: "dw_object_type \<Rightarrow> dw_rights \<Rightarrow> bool" where
  "rights_wf ty rights \<longleftrightarrow> rights \<noteq> 0 \<and> dw_rights_are_compatible ty rights"

lemma rights_le_refl [simp]: "rights_le r r"
  by (simp add: rights_le_def)

lemma rights_le_trans [trans]: "rights_le r s \<Longrightarrow> rights_le s t \<Longrightarrow> rights_le r t"
  unfolding rights_le_def by (rule and_not_trans)

lemma rights_le_antisym: "rights_le r s \<Longrightarrow> rights_le s r \<Longrightarrow> r = s"
  unfolding rights_le_def and_not_eq_0_iff_bit by (rule bit_eqI) blast

lemma require_held_iff [simp]: "require_held held required = Ok u \<longleftrightarrow> rights_le required held"
  by (auto simp: require_held_def rights_le_def and_eq_iff_bit and_not_eq_0_iff_bit)

lemma require_subset_iff [simp]: "require_subset held requested = Ok u \<longleftrightarrow> rights_le requested held"
  by (auto simp: require_subset_def rights_le_def)

lemma validate_compatible_iff [simp]:
  "validate_compatible ty rights = Ok u \<longleftrightarrow> dw_rights_are_compatible ty rights"
  by (auto simp: validate_compatible_def)

lemma validate_requested_syntax_iff [simp]:
  "validate_requested_syntax rights = Ok u \<longleftrightarrow> rights \<noteq> 0 \<and> dw_rights_are_known rights"
  by (auto simp: validate_requested_syntax_def)

lemma validate_required_syntax_iff [simp]:
  "validate_required_syntax rights = Ok u \<longleftrightarrow> dw_rights_are_known rights"
  by (auto simp: validate_required_syntax_def)

lemma rights_wf_iff_validated:
  "rights_wf ty rights \<longleftrightarrow>
    and_then (validate_requested_syntax rights) (\<lambda>_. validate_compatible ty rights) = Ok ()"
  by (auto simp: rights_wf_def and_then_Ok_iff dest: compatible_imp_known)

end
