(* ===== verification/Handle_Table.thy ===== *)
theory Handle_Table
  imports Object_Lifetime Rights
begin

text \<open>
  The per-process capability table, \<^verbatim>\<open>kernel/src/handle/table.rs\<close>: data, slot resolution,
  reservations and permits, installation, lookup, closing, duplication and draining. The
  multi-handle transactions of the same file are in \<^verbatim>\<open>Handle_Transfer\<close>. The const generic
  \<open>CAPACITY\<close> is the length of the slot list. Operations that also touch the object
  registry take and return it.
\<close>

section \<open>Data\<close>

definition mint_handle_table_domain :: "u64 \<Rightarrow> (u64 \<times> u64) option" where
  "mint_handle_table_domain next_domain =
    (case checked_next next_domain of None \<Rightarrow> None | Some n \<Rightarrow> Some (next_domain, n))"

datatype handle_table_error =
    InvalidHandle
  | InvalidRights
  | WrongObjectType
  | AccessDenied
  | HandleCapacity
  | ReferenceCapacity

datatype handle_reservation_error = ForeignTable | StalePermit | Conflict

datatype accepted_object_types = AnyType | OneType dw_object_type | TypeSet "dw_object_type list"

fun accepts :: "accepted_object_types \<Rightarrow> dw_object_type \<Rightarrow> bool" where
  "accepts AnyType object_type = True"
| "accepts (OneType expected) object_type = (expected = object_type)"
| "accepts (TypeSet expected) object_type = (object_type \<in> set expected)"

record basic_handle_info =
  bi_object_type :: dw_object_type
  bi_rights :: dw_rights

record resolved_handle =
  rh_reference :: internal_ref
  rh_rights :: dw_rights

record install_error =
  ie_error :: handle_table_error
  ie_reference :: handle_ref

record drain_result =
  dr_final_releases :: "final_release option list"
  dr_final_release_count :: nat

record drain_window =
  dw_written :: nat
  dw_resume :: nat
  dw_done :: bool

record handle_entry =
  he_reference :: handle_ref
  he_rights :: dw_rights

datatype slot_reservation_kind = MovePrepared | MoveExtracted | Destination

record slot_reservation =
  sr_permit :: u64
  sr_kind :: slot_reservation_kind

record handle_slot =
  hs_generation :: u32
  hs_retired :: bool
  hs_entry :: "handle_entry option"
  hs_reservation :: "slot_reservation option"

record reservation =
  rv_slot :: nat
  rv_prior_generation :: u32
  rv_generation :: u32
  rv_handle :: dw_handle
  rv_permit :: u64

record handle_table =
  ht_domain :: u64
  ht_slots :: "handle_slot list"
  ht_live_count :: nat
  ht_next_permit :: u64

definition VACANT_HANDLE_SLOT :: handle_slot where
  "VACANT_HANDLE_SLOT =
    \<lparr>hs_generation = 0, hs_retired = False, hs_entry = None, hs_reservation = None\<rparr>"

definition handle_table_new :: "nat \<Rightarrow> u64 \<Rightarrow> (handle_table \<times> u64) option" where
  "handle_table_new capacity next_domain =
    do { (domain, next_domain') \<leftarrow> mint_handle_table_domain next_domain;
         Some (\<lparr>ht_domain = domain, ht_slots = replicate capacity VACANT_HANDLE_SLOT,
           ht_live_count = 0, ht_next_permit = 1\<rparr>, next_domain') }"

definition handle_table_len :: "handle_table \<Rightarrow> nat" where
  "handle_table_len table = ht_live_count table"

definition handle_table_is_empty :: "handle_table \<Rightarrow> bool" where
  "handle_table_is_empty table \<longleftrightarrow> ht_live_count table = 0"

text \<open>\<open>Drop for HandleTable\<close>: dropping a table in use is a panic.\<close>

definition handle_table_drop :: "handle_table \<Rightarrow> unit option" where
  "handle_table_drop table =
    assert_panic (ht_live_count table = 0 \<and>
      list_all (\<lambda>slot. hs_entry slot = None \<and> hs_reservation slot = None) (ht_slots table))"

section \<open>Handle encoding and error mapping\<close>

definition handle_next_generation :: "u32 \<Rightarrow> u32 option" where
  "handle_next_generation generation = checked_next generation"

definition encode_handle :: "nat \<Rightarrow> u32 \<Rightarrow> dw_handle option" where
  "encode_handle slot generation =
    do { one_based \<leftarrow> checked_add_usize slot 1;
         slot32 \<leftarrow> u32_try_from_usize one_based;
         if generation \<noteq> 0
         then Some (push_bit 32 (ucast generation) OR ucast slot32)
         else None }"

definition decode_handle :: "dw_handle \<Rightarrow> (nat \<times> u32) option" where
  "decode_handle handle =
    (let generation = ucast (drop_bit 32 handle) in
     do { low \<leftarrow> u32_try_from_u64 (handle AND 4294967295);
          slot \<leftarrow> checked_sub low 1;
          if generation \<noteq> 0 then Some (unat slot, generation) else None })"

fun rights_error :: "rights_validation_error \<Rightarrow> handle_table_error" where
  "rights_error Zero = InvalidRights"
| "rights_error Unknown = InvalidRights"
| "rights_error Incompatible = InvalidRights"
| "rights_error Missing = AccessDenied"
| "rights_error Escalation = AccessDenied"

text \<open>Any other registry error on a retention is a violated invariant: a panic.\<close>

definition retain_error :: "object_registry_error \<Rightarrow> handle_table_error option" where
  "retain_error e = (case e of ReferenceCountExhausted \<Rightarrow> Some ReferenceCapacity | _ \<Rightarrow> None)"

section \<open>Resolution\<close>

definition resolve_slot :: "handle_table \<Rightarrow> dw_handle \<Rightarrow> (nat, handle_table_error) result" where
  "resolve_slot table handle =
    (if handle = DW_HANDLE_INVALID then Err InvalidHandle
     else and_then (ok_or InvalidHandle (decode_handle handle)) (\<lambda>(slot, generation).
       and_then (ok_or InvalidHandle (slice_get (ht_slots table) slot)) (\<lambda>entry.
         if hs_retired entry \<or> hs_generation entry \<noteq> generation \<or> hs_entry entry = None
         then Err InvalidHandle else Ok slot)))"

definition resolve_mutation_slot :: "handle_table \<Rightarrow> dw_handle \<Rightarrow> (nat, handle_table_error) result" where
  "resolve_mutation_slot table handle =
    and_then (resolve_slot table handle) (\<lambda>slot.
      if hs_reservation (ht_slots table ! slot) \<noteq> None then Err AccessDenied else Ok slot)"

definition resolve_entry ::
  "handle_table \<Rightarrow> dw_handle \<Rightarrow> (handle_entry, handle_table_error) result option" where
  "resolve_entry table handle =
    (case resolve_slot table handle of
      Err e \<Rightarrow> Some (Err e)
    | Ok slot \<Rightarrow> do { entry \<leftarrow> hs_entry (ht_slots table ! slot); Some (Ok entry) })"

section \<open>Slot updates\<close>

text \<open>\<open>let slot = &mut self.slots[i]; ...\<close> as a function on the slot.\<close>

definition update_slot :: "nat \<Rightarrow> (handle_slot \<Rightarrow> handle_slot) \<Rightarrow> handle_table \<Rightarrow> handle_table" where
  "update_slot slot f table = table\<lparr>ht_slots := (ht_slots table)[slot := f (ht_slots table ! slot)]\<rparr>"

text \<open>\<open>entry.take().expect(..)\<close> followed by the checked decrement of the live count.\<close>

definition take_entry :: "handle_table \<Rightarrow> nat \<Rightarrow> (handle_entry \<times> handle_table) option" where
  "take_entry table slot =
    do { entry \<leftarrow> hs_entry (ht_slots table ! slot);
         live \<leftarrow> checked_sub_usize (ht_live_count table) 1;
         Some (entry, (update_slot slot (\<lambda>s. s\<lparr>hs_entry := None\<rparr>) table)\<lparr>ht_live_count := live\<rparr>) }"

definition retire_if_exhausted :: "nat \<Rightarrow> handle_table \<Rightarrow> handle_table" where
  "retire_if_exhausted slot table =
    (if handle_next_generation (hs_generation (ht_slots table ! slot)) = None
     then update_slot slot (\<lambda>s. s\<lparr>hs_retired := True\<rparr>) table else table)"

section \<open>Reservations\<close>

definition mint_permit :: "u64 \<Rightarrow> (u64 \<times> u64) option" where
  "mint_permit next_permit = do { next \<leftarrow> checked_next next_permit; Some (next_permit, next) }"

text \<open>
  The scan of \<open>reserve_slot_with_kind\<close> from slot \<open>slot\<close> on. It returns the reservation, the
  slots from there on and the next permit; running out of permits is a panic.
\<close>

fun reserve_scan ::
  "nat option \<Rightarrow> slot_reservation_kind \<Rightarrow> bool \<Rightarrow> u64 \<Rightarrow> nat \<Rightarrow> handle_slot list \<Rightarrow>
   ((reservation, handle_table_error) result \<times> handle_slot list \<times> u64) option" where
  "reserve_scan excluded kind retire np slot [] = Some (Err HandleCapacity, [], np)"
| "reserve_scan excluded kind retire np slot (s # rest) =
    (let skip = (\<lambda>s'. do { (r, rest', np') \<leftarrow> reserve_scan excluded kind retire np (slot + 1) rest;
                            Some (r, s' # rest', np') });
         exhausted = (if retire then s\<lparr>hs_retired := True\<rparr> else s) in
     if excluded = Some slot \<or> hs_retired s \<or> hs_entry s \<noteq> None \<or> hs_reservation s \<noteq> None then skip s
     else (case handle_next_generation (hs_generation s) of
         None \<Rightarrow> skip exhausted
       | Some generation \<Rightarrow> (case encode_handle slot generation of
           None \<Rightarrow> skip exhausted
         | Some handle \<Rightarrow>
             do { (permit, np') \<leftarrow> mint_permit np;
                  Some (Ok \<lparr>rv_slot = slot, rv_prior_generation = hs_generation s,
                      rv_generation = generation, rv_handle = handle, rv_permit = permit\<rparr>,
                    s\<lparr>hs_reservation := Some \<lparr>sr_permit = permit, sr_kind = kind\<rparr>\<rparr> # rest, np') })))"

definition reserve_slot_with_kind ::
  "handle_table \<Rightarrow> nat option \<Rightarrow> slot_reservation_kind \<Rightarrow> bool \<Rightarrow>
   ((reservation, handle_table_error) result \<times> handle_table) option" where
  "reserve_slot_with_kind table excluded kind retire_exhausted =
    do { (r, slots, np) \<leftarrow>
           reserve_scan excluded kind retire_exhausted (ht_next_permit table) 0 (ht_slots table);
         Some (r, table\<lparr>ht_slots := slots, ht_next_permit := np\<rparr>) }"

definition reserve_slot_unpublished ::
  "handle_table \<Rightarrow> nat option \<Rightarrow> ((reservation, handle_table_error) result \<times> handle_table) option" where
  "reserve_slot_unpublished table excluded = reserve_slot_with_kind table excluded Destination False"

definition reserve_slot_excluding ::
  "handle_table \<Rightarrow> nat option \<Rightarrow> ((reservation, handle_table_error) result \<times> handle_table) option" where
  "reserve_slot_excluding table excluded = reserve_slot_with_kind table excluded Destination True"

definition reserve_slot ::
  "handle_table \<Rightarrow> ((reservation, handle_table_error) result \<times> handle_table) option" where
  "reserve_slot table = reserve_slot_excluding table None"

definition reserve_live_slot ::
  "handle_table \<Rightarrow> nat \<Rightarrow> slot_reservation_kind \<Rightarrow>
   ((u64, handle_table_error) result \<times> handle_table) option" where
  "reserve_live_slot table slot kind =
    (if hs_reservation (ht_slots table ! slot) \<noteq> None then Some (Err AccessDenied, table)
     else do { (permit, np) \<leftarrow> mint_permit (ht_next_permit table);
               Some (Ok permit,
                 update_slot slot (\<lambda>s. s\<lparr>hs_reservation := Some \<lparr>sr_permit = permit, sr_kind = kind\<rparr>\<rparr>)
                   (table\<lparr>ht_next_permit := np\<rparr>)) })"

definition validate_reservation ::
  "handle_table \<Rightarrow> reservation \<Rightarrow> slot_reservation_kind \<Rightarrow>
   (unit, handle_reservation_error) result option" where
  "validate_reservation table reservation expected_kind =
    do { slot \<leftarrow> slice_get (ht_slots table) (rv_slot reservation);
         Some (if hs_reservation slot \<noteq> Some \<lparr>sr_permit = rv_permit reservation, sr_kind = expected_kind\<rparr>
           then Err StalePermit
           else if hs_retired slot \<or> hs_entry slot \<noteq> None \<or>
               hs_generation slot \<noteq> rv_prior_generation reservation
           then Err Conflict else Ok ()) }"

definition release_reservation ::
  "handle_table \<Rightarrow> reservation \<Rightarrow> slot_reservation_kind \<Rightarrow>
   ((unit, handle_reservation_error) result \<times> handle_table) option" where
  "release_reservation table reservation expected_kind =
    do { r \<leftarrow> validate_reservation table reservation expected_kind;
         Some (case r of
             Err e \<Rightarrow> (Err e, table)
           | Ok _ \<Rightarrow> (Ok (), update_slot (rv_slot reservation) (\<lambda>s. s\<lparr>hs_reservation := None\<rparr>) table)) }"

definition publish ::
  "handle_table \<Rightarrow> reservation \<Rightarrow> handle_entry \<Rightarrow>
   ((unit, handle_reservation_error \<times> handle_entry) result \<times> handle_table) option" where
  "publish table reservation entry =
    do { r \<leftarrow> validate_reservation table reservation Destination;
         case r of
           Err e \<Rightarrow> Some (Err (e, entry), table)
         | Ok _ \<Rightarrow>
             do { live \<leftarrow> checked_add_usize (ht_live_count table) 1;
                  Some (Ok (), (update_slot (rv_slot reservation)
                    (\<lambda>s. s\<lparr>hs_generation := rv_generation reservation, hs_entry := Some entry,
                          hs_reservation := None\<rparr>) table)\<lparr>ht_live_count := live\<rparr>) } }"

section \<open>Public operations\<close>

definition install ::
  "handle_table \<Rightarrow> handle_ref \<Rightarrow> dw_rights \<Rightarrow>
   ((dw_handle, install_error) result \<times> handle_table) option" where
  "install table reference rights =
    (case and_then (validate_requested_syntax rights)
        (\<lambda>_. validate_compatible (hr_object_type reference) rights) of
      Err error \<Rightarrow> Some (Err \<lparr>ie_error = rights_error error, ie_reference = reference\<rparr>, table)
    | Ok _ \<Rightarrow>
        do { (r, table1) \<leftarrow> reserve_slot table;
             case r of
               Err error \<Rightarrow> Some (Err \<lparr>ie_error = error, ie_reference = reference\<rparr>, table1)
             | Ok reservation \<Rightarrow>
                 do { (p, table2) \<leftarrow> publish table1 reservation
                        \<lparr>he_reference = reference, he_rights = rights\<rparr>;
                      _ \<leftarrow> expect_ok p;
                      Some (Ok (rv_handle reservation), table2) } })"

text \<open>The checks shared by \<open>lookup\<close> and \<open>inspect_object_id\<close>, in the order of the code.\<close>

definition checked_entry ::
  "handle_table \<Rightarrow> dw_handle \<Rightarrow> accepted_object_types \<Rightarrow> dw_rights \<Rightarrow>
   (handle_entry, handle_table_error) result option" where
  "checked_entry table handle accepted required_rights =
    (case validate_required_syntax required_rights of
      Err e \<Rightarrow> Some (Err (rights_error e))
    | Ok _ \<Rightarrow>
        do { r \<leftarrow> resolve_entry table handle;
             Some (and_then r (\<lambda>entry.
               let object_type = hr_object_type (he_reference entry) in
               if \<not> accepts accepted object_type then Err WrongObjectType
               else and_then (map_err rights_error (validate_compatible object_type required_rights)) (\<lambda>_.
                 and_then (map_err rights_error (require_held (he_rights entry) required_rights)) (\<lambda>_.
                   Ok entry)))) })"

definition lookup ::
  "handle_table \<Rightarrow> object_registry \<Rightarrow> dw_handle \<Rightarrow> accepted_object_types \<Rightarrow> dw_rights \<Rightarrow>
   ((resolved_handle, handle_table_error) result \<times> object_registry) option" where
  "lookup table registry handle accepted required_rights =
    do { r \<leftarrow> checked_entry table handle accepted required_rights;
         case r of
           Err e \<Rightarrow> Some (Err e, registry)
         | Ok entry \<Rightarrow>
             (case retain_internal_from_handle registry (he_reference entry) of
               (Err e, registry') \<Rightarrow> do { e' \<leftarrow> retain_error e; Some (Err e', registry') }
             | (Ok reference, registry') \<Rightarrow>
                 Some (Ok \<lparr>rh_reference = reference, rh_rights = he_rights entry\<rparr>, registry')) }"

definition inspect_object_id ::
  "handle_table \<Rightarrow> dw_handle \<Rightarrow> accepted_object_types \<Rightarrow> dw_rights \<Rightarrow>
   (object_id, handle_table_error) result option" where
  "inspect_object_id table handle accepted required_rights =
    do { r \<leftarrow> checked_entry table handle accepted required_rights;
         Some (and_then r (\<lambda>entry. Ok (hr_id (he_reference entry)))) }"

definition inspect_basic ::
  "handle_table \<Rightarrow> dw_handle \<Rightarrow> (basic_handle_info, handle_table_error) result option" where
  "inspect_basic table handle =
    do { r \<leftarrow> resolve_entry table handle;
         Some (and_then r (\<lambda>entry.
           and_then (map_err rights_error (require_held (he_rights entry) DW_RIGHT_INSPECT)) (\<lambda>_.
             Ok \<lparr>bi_object_type = hr_object_type (he_reference entry), bi_rights = he_rights entry\<rparr>))) }"

definition close ::
  "handle_table \<Rightarrow> object_registry \<Rightarrow> dw_handle \<Rightarrow>
   ((final_release option, handle_table_error) result \<times> handle_table \<times> object_registry) option" where
  "close table registry handle =
    (case resolve_mutation_slot table handle of
      Err e \<Rightarrow> Some (Err e, table, registry)
    | Ok slot \<Rightarrow>
        do { (entry, table1) \<leftarrow> take_entry table slot;
             case release_handle registry (he_reference entry) of
               (Ok final_release, registry') \<Rightarrow>
                 Some (Ok final_release, retire_if_exhausted slot table1, registry')
             | (Err _, _) \<Rightarrow> None })"

definition duplicate ::
  "handle_table \<Rightarrow> object_registry \<Rightarrow> dw_handle \<Rightarrow> dw_rights \<Rightarrow>
   ((dw_handle, handle_table_error) result \<times> handle_table \<times> object_registry) option" where
  "duplicate table registry source requested_rights =
    (case and_then (map_err rights_error (validate_requested_syntax requested_rights))
        (\<lambda>_. resolve_mutation_slot table source) of
      Err e \<Rightarrow> Some (Err e, table, registry)
    | Ok source_slot \<Rightarrow>
        do { entry \<leftarrow> hs_entry (ht_slots table ! source_slot);
             let object_type = hr_object_type (he_reference entry);
             let held_rights = he_rights entry;
             case and_then (map_err rights_error (validate_compatible object_type requested_rights)) (\<lambda>_.
                 and_then (map_err rights_error (require_held held_rights DW_RIGHT_DUPLICATE)) (\<lambda>_.
                   map_err rights_error (require_subset held_rights requested_rights))) of
               Err e \<Rightarrow> Some (Err e, table, registry)
             | Ok _ \<Rightarrow>
                 do { (r, table1) \<leftarrow> reserve_slot table;
                      case r of
                        Err e \<Rightarrow> Some (Err e, table1, registry)
                      | Ok reservation \<Rightarrow>
                          do { entry1 \<leftarrow> hs_entry (ht_slots table1 ! source_slot);
                               case retain_handle registry (he_reference entry1) of
                                 (Err e, registry') \<Rightarrow>
                                   do { e' \<leftarrow> retain_error e; Some (Err e', table1, registry') }
                               | (Ok retained, registry') \<Rightarrow>
                                   do { (p, table2) \<leftarrow> publish table1 reservation
                                          \<lparr>he_reference = retained, he_rights = requested_rights\<rparr>;
                                        _ \<leftarrow> expect_ok p;
                                        Some (Ok (rv_handle reservation), table2, registry') } } } })"

text \<open>\<open>ResolvedHandle::retain\<close>, \<open>basic_info\<close> and \<open>from_kernel_reference\<close>.\<close>

definition resolved_retain ::
  "resolved_handle \<Rightarrow> object_registry \<Rightarrow>
   ((resolved_handle, handle_table_error) result \<times> object_registry) option" where
  "resolved_retain resolved registry =
    (case retain_internal registry (rh_reference resolved) of
      (Err e, registry') \<Rightarrow> do { e' \<leftarrow> retain_error e; Some (Err e', registry') }
    | (Ok reference, registry') \<Rightarrow>
        Some (Ok \<lparr>rh_reference = reference, rh_rights = rh_rights resolved\<rparr>, registry'))"

definition resolved_basic_info :: "resolved_handle \<Rightarrow> basic_handle_info" where
  "resolved_basic_info resolved =
    \<lparr>bi_object_type = ir_object_type (rh_reference resolved), bi_rights = rh_rights resolved\<rparr>"

definition from_kernel_reference ::
  "object_registry \<Rightarrow> handle_ref \<Rightarrow> dw_rights \<Rightarrow>
   ((resolved_handle, handle_table_error) result \<times> object_registry) option" where
  "from_kernel_reference registry reference rights =
    (case and_then (map_err rights_error (validate_requested_syntax rights))
        (\<lambda>_. map_err rights_error (validate_compatible (hr_object_type reference) rights)) of
      Err e \<Rightarrow> Some (Err e, registry)
    | Ok _ \<Rightarrow>
        (case retain_internal_from_handle registry reference of
          (Err e, registry') \<Rightarrow> do { e' \<leftarrow> retain_error e; Some (Err e', registry') }
        | (Ok internal, registry') \<Rightarrow>
            Some (Ok \<lparr>rh_reference = internal, rh_rights = rights\<rparr>, registry')))"

section \<open>Draining\<close>

lemma length_update_slot [simp]: "length (ht_slots (update_slot slot f table)) = length (ht_slots table)"
  by (simp add: update_slot_def)

lemma length_retire [simp]: "length (ht_slots (retire_if_exhausted slot table)) = length (ht_slots table)"
  by (simp add: retire_if_exhausted_def)

lemma length_take_entry:
  "take_entry table slot = Some (e, table') \<Longrightarrow> length (ht_slots table') = length (ht_slots table)"
  by (auto simp: take_entry_def bind_eq_Some_conv)

text \<open>The \<open>while slot < CAPACITY\<close> loop of \<open>drain_window\<close>.\<close>

function drain_loop ::
  "handle_table \<Rightarrow> object_registry \<Rightarrow> final_release option list \<Rightarrow> nat \<Rightarrow> nat \<Rightarrow>
   (drain_window \<times> final_release option list \<times> handle_table \<times> object_registry) option" where
  "drain_loop table registry out written slot =
    (if length (ht_slots table) \<le> slot
     then Some (\<lparr>dw_written = written, dw_resume = length (ht_slots table), dw_done = True\<rparr>,
            out, table, registry)
     else if written = length out
     then Some (\<lparr>dw_written = written, dw_resume = slot, dw_done = False\<rparr>, out, table, registry)
     else if hs_reservation (ht_slots table ! slot) \<noteq> None \<or> hs_entry (ht_slots table ! slot) = None
     then drain_loop table registry out written (slot + 1)
     else (case take_entry table slot of
         None \<Rightarrow> None
       | Some (entry, table1) \<Rightarrow>
          (case release_handle registry (he_reference entry) of
             (Ok (Some final_release), registry') \<Rightarrow>
               drain_loop (retire_if_exhausted slot table1) registry' (out[written := Some final_release])
                 (written + 1) (slot + 1)
           | (Ok None, registry') \<Rightarrow>
               drain_loop (retire_if_exhausted slot table1) registry' out written (slot + 1)
           | (Err _, _) \<Rightarrow> None)))"
  by pat_completeness auto

termination
  by (relation "measure (\<lambda>(table, _, _, _, slot). length (ht_slots table) - slot)")
    (auto dest!: length_take_entry)

definition drain_window ::
  "handle_table \<Rightarrow> object_registry \<Rightarrow> nat \<Rightarrow> final_release option list \<Rightarrow>
   (drain_window \<times> final_release option list \<times> handle_table \<times> object_registry) option" where
  "drain_window table registry from_slot out =
    do { _ \<leftarrow> assert_panic (out \<noteq> []);
         drain_loop table registry out 0 from_slot }"

definition drain ::
  "handle_table \<Rightarrow> object_registry \<Rightarrow> (drain_result \<times> handle_table \<times> object_registry) option" where
  "drain table registry =
    do { (window, final_releases, table', registry') \<leftarrow>
           drain_window table registry 0 (replicate (length (ht_slots table)) None);
         _ \<leftarrow> assert_panic (dw_done window);
         Some (\<lparr>dr_final_releases = final_releases, dr_final_release_count = dw_written window\<rparr>,
           table', registry') }"

lemmas handle_table_eval [eval_simps] =
  mint_handle_table_domain_def VACANT_HANDLE_SLOT_def handle_table_new_def handle_next_generation_def
  encode_handle_def decode_handle_def retain_error_def resolve_slot_def resolve_mutation_slot_def
  resolve_entry_def update_slot_def take_entry_def retire_if_exhausted_def mint_permit_def
  reserve_slot_with_kind_def reserve_slot_unpublished_def reserve_slot_excluding_def reserve_slot_def
  reserve_live_slot_def validate_reservation_def release_reservation_def publish_def install_def
  checked_entry_def lookup_def inspect_object_id_def inspect_basic_def close_def duplicate_def
  resolved_retain_def from_kernel_reference_def drain_window_def drain_def
  validate_requested_syntax_def validate_required_syntax_def validate_compatible_def
  require_held_def require_subset_def dw_rights_are_known_def dw_rights_are_compatible_def

declare drain_loop.simps [simp del]

end
