(* ===== verification/Handle_View.thy ===== *)
theory Handle_View
  imports Handle_Table
begin

text \<open>
  The contract of the handle table. Its abstract state is a partial map from handles to
  entries, \<open>table_view\<close>; every operation of \<^verbatim>\<open>Handle_Table\<close> is an update of that map that keeps
  the representation invariant \<open>table_wf\<close>. The tokens of the entries are the table's share of
  the registry's ledger.
\<close>

section \<open>The handle codec\<close>

lemma encode_handle_is_object: "encode_handle = encode_object_id"
  by (simp add: fun_eq_iff encode_handle_def encode_object_id_def)

lemma decode_handle_is_object: "decode_handle = decode_object_id"
  by (simp add: fun_eq_iff decode_handle_def decode_object_id_def)

interpretation handle_codec: generation_codec encode_handle decode_handle
  unfolding encode_handle_is_object decode_handle_is_object
  by (rule object_codec.generation_codec_axioms)

lemma decode_handle_invalid [simp]: "decode_handle 0 = None"
  by (simp add: decode_handle_def checked_sub_def u32_try_from_u64_def Let_def)

lemma handle_next_generation_unat:
  "handle_next_generation g = Some g' \<Longrightarrow> unat g' = unat g + 1 \<and> g' \<noteq> 0"
  by (auto simp: handle_next_generation_def dest: checked_next_unat checked_next_neq_0)

section \<open>The abstract capability map\<close>

definition table_view :: "handle_table \<Rightarrow> dw_handle \<Rightarrow> handle_entry option" where
  "table_view table handle =
    (case resolve_slot table handle of Err _ \<Rightarrow> None | Ok slot \<Rightarrow> hs_entry (ht_slots table ! slot))"

text \<open>What one slot contributes for a generation.\<close>

definition slot_view :: "handle_slot \<Rightarrow> u32 \<Rightarrow> handle_entry option" where
  "slot_view s g = (if hs_retired s \<or> hs_generation s \<noteq> g then None else hs_entry s)"

lemma resolve_slot_Ok_iff:
  "resolve_slot table handle = Ok slot \<longleftrightarrow>
    slot < length (ht_slots table) \<and>
    decode_handle handle = Some (slot, hs_generation (ht_slots table ! slot)) \<and>
    \<not> hs_retired (ht_slots table ! slot) \<and> hs_entry (ht_slots table ! slot) \<noteq> None"
  by (auto simp: resolve_slot_def and_then_Ok_iff split: if_splits prod.splits)

lemma resolve_slot_Err: "resolve_slot table handle = Err e \<Longrightarrow> e = InvalidHandle"
  by (auto simp: resolve_slot_def and_then_Err_iff split: if_splits prod.splits)

lemma table_view_decode:
  "table_view table handle =
    (case decode_handle handle of None \<Rightarrow> None
     | Some (slot, g) \<Rightarrow> if slot < length (ht_slots table) then slot_view (ht_slots table ! slot) g else None)"
  by (auto simp: table_view_def resolve_slot_def slot_view_def slice_get_def split: option.splits prod.splits)

lemma table_view_Some_iff:
  "table_view table handle = Some e \<longleftrightarrow>
    (\<exists>slot. resolve_slot table handle = Ok slot \<and> hs_entry (ht_slots table ! slot) = Some e)"
  by (auto simp: table_view_def split: result.splits)

lemma resolve_slot_entry:
  assumes "resolve_slot table handle = Ok slot"
  obtains e where "hs_entry (ht_slots table ! slot) = Some e" "slot < length (ht_slots table)"
  using assms by (auto simp: resolve_slot_Ok_iff)

lemma table_view_None_iff: "table_view table handle = None \<longleftrightarrow> resolve_slot table handle = Err InvalidHandle"
proof (cases "resolve_slot table handle")
  case (Ok slot)
  then show ?thesis by (auto simp: table_view_def elim: resolve_slot_entry)
qed (simp add: table_view_def resolve_slot_Err)

lemma resolve_entry_view:
  "resolve_entry table handle =
    Some (case table_view table handle of None \<Rightarrow> Err InvalidHandle | Some e \<Rightarrow> Ok e)"
proof (cases "resolve_slot table handle")
  case (Ok slot)
  then show ?thesis by (auto simp: resolve_entry_def table_view_def elim: resolve_slot_entry)
qed (simp add: resolve_entry_def table_view_def resolve_slot_Err)

text \<open>Two slot lists with the same visible content give the same map.\<close>

lemma table_view_cong:
  assumes "length (ht_slots t') = length (ht_slots t)"
    and "\<And>j. j < length (ht_slots t) \<Longrightarrow> slot_view (ht_slots t' ! j) = slot_view (ht_slots t ! j)"
  shows "table_view t' = table_view t"
  using assms by (auto simp: fun_eq_iff table_view_decode split: option.splits)

text \<open>A change of one slot changes the map at that slot's handles only.\<close>

lemma table_view_slot:
  assumes len: "length (ht_slots t') = length (ht_slots t)" and i: "i < length (ht_slots t)"
    and same: "\<And>j. j < length (ht_slots t) \<Longrightarrow> j \<noteq> i \<Longrightarrow> slot_view (ht_slots t' ! j) = slot_view (ht_slots t ! j)"
    and h: "decode_handle h = Some (i, g)"
    and new: "slot_view (ht_slots t' ! i) = (slot_view (ht_slots t ! i))(g := e)"
  shows "table_view t' = (table_view t)(h := e)"
proof
  fix h'
  show "table_view t' h' = ((table_view t)(h := e)) h'"
  proof (cases "h' = h")
    case True
    then show ?thesis using len i h new by (simp add: table_view_decode)
  next
    case False
    have "decode_handle h' \<noteq> Some (i, g)" using handle_codec.decode_inj [OF _ h] False by blast
    moreover have "slot_view (ht_slots t' ! j) g' = slot_view (ht_slots t ! j) g'"
      if "j < length (ht_slots t)" "(j, g') \<noteq> (i, g)" for j g'
      using that same [of j] new by (cases "j = i") auto
    ultimately show ?thesis
      using False len by (auto simp: table_view_decode split: option.splits)
  qed
qed

section \<open>The representation invariant\<close>

definition has_entry :: "handle_slot \<Rightarrow> bool" where
  "has_entry s \<longleftrightarrow> hs_entry s \<noteq> None"

definition entry_ok :: "nat \<Rightarrow> handle_slot \<Rightarrow> bool" where
  "entry_ok i s =
    (case hs_entry s of None \<Rightarrow> True
     | Some e \<Rightarrow> hs_generation s \<noteq> 0 \<and> \<not> hs_retired s \<and> i + 1 < 2 ^ 32 \<and>
         rights_wf (hr_object_type (he_reference e)) (he_rights e))"

definition reservation_ok :: "u64 \<Rightarrow> nat \<Rightarrow> handle_slot \<Rightarrow> bool" where
  "reservation_ok np i s =
    (case hs_reservation s of None \<Rightarrow> True
     | Some r \<Rightarrow> unat (sr_permit r) < unat np \<and>
         (case sr_kind r of
            Destination \<Rightarrow> hs_entry s = None \<and> \<not> hs_retired s \<and> i + 1 < 2 ^ 32 \<and>
              handle_next_generation (hs_generation s) \<noteq> None
          | MoveExtracted \<Rightarrow> hs_entry s = None \<and> \<not> hs_retired s \<and> i + 1 < 2 ^ 32 \<and> hs_generation s \<noteq> 0
          | MovePrepared \<Rightarrow> True))"

definition hslot_ok :: "u64 \<Rightarrow> nat \<Rightarrow> handle_slot \<Rightarrow> bool" where
  "hslot_ok np i s \<longleftrightarrow> entry_ok i s \<and> reservation_ok np i s"

lemmas hslot_ok_defs = hslot_ok_def entry_ok_def reservation_ok_def

definition table_wf :: "handle_table \<Rightarrow> bool" where
  "table_wf t \<longleftrightarrow> length (ht_slots t) < 2 ^ 64 \<and>
    ht_live_count t = length (filter has_entry (ht_slots t)) \<and>
    (\<forall>i<length (ht_slots t). hslot_ok (ht_next_permit t) i (ht_slots t ! i))"

lemma reservation_ok_mono: "reservation_ok np i s \<Longrightarrow> unat np \<le> unat np' \<Longrightarrow> reservation_ok np' i s"
  by (auto simp: reservation_ok_def split: option.splits)

lemma hslot_ok_mono: "hslot_ok np i s \<Longrightarrow> unat np \<le> unat np' \<Longrightarrow> hslot_ok np' i s"
  by (auto simp: hslot_ok_def intro: reservation_ok_mono)

lemma table_wf_slot: "table_wf t \<Longrightarrow> i < length (ht_slots t) \<Longrightarrow> hslot_ok (ht_next_permit t) i (ht_slots t ! i)"
  by (simp add: table_wf_def)

lemma update_slot_nth:
  "j < length (ht_slots t) \<Longrightarrow>
    ht_slots (update_slot i f t) ! j = (if i = j then f (ht_slots t ! j) else ht_slots t ! j)"
  by (simp add: update_slot_def nth_update_if)

lemma update_slot_select [simp]:
  "ht_domain (update_slot i f t) = ht_domain t" "ht_live_count (update_slot i f t) = ht_live_count t"
  "ht_next_permit (update_slot i f t) = ht_next_permit t"
  by (simp_all add: update_slot_def)

lemma table_wf_update:
  assumes wf: "table_wf t" and i: "i < length (ht_slots t)"
    and ok: "hslot_ok (ht_next_permit t) i (f (ht_slots t ! i))"
    and live: "n + (if has_entry (ht_slots t ! i) then 1 else 0)
      = ht_live_count t + (if has_entry (f (ht_slots t ! i)) then 1 else 0)"
  shows "table_wf ((update_slot i f t)\<lparr>ht_live_count := n\<rparr>)"
proof -
  have "n = length (filter has_entry (ht_slots (update_slot i f t)))"
    using count_list_filter_update [OF i, of has_entry "f (ht_slots t ! i)"] live wf
    by (simp add: table_wf_def update_slot_def split: if_splits)
  with wf i ok show ?thesis by (auto simp: table_wf_def update_slot_nth)
qed

lemma table_wf_update_same:
  assumes "table_wf t" and "i < length (ht_slots t)" and "hslot_ok (ht_next_permit t) i (f (ht_slots t ! i))"
    and "has_entry (f (ht_slots t ! i)) = has_entry (ht_slots t ! i)"
  shows "table_wf (update_slot i f t)"
  using table_wf_update [of t i f "ht_live_count t"] assms by (simp add: update_slot_def)

text \<open>The tokens of the live entries.\<close>

definition slot_tokens :: "handle_slot \<Rightarrow> token multiset" where
  "slot_tokens s = (case hs_entry s of None \<Rightarrow> {#} | Some e \<Rightarrow> {#handle_token (he_reference e)#})"

definition table_tokens :: "handle_table \<Rightarrow> token multiset" where
  "table_tokens t = sum_list (map slot_tokens (ht_slots t))"

lemma table_tokens_update:
  "i < length (ht_slots t) \<Longrightarrow>
    table_tokens (update_slot i f t) + slot_tokens (ht_slots t ! i)
      = table_tokens t + slot_tokens (f (ht_slots t ! i))"
  using sum_list_update_mset [of i "ht_slots t" slot_tokens "f (ht_slots t ! i)"]
  by (simp add: table_tokens_def update_slot_def)

lemma table_tokens_cong:
  assumes "length (ht_slots t') = length (ht_slots t)"
    and "\<And>j. j < length (ht_slots t) \<Longrightarrow> hs_entry (ht_slots t' ! j) = hs_entry (ht_slots t ! j)"
  shows "table_tokens t' = table_tokens t"
proof -
  have "map slot_tokens (ht_slots t') = map slot_tokens (ht_slots t)"
    using assms by (intro nth_equalityI) (auto simp: slot_tokens_def)
  then show ?thesis by (simp add: table_tokens_def)
qed

lemma table_tokens_live_count [simp]: "table_tokens (t\<lparr>ht_live_count := n\<rparr>) = table_tokens t"
  by (simp add: table_tokens_def)

lemma slot_tokens_in_table:
  assumes "i < length (ht_slots t)" and "hs_entry (ht_slots t ! i) = Some e"
  shows "handle_token (he_reference e) \<in># table_tokens t"
proof -
  have "slot_tokens (ht_slots t ! i) \<in> set (map slot_tokens (ht_slots t))" using assms(1) by simp
  then have "slot_tokens (ht_slots t ! i) \<subseteq># table_tokens t"
    unfolding table_tokens_def by (metis in_set_conv_decomp mset_subset_eq_add_left
        sum_list.append sum_list.Cons union_assoc union_commute)
  with assms(2) show ?thesis by (simp add: slot_tokens_def)
qed

section \<open>Reservations\<close>

definition reservable :: "nat option \<Rightarrow> nat \<Rightarrow> handle_slot \<Rightarrow> bool" where
  "reservable excluded k s \<longleftrightarrow> excluded \<noteq> Some k \<and> \<not> hs_retired s \<and> hs_entry s = None \<and>
    hs_reservation s = None \<and>
    (\<exists>g. handle_next_generation (hs_generation s) = Some g \<and> encode_handle k g \<noteq> None)"

definition hslot_skipped :: "handle_slot \<Rightarrow> handle_slot \<Rightarrow> bool" where
  "hslot_skipped s s' \<longleftrightarrow> s' = s \<or>
    hs_entry s = None \<and> hs_reservation s = None \<and> s' = s\<lparr>hs_retired := True\<rparr>"

text \<open>The reservation \<open>rv\<close> that pins slot \<open>k\<close>, whose state before was \<open>s\<close>.\<close>

definition pins :: "nat \<Rightarrow> handle_slot \<Rightarrow> reservation \<Rightarrow> bool" where
  "pins k s rv \<longleftrightarrow> rv_slot rv = k \<and> rv_prior_generation rv = hs_generation s \<and>
    handle_next_generation (hs_generation s) = Some (rv_generation rv) \<and>
    encode_handle k (rv_generation rv) = Some (rv_handle rv)"

lemma reserve_scan_spec:
  assumes "reserve_scan excluded kind retire np k ss = Some (r, ss', np')"
  shows "length ss' = length ss \<and>
    (case r of
      Err e \<Rightarrow> e = HandleCapacity \<and> np' = np \<and>
        (\<forall>j<length ss. hslot_skipped (ss ! j) (ss' ! j) \<and> \<not> reservable excluded (k + j) (ss ! j))
    | Ok rv \<Rightarrow> mint_permit np = Some (rv_permit rv, np') \<and>
        (\<exists>p<length ss. reservable excluded (k + p) (ss ! p) \<and> pins (k + p) (ss ! p) rv \<and>
          ss' ! p = (ss ! p)\<lparr>hs_reservation := Some \<lparr>sr_permit = rv_permit rv, sr_kind = kind\<rparr>\<rparr> \<and>
          (\<forall>j<length ss. j \<noteq> p \<longrightarrow> hslot_skipped (ss ! j) (ss' ! j))))"
  using assms
proof (induction ss arbitrary: k r ss' np')
  case Nil
  then show ?case by auto
next
  case (Cons s ss)
  show ?case
  proof (cases "reservable excluded k s")
    case True
    then have "\<not> (excluded = Some k \<or> hs_retired s \<or> hs_entry s \<noteq> None \<or> hs_reservation s \<noteq> None)"
      and "\<exists>g h. handle_next_generation (hs_generation s) = Some g \<and> encode_handle k g = Some h"
      by (auto simp: reservable_def)
    with Cons.prems have "mint_permit np = Some (rv_permit rv, np')" "pins k s rv"
      "ss' = s\<lparr>hs_reservation := Some \<lparr>sr_permit = rv_permit rv, sr_kind = kind\<rparr>\<rparr> # ss" if "r = Ok rv" for rv
      using that by (auto simp: bind_eq_Some_conv pins_def)
    moreover have "\<exists>rv. r = Ok rv"
      using Cons.prems True by (auto simp: bind_eq_Some_conv reservable_def)
    ultimately show ?thesis
      using True by (auto simp: hslot_skipped_def nth_Cons split: nat.splits intro!: exI [of _ 0])
  next
    case False
    then obtain s' rest' where ss': "ss' = s' # rest'" "hslot_skipped s s'"
      and rest: "reserve_scan excluded kind retire np (k + 1) ss = Some (r, rest', np')"
      using Cons.prems
      by (auto simp: reservable_def hslot_skipped_def Let_def bind_eq_Some_conv
          split: if_splits option.splits)
    note IH = Cons.IH [OF rest]
    show ?thesis
    proof (cases r)
      case (Ok rv)
      with IH obtain p where "p < length ss" "reservable excluded (k + 1 + p) (ss ! p)"
        "pins (k + 1 + p) (ss ! p) rv"
        "rest' ! p = (ss ! p)\<lparr>hs_reservation := Some \<lparr>sr_permit = rv_permit rv, sr_kind = kind\<rparr>\<rparr>"
        "\<forall>j<length ss. j \<noteq> p \<longrightarrow> hslot_skipped (ss ! j) (rest' ! j)"
        by auto
      with Ok IH ss' show ?thesis
        by (auto simp: nth_Cons split: nat.splits intro!: exI [of _ "Suc p"])
    next
      case (Err e)
      with IH ss' False show ?thesis by (auto simp: nth_Cons split: nat.splits)
    qed
  qed
qed

lemma reserve_scan_no_panic:
  "mint_permit np \<noteq> None \<Longrightarrow> reserve_scan excluded kind retire np k ss \<noteq> None"
proof (induction ss arbitrary: k)
  case (Cons s ss)
  from Cons.IH [OF Cons.prems, of "k + 1"] obtain r rest' np1 where
    "reserve_scan excluded kind retire np (k + 1) ss = Some (r, rest', np1)" by (metis not_None_eq surj_pair)
  with Cons.prems show ?case by (auto simp: Let_def split: option.splits)
qed simp

text \<open>Reserving and releasing slots is invisible in the map.\<close>

definition invisible :: "handle_table \<Rightarrow> handle_table \<Rightarrow> bool" where
  "invisible t t' \<longleftrightarrow> table_view t' = table_view t \<and> table_tokens t' = table_tokens t \<and>
    ht_domain t' = ht_domain t \<and> length (ht_slots t') = length (ht_slots t) \<and>
    ht_live_count t' = ht_live_count t \<and>
    (\<forall>j<length (ht_slots t). hs_entry (ht_slots t' ! j) = hs_entry (ht_slots t ! j) \<and>
      hs_generation (ht_slots t' ! j) = hs_generation (ht_slots t ! j))"

lemma invisible_refl [simp]: "invisible t t"
  by (simp add: invisible_def)

lemma invisible_trans [trans]: "invisible t1 t2 \<Longrightarrow> invisible t2 t3 \<Longrightarrow> invisible t1 t3"
  by (simp add: invisible_def)

lemma invisibleI:
  assumes "ht_domain t' = ht_domain t" "length (ht_slots t') = length (ht_slots t)"
    "ht_live_count t' = ht_live_count t"
    and "\<And>j. j < length (ht_slots t) \<Longrightarrow> hs_entry (ht_slots t' ! j) = hs_entry (ht_slots t ! j) \<and>
      hs_generation (ht_slots t' ! j) = hs_generation (ht_slots t ! j) \<and>
      (hs_retired (ht_slots t' ! j) = hs_retired (ht_slots t ! j) \<or> hs_entry (ht_slots t ! j) = None)"
  shows "invisible t t'"
proof -
  have "slot_view (ht_slots t' ! j) = slot_view (ht_slots t ! j)" if "j < length (ht_slots t)" for j
    using assms(4) [OF that] by (auto simp: slot_view_def fun_eq_iff)
  with assms(2) have "table_view t' = table_view t" by (rule table_view_cong)
  moreover from assms(2,4) have "table_tokens t' = table_tokens t" by (blast intro: table_tokens_cong)
  ultimately show ?thesis using assms unfolding invisible_def by blast
qed

lemma hslot_skipped_ok: "hslot_skipped s s' \<Longrightarrow> hslot_ok np i s \<Longrightarrow> hslot_ok np i s'"
  by (auto simp: hslot_skipped_def hslot_ok_defs)

lemma live_count_entries:
  assumes "length ss' = length ss" and "\<And>j. j < length ss \<Longrightarrow> hs_entry (ss' ! j) = hs_entry (ss ! j)"
  shows "length (filter has_entry ss') = length (filter has_entry ss)"
proof -
  have "map has_entry ss' = map has_entry ss"
    using assms by (intro nth_equalityI) (auto simp: has_entry_def)
  then have "length (filter id (map has_entry ss')) = length (filter id (map has_entry ss))" by simp
  then show ?thesis by (simp add: filter_map o_def)
qed

lemma mint_permit_grows: "mint_permit np = Some (p, np') \<Longrightarrow> p = np \<and> unat np' = unat np + 1"
  by (auto simp: mint_permit_def bind_eq_Some_conv dest: checked_next_unat)

text \<open>A genuine outstanding destination reservation.\<close>

definition reserved :: "handle_table \<Rightarrow> reservation \<Rightarrow> bool" where
  "reserved t rv \<longleftrightarrow> rv_slot rv < length (ht_slots t) \<and>
    hs_reservation (ht_slots t ! rv_slot rv) = Some \<lparr>sr_permit = rv_permit rv, sr_kind = Destination\<rparr> \<and>
    \<not> hs_retired (ht_slots t ! rv_slot rv) \<and> hs_entry (ht_slots t ! rv_slot rv) = None \<and>
    pins (rv_slot rv) (ht_slots t ! rv_slot rv) rv"

lemma validate_reservation_Ok_iff:
  "validate_reservation t rv k = Some (Ok u) \<longleftrightarrow> rv_slot rv < length (ht_slots t) \<and>
    hs_reservation (ht_slots t ! rv_slot rv) = Some \<lparr>sr_permit = rv_permit rv, sr_kind = k\<rparr> \<and>
    \<not> hs_retired (ht_slots t ! rv_slot rv) \<and> hs_entry (ht_slots t ! rv_slot rv) = None \<and>
    hs_generation (ht_slots t ! rv_slot rv) = rv_prior_generation rv"
  by (auto simp: validate_reservation_def bind_eq_Some_conv split: if_splits)

lemma reserved_validates: "reserved t rv \<Longrightarrow> validate_reservation t rv Destination = Some (Ok ())"
  by (auto simp: reserved_def validate_reservation_Ok_iff pins_def)

lemma reserved_handle:
  "reserved t rv \<Longrightarrow> decode_handle (rv_handle rv) = Some (rv_slot rv, rv_generation rv) \<and>
    rv_generation rv \<noteq> 0 \<and> rv_slot rv + 1 < 2 ^ 32 \<and>
    rv_generation rv \<noteq> hs_generation (ht_slots t ! rv_slot rv)"
  using handle_codec.encode_defined
  by (fastforce simp: reserved_def pins_def dest: handle_codec.decode_encode handle_next_generation_unat)

lemma reserved_unseen: "reserved t rv \<Longrightarrow> table_view t (rv_handle rv) = None"
  using reserved_handle [of t rv] by (auto simp: table_view_decode slot_view_def)

text \<open>Outstanding reservations survive, and permits only grow.\<close>

definition keeps_reservations :: "handle_table \<Rightarrow> handle_table \<Rightarrow> bool" where
  "keeps_reservations t t' \<longleftrightarrow> (\<forall>rv. reserved t rv \<longrightarrow> reserved t' rv) \<and>
    unat (ht_next_permit t) \<le> unat (ht_next_permit t')"

lemma keeps_reservations_refl [simp]: "keeps_reservations t t"
  by (simp add: keeps_reservations_def)

lemma keeps_reservations_trans [trans]:
  "keeps_reservations t1 t2 \<Longrightarrow> keeps_reservations t2 t3 \<Longrightarrow> keeps_reservations t1 t3"
  by (auto simp: keeps_reservations_def)

lemma keeps_reservationsI:
  assumes "length (ht_slots t') = length (ht_slots t)" "unat (ht_next_permit t) \<le> unat (ht_next_permit t')"
    and "\<And>j. j < length (ht_slots t) \<Longrightarrow> ht_slots t' ! j = ht_slots t ! j \<or>
      (\<forall>p. hs_reservation (ht_slots t ! j) \<noteq> Some \<lparr>sr_permit = p, sr_kind = Destination\<rparr>)"
  shows "keeps_reservations t t'"
  unfolding keeps_reservations_def
proof (intro conjI allI impI)
  fix rv assume rv: "reserved t rv"
  then have "ht_slots t' ! rv_slot rv = ht_slots t ! rv_slot rv"
    using assms(3) [of "rv_slot rv"] by (auto simp: reserved_def)
  with rv assms(1) show "reserved t' rv" by (simp add: reserved_def)
qed (fact assms(2))

lemma reserve_Ok:
  assumes res: "reserve_slot_with_kind t excluded Destination retire = Some (Ok rv, t')"
  shows "invisible t t' \<and> reserved t' rv \<and> excluded \<noteq> Some (rv_slot rv) \<and> keeps_reservations t t' \<and>
    \<not> reserved t rv \<and> (table_wf t \<longrightarrow> table_wf t')"
proof -
  obtain ss np where scan: "reserve_scan excluded Destination retire (ht_next_permit t) 0 (ht_slots t) = Some (Ok rv, ss, np)"
    and t': "t' = t\<lparr>ht_slots := ss, ht_next_permit := np\<rparr>"
    using res by (auto simp: reserve_slot_with_kind_def bind_eq_Some_conv)
  from reserve_scan_spec [OF scan] obtain p where len: "length ss = length (ht_slots t)"
    and np: "mint_permit (ht_next_permit t) = Some (rv_permit rv, np)" and p: "p < length (ht_slots t)"
    and use: "reservable excluded p (ht_slots t ! p)" and pins: "pins p (ht_slots t ! p) rv"
    and here: "ss ! p = (ht_slots t ! p)\<lparr>hs_reservation := Some \<lparr>sr_permit = rv_permit rv, sr_kind = Destination\<rparr>\<rparr>"
    and others: "\<forall>j<length (ht_slots t). j \<noteq> p \<longrightarrow> hslot_skipped (ht_slots t ! j) (ss ! j)" by auto
  have slot: "rv_slot rv = p" using pins by (simp add: pins_def)
  have each: "hs_entry (ss ! j) = hs_entry (ht_slots t ! j)" "hs_generation (ss ! j) = hs_generation (ht_slots t ! j)"
    "hs_retired (ss ! j) = hs_retired (ht_slots t ! j) \<or> hs_entry (ht_slots t ! j) = None"
    if "j < length (ht_slots t)" for j
    using here others that by (cases "j = p"; force simp: hslot_skipped_def)+
  then have "invisible t t'" unfolding t' using len by (intro invisibleI) auto
  moreover have "reserved t' rv"
    using p len here use pins by (auto simp: t' reserved_def slot pins_def reservable_def)
  moreover have "keeps_reservations t t'"
    unfolding t' using len mint_permit_grows [OF np] here others use
    by (intro keeps_reservationsI) (auto simp: hslot_skipped_def reservable_def)
  moreover have "\<not> reserved t rv" using use by (auto simp: reserved_def slot reservable_def)
  moreover have "table_wf t'" if wf: "table_wf t"
  proof -
    have "hslot_ok np j (ss ! j)" if j: "j < length (ht_slots t)" for j
    proof (cases "j = p")
      case True
      then show ?thesis
        using use here mint_permit_grows [OF np] handle_codec.encode_defined
        by (auto simp: hslot_ok_defs reservable_def)
    next
      case False
      then have "hslot_ok (ht_next_permit t) j (ss ! j)"
        using others j wf by (auto simp: table_wf_def intro: hslot_skipped_ok)
      then show ?thesis by (rule hslot_ok_mono) (simp add: mint_permit_grows [OF np])
    qed
    moreover have "length (filter has_entry ss) = length (filter has_entry (ht_slots t))"
      using len each(1) by (rule live_count_entries)
    ultimately show ?thesis using wf len by (simp add: t' table_wf_def)
  qed
  ultimately show ?thesis using use slot by (auto simp: reservable_def)
qed

lemma reserve_Err:
  assumes res: "reserve_slot_with_kind t excluded Destination retire = Some (Err e, t')"
  shows "e = HandleCapacity \<and> invisible t t' \<and> keeps_reservations t t' \<and> (table_wf t \<longrightarrow> table_wf t') \<and>
    (\<forall>j<length (ht_slots t). \<not> reservable excluded j (ht_slots t ! j))"
proof -
  obtain ss np where scan: "reserve_scan excluded Destination retire (ht_next_permit t) 0 (ht_slots t) = Some (Err e, ss, np)"
    and t': "t' = t\<lparr>ht_slots := ss, ht_next_permit := np\<rparr>"
    using res by (auto simp: reserve_slot_with_kind_def bind_eq_Some_conv)
  from reserve_scan_spec [OF scan] have e: "e = HandleCapacity" and len: "length ss = length (ht_slots t)"
    and np: "np = ht_next_permit t"
    and skip: "\<And>j. j < length (ht_slots t) \<Longrightarrow> hslot_skipped (ht_slots t ! j) (ss ! j)"
    and full: "\<forall>j<length (ht_slots t). \<not> reservable excluded j (ht_slots t ! j)" by auto
  have each: "hs_entry (ss ! j) = hs_entry (ht_slots t ! j)" "hs_generation (ss ! j) = hs_generation (ht_slots t ! j)"
    "hs_retired (ss ! j) = hs_retired (ht_slots t ! j) \<or> hs_entry (ht_slots t ! j) = None"
    if "j < length (ht_slots t)" for j
    using skip [OF that] by (auto simp: hslot_skipped_def)
  then have "invisible t t'" unfolding t' using len by (intro invisibleI) auto
  moreover have "keeps_reservations t t'"
    unfolding t' using len np skip by (intro keeps_reservationsI) (fastforce simp: hslot_skipped_def)+
  moreover have "length (filter has_entry ss) = length (filter has_entry (ht_slots t))"
    using len each(1) by (rule live_count_entries)
  then have "table_wf t'" if "table_wf t"
    using that len skip np unfolding t' table_wf_def by (auto intro: hslot_skipped_ok)
  ultimately show ?thesis using e full by blast
qed

lemma reserve_no_panic:
  "mint_permit (ht_next_permit t) \<noteq> None \<Longrightarrow> \<exists>r t'. reserve_slot_with_kind t excluded k retire = Some (r, t')"
  using reserve_scan_no_panic [of "ht_next_permit t" excluded k retire 0 "ht_slots t"]
  by (auto simp: reserve_slot_with_kind_def)

text \<open>The other outstanding reservations survive an operation on slot \<open>i\<close>.\<close>

definition keeps_other_reservations :: "nat \<Rightarrow> handle_table \<Rightarrow> handle_table \<Rightarrow> bool" where
  "keeps_other_reservations i t t' \<longleftrightarrow> ht_domain t' = ht_domain t \<and> ht_next_permit t' = ht_next_permit t \<and>
    length (ht_slots t') = length (ht_slots t) \<and>
    (\<forall>j<length (ht_slots t). j \<noteq> i \<longrightarrow> ht_slots t' ! j = ht_slots t ! j)"

lemma keeps_other_reservationsD:
  "keeps_other_reservations i t t' \<Longrightarrow> reserved t rv \<Longrightarrow> rv_slot rv \<noteq> i \<Longrightarrow> reserved t' rv"
  by (auto simp: keeps_other_reservations_def reserved_def)

lemma keeps_other_update: "keeps_other_reservations i t ((update_slot i f t)\<lparr>ht_live_count := n\<rparr>)"
  "keeps_other_reservations i t (update_slot i f t)"
  by (auto simp: keeps_other_reservations_def update_slot_nth)

lemma keeps_other_trans:
  "keeps_other_reservations i t1 t2 \<Longrightarrow> keeps_other_reservations i t2 t3 \<Longrightarrow> keeps_other_reservations i t1 t3"
  by (auto simp: keeps_other_reservations_def)

lemma keeps_other_unreserved:
  assumes "keeps_other_reservations i t t'" and "i < length (ht_slots t)"
    and "\<And>p. hs_reservation (ht_slots t ! i) \<noteq> Some \<lparr>sr_permit = p, sr_kind = Destination\<rparr>"
  shows "keeps_reservations t t'"
  using assms unfolding keeps_other_reservations_def by (intro keeps_reservationsI) auto

lemma release_reserved:
  assumes wf: "table_wf t" and rv: "reserved t rv"
  shows "\<exists>t'. release_reservation t rv Destination = Some (Ok (), t') \<and> invisible t t' \<and> table_wf t' \<and>
    keeps_other_reservations (rv_slot rv) t t' \<and>
    ht_slots t' ! rv_slot rv = (ht_slots t ! rv_slot rv)\<lparr>hs_reservation := None\<rparr>"
proof -
  let ?t = "update_slot (rv_slot rv) (\<lambda>s. s\<lparr>hs_reservation := None\<rparr>) t"
  have i: "rv_slot rv < length (ht_slots t)" using rv by (simp add: reserved_def)
  have "release_reservation t rv Destination = Some (Ok (), ?t)"
    by (simp add: release_reservation_def reserved_validates [OF rv])
  moreover have "invisible t ?t" by (intro invisibleI) (auto simp: update_slot_nth)
  moreover have "table_wf ?t"
    using wf i table_wf_slot [OF wf i]
    by (intro table_wf_update_same) (auto simp: hslot_ok_defs has_entry_def split: option.splits)
  ultimately show ?thesis using i by (auto simp: keeps_other_update update_slot_nth)
qed

lemma live_count_less:
  assumes "table_wf t" and "i < length (ht_slots t)" and "hs_entry (ht_slots t ! i) = None"
  shows "ht_live_count t < length (ht_slots t)"
  using assms length_filter_less [of "ht_slots t ! i" "ht_slots t" has_entry]
  by (simp add: table_wf_def has_entry_def)

lemma live_count_pos:
  assumes "table_wf t" and "i < length (ht_slots t)" and "hs_entry (ht_slots t ! i) = Some e"
  shows "0 < ht_live_count t"
  using assms length_filter_pos [of i "ht_slots t" has_entry] by (simp add: table_wf_def has_entry_def)

text \<open>Filling and emptying a slot, as updates of the map.\<close>

lemma table_view_update_slot:
  assumes "i < length (ht_slots t)" and "decode_handle h = Some (i, g)"
    and "slot_view (f (ht_slots t ! i)) = (slot_view (ht_slots t ! i))(g := e)"
  shows "table_view ((update_slot i f t)\<lparr>ht_live_count := n\<rparr>) = (table_view t)(h := e)"
  by (rule table_view_slot [OF _ assms(1) _ assms(2)])
    (use assms in \<open>auto simp: update_slot_nth\<close>)

lemma publish_reserved:
  assumes wf: "table_wf t" and rv: "reserved t rv"
    and rights: "rights_wf (hr_object_type (he_reference e)) (he_rights e)"
  shows "\<exists>t'. publish t rv e = Some (Ok (), t') \<and> table_wf t' \<and>
    table_view t' = (table_view t)(rv_handle rv \<mapsto> e) \<and>
    table_tokens t' = add_mset (handle_token (he_reference e)) (table_tokens t) \<and>
    keeps_other_reservations (rv_slot rv) t t' \<and> hs_reservation (ht_slots t' ! rv_slot rv) = None"
proof -
  let ?i = "rv_slot rv"
  let ?f = "\<lambda>s. s\<lparr>hs_generation := rv_generation rv, hs_entry := Some e, hs_reservation := None\<rparr>"
  let ?t = "(update_slot ?i ?f t)\<lparr>ht_live_count := ht_live_count t + 1\<rparr>"
  have i: "?i < length (ht_slots t)" and none: "hs_entry (ht_slots t ! ?i) = None"
    and live: "\<not> hs_retired (ht_slots t ! ?i)"
    using rv by (auto simp: reserved_def)
  note h = reserved_handle [OF rv]
  have "ht_live_count t + 1 < 2 ^ 64"
    using live_count_less [OF wf i none] wf by (simp add: table_wf_def)
  then have "publish t rv e = Some (Ok (), ?t)"
    by (simp add: publish_def reserved_validates [OF rv] checked_add_usize_def)
  moreover have "table_wf ?t"
    using wf i none live rights h
    by (intro table_wf_update) (auto simp: hslot_ok_defs has_entry_def)
  moreover have "table_view ?t = (table_view t)(rv_handle rv \<mapsto> e)"
    using i h none live by (intro table_view_update_slot) (auto simp: slot_view_def fun_eq_iff)
  moreover have "table_tokens ?t = add_mset (handle_token (he_reference e)) (table_tokens t)"
    using table_tokens_update [OF i, of ?f] none by (simp add: slot_tokens_def)
  ultimately show ?thesis using i by (auto simp: keeps_other_update update_slot_nth)
qed

lemma take_entry_refines:
  assumes wf: "table_wf t" and i: "i < length (ht_slots t)" and e: "hs_entry (ht_slots t ! i) = Some e"
    and h: "decode_handle h = Some (i, hs_generation (ht_slots t ! i))"
  shows "\<exists>t'. take_entry t i = Some (e, t') \<and> table_wf t' \<and> table_view t' = (table_view t)(h := None) \<and>
    table_tokens t = add_mset (handle_token (he_reference e)) (table_tokens t') \<and>
    keeps_other_reservations i t t' \<and> ht_slots t' ! i = (ht_slots t ! i)\<lparr>hs_entry := None\<rparr>"
proof -
  let ?f = "\<lambda>s. s\<lparr>hs_entry := None\<rparr>"
  let ?t = "(update_slot i ?f t)\<lparr>ht_live_count := ht_live_count t - 1\<rparr>"
  have live: "0 < ht_live_count t" by (rule live_count_pos [OF wf i e])
  then have "take_entry t i = Some (e, ?t)" by (simp add: take_entry_def e checked_sub_usize_def Suc_le_eq)
  moreover have "table_wf ?t"
    using wf i e live table_wf_slot [OF wf i]
    by (intro table_wf_update) (auto simp: hslot_ok_defs has_entry_def split: option.splits slot_reservation_kind.splits)
  moreover have "table_view ?t = (table_view t)(h := None)"
    using i h by (intro table_view_update_slot) (auto simp: slot_view_def fun_eq_iff)
  moreover have "table_tokens t = add_mset (handle_token (he_reference e)) (table_tokens ?t)"
    using table_tokens_update [OF i, of ?f] e by (simp add: slot_tokens_def)
  ultimately show ?thesis using i by (auto simp: keeps_other_update update_slot_nth)
qed

lemma retire_invisible:
  assumes "i < length (ht_slots t)" and "hs_entry (ht_slots t ! i) = None"
    and "\<forall>r. hs_reservation (ht_slots t ! i) = Some r \<longrightarrow> sr_kind r = MovePrepared"
  shows "invisible t (retire_if_exhausted i t) \<and> (table_wf t \<longrightarrow> table_wf (retire_if_exhausted i t)) \<and>
    keeps_other_reservations i t (retire_if_exhausted i t)"
proof -
  have "invisible t (retire_if_exhausted i t)"
    using assms by (intro invisibleI) (auto simp: retire_if_exhausted_def update_slot_nth)
  moreover have "table_wf (retire_if_exhausted i t)" if "table_wf t"
    using that assms table_wf_slot [OF that assms(1)] unfolding retire_if_exhausted_def
    by (auto intro!: table_wf_update_same simp: hslot_ok_defs has_entry_def split: option.splits)
  moreover have "keeps_other_reservations i t (retire_if_exhausted i t)"
    by (auto simp: retire_if_exhausted_def keeps_other_update) (simp add: keeps_other_reservations_def)
  ultimately show ?thesis by blast
qed

end
