(* ===== verification/Handle_Ops.thy ===== *)
theory Handle_Ops
  imports Handle_View
begin

text \<open>
  The public operations of the handle table against the abstract capability map and the
  registry's ledger: no operation panics, errors change neither, and successes are the
  expected updates. A table's entries are backed by handle tokens of the ledger
  (\<open>table_state\<close>), which is what makes the \<open>expect\<close>s and \<open>panic!\<close>s of the code unreachable.
\<close>

section \<open>A table backed by a ledger\<close>

definition table_state :: "object_registry \<Rightarrow> ledger \<Rightarrow> handle_table \<Rightarrow> bool" where
  "table_state reg L t \<longleftrightarrow> accounts reg L \<and> table_wf t \<and> table_tokens t \<subseteq># lg_live L Handle"

lemma handle_token_inj [simp]: "handle_token a = handle_token b \<longleftrightarrow> a = b"
  by (auto simp: handle_token_def intro: handle_ref.equality)

lemma table_state_entry:
  assumes "table_state reg L t" and "table_view t h = Some e"
  shows "handle_token (he_reference e) \<in># lg_live L Handle"
proof -
  from assms(2) obtain slot where "resolve_slot t h = Ok slot" "hs_entry (ht_slots t ! slot) = Some e"
    by (auto simp: table_view_Some_iff)
  then have "handle_token (he_reference e) \<in># table_tokens t"
    by (auto simp: resolve_slot_Ok_iff intro: slot_tokens_in_table)
  with assms(1) show ?thesis by (auto simp: table_state_def dest: mset_subset_eqD)
qed

lemma table_view_rights:
  assumes "table_wf t" and "table_view t h = Some e"
  shows "rights_wf (hr_object_type (he_reference e)) (he_rights e)"
proof -
  from assms(2) obtain slot where "slot < length (ht_slots t)" "hs_entry (ht_slots t ! slot) = Some e"
    by (auto simp: table_view_Some_iff resolve_slot_Ok_iff)
  with table_wf_slot [OF assms(1)] show ?thesis by (force simp: hslot_ok_defs)
qed

lemma retain_error_exhausted [simp]: "retain_error ReferenceCountExhausted = Some ReferenceCapacity"
  by (simp add: retain_error_def)

text \<open>A handle whose slot is pinned by a permit cannot be closed or duplicated.\<close>

definition busy :: "handle_table \<Rightarrow> dw_handle \<Rightarrow> bool" where
  "busy t h \<longleftrightarrow> (case resolve_slot t h of Err _ \<Rightarrow> False
    | Ok slot \<Rightarrow> hs_reservation (ht_slots t ! slot) \<noteq> None)"

lemma resolve_mutation_slot_cases:
  obtains "table_view t h = None" "resolve_mutation_slot t h = Err InvalidHandle"
  | e where "table_view t h = Some e" "busy t h" "resolve_mutation_slot t h = Err AccessDenied"
  | e slot where "table_view t h = Some e" "\<not> busy t h" "resolve_mutation_slot t h = Ok slot"
    "slot < length (ht_slots t)" "hs_entry (ht_slots t ! slot) = Some e"
    "hs_reservation (ht_slots t ! slot) = None"
    "decode_handle h = Some (slot, hs_generation (ht_slots t ! slot))"
proof (cases "resolve_slot t h")
  case (Ok slot)
  then obtain e where e: "hs_entry (ht_slots t ! slot) = Some e" "slot < length (ht_slots t)"
    by (rule resolve_slot_entry)
  have v: "table_view t h = Some e" using Ok e by (simp add: table_view_def)
  have d: "decode_handle h = Some (slot, hs_generation (ht_slots t ! slot))"
    using Ok by (simp add: resolve_slot_Ok_iff)
  show ?thesis
  proof (cases "hs_reservation (ht_slots t ! slot) = None")
    case True
    then show ?thesis using that(3) [OF v _ _ e(2,1) True d] Ok
      by (simp add: busy_def resolve_mutation_slot_def)
  next
    case False
    then show ?thesis using that(2) [OF v] Ok by (simp add: busy_def resolve_mutation_slot_def)
  qed
next
  case (Err e)
  then show ?thesis using that(1) resolve_slot_Err [OF Err]
    by (simp add: resolve_mutation_slot_def table_view_def)
qed

section \<open>Installation\<close>

lemma install_Ok:
  assumes wf: "table_wf t" and ins: "install t ref rights = Some (Ok h, t')"
  shows "rights_wf (hr_object_type ref) rights \<and> table_wf t' \<and> table_view t h = None \<and>
    table_view t' = (table_view t)(h \<mapsto> \<lparr>he_reference = ref, he_rights = rights\<rparr>) \<and>
    table_tokens t' = add_mset (handle_token ref) (table_tokens t)"
proof -
  let ?e = "\<lparr>he_reference = ref, he_rights = rights\<rparr>"
  obtain rv t1 where rights: "rights_wf (hr_object_type ref) rights"
    and res: "reserve_slot_with_kind t None Destination True = Some (Ok rv, t1)"
    and pub: "publish t1 rv ?e = Some (Ok (), t')" and h: "h = rv_handle rv"
    using ins by (auto simp: install_def rights_wf_iff_validated reserve_slot_def reserve_slot_excluding_def
        bind_Some_iff result_case_Some_iff)
  from reserve_Ok [OF res] wf have inv: "invisible t t1" and rv: "reserved t1 rv" and wf1: "table_wf t1"
    by auto
  from publish_reserved [OF wf1 rv, of ?e] rights pub have "table_wf t'"
    "table_view t' = (table_view t1)(h \<mapsto> ?e)" "table_tokens t' = add_mset (handle_token ref) (table_tokens t1)"
    by (auto simp: h)
  with rights inv reserved_unseen [OF rv] show ?thesis by (simp add: invisible_def h)
qed

lemma install_Err:
  assumes "install t ref rights = Some (Err e, t')" and wf: "table_wf t"
  shows "invisible t t' \<and> table_wf t' \<and> ie_reference e = ref \<and>
    (ie_error e = InvalidRights \<and> \<not> rights_wf (hr_object_type ref) rights \<or>
     ie_error e = HandleCapacity \<and> (\<forall>j<length (ht_slots t). \<not> reservable None j (ht_slots t ! j)))"
proof (cases "and_then (validate_requested_syntax rights) (\<lambda>_. validate_compatible (hr_object_type ref) rights)")
  case (Ok u)
  from assms(1) Ok obtain e' where res: "reserve_slot_with_kind t None Destination True = Some (Err e', t')"
    and e: "e = \<lparr>ie_error = e', ie_reference = ref\<rparr>"
    by (auto simp: install_def reserve_slot_def reserve_slot_excluding_def bind_Some_iff result_case_Some_iff)
  from reserve_Err [OF res] wf show ?thesis by (auto simp: e)
next
  case (Err x)
  then have "rights_error x = InvalidRights"
    by (auto simp: and_then_Err_iff validate_requested_syntax_def validate_compatible_def split: if_splits)
  with Err assms show ?thesis by (auto simp: install_def rights_wf_iff_validated)
qed

lemma install_no_panic:
  assumes wf: "table_wf t" and permits: "mint_permit (ht_next_permit t) \<noteq> None"
  shows "\<exists>r t'. install t ref rights = Some (r, t')"
proof (cases "rights_wf (hr_object_type ref) rights")
  case True
  obtain r t1 where res: "reserve_slot_with_kind t None Destination True = Some (r, t1)"
    using reserve_no_panic [OF permits] by blast
  show ?thesis
  proof (cases r)
    case (Ok rv)
    from reserve_Ok res Ok wf have "reserved t1 rv" "table_wf t1" by blast+
    from publish_reserved [OF this(2,1), of "\<lparr>he_reference = ref, he_rights = rights\<rparr>"] True res Ok
    show ?thesis
      by (auto simp: install_def reserve_slot_def reserve_slot_excluding_def rights_wf_iff_validated)
  next
    case (Err e)
    with res True show ?thesis
      by (auto simp: install_def reserve_slot_def reserve_slot_excluding_def rights_wf_iff_validated)
  qed
next
  case False
  then obtain x where "and_then (validate_requested_syntax rights)
      (\<lambda>_. validate_compatible (hr_object_type ref) rights) = Err x"
    by (cases "and_then (validate_requested_syntax rights)
        (\<lambda>_. validate_compatible (hr_object_type ref) rights)") (auto simp: rights_wf_iff_validated)
  then show ?thesis by (simp add: install_def)
qed

section \<open>Closing\<close>

lemma close_Ok:
  assumes st: "table_state reg L t" and e: "table_view t h = Some e" and idle: "\<not> busy t h"
  shows "\<exists>f t' reg'. close t reg h = Some (Ok f, t', reg') \<and>
    table_view t' = (table_view t)(h := None) \<and> keeps_reservations t t' \<and>
    (f \<noteq> None \<longleftrightarrow> last_token L (handle_token (he_reference e))) \<and>
    table_state reg' (ledger_release Handle (handle_token (he_reference e)) f L) t'"
proof (cases rule: resolve_mutation_slot_cases [of t h])
  case (3 e' slot)
  let ?tok = "handle_token (he_reference e)"
  have [simp]: "e' = e" using 3 e by simp
  have wf: "table_wf t" and acc: "accounts reg L" and sub: "table_tokens t \<subseteq># lg_live L Handle"
    using st by (auto simp: table_state_def)
  obtain t1 where t1: "take_entry t slot = Some (e, t1)" "table_wf t1"
    "table_view t1 = (table_view t)(h := None)" "table_tokens t = add_mset ?tok (table_tokens t1)"
    "keeps_other_reservations slot t t1" "ht_slots t1 ! slot = (ht_slots t ! slot)\<lparr>hs_entry := None\<rparr>"
    using take_entry_refines [OF wf 3(4) 3(5) 3(7)] by auto
  from acc table_state_entry [OF st e] obtain f reg' where
    rel: "release_handle reg (he_reference e) = (Ok f, reg')" "accounts reg' (ledger_release Handle ?tok f L)"
    "f \<noteq> None \<longleftrightarrow> last_token L ?tok" by (rule handle_release.release_Ok)
  define t2 where "t2 = retire_if_exhausted slot t1"
  have len: "slot < length (ht_slots t1)" using t1(5) 3(4) by (simp add: keeps_other_reservations_def)
  have t2: "invisible t1 t2" "table_wf t2" "keeps_other_reservations slot t1 t2"
    using retire_invisible [OF len] t1 3 by (auto simp: t2_def)
  have "table_tokens t2 \<subseteq># lg_live (ledger_release Handle ?tok f L) Handle"
    using t2(1) t1(4) sub by (simp add: invisible_def ledger_release_live insert_subset_eq_iff)
  moreover have "keeps_reservations t t2"
    using keeps_other_trans [OF t1(5) t2(3)] 3(4,6) by (intro keeps_other_unreserved) auto
  moreover have "close t reg h = Some (Ok f, t2, reg')"
    using 3 t1(1) rel(1) by (simp add: close_def t2_def)
  ultimately show ?thesis
    using rel t2 t1(3) by (auto simp: table_state_def invisible_def)
qed (use e idle in auto)

lemma close_Err:
  "table_view t h = None \<Longrightarrow> close t reg h = Some (Err InvalidHandle, t, reg)"
  "busy t h \<Longrightarrow> close t reg h = Some (Err AccessDenied, t, reg)"
  by (cases rule: resolve_mutation_slot_cases [of t h]; auto simp: close_def busy_def table_view_None_iff)+

section \<open>Lookup and inspection\<close>

lemma map_err_rights [simp]:
  "map_err rights_error (validate_compatible ty r) =
    (if dw_rights_are_compatible ty r then Ok () else Err InvalidRights)"
  "map_err rights_error (require_held held r) = (if rights_le r held then Ok () else Err AccessDenied)"
  "map_err rights_error (require_subset held r) = (if rights_le r held then Ok () else Err AccessDenied)"
  "map_err rights_error (validate_requested_syntax r) =
    (if r \<noteq> 0 \<and> dw_rights_are_known r then Ok () else Err InvalidRights)"
  using require_held_iff [of held r "()"]
  by (auto simp: validate_compatible_def require_held_def require_subset_def rights_le_def
      validate_requested_syntax_def)

text \<open>The specification of an access check, as one decision.\<close>

definition access_decision ::
  "accepted_object_types \<Rightarrow> dw_rights \<Rightarrow> handle_entry option \<Rightarrow> (handle_entry, handle_table_error) result" where
  "access_decision accepted required e =
    (if \<not> dw_rights_are_known required then Err InvalidRights
     else case e of None \<Rightarrow> Err InvalidHandle
     | Some entry \<Rightarrow>
        if \<not> accepts accepted (hr_object_type (he_reference entry)) then Err WrongObjectType
        else if \<not> dw_rights_are_compatible (hr_object_type (he_reference entry)) required then Err InvalidRights
        else if \<not> rights_le required (he_rights entry) then Err AccessDenied
        else Ok entry)"

lemma checked_entry_decides:
  "checked_entry t h accepted required = Some (access_decision accepted required (table_view t h))"
  by (auto simp: checked_entry_def access_decision_def validate_required_syntax_def resolve_entry_view Let_def
      split: option.splits)

lemma access_decision_Ok_iff:
  "access_decision accepted required e = Ok entry \<longleftrightarrow> e = Some entry \<and> dw_rights_are_known required \<and>
    accepts accepted (hr_object_type (he_reference entry)) \<and>
    dw_rights_are_compatible (hr_object_type (he_reference entry)) required \<and>
    rights_le required (he_rights entry)"
  by (auto simp: access_decision_def split: option.splits if_splits)

lemma lookup_spec:
  assumes st: "table_state reg L t"
  shows "\<exists>r reg'. lookup t reg h accepted required = Some (r, reg') \<and>
    (case access_decision accepted required (table_view t h) of
      Err e \<Rightarrow> r = Err e \<and> reg' = reg
    | Ok e \<Rightarrow> r = Err ReferenceCapacity \<and> reg' = reg \<or>
        (\<exists>ref. r = Ok \<lparr>rh_reference = ref, rh_rights = he_rights e\<rparr> \<and>
          internal_token ref = handle_token (he_reference e) \<and>
          table_state reg' (ledger_add Internal (handle_token (he_reference e)) L) t))"
proof (cases "access_decision accepted required (table_view t h)")
  case (Err e)
  then show ?thesis by (simp add: lookup_def checked_entry_decides)
next
  case (Ok e)
  then have tok: "handle_token (he_reference e) \<in># lg_live L Handle"
    using table_state_entry [OF st] by (auto simp: access_decision_Ok_iff)
  have acc: "accounts reg L" using st by (simp add: table_state_def)
  obtain r reg' where ret: "retain_internal_from_handle reg (he_reference e) = (r, reg')"
    by (cases "retain_internal_from_handle reg (he_reference e)")
  show ?thesis
  proof (cases r)
    case (Ok ref)
    with handle_pin.retain_Ok [OF acc tok] ret have "internal_token ref = handle_token (he_reference e)"
      "accounts reg' (ledger_add Internal (handle_token (he_reference e)) L)" by auto
    with st Ok ret \<open>access_decision _ _ _ = Ok e\<close> show ?thesis
      by (auto simp: lookup_def checked_entry_decides table_state_def ledger_add_def)
  next
    case (Err x)
    with handle_pin.retain_Err [OF acc tok] ret have "x = ReferenceCountExhausted" "reg' = reg" by auto
    with Err ret \<open>access_decision _ _ _ = Ok e\<close> show ?thesis
      by (auto simp: lookup_def checked_entry_decides)
  qed
qed

section \<open>Duplication\<close>

lemma invisible_entry:
  "invisible t t' \<Longrightarrow> i < length (ht_slots t) \<Longrightarrow> hs_entry (ht_slots t' ! i) = hs_entry (ht_slots t ! i)"
  by (simp add: invisible_def)

text \<open>The specification of the authority check of a duplication.\<close>

definition duplicate_decision ::
  "dw_rights \<Rightarrow> handle_entry option \<Rightarrow> bool \<Rightarrow> (handle_entry, handle_table_error) result" where
  "duplicate_decision requested e pinned =
    (if requested = 0 \<or> \<not> dw_rights_are_known requested then Err InvalidRights
     else case e of None \<Rightarrow> Err InvalidHandle
     | Some entry \<Rightarrow>
        if pinned then Err AccessDenied
        else if \<not> dw_rights_are_compatible (hr_object_type (he_reference entry)) requested then Err InvalidRights
        else if \<not> rights_le DW_RIGHT_DUPLICATE (he_rights entry) then Err AccessDenied
        else if \<not> rights_le requested (he_rights entry) then Err AccessDenied
        else Ok entry)"

text \<open>Once authorised, a duplication is a reservation, a retention and a publication.\<close>

lemma duplicate_authorised:
  "duplicate t reg src requested =
    (case duplicate_decision requested (table_view t src) (busy t src) of
      Err e \<Rightarrow> Some (Err e, t, reg)
    | Ok entry \<Rightarrow>
        do { (r, t1) \<leftarrow> reserve_slot t;
             case r of
               Err e \<Rightarrow> Some (Err e, t1, reg)
             | Ok rv \<Rightarrow>
                 (case retain_handle reg (he_reference entry) of
                   (Err e, reg') \<Rightarrow> do { e' \<leftarrow> retain_error e; Some (Err e', t1, reg') }
                 | (Ok retained, reg') \<Rightarrow>
                     do { (p, t2) \<leftarrow> publish t1 rv \<lparr>he_reference = retained, he_rights = requested\<rparr>;
                          _ \<leftarrow> expect_ok p;
                          Some (Ok (rv_handle rv), t2, reg') }) })"
proof (cases rule: resolve_mutation_slot_cases [of t src])
  case (3 e slot)
  have "hs_entry (ht_slots t1 ! slot) = Some e" if "reserve_slot t = Some (Ok rv, t1)" for rv t1
    using that reserve_Ok [of t None True rv t1] invisible_entry [of t t1 slot] 3
    by (auto simp: reserve_slot_def reserve_slot_excluding_def)
  with 3 show ?thesis
    by (cases "reserve_slot t")
      (auto simp: duplicate_def duplicate_decision_def Let_def split: result.split)
qed (auto simp: duplicate_def duplicate_decision_def busy_def)

lemma duplicate_decision_Ok_iff:
  "duplicate_decision requested e pinned = Ok entry \<longleftrightarrow> e = Some entry \<and> \<not> pinned \<and>
    rights_wf (hr_object_type (he_reference entry)) requested \<and>
    rights_le DW_RIGHT_DUPLICATE (he_rights entry) \<and> rights_le requested (he_rights entry)"
  by (auto simp: duplicate_decision_def rights_wf_def split: option.splits if_splits dest: compatible_imp_known)

lemma table_state_invisible:
  "table_state reg L t \<Longrightarrow> invisible t t' \<Longrightarrow> table_wf t' \<Longrightarrow> table_state reg L t'"
  by (simp add: table_state_def invisible_def)

text \<open>The outcomes of an authorised duplication.\<close>

lemma duplicate_spec:
  assumes st: "table_state reg L t" and permits: "mint_permit (ht_next_permit t) \<noteq> None"
    and dec: "duplicate_decision requested (table_view t src) (busy t src) = Ok entry"
  shows "\<exists>r t' reg'. duplicate t reg src requested = Some (r, t', reg') \<and>
    (r = Err HandleCapacity \<and> reg' = reg \<and> invisible t t' \<and> table_state reg L t' \<or>
     r = Err ReferenceCapacity \<and> reg' = reg \<and> invisible t t' \<and> table_state reg L t' \<and>
       (\<exists>rv. reserved t' rv \<and> \<not> reserved t rv) \<or>
     (\<exists>h. r = Ok h \<and> table_view t h = None \<and>
       table_view t' = (table_view t)(h \<mapsto> \<lparr>he_reference = he_reference entry, he_rights = requested\<rparr>) \<and>
       table_state reg' (ledger_add Handle (handle_token (he_reference entry)) L) t'))"
proof -
  have wf: "table_wf t" and acc: "accounts reg L" and sub: "table_tokens t \<subseteq># lg_live L Handle"
    using st by (auto simp: table_state_def)
  have rights: "rights_wf (hr_object_type (he_reference entry)) requested" and e: "table_view t src = Some entry"
    using dec by (auto simp: duplicate_decision_Ok_iff)
  note tok = table_state_entry [OF st e]
  obtain r t1 where res: "reserve_slot_with_kind t None Destination True = Some (r, t1)"
    using reserve_no_panic [OF permits] by blast
  then have slot: "reserve_slot t = Some (r, t1)" by (simp add: reserve_slot_def reserve_slot_excluding_def)
  show ?thesis
  proof (cases r)
    case (Err x)
    with res have "x = HandleCapacity" "invisible t t1" "table_wf t1" using reserve_Err wf by blast+
    with st slot Err dec show ?thesis
      by (auto simp: duplicate_authorised intro: table_state_invisible)
  next
    case (Ok rv)
    with res wf have inv: "invisible t t1" and rv: "reserved t1 rv" "\<not> reserved t rv" and wf1: "table_wf t1"
      using reserve_Ok by blast+
    obtain q reg' where ret: "retain_handle reg (he_reference entry) = (q, reg')"
      by (cases "retain_handle reg (he_reference entry)")
    show ?thesis
    proof (cases q)
      case (Err x)
      with handle_retain.retain_Err [OF acc tok] ret have "x = ReferenceCountExhausted" "reg' = reg" by auto
      with Err ret slot Ok dec inv rv st wf1 show ?thesis
        by (auto simp: duplicate_authorised intro: table_state_invisible)
    next
      case Ok': (Ok d)
      with handle_retain.retain_Ok [OF acc tok] ret have d: "d = he_reference entry"
        and acc': "accounts reg' (ledger_add Handle (handle_token (he_reference entry)) L)" by auto
      let ?e = "\<lparr>he_reference = he_reference entry, he_rights = requested\<rparr>"
      obtain t2 where t2: "publish t1 rv ?e = Some (Ok (), t2)" "table_wf t2"
        "table_view t2 = (table_view t1)(rv_handle rv \<mapsto> ?e)"
        "table_tokens t2 = add_mset (handle_token (he_reference entry)) (table_tokens t1)"
        using publish_reserved [OF wf1 rv(1), of ?e] rights by auto
      have "table_state reg' (ledger_add Handle (handle_token (he_reference entry)) L) t2"
        using t2 acc' sub inv by (simp add: table_state_def ledger_add_def invisible_def)
      moreover have "table_view t (rv_handle rv) = None"
        using reserved_unseen [OF rv(1)] inv by (simp add: invisible_def)
      ultimately show ?thesis
        using t2 slot Ok Ok' ret dec inv d by (auto simp: duplicate_authorised invisible_def)
    qed
  qed
qed

section \<open>Draining\<close>

text \<open>
  The tokens that a drain from slot \<open>slot\<close> on would release, and the entries it leaves: a slot
  pinned by a permit is skipped.
\<close>

definition drainable :: "handle_slot \<Rightarrow> bool" where
  "drainable s \<longleftrightarrow> hs_entry s \<noteq> None \<and> hs_reservation s = None"

definition slot_free :: "handle_slot \<Rightarrow> bool" where
  "slot_free s \<longleftrightarrow> hs_entry s = None \<and> hs_reservation s = None"

definition drained :: "nat \<Rightarrow> nat \<Rightarrow> handle_table \<Rightarrow> handle_table \<Rightarrow> bool" where
  "drained a b t t' \<longleftrightarrow> length (ht_slots t') = length (ht_slots t) \<and> ht_domain t' = ht_domain t \<and>
    (\<forall>j<length (ht_slots t).
      if a \<le> j \<and> j < b \<and> drainable (ht_slots t ! j) then slot_free (ht_slots t' ! j)
      else ht_slots t' ! j = ht_slots t ! j)"

lemma drained_empty [simp]: "b \<le> a \<Longrightarrow> drained a b t t"
  by (auto simp: drained_def)

lemma drained_skip:
  assumes "drained (Suc a) b t t'" and "\<not> drainable (ht_slots t ! a)"
  shows "drained a b t t'"
proof -
  have "a \<le> j \<and> j < b \<and> drainable (ht_slots t ! j) \<longleftrightarrow> Suc a \<le> j \<and> j < b \<and> drainable (ht_slots t ! j)" for j
    using assms(2) by (cases "j = a") auto
  with assms(1) show ?thesis by (simp add: drained_def)
qed

lemma drained_step:
  assumes "keeps_other_reservations a t t1" and "slot_free (ht_slots t1 ! a)"
    and "drainable (ht_slots t ! a)" and "a < b" and "drained (Suc a) b t1 t'"
  shows "drained a b t t'"
proof -
  have each: "if a \<le> j \<and> j < b \<and> drainable (ht_slots t ! j) then slot_free (ht_slots t' ! j)
      else ht_slots t' ! j = ht_slots t ! j" if "j < length (ht_slots t)" for j
  proof (cases "j = a")
    case True
    with assms that show ?thesis by (auto simp: drained_def keeps_other_reservations_def drainable_def slot_free_def)
  next
    case False
    with assms that have "ht_slots t1 ! j = ht_slots t ! j" by (simp add: keeps_other_reservations_def)
    moreover have "Suc a \<le> j \<longleftrightarrow> a \<le> j" using False by auto
    moreover have "j < length (ht_slots t1)" using assms(1) that by (simp add: keeps_other_reservations_def)
    ultimately show ?thesis using assms(5) unfolding drained_def by fastforce
  qed
  have "length (ht_slots t') = length (ht_slots t)" "ht_domain t' = ht_domain t"
    using assms(1,5) by (simp_all add: drained_def keeps_other_reservations_def)
  with each show ?thesis unfolding drained_def by blast
qed

text \<open>One step of the loop: the entry of slot \<open>slot\<close> is taken and its token released.\<close>

lemma drain_one:
  assumes st: "table_state reg L t" and slot: "slot < length (ht_slots t)"
    and d: "drainable (ht_slots t ! slot)"
  obtains e t1 f reg' where "take_entry t slot = Some (e, t1)"
    "release_handle reg (he_reference e) = (Ok f, reg')"
    "table_state reg' (ledger_release Handle (handle_token (he_reference e)) f L) (retire_if_exhausted slot t1)"
    "table_tokens t = add_mset (handle_token (he_reference e)) (table_tokens (retire_if_exhausted slot t1))"
    "keeps_other_reservations slot t (retire_if_exhausted slot t1)"
    "slot_free (ht_slots (retire_if_exhausted slot t1) ! slot)"
proof -
  have wf: "table_wf t" and acc: "accounts reg L" and sub: "table_tokens t \<subseteq># lg_live L Handle"
    using st by (auto simp: table_state_def)
  obtain e where e: "hs_entry (ht_slots t ! slot) = Some e" "hs_reservation (ht_slots t ! slot) = None"
    using d by (auto simp: drainable_def)
  have "entry_ok slot (ht_slots t ! slot)" using table_wf_slot [OF wf slot] by (simp add: hslot_ok_def)
  then obtain h where h: "decode_handle h = Some (slot, hs_generation (ht_slots t ! slot))"
    using e handle_codec.encode_defined [of slot "hs_generation (ht_slots t ! slot)"]
    by (auto simp: entry_ok_def dest: handle_codec.decode_encode)
  obtain t1 where t1: "take_entry t slot = Some (e, t1)" "table_wf t1"
    "table_tokens t = add_mset (handle_token (he_reference e)) (table_tokens t1)"
    "keeps_other_reservations slot t t1" "ht_slots t1 ! slot = (ht_slots t ! slot)\<lparr>hs_entry := None\<rparr>"
    using take_entry_refines [OF wf slot e(1) h] by auto
  have len: "slot < length (ht_slots t1)" using t1(4) slot by (simp add: keeps_other_reservations_def)
  note ret = retire_invisible [OF len]
  have tok: "handle_token (he_reference e) \<in># lg_live L Handle"
    using sub t1(3) by (auto dest: mset_subset_eq_insertD)
  from acc tok obtain f reg' where rel: "release_handle reg (he_reference e) = (Ok f, reg')"
    "accounts reg' (ledger_release Handle (handle_token (he_reference e)) f L)"
    by (rule handle_release.release_Ok)
  show thesis
  proof (rule that [OF t1(1) rel(1)])
    show "table_state reg' (ledger_release Handle (handle_token (he_reference e)) f L) (retire_if_exhausted slot t1)"
      using rel(2) ret t1 e sub
      by (simp add: table_state_def invisible_def ledger_release_live insert_subset_eq_iff)
    show "slot_free (ht_slots (retire_if_exhausted slot t1) ! slot)"
      using t1 e len by (simp add: slot_free_def retire_if_exhausted_def update_slot_nth)
  qed (use ret t1 e in \<open>auto simp: invisible_def intro: keeps_other_trans\<close>)
qed

lemma add_mset_diff_subset: "B \<subseteq># A \<Longrightarrow> add_mset x A - B = add_mset x (A - B)"
  by (simp add: multiset_eq_iff subseteq_mset_def Suc_diff_le)

text \<open>What a drain started at \<open>slot\<close> with \<open>written\<close> finalizers in the window reports.\<close>

definition drain_outcome ::
  "ledger \<Rightarrow> handle_table \<Rightarrow> final_release option list \<Rightarrow> nat \<Rightarrow> nat \<Rightarrow> final_release list \<Rightarrow>
   drain_window \<times> final_release option list \<times> handle_table \<times> object_registry \<Rightarrow> bool" where
  "drain_outcome L t out written slot fs = (\<lambda>(w, out', t', reg').
    out' = take written out @ map Some fs @ drop (written + length fs) out \<and>
    dw_written w = written + length fs \<and> written + length fs \<le> length out \<and>
    drained slot (dw_resume w) t t' \<and>
    (if dw_done w then dw_resume w = length (ht_slots t)
     else slot \<le> dw_resume w \<and> dw_resume w < length (ht_slots t) \<and> dw_written w = length out) \<and>
    table_tokens t' \<subseteq># table_tokens t \<and>
    table_state reg' (ledger_release_many Handle (table_tokens t - table_tokens t') fs L) t')"

lemma drain_outcome_skip:
  assumes "drain_outcome L t out written (Suc slot) fs res" and "\<not> drainable (ht_slots t ! slot)"
  shows "drain_outcome L t out written slot fs res"
  using assms drained_skip [OF _ assms(2)]
  by (cases res) (auto simp: drain_outcome_def split: if_splits)

lemma drain_outcome_step:
  assumes out: "drain_outcome (ledger_release Handle tok f L) t1
      (case f of None \<Rightarrow> out | Some fr \<Rightarrow> out[written := Some fr])
      (case f of None \<Rightarrow> written | Some fr \<Rightarrow> written + 1) (Suc slot) fs res"
    and tok: "table_tokens t = add_mset tok (table_tokens t1)" and slot: "slot < length (ht_slots t)"
    and keep: "keeps_other_reservations slot t t1" "slot_free (ht_slots t1 ! slot)"
    and d: "drainable (ht_slots t ! slot)" and w: "written < length out"
  shows "drain_outcome L t out written slot (case f of None \<Rightarrow> fs | Some fr \<Rightarrow> fr # fs) res"
proof (cases res)
  case (fields w' out' t' reg')
  have len: "length (ht_slots t1) = length (ht_slots t)"
    using keep(1) by (simp add: keeps_other_reservations_def)
  have sub: "table_tokens t' \<subseteq># table_tokens t1" and res: "slot < dw_resume w'"
    and dr: "drained (Suc slot) (dw_resume w') t1 t'"
    using out slot len fields by (auto simp: drain_outcome_def split: if_splits)
  have "drained slot (dw_resume w') t t'" using drained_step [OF keep d res dr] .
  moreover have "table_tokens t - table_tokens t' = add_mset tok (table_tokens t1 - table_tokens t')"
    using sub by (simp add: tok add_mset_diff_subset)
  moreover have "table_tokens t' \<subseteq># table_tokens t" using sub tok by (simp add: subset_mset.order_trans)
  ultimately show ?thesis
    using out fields len w
    by (cases f) (auto simp: drain_outcome_def ledger_release_many_simps take_Suc_conv_app_nth
        split: if_splits)
qed

lemma drain_loop_spec:
  assumes "table_state reg L t" and "written \<le> length out"
  shows "\<exists>res fs. drain_loop t reg out written slot = Some res \<and> drain_outcome L t out written slot fs res \<and>
    (length (ht_slots t) - slot \<le> length out - written \<longrightarrow> dw_done (fst res))"
  using assms
proof (induction "length (ht_slots t) - slot" arbitrary: reg L t out written slot)
  case 0
  then show ?case
    by (subst drain_loop.simps)
      (auto simp: drain_outcome_def ledger_release_many_simps drained_def intro!: exI [of _ "[]"])
next
  case (Suc n)
  have slot: "slot < length (ht_slots t)" and n: "n = length (ht_slots t) - Suc slot" using Suc.hyps(2) by auto
  consider "written = length out" | "written < length out" "\<not> drainable (ht_slots t ! slot)"
    | "written < length out" "drainable (ht_slots t ! slot)" using Suc.prems(2) by linarith
  then show ?case
  proof cases
    case 1
    then show ?thesis
      using slot Suc.prems by (subst drain_loop.simps)
        (auto simp: drain_outcome_def ledger_release_many_simps intro!: exI [of _ "[]"])
  next
    case 2
    then have "drain_loop t reg out written slot = drain_loop t reg out written (Suc slot)"
      using slot by (subst drain_loop.simps) (auto simp: drainable_def)
    moreover obtain res fs where "drain_loop t reg out written (Suc slot) = Some res"
      "drain_outcome L t out written (Suc slot) fs res"
      "length (ht_slots t) - Suc slot \<le> length out - written \<longrightarrow> dw_done (fst res)"
      using Suc.hyps(1) [OF n Suc.prems] by blast
    ultimately show ?thesis using 2 drain_outcome_skip by fastforce
  next
    case 3
    from Suc.prems(1) slot 3(2) show ?thesis
    proof (rule drain_one)
      fix e :: handle_entry and t1 f reg'
      let ?t = "retire_if_exhausted slot t1" and ?tok = "handle_token (he_reference e)"
      let ?out = "case f of None \<Rightarrow> out | Some fr \<Rightarrow> out[written := Some fr]"
      let ?w = "case f of None \<Rightarrow> written | Some fr \<Rightarrow> written + 1"
      assume take: "take_entry t slot = Some (e, t1)" and rel: "release_handle reg (he_reference e) = (Ok f, reg')"
        and st: "table_state reg' (ledger_release Handle ?tok f L) ?t"
        and tok: "table_tokens t = add_mset ?tok (table_tokens ?t)"
        and keep: "keeps_other_reservations slot t ?t" "slot_free (ht_slots ?t ! slot)"
      have eq: "drain_loop t reg out written slot = drain_loop ?t reg' ?out ?w (Suc slot)"
        using slot 3 take rel by (subst drain_loop.simps) (auto simp: drainable_def split: option.split)
      have len: "length (ht_slots ?t) = length (ht_slots t)"
        using keep(1) by (simp add: keeps_other_reservations_def)
      have "?w \<le> length ?out" using 3(1) by (cases f) auto
      from Suc.hyps(1) [OF _ st this, of "Suc slot"] n len obtain res fs where
        res: "drain_loop ?t reg' ?out ?w (Suc slot) = Some res"
        "drain_outcome (ledger_release Handle ?tok f L) ?t ?out ?w (Suc slot) fs res"
        "length (ht_slots t) - Suc slot \<le> length ?out - ?w \<longrightarrow> dw_done (fst res)" by auto
      have "length (ht_slots t) - slot \<le> length out - written \<longrightarrow> length (ht_slots t) - Suc slot \<le> length ?out - ?w"
        by (cases f) auto
      with res eq drain_outcome_step [OF res(2) tok slot keep 3(2,1)] show ?thesis by auto
    qed
  qed
qed

end
