(* ===== verification/Handle_Transfer.thy ===== *)
theory Handle_Transfer
  imports Handle_Ops
begin

text \<open>
  The transactions of \<^verbatim>\<open>kernel/src/handle/table.rs\<close> that move handles between tables: prepared
  single moves and move batches with their extraction, finish and rollback, destination
  reservations (single, pair, typed pair, batch), publication and cancellation. A Rust guard
  that borrows the table is here the guard's own fields, with the table passed beside it.
  The fixed-size arrays of options keep their length \<open>HANDLE_TRANSFER_LIMIT\<close>.
\<close>

section \<open>Data\<close>

abbreviation (input) HANDLE_TRANSFER_LIMIT :: nat where
  "HANDLE_TRANSFER_LIMIT \<equiv> DW_CHANNEL_MAX_HANDLES"

record handle_pair_reservation =
  hp_domain :: u64
  hp_object_type :: dw_object_type
  hp_rights :: dw_rights
  hp_first :: reservation
  hp_second :: reservation
  hp_completed :: bool

record handle_move_request =
  mr_handle :: dw_handle
  mr_requested_rights :: dw_rights

record prepared_move_entry =
  pm_slot :: nat
  pm_handle :: dw_handle
  pm_object :: object_id
  pm_object_type :: dw_object_type
  pm_source_rights :: dw_rights
  pm_requested_rights :: dw_rights
  pm_permit :: u64

datatype handle_move_prepare_error = DuplicateSource | MoveTable handle_table_error

record prepared_handle_move_batch =
  pb_entries :: "prepared_move_entry option list"
  pb_len :: nat

record handle_move_rollback =
  mb_entries :: "prepared_move_entry option list"
  mb_len :: nat
  mb_completed :: bool

record prepared_handle_move =
  ph_domain :: u64
  ph_entry :: prepared_move_entry
  ph_completed :: bool

record prepared_handle_move_rollback =
  pr_domain :: u64
  pr_entry :: prepared_move_entry
  pr_completed :: bool

text \<open>
  The four error structs that hand a payload back (transfer token, handle reference, pair of
  references) have the same shape.
\<close>

record 'p reservation_failure =
  rf_error :: handle_reservation_error
  rf_payload :: 'p

record handle_transfer_token =
  tt_reference :: handle_ref
  tt_source_rights :: dw_rights
  tt_requested_rights :: dw_rights

record handle_transfer_batch =
  tb_entries :: "handle_transfer_token option list"
  tb_len :: nat

record published_handle_info =
  pi_handle :: dw_handle
  pi_rights :: dw_rights
  pi_object_type :: dw_object_type

record handle_batch_reservation =
  br_reservations :: "reservation option list"
  br_len :: nat

record handle_transfer_reservation =
  tr_domain :: u64
  tr_reservation :: reservation
  tr_completed :: bool

record handle_reservation_spec =
  rs_object_type :: dw_object_type
  rs_rights :: dw_rights

record typed_handle_pair_reservation =
  tp_domain :: u64
  tp_specs :: "handle_reservation_spec \<times> handle_reservation_spec"
  tp_reservations :: "reservation \<times> reservation"
  tp_completed :: bool

text \<open>The \<open>Drop\<close> of every permit-carrying guard asserts that it was completed.\<close>

definition guard_drop :: "bool \<Rightarrow> unit option" where
  "guard_drop completed = assert_panic completed"

text \<open>\<open>entries[..len].iter().flatten()\<close>.\<close>

definition flatten_options :: "'a option list \<Rightarrow> 'a list" where
  "flatten_options xs = List.map_filter id xs"

text \<open>\<open>(handle.0 >> 32) as u32\<close>.\<close>

definition handle_generation :: "dw_handle \<Rightarrow> u32" where
  "handle_generation handle = ucast (drop_bit 32 handle)"

section \<open>Moves\<close>

text \<open>The double loop over the requests: the first repeated source handle is an error.\<close>

fun duplicate_source :: "handle_move_request list \<Rightarrow> bool" where
  "duplicate_source [] = False"
| "duplicate_source (r # rs) \<longleftrightarrow> list_ex (\<lambda>r'. mr_handle r = mr_handle r') rs \<or> duplicate_source rs"

text \<open>The authority checks of a move, in the order of the code.\<close>

definition check_move :: "handle_entry \<Rightarrow> dw_rights \<Rightarrow> (unit, handle_table_error) result" where
  "check_move entry requested_rights =
    and_then (map_err rights_error (require_held (he_rights entry) DW_RIGHT_TRANSFER)) (\<lambda>_.
    and_then (map_err rights_error (validate_requested_syntax requested_rights)) (\<lambda>_.
    and_then (map_err rights_error
      (validate_compatible (hr_object_type (he_reference entry)) requested_rights)) (\<lambda>_.
    map_err rights_error (require_subset (he_rights entry) requested_rights))))"

definition prepared_entry ::
  "nat \<Rightarrow> handle_move_request \<Rightarrow> handle_entry \<Rightarrow> u64 \<Rightarrow> prepared_move_entry" where
  "prepared_entry slot request entry permit =
    \<lparr>pm_slot = slot, pm_handle = mr_handle request, pm_object = hr_id (he_reference entry),
     pm_object_type = hr_object_type (he_reference entry), pm_source_rights = he_rights entry,
     pm_requested_rights = mr_requested_rights request, pm_permit = permit\<rparr>"

definition prepare_entry ::
  "handle_table \<Rightarrow> handle_move_request \<Rightarrow> (prepared_move_entry, handle_table_error) result option" where
  "prepare_entry table request =
    (case resolve_slot table (mr_handle request) of
      Err e \<Rightarrow> Some (Err e)
    | Ok slot \<Rightarrow>
        do { entry \<leftarrow> hs_entry (ht_slots table ! slot);
             Some (and_then (check_move entry (mr_requested_rights request))
               (\<lambda>_. Ok (prepared_entry slot request entry 0))) })"

fun prepare_entries ::
  "handle_table \<Rightarrow> nat \<Rightarrow> handle_move_request list \<Rightarrow> prepared_move_entry option list \<Rightarrow>
   (prepared_move_entry option list, handle_table_error) result option" where
  "prepare_entries table index [] entries = Some (Ok entries)"
| "prepare_entries table index (request # requests) entries =
    do { r \<leftarrow> prepare_entry table request;
         case r of
           Err e \<Rightarrow> Some (Err e)
         | Ok prepared \<Rightarrow> prepare_entries table (index + 1) requests (entries[index := Some prepared]) }"

definition prepare_move_batch ::
  "handle_table \<Rightarrow> handle_move_request list \<Rightarrow>
   (prepared_handle_move_batch, handle_move_prepare_error) result option" where
  "prepare_move_batch table requests =
    do { _ \<leftarrow> assert_panic (length requests \<le> HANDLE_TRANSFER_LIMIT);
         if duplicate_source requests then Some (Err DuplicateSource)
         else do { r \<leftarrow> prepare_entries table 0 requests (replicate HANDLE_TRANSFER_LIMIT None);
                   Some (case r of
                       Err e \<Rightarrow> Err (MoveTable e)
                     | Ok entries \<Rightarrow> Ok \<lparr>pb_entries = entries, pb_len = length requests\<rparr>) } }"

definition batch_contains_object :: "prepared_handle_move_batch \<Rightarrow> object_id \<Rightarrow> bool" where
  "batch_contains_object batch object =
    list_ex (\<lambda>entry. pm_object entry = object) (flatten_options (take (pb_len batch) (pb_entries batch)))"

definition batch_objects_of_type :: "prepared_handle_move_batch \<Rightarrow> dw_object_type \<Rightarrow> object_id list" where
  "batch_objects_of_type batch object_type =
    map pm_object (filter (\<lambda>entry. pm_object_type entry = object_type)
      (flatten_options (take (pb_len batch) (pb_entries batch))))"

definition transfer_batch_empty :: handle_transfer_batch where
  "transfer_batch_empty = \<lparr>tb_entries = replicate HANDLE_TRANSFER_LIMIT None, tb_len = 0\<rparr>"

definition transfer_objects_of_type :: "handle_transfer_batch \<Rightarrow> dw_object_type \<Rightarrow> object_id list" where
  "transfer_objects_of_type batch object_type =
    map (\<lambda>token. hr_id (tt_reference token))
      (filter (\<lambda>token. hr_object_type (tt_reference token) = object_type)
        (flatten_options (take (tb_len batch) (tb_entries batch))))"

definition entry_matches :: "handle_entry \<Rightarrow> prepared_move_entry \<Rightarrow> bool" where
  "entry_matches entry prepared \<longleftrightarrow>
    hr_id (he_reference entry) = pm_object prepared \<and>
    hr_object_type (he_reference entry) = pm_object_type prepared \<and>
    he_rights entry = pm_source_rights prepared"

fun extract_entries ::
  "handle_table \<Rightarrow> nat \<Rightarrow> prepared_move_entry list \<Rightarrow> handle_transfer_batch \<Rightarrow>
   (handle_table \<times> handle_transfer_batch) option" where
  "extract_entries table index [] transfers = Some (table, transfers)"
| "extract_entries table index (prepared # rest) transfers =
    do { _ \<leftarrow> assert_panic (resolve_slot table (pm_handle prepared) = Ok (pm_slot prepared));
         (entry, table1) \<leftarrow> take_entry table (pm_slot prepared);
         _ \<leftarrow> assert_panic (entry_matches entry prepared);
         extract_entries table1 (index + 1) rest
           \<lparr>tb_entries = (tb_entries transfers)[index := Some
               \<lparr>tt_reference = he_reference entry, tt_source_rights = he_rights entry,
                tt_requested_rights = pm_requested_rights prepared\<rparr>],
            tb_len = tb_len transfers + 1\<rparr> }"

definition extract_batch ::
  "handle_table \<Rightarrow> prepared_handle_move_batch \<Rightarrow>
   (handle_move_rollback \<times> handle_transfer_batch \<times> handle_table) option" where
  "extract_batch table batch =
    do { (table', transfers) \<leftarrow> extract_entries table 0
           (flatten_options (take (pb_len batch) (pb_entries batch))) transfer_batch_empty;
         Some (\<lparr>mb_entries = pb_entries batch, mb_len = pb_len batch, mb_completed = False\<rparr>,
           transfers, table') }"

fun finish_entries :: "handle_table \<Rightarrow> prepared_move_entry list \<Rightarrow> handle_table option" where
  "finish_entries table [] = Some table"
| "finish_entries table (prepared # rest) =
    do { slot \<leftarrow> slice_get (ht_slots table) (pm_slot prepared);
         _ \<leftarrow> assert_panic (hs_entry slot = None \<and> hs_generation slot = handle_generation (pm_handle prepared));
         finish_entries (retire_if_exhausted (pm_slot prepared) table) rest }"

definition rollback_finish ::
  "handle_table \<Rightarrow> handle_move_rollback \<Rightarrow> (handle_table \<times> handle_move_rollback) option" where
  "rollback_finish table guard =
    do { table' \<leftarrow> finish_entries table (flatten_options (take (mb_len guard) (mb_entries guard)));
         Some (table', guard\<lparr>mb_completed := True\<rparr>) }"

definition token_matches :: "handle_transfer_token \<Rightarrow> prepared_move_entry \<Rightarrow> bool" where
  "token_matches token prepared \<longleftrightarrow>
    hr_id (tt_reference token) = pm_object prepared \<and>
    hr_object_type (tt_reference token) = pm_object_type prepared \<and>
    tt_source_rights token = pm_source_rights prepared \<and>
    tt_requested_rights token = pm_requested_rights prepared"

text \<open>Putting an extracted entry back, with the checked increment of the live count.\<close>

definition restore_entry :: "handle_table \<Rightarrow> nat \<Rightarrow> handle_transfer_token \<Rightarrow> handle_table option" where
  "restore_entry table slot token =
    do { live \<leftarrow> checked_add_usize (ht_live_count table) 1;
         Some ((update_slot slot (\<lambda>s. s\<lparr>hs_entry := Some \<lparr>he_reference = tt_reference token,
           he_rights = tt_source_rights token\<rparr>\<rparr>) table)\<lparr>ht_live_count := live\<rparr>) }"

fun rollback_entries ::
  "handle_table \<Rightarrow> nat \<Rightarrow> prepared_move_entry list \<Rightarrow> handle_transfer_token option list \<Rightarrow>
   handle_table option" where
  "rollback_entries table index [] tokens = Some table"
| "rollback_entries table index (prepared # rest) tokens =
    do { taken \<leftarrow> slice_get tokens index;
         token \<leftarrow> taken;
         _ \<leftarrow> assert_panic (token_matches token prepared);
         slot \<leftarrow> slice_get (ht_slots table) (pm_slot prepared);
         _ \<leftarrow> assert_panic (\<not> hs_retired slot \<and> hs_entry slot = None \<and>
           hs_generation slot = handle_generation (pm_handle prepared));
         table' \<leftarrow> restore_entry table (pm_slot prepared) token;
         rollback_entries table' (index + 1) rest (tokens[index := None]) }"

definition rollback_batch ::
  "handle_table \<Rightarrow> handle_move_rollback \<Rightarrow> handle_transfer_batch \<Rightarrow>
   (handle_table \<times> handle_move_rollback) option" where
  "rollback_batch table guard transfers =
    do { _ \<leftarrow> assert_panic (tb_len transfers = mb_len guard);
         table' \<leftarrow> rollback_entries table 0 (flatten_options (take (mb_len guard) (mb_entries guard)))
           (tb_entries transfers);
         Some (table', guard\<lparr>mb_completed := True\<rparr>) }"

subsection \<open>Single moves\<close>

definition prepare_move ::
  "handle_table \<Rightarrow> handle_move_request \<Rightarrow>
   ((prepared_handle_move, handle_move_prepare_error) result \<times> handle_table) option" where
  "prepare_move table request =
    (case resolve_slot table (mr_handle request) of
      Err e \<Rightarrow> Some (Err (MoveTable e), table)
    | Ok slot \<Rightarrow>
        do { entry \<leftarrow> hs_entry (ht_slots table ! slot);
             case check_move entry (mr_requested_rights request) of
               Err e \<Rightarrow> Some (Err (MoveTable e), table)
             | Ok _ \<Rightarrow>
                 do { (r, table') \<leftarrow> reserve_live_slot table slot MovePrepared;
                      Some (case r of
                          Err e \<Rightarrow> (Err (MoveTable e), table')
                        | Ok permit \<Rightarrow> (Ok \<lparr>ph_domain = ht_domain table',
                            ph_entry = prepared_entry slot request entry permit,
                            ph_completed = False\<rparr>, table')) } })"

definition validate_prepared_move ::
  "handle_table \<Rightarrow> prepared_move_entry \<Rightarrow> slot_reservation_kind \<Rightarrow> bool \<Rightarrow>
   (unit, handle_reservation_error) result" where
  "validate_prepared_move table prepared expected_kind source_must_be_live =
    (case slice_get (ht_slots table) (pm_slot prepared) of
      None \<Rightarrow> Err StalePermit
    | Some slot \<Rightarrow>
        if hs_reservation slot \<noteq> Some \<lparr>sr_permit = pm_permit prepared, sr_kind = expected_kind\<rparr>
        then Err StalePermit
        else if hs_retired slot \<or> hs_generation slot \<noteq> handle_generation (pm_handle prepared)
        then Err Conflict
        else (case (source_must_be_live, hs_entry slot) of
            (True, Some entry) \<Rightarrow> if entry_matches entry prepared then Ok () else Err Conflict
          | (False, None) \<Rightarrow> Ok ()
          | _ \<Rightarrow> Err Conflict))"

definition prepared_cancel ::
  "prepared_handle_move \<Rightarrow> handle_table \<Rightarrow>
   (unit, handle_reservation_error) result \<times> prepared_handle_move \<times> handle_table" where
  "prepared_cancel guard table =
    (if ph_domain guard \<noteq> ht_domain table then (Err ForeignTable, guard, table)
     else (case validate_prepared_move table (ph_entry guard) MovePrepared True of
         Err e \<Rightarrow> (Err e, guard, table)
       | Ok _ \<Rightarrow> (Ok (), guard\<lparr>ph_completed := True\<rparr>,
            update_slot (pm_slot (ph_entry guard)) (\<lambda>s. s\<lparr>hs_reservation := None\<rparr>) table)))"

definition try_extract ::
  "prepared_handle_move \<Rightarrow> handle_table \<Rightarrow>
   ((prepared_handle_move_rollback \<times> handle_transfer_token, handle_reservation_error) result \<times>
    prepared_handle_move \<times> handle_table) option" where
  "try_extract guard table =
    (if ph_domain guard \<noteq> ht_domain table then Some (Err ForeignTable, guard, table)
     else let entry = ph_entry guard in
       (case validate_prepared_move table entry MovePrepared True of
         Err e \<Rightarrow> Some (Err e, guard, table)
       | Ok _ \<Rightarrow>
           do { (source, table1) \<leftarrow> take_entry table (pm_slot entry);
                Some (Ok (\<lparr>pr_domain = ph_domain guard, pr_entry = entry, pr_completed = False\<rparr>,
                    \<lparr>tt_reference = he_reference source, tt_source_rights = he_rights source,
                     tt_requested_rights = pm_requested_rights entry\<rparr>),
                  guard\<lparr>ph_completed := True\<rparr>,
                  update_slot (pm_slot entry) (\<lambda>s. s\<lparr>hs_reservation := Some
                    \<lparr>sr_permit = pm_permit entry, sr_kind = MoveExtracted\<rparr>\<rparr>) table1) }))"

definition try_finish ::
  "prepared_handle_move_rollback \<Rightarrow> handle_table \<Rightarrow>
   (unit, handle_reservation_error) result \<times> prepared_handle_move_rollback \<times> handle_table" where
  "try_finish guard table =
    (if pr_domain guard \<noteq> ht_domain table then (Err ForeignTable, guard, table)
     else (case validate_prepared_move table (pr_entry guard) MoveExtracted False of
         Err e \<Rightarrow> (Err e, guard, table)
       | Ok _ \<Rightarrow> (Ok (), guard\<lparr>pr_completed := True\<rparr>,
            update_slot (pm_slot (pr_entry guard)) (\<lambda>s. s\<lparr>hs_reservation := None\<rparr>)
              (retire_if_exhausted (pm_slot (pr_entry guard)) table))))"

definition try_rollback ::
  "prepared_handle_move_rollback \<Rightarrow> handle_table \<Rightarrow> handle_transfer_token \<Rightarrow>
   ((unit, handle_transfer_token reservation_failure) result \<times>
    prepared_handle_move_rollback \<times> handle_table) option" where
  "try_rollback guard table token =
    (let fail = (\<lambda>e. Some (Err \<lparr>rf_error = e, rf_payload = token\<rparr>, guard, table)) in
     if pr_domain guard \<noteq> ht_domain table then fail ForeignTable
     else if \<not> token_matches token (pr_entry guard) then fail Conflict
     else (case validate_prepared_move table (pr_entry guard) MoveExtracted False of
         Err e \<Rightarrow> fail e
       | Ok _ \<Rightarrow>
           do { table1 \<leftarrow> restore_entry table (pm_slot (pr_entry guard)) token;
                Some (Ok (), guard\<lparr>pr_completed := True\<rparr>,
                  update_slot (pm_slot (pr_entry guard)) (\<lambda>s. s\<lparr>hs_reservation := None\<rparr>) table1) }))"

section \<open>Destination reservations\<close>

text \<open>Releasing reservations in order; each one is expected to be still owned.\<close>

fun release_reservations :: "handle_table \<Rightarrow> reservation list \<Rightarrow> handle_table option" where
  "release_reservations table [] = Some table"
| "release_reservations table (rv # rest) =
    do { (r, table') \<leftarrow> release_reservation table rv Destination;
         _ \<leftarrow> expect_ok r;
         release_reservations table' rest }"

fun reserve_indices ::
  "handle_table \<Rightarrow> nat \<Rightarrow> nat \<Rightarrow> reservation option list \<Rightarrow>
   ((reservation option list, handle_table_error) result \<times> handle_table) option" where
  "reserve_indices table index 0 reservations = Some (Ok reservations, table)"
| "reserve_indices table index (Suc n) reservations =
    do { (r, table1) \<leftarrow> reserve_slot_excluding table None;
         case r of
           Ok rv \<Rightarrow> reserve_indices table1 (index + 1) n (reservations[index := Some rv])
         | Err e \<Rightarrow>
             do { table2 \<leftarrow> release_reservations table1 (flatten_options (take index reservations));
                  Some (Err e, table2) } }"

definition reserve_transfer_batch ::
  "handle_table \<Rightarrow> nat \<Rightarrow> ((handle_batch_reservation, handle_table_error) result \<times> handle_table) option" where
  "reserve_transfer_batch table n =
    do { _ \<leftarrow> assert_panic (n \<le> HANDLE_TRANSFER_LIMIT);
         (r, table') \<leftarrow> reserve_indices table 0 n (replicate HANDLE_TRANSFER_LIMIT None);
         Some (case r of
             Err e \<Rightarrow> (Err e, table')
           | Ok reservations \<Rightarrow> (Ok \<lparr>br_reservations = reservations, br_len = n\<rparr>, table')) }"

definition reserve_transfer_destination ::
  "handle_table \<Rightarrow> ((handle_transfer_reservation, handle_table_error) result \<times> handle_table) option" where
  "reserve_transfer_destination table =
    do { (r, table') \<leftarrow> reserve_slot_unpublished table None;
         Some (case r of
             Err e \<Rightarrow> (Err e, table')
           | Ok rv \<Rightarrow> (Ok \<lparr>tr_domain = ht_domain table', tr_reservation = rv, tr_completed = False\<rparr>, table')) }"

text \<open>
  The two-slot reservation shared by \<open>reserve_pair\<close> and \<open>reserve_typed_pair\<close>: the second
  excludes the first, and when it fails the first is released.
\<close>

definition reserve_two ::
  "(handle_table \<Rightarrow> nat option \<Rightarrow> ((reservation, handle_table_error) result \<times> handle_table) option) \<Rightarrow>
   handle_table \<Rightarrow> ((reservation \<times> reservation, handle_table_error) result \<times> handle_table) option" where
  "reserve_two reserve table =
    do { (r, table1) \<leftarrow> reserve table None;
         case r of
           Err e \<Rightarrow> Some (Err e, table1)
         | Ok first \<Rightarrow>
             do { (r2, table2) \<leftarrow> reserve table1 (Some (rv_slot first));
                  case r2 of
                    Ok second \<Rightarrow> Some (Ok (first, second), table2)
                  | Err e \<Rightarrow>
                      do { table3 \<leftarrow> release_reservations table2 [first];
                           Some (Err e, table3) } } }"

definition validate_spec :: "handle_reservation_spec \<Rightarrow> (unit, handle_table_error) result" where
  "validate_spec spec =
    and_then (map_err rights_error (validate_requested_syntax (rs_rights spec)))
      (\<lambda>_. map_err rights_error (validate_compatible (rs_object_type spec) (rs_rights spec)))"

definition reserve_typed_pair ::
  "handle_table \<Rightarrow> handle_reservation_spec \<times> handle_reservation_spec \<Rightarrow>
   ((typed_handle_pair_reservation, handle_table_error) result \<times> handle_table) option" where
  "reserve_typed_pair table specs =
    (case and_then (validate_spec (fst specs)) (\<lambda>_. validate_spec (snd specs)) of
      Err e \<Rightarrow> Some (Err e, table)
    | Ok _ \<Rightarrow>
        do { (r, table') \<leftarrow> reserve_two reserve_slot_unpublished table;
             Some (case r of
                 Err e \<Rightarrow> (Err e, table')
               | Ok pair \<Rightarrow> (Ok \<lparr>tp_domain = ht_domain table', tp_specs = specs,
                   tp_reservations = pair, tp_completed = False\<rparr>, table')) })"

definition reserve_pair ::
  "handle_table \<Rightarrow> dw_object_type \<Rightarrow> dw_rights \<Rightarrow>
   ((handle_pair_reservation, handle_table_error) result \<times> handle_table) option" where
  "reserve_pair table object_type rights =
    (case validate_spec \<lparr>rs_object_type = object_type, rs_rights = rights\<rparr> of
      Err e \<Rightarrow> Some (Err e, table)
    | Ok _ \<Rightarrow>
        do { (r, table') \<leftarrow> reserve_two reserve_slot_excluding table;
             Some (case r of
                 Err e \<Rightarrow> (Err e, table')
               | Ok (first, second) \<Rightarrow> (Ok \<lparr>hp_domain = ht_domain table', hp_object_type = object_type,
                   hp_rights = rights, hp_first = first, hp_second = second, hp_completed = False\<rparr>, table')) })"

section \<open>Publication and cancellation\<close>

text \<open>Validating reservations in order, stopping at the first error.\<close>

fun validate_reservations ::
  "handle_table \<Rightarrow> reservation list \<Rightarrow> (unit, handle_reservation_error) result option" where
  "validate_reservations table [] = Some (Ok ())"
| "validate_reservations table (rv # rest) =
    do { r \<leftarrow> validate_reservation table rv Destination;
         case r of Err e \<Rightarrow> Some (Err e) | Ok _ \<Rightarrow> validate_reservations table rest }"

text \<open>Publishing validated reservations in order; a failure is a panic.\<close>

fun publish_all :: "handle_table \<Rightarrow> (reservation \<times> handle_entry) list \<Rightarrow> handle_table option" where
  "publish_all table [] = Some table"
| "publish_all table ((rv, entry) # rest) =
    do { (p, table') \<leftarrow> publish table rv entry;
         _ \<leftarrow> expect_ok p;
         publish_all table' rest }"

definition try_publish_reserved_pair ::
  "handle_table \<Rightarrow> handle_pair_reservation \<Rightarrow> handle_ref \<Rightarrow> handle_ref \<Rightarrow>
   ((dw_handle \<times> dw_handle, (handle_ref \<times> handle_ref) reservation_failure) result \<times>
    handle_pair_reservation \<times> handle_table) option" where
  "try_publish_reserved_pair table guard first second =
    (let fail = (\<lambda>e. Some (Err \<lparr>rf_error = e, rf_payload = (first, second)\<rparr>, guard, table)) in
     if hp_domain guard \<noteq> ht_domain table then fail ForeignTable
     else if hr_object_type first \<noteq> hp_object_type guard \<or> hr_object_type second \<noteq> hp_object_type guard
     then fail Conflict
     else do { r \<leftarrow> validate_reservations table [hp_first guard, hp_second guard];
               case r of
                 Err e \<Rightarrow> fail e
               | Ok _ \<Rightarrow>
                   do { table' \<leftarrow> publish_all table
                          [(hp_first guard, \<lparr>he_reference = first, he_rights = hp_rights guard\<rparr>),
                           (hp_second guard, \<lparr>he_reference = second, he_rights = hp_rights guard\<rparr>)];
                        Some (Ok (rv_handle (hp_first guard), rv_handle (hp_second guard)),
                          guard\<lparr>hp_completed := True\<rparr>, table') } })"

definition pair_cancel ::
  "handle_pair_reservation \<Rightarrow> handle_table \<Rightarrow>
   ((unit, handle_reservation_error) result \<times> handle_pair_reservation \<times> handle_table) option" where
  "pair_cancel guard table =
    (if hp_domain guard \<noteq> ht_domain table then Some (Err ForeignTable, guard, table)
     else do { r \<leftarrow> validate_reservations table [hp_first guard, hp_second guard];
               case r of
                 Err e \<Rightarrow> Some (Err e, guard, table)
               | Ok _ \<Rightarrow>
                   do { table' \<leftarrow> release_reservations table [hp_first guard, hp_second guard];
                        Some (Ok (), guard\<lparr>hp_completed := True\<rparr>, table') } })"

definition typed_pair_cancel ::
  "typed_handle_pair_reservation \<Rightarrow> handle_table \<Rightarrow>
   ((unit, handle_reservation_error) result \<times> typed_handle_pair_reservation \<times> handle_table) option" where
  "typed_pair_cancel guard table =
    (if tp_domain guard \<noteq> ht_domain table then Some (Err ForeignTable, guard, table)
     else (case tp_reservations guard of (first, second) \<Rightarrow>
       do { r \<leftarrow> validate_reservations table [first, second];
            case r of
              Err e \<Rightarrow> Some (Err e, guard, table)
            | Ok _ \<Rightarrow>
                do { table' \<leftarrow> release_reservations table [first, second];
                     Some (Ok (), guard\<lparr>tp_completed := True\<rparr>, table') } }))"

text \<open>Here the type check of a reference and the validation of its slot alternate.\<close>

fun validate_typed ::
  "handle_table \<Rightarrow> (handle_ref \<times> handle_reservation_spec \<times> reservation) list \<Rightarrow>
   (unit, handle_reservation_error) result option" where
  "validate_typed table [] = Some (Ok ())"
| "validate_typed table ((reference, spec, rv) # rest) =
    (if hr_object_type reference \<noteq> rs_object_type spec then Some (Err Conflict)
     else do { r \<leftarrow> validate_reservation table rv Destination;
               case r of Err e \<Rightarrow> Some (Err e) | Ok _ \<Rightarrow> validate_typed table rest })"

definition typed_pair_try_publish ::
  "typed_handle_pair_reservation \<Rightarrow> handle_table \<Rightarrow> handle_ref \<times> handle_ref \<Rightarrow>
   ((dw_handle \<times> dw_handle, (handle_ref \<times> handle_ref) reservation_failure) result \<times>
    typed_handle_pair_reservation \<times> handle_table) option" where
  "typed_pair_try_publish guard table references =
    (let fail = (\<lambda>e. Some (Err \<lparr>rf_error = e, rf_payload = references\<rparr>, guard, table));
         (first, second) = references; (spec1, spec2) = tp_specs guard;
         (rv1, rv2) = tp_reservations guard in
     if tp_domain guard \<noteq> ht_domain table then fail ForeignTable
     else do { r \<leftarrow> validate_typed table [(first, spec1, rv1), (second, spec2, rv2)];
               case r of
                 Err e \<Rightarrow> fail e
               | Ok _ \<Rightarrow>
                   do { table' \<leftarrow> publish_all table
                          [(rv1, \<lparr>he_reference = first, he_rights = rs_rights spec1\<rparr>),
                           (rv2, \<lparr>he_reference = second, he_rights = rs_rights spec2\<rparr>)];
                        Some (Ok (rv_handle rv1, rv_handle rv2), guard\<lparr>tp_completed := True\<rparr>, table') } })"

definition transfer_cancel ::
  "handle_transfer_reservation \<Rightarrow> handle_table \<Rightarrow>
   ((unit, handle_reservation_error) result \<times> handle_transfer_reservation \<times> handle_table) option" where
  "transfer_cancel guard table =
    (if tr_domain guard \<noteq> ht_domain table then Some (Err ForeignTable, guard, table)
     else do { (r, table') \<leftarrow> release_reservation table (tr_reservation guard) Destination;
               Some (case r of
                   Err e \<Rightarrow> (Err e, guard, table')
                 | Ok _ \<Rightarrow> (Ok (), guard\<lparr>tr_completed := True\<rparr>, table')) })"

text \<open>The common tail of \<open>try_publish\<close> and \<open>try_publish_reference\<close>.\<close>

definition publish_destination ::
  "handle_transfer_reservation \<Rightarrow> handle_table \<Rightarrow> handle_entry \<Rightarrow> 'p \<Rightarrow>
   ((published_handle_info, 'p reservation_failure) result \<times> handle_transfer_reservation \<times> handle_table) option" where
  "publish_destination guard table entry payload =
    do { r \<leftarrow> validate_reservation table (tr_reservation guard) Destination;
         case r of
           Err e \<Rightarrow> Some (Err \<lparr>rf_error = e, rf_payload = payload\<rparr>, guard, table)
         | Ok _ \<Rightarrow>
             do { (p, table') \<leftarrow> publish table (tr_reservation guard) entry;
                  _ \<leftarrow> expect_ok p;
                  Some (Ok \<lparr>pi_handle = rv_handle (tr_reservation guard), pi_rights = he_rights entry,
                      pi_object_type = hr_object_type (he_reference entry)\<rparr>,
                    guard\<lparr>tr_completed := True\<rparr>, table') } }"

definition try_publish_reference ::
  "handle_transfer_reservation \<Rightarrow> handle_table \<Rightarrow> handle_ref \<Rightarrow> dw_rights \<Rightarrow>
   ((published_handle_info, handle_ref reservation_failure) result \<times>
    handle_transfer_reservation \<times> handle_table) option" where
  "try_publish_reference guard table reference rights =
    (if tr_domain guard \<noteq> ht_domain table
     then Some (Err \<lparr>rf_error = ForeignTable, rf_payload = reference\<rparr>, guard, table)
     else (case and_then (validate_requested_syntax rights)
            (\<lambda>_. validate_compatible (hr_object_type reference) rights) of
         Err _ \<Rightarrow> Some (Err \<lparr>rf_error = Conflict, rf_payload = reference\<rparr>, guard, table)
       | Ok _ \<Rightarrow> publish_destination guard table \<lparr>he_reference = reference, he_rights = rights\<rparr> reference))"

definition try_publish ::
  "handle_transfer_reservation \<Rightarrow> handle_table \<Rightarrow> handle_transfer_token \<Rightarrow>
   ((published_handle_info, handle_transfer_token reservation_failure) result \<times>
    handle_transfer_reservation \<times> handle_table) option" where
  "try_publish guard table token =
    (if tr_domain guard \<noteq> ht_domain table
     then Some (Err \<lparr>rf_error = ForeignTable, rf_payload = token\<rparr>, guard, table)
     else publish_destination guard table
       \<lparr>he_reference = tt_reference token, he_rights = tt_requested_rights token\<rparr> token)"

text \<open>The loop of \<open>HandleBatchReservation::publish\<close> over the indices \<open>index .. index + n\<close>.\<close>

fun publish_indices ::
  "handle_table \<Rightarrow> nat \<Rightarrow> nat \<Rightarrow> reservation option list \<Rightarrow> handle_transfer_token option list \<Rightarrow>
   published_handle_info option list \<Rightarrow> (published_handle_info option list \<times> handle_table) option" where
  "publish_indices table index 0 reservations tokens published = Some (published, table)"
| "publish_indices table index (Suc n) reservations tokens published =
    do { slot \<leftarrow> slice_get reservations index;
         rv \<leftarrow> slot;
         r \<leftarrow> validate_reservation table rv Destination;
         _ \<leftarrow> expect_ok r;
         taken \<leftarrow> slice_get tokens index;
         token \<leftarrow> taken;
         (p, table') \<leftarrow> publish table rv
           \<lparr>he_reference = tt_reference token, he_rights = tt_requested_rights token\<rparr>;
         _ \<leftarrow> expect_ok p;
         publish_indices table' (index + 1) n reservations (tokens[index := None])
           (published[index := Some \<lparr>pi_handle = rv_handle rv, pi_rights = tt_requested_rights token,
             pi_object_type = hr_object_type (tt_reference token)\<rparr>]) }"

definition batch_publish ::
  "handle_table \<Rightarrow> handle_batch_reservation \<Rightarrow> handle_transfer_batch \<Rightarrow>
   (published_handle_info option list \<times> handle_table) option" where
  "batch_publish table guard transfers =
    do { _ \<leftarrow> assert_panic (tb_len transfers = br_len guard);
         publish_indices table 0 (br_len guard) (br_reservations guard) (tb_entries transfers)
           (replicate HANDLE_TRANSFER_LIMIT None) }"

text \<open>\<open>HandleTransferBatch::release\<close>: every queued token is released, in order.\<close>

fun release_tokens ::
  "object_registry \<Rightarrow> handle_transfer_token option list \<Rightarrow>
   (final_release option list \<times> object_registry) option" where
  "release_tokens registry [] = Some ([], registry)"
| "release_tokens registry (entry # rest) =
    do { token \<leftarrow> entry;
         case release_handle registry (tt_reference token) of
           (Err _, _) \<Rightarrow> None
         | (Ok final_release, registry') \<Rightarrow>
             do { (releases, registry'') \<leftarrow> release_tokens registry' rest;
                  Some (final_release # releases, registry'') } }"

definition transfer_batch_release ::
  "object_registry \<Rightarrow> handle_transfer_batch \<Rightarrow> (final_release option list \<times> object_registry) option" where
  "transfer_batch_release registry batch =
    do { (releases, registry') \<leftarrow> release_tokens registry (take (tb_len batch) (tb_entries batch));
         Some (releases @ replicate (HANDLE_TRANSFER_LIMIT - length releases) None, registry') }"

lemmas handle_transfer_eval [eval_simps] =
  flatten_options_def List.map_filter_def handle_generation_def check_move_def prepared_entry_def prepare_entry_def
  prepare_move_batch_def transfer_batch_empty_def entry_matches_def extract_batch_def rollback_finish_def
  token_matches_def restore_entry_def rollback_batch_def prepare_move_def validate_prepared_move_def
  prepared_cancel_def try_extract_def try_finish_def try_rollback_def reserve_transfer_batch_def
  reserve_transfer_destination_def reserve_two_def validate_spec_def reserve_typed_pair_def reserve_pair_def
  try_publish_reserved_pair_def pair_cancel_def typed_pair_cancel_def typed_pair_try_publish_def
  transfer_cancel_def publish_destination_def try_publish_reference_def try_publish_def batch_publish_def
  transfer_batch_release_def

end
