(* ===== verification/Handle_Lifetime.thy ===== *)
theory Handle_Lifetime
  imports Handle_Transfer
begin

text \<open>
  Handles are never reused: along any sequence of table operations a handle that was closed,
  drained or moved away stays unresolvable, and no operation returns it again. The argument is
  local to a slot (\<open>slot_evolves\<close>) and is lifted to every operation.
\<close>

section \<open>How a slot may change\<close>

definition extracted :: "handle_slot \<Rightarrow> bool" where
  "extracted s = (case hs_reservation s of None \<Rightarrow> False | Some r \<Rightarrow> sr_kind r = MoveExtracted)"

definition vacated :: "handle_slot \<Rightarrow> bool" where
  "vacated s \<longleftrightarrow> hs_entry s = None \<and> \<not> extracted s"

definition slot_evolves :: "handle_slot \<Rightarrow> handle_slot \<Rightarrow> bool" where
  "slot_evolves s s' \<longleftrightarrow> unat (hs_generation s) \<le> unat (hs_generation s') \<and>
    (hs_generation s' = hs_generation s \<and> vacated s \<longrightarrow> vacated s')"

lemma slot_evolves_refl [simp]: "slot_evolves s s"
  by (simp add: slot_evolves_def)

lemma slot_evolves_trans: "slot_evolves a b \<Longrightarrow> slot_evolves b c \<Longrightarrow> slot_evolves a c"
  unfolding slot_evolves_def by (metis order_antisym order_trans word_unat_eq_iff)

definition table_evolves :: "handle_table \<Rightarrow> handle_table \<Rightarrow> bool" where
  "table_evolves t t' \<longleftrightarrow> length (ht_slots t') = length (ht_slots t) \<and>
    (\<forall>j<length (ht_slots t). slot_evolves (ht_slots t ! j) (ht_slots t' ! j))"

lemma table_evolves_refl [simp]: "table_evolves t t"
  by (simp add: table_evolves_def)

lemma table_evolves_trans [trans]: "table_evolves a b \<Longrightarrow> table_evolves b c \<Longrightarrow> table_evolves a c"
  by (auto simp: table_evolves_def intro: slot_evolves_trans)

lemma table_evolves_live [simp]: "table_evolves t (t'\<lparr>ht_live_count := n\<rparr>) = table_evolves t t'"
  by (simp add: table_evolves_def)

lemma evolves_update:
  "slot_evolves (ht_slots t ! i) (f (ht_slots t ! i)) \<Longrightarrow> table_evolves t (update_slot i f t)"
  by (auto simp: table_evolves_def update_slot_nth)

lemma slot_evolves_local:
  "slot_evolves s (s\<lparr>hs_retired := b\<rparr>)"
  "slot_evolves s (s\<lparr>hs_entry := None\<rparr>)"
  "slot_evolves s (s\<lparr>hs_reservation := None\<rparr>)"
  "k \<noteq> MoveExtracted \<Longrightarrow> slot_evolves s (s\<lparr>hs_reservation := Some \<lparr>sr_permit = p, sr_kind = k\<rparr>\<rparr>)"
  by (auto simp: slot_evolves_def vacated_def extracted_def split: option.splits)

lemma retire_evolves: "table_evolves t (retire_if_exhausted i t)"
  by (auto simp: retire_if_exhausted_def intro!: evolves_update slot_evolves_local)

lemma take_entry_evolves: "take_entry t i = Some (e, t') \<Longrightarrow> table_evolves t t'"
  by (auto simp: take_entry_def bind_Some_iff intro!: evolves_update slot_evolves_local)

lemma clear_reservation_evolves: "table_evolves t (update_slot i (\<lambda>s. s\<lparr>hs_reservation := None\<rparr>) t)"
  by (intro evolves_update slot_evolves_local)

lemma hslot_skipped_evolves: "hslot_skipped s s' \<Longrightarrow> slot_evolves s s'"
  by (auto simp: hslot_skipped_def slot_evolves_local)

text \<open>A reservation as the table mints them: only the scan builds one.\<close>

definition genuine :: "reservation \<Rightarrow> bool" where
  "genuine rv \<longleftrightarrow> handle_next_generation (rv_prior_generation rv) = Some (rv_generation rv) \<and>
    encode_handle (rv_slot rv) (rv_generation rv) = Some (rv_handle rv)"

lemma genuine_reserved:
  "genuine rv \<Longrightarrow> validate_reservation t rv Destination = Some (Ok u) \<Longrightarrow> reserved t rv"
  by (auto simp: genuine_def validate_reservation_Ok_iff reserved_def pins_def)

lemma reserved_genuine: "reserved t rv \<Longrightarrow> genuine rv"
  by (auto simp: genuine_def reserved_def pins_def)

lemma reserve_evolves:
  assumes "reserve_slot_with_kind t excluded Destination retire = Some (r, t')"
  shows "table_evolves t t'"
proof -
  obtain ss np where scan: "reserve_scan excluded Destination retire (ht_next_permit t) 0 (ht_slots t) = Some (r, ss, np)"
    and t': "t' = t\<lparr>ht_slots := ss, ht_next_permit := np\<rparr>"
    using assms by (auto simp: reserve_slot_with_kind_def bind_Some_iff)
  note spec = reserve_scan_spec [OF scan]
  have "slot_evolves (ht_slots t ! j) (ss ! j)" if j: "j < length (ht_slots t)" for j
  proof (cases r)
    case (Ok rv)
    with spec obtain p where "ss ! p = (ht_slots t ! p)\<lparr>hs_reservation := Some
        \<lparr>sr_permit = rv_permit rv, sr_kind = Destination\<rparr>\<rparr>"
      "\<forall>j<length (ht_slots t). j \<noteq> p \<longrightarrow> hslot_skipped (ht_slots t ! j) (ss ! j)" by auto
    with j show ?thesis
      by (cases "j = p") (auto intro: hslot_skipped_evolves slot_evolves_local)
  next
    case (Err e)
    with spec j show ?thesis by (auto intro: hslot_skipped_evolves)
  qed
  with spec show ?thesis by (simp add: t' table_evolves_def)
qed

lemma release_reservation_evolves:
  "release_reservation t rv k = Some (r, t') \<Longrightarrow> table_evolves t t'"
  by (auto simp: release_reservation_def bind_Some_iff result_case_eq_iff
      intro!: evolves_update slot_evolves_local)

lemma publish_evolves:
  assumes "genuine rv" and "publish t rv e = Some (r, t')"
  shows "table_evolves t t'"
proof -
  have "slot_evolves s (s\<lparr>hs_generation := rv_generation rv, hs_entry := Some e, hs_reservation := None\<rparr>)"
    if "hs_generation s = rv_prior_generation rv" for s
    using assms(1) that by (auto simp: slot_evolves_def genuine_def dest: handle_next_generation_unat)
  then show ?thesis
    using assms(2) by (auto simp: publish_def bind_Some_iff result_case_Some_iff validate_reservation_Ok_iff
        intro!: evolves_update)
qed

section \<open>Every operation\<close>

lemma reserve_genuine:
  "reserve_slot_with_kind t excluded Destination retire = Some (Ok rv, t') \<Longrightarrow> genuine rv"
  using reserve_Ok reserved_genuine by blast

lemma install_evolves:
  assumes "install t ref rights = Some (r, t')"
  shows "table_evolves t t'"
proof -
  from assms consider "t' = t" | x where "reserve_slot_with_kind t None Destination True = Some (x, t')"
    | rv t1 e p where "reserve_slot_with_kind t None Destination True = Some (Ok rv, t1)" "publish t1 rv e = Some (p, t')"
    by (auto simp: install_def reserve_slot_def reserve_slot_excluding_def bind_Some_iff result_case_Some_iff)
  then show ?thesis
    by cases (auto intro: table_evolves_trans reserve_evolves publish_evolves reserve_genuine)
qed

lemma close_evolves: "close t reg h = Some (r, t', reg') \<Longrightarrow> table_evolves t t'"
  by (auto simp: close_def bind_Some_iff case_eq_iffs
      intro: table_evolves_trans [OF take_entry_evolves retire_evolves])

lemma duplicate_evolves:
  assumes "duplicate t reg src rights = Some (r, t', reg')"
  shows "table_evolves t t'"
proof -
  from assms consider "t' = t" | x where "reserve_slot_with_kind t None Destination True = Some (x, t')"
    | rv t1 e p where "reserve_slot_with_kind t None Destination True = Some (Ok rv, t1)" "publish t1 rv e = Some (p, t')"
    by (auto simp: duplicate_authorised reserve_slot_def reserve_slot_excluding_def bind_Some_iff case_eq_iffs)
  then show ?thesis
    by cases (auto intro: table_evolves_trans reserve_evolves publish_evolves reserve_genuine)
qed

lemma drain_loop_evolves: "drain_loop t reg out n slot = Some (w, out', t', reg') \<Longrightarrow> table_evolves t t'"
proof (induction t reg out n slot rule: drain_loop.induct)
  case (1 t reg out n slot)
  have step: "table_evolves t (retire_if_exhausted slot t1)" if "take_entry t slot = Some (e, t1)" for e t1
    by (rule table_evolves_trans [OF take_entry_evolves [OF that] retire_evolves])
  from 1 show ?case
    by (subst (asm) (3) drain_loop.simps)
      (auto split: if_splits option.splits prod.splits result.splits intro: table_evolves_trans [OF step])
qed

lemma prepare_move_evolves: "prepare_move t request = Some (r, t') \<Longrightarrow> table_evolves t t'"
  by (auto simp: prepare_move_def reserve_live_slot_def bind_Some_iff result_case_Some_iff result_case_eq_iff
      table_evolves_def update_slot_nth slot_evolves_local split: if_splits)

lemma prepared_cancel_evolves: "prepared_cancel g t = (r, g', t') \<Longrightarrow> table_evolves t t'"
  by (auto simp: prepared_cancel_def result_case_eq_iff split: if_splits intro!: evolves_update slot_evolves_local)

lemma validate_prepared_move_Ok_iff:
  "validate_prepared_move t p k live = Ok u \<longleftrightarrow> pm_slot p < length (ht_slots t) \<and>
    hs_reservation (ht_slots t ! pm_slot p) = Some \<lparr>sr_permit = pm_permit p, sr_kind = k\<rparr> \<and>
    \<not> hs_retired (ht_slots t ! pm_slot p) \<and>
    hs_generation (ht_slots t ! pm_slot p) = handle_generation (pm_handle p) \<and>
    (if live then \<exists>e. hs_entry (ht_slots t ! pm_slot p) = Some e \<and> entry_matches e p
     else hs_entry (ht_slots t ! pm_slot p) = None)"
  by (cases live; cases "hs_entry (ht_slots t ! pm_slot p)")
    (auto simp: validate_prepared_move_def slice_get_def split: if_splits)

lemma try_extract_evolves:
  assumes "try_extract g t = Some (r, g', t')"
  shows "table_evolves t t'"
proof (cases "t' = t")
  case False
  let ?i = "pm_slot (ph_entry g)"
  let ?f = "\<lambda>s. s\<lparr>hs_reservation := Some \<lparr>sr_permit = pm_permit (ph_entry g), sr_kind = MoveExtracted\<rparr>\<rparr>"
  obtain src t1 where take: "take_entry t ?i = Some (src, t1)" and t': "t' = update_slot ?i ?f t1"
    using assms False by (auto simp: try_extract_def Let_def bind_Some_iff result_case_Some_iff split: if_splits)
  obtain live where "hs_entry (ht_slots t ! ?i) = Some src"
    and "t1 = (update_slot ?i (\<lambda>s. s\<lparr>hs_entry := None\<rparr>) t)\<lparr>ht_live_count := live\<rparr>"
    using take by (auto simp: take_entry_def bind_Some_iff)
  then show ?thesis
    by (auto simp: t' table_evolves_def update_slot_def nth_update_if slot_evolves_def vacated_def)
qed simp

lemma try_finish_evolves: "try_finish g t = (r, g', t') \<Longrightarrow> table_evolves t t'"
  by (auto simp: try_finish_def result_case_eq_iff split: if_splits
      intro: table_evolves_trans [OF retire_evolves clear_reservation_evolves])

lemma try_rollback_evolves:
  assumes "try_rollback g t token = Some (r, g', t')"
  shows "table_evolves t t'"
proof (cases "t' = t")
  case False
  then obtain live where v: "validate_prepared_move t (pr_entry g) MoveExtracted False = Ok ()"
    and t': "t' = update_slot (pm_slot (pr_entry g)) (\<lambda>s. s\<lparr>hs_reservation := None\<rparr>)
      ((update_slot (pm_slot (pr_entry g)) (\<lambda>s. s\<lparr>hs_entry := Some \<lparr>he_reference = tt_reference token,
        he_rights = tt_source_rights token\<rparr>\<rparr>) t)\<lparr>ht_live_count := live\<rparr>)"
    using assms by (auto simp: try_rollback_def Let_def bind_Some_iff result_case_Some_iff restore_entry_def
        split: if_splits)
  then show ?thesis
    by (auto simp: table_evolves_def update_slot_def nth_update_if slot_evolves_def vacated_def extracted_def
        validate_prepared_move_Ok_iff)
qed simp

end
