(* ===== verification/Handle_Moves.thy ===== *)
theory Handle_Moves
  imports Handle_Lifetime
begin

text \<open>
  Moves of handles out of a table. A batch that was prepared extracts without panicking, its
  extraction empties exactly the named slots, and a rollback restores the table bit for bit;
  likewise for the permit-based single move. No move carries more rights than its source.
\<close>

section \<open>Emptying a set of slots\<close>

definition emptied :: "nat set \<Rightarrow> handle_table \<Rightarrow> handle_table" where
  "emptied S t = t\<lparr>ht_slots := map (\<lambda>j. if j \<in> S then (ht_slots t ! j)\<lparr>hs_entry := None\<rparr> else ht_slots t ! j)
      [0..<length (ht_slots t)], ht_live_count := ht_live_count t - card S\<rparr>"

definition live_slots :: "handle_table \<Rightarrow> nat set" where
  "live_slots t = {j. j < length (ht_slots t) \<and> has_entry (ht_slots t ! j)}"

lemma finite_live_slots [simp]: "finite (live_slots t)"
  by (simp add: live_slots_def)

lemma card_live_slots: "table_wf t \<Longrightarrow> card (live_slots t) = ht_live_count t"
  by (simp add: table_wf_def live_slots_def length_filter_conv_card)

lemma emptied_empty [simp]: "emptied {} t = t"
  by (simp add: emptied_def map_nth)

lemma emptied_nth:
  "j < length (ht_slots t) \<Longrightarrow>
    ht_slots (emptied S t) ! j = (if j \<in> S then (ht_slots t ! j)\<lparr>hs_entry := None\<rparr> else ht_slots t ! j)"
  by (simp add: emptied_def)

lemma emptied_select [simp]:
  "length (ht_slots (emptied S t)) = length (ht_slots t)" "ht_domain (emptied S t) = ht_domain t"
  "ht_next_permit (emptied S t) = ht_next_permit t" "ht_live_count (emptied S t) = ht_live_count t - card S"
  by (simp_all add: emptied_def)

lemma handle_table_eqI:
  assumes "ht_domain a = ht_domain b" "ht_live_count a = ht_live_count b" "ht_next_permit a = ht_next_permit b"
    and "length (ht_slots a) = length (ht_slots b)"
    and "\<And>j. j < length (ht_slots b) \<Longrightarrow> ht_slots a ! j = ht_slots b ! j"
  shows "a = (b :: handle_table)"
  using assms by (intro handle_table.equality nth_equalityI) auto

lemma card_subset_live:
  assumes "table_wf t" and "S \<subseteq> live_slots t"
  shows "card S \<le> ht_live_count t" and "finite S"
proof -
  show "finite S" using assms(2) finite_subset finite_live_slots by blast
  then show "card S \<le> ht_live_count t"
    using card_mono [OF finite_live_slots assms(2)] card_live_slots [OF assms(1)] by simp
qed

lemma take_entry_emptied:
  assumes wf: "table_wf t" and S: "insert i S \<subseteq> live_slots t" "i \<notin> S" and e: "hs_entry (ht_slots t ! i) = Some e"
  shows "take_entry (emptied S t) i = Some (e, emptied (insert i S) t)"
proof -
  have i: "i < length (ht_slots t)" using S(1) by (simp add: live_slots_def)
  note c = card_subset_live [OF wf S(1)]
  have c1: "card (insert i S) = card S + 1" using c(2) S(2) by simp
  have "take_entry (emptied S t) i = Some (e, (update_slot i (\<lambda>s. s\<lparr>hs_entry := None\<rparr>) (emptied S t))
      \<lparr>ht_live_count := ht_live_count t - card S - 1\<rparr>)"
    using e S(2) i c c1 by (simp add: take_entry_def emptied_nth checked_sub_usize_def)
  also have "(update_slot i (\<lambda>s. s\<lparr>hs_entry := None\<rparr>) (emptied S t))\<lparr>ht_live_count := ht_live_count t - card S - 1\<rparr>
      = emptied (insert i S) t"
    using c1 by (intro handle_table_eqI) (auto simp: update_slot_nth emptied_nth)
  finally show ?thesis .
qed

lemma restore_entry_emptied:
  assumes wf: "table_wf t" and S: "S \<subseteq> live_slots t" "i \<in> S"
    and e: "hs_entry (ht_slots t ! i) = Some \<lparr>he_reference = tt_reference tok, he_rights = tt_source_rights tok\<rparr>"
  shows "restore_entry (emptied S t) i tok = Some (emptied (S - {i}) t)"
proof -
  let ?f = "\<lambda>s. s\<lparr>hs_entry := Some \<lparr>he_reference = tt_reference tok, he_rights = tt_source_rights tok\<rparr>\<rparr>"
  note c = card_subset_live [OF wf S(1)]
  have i: "i < length (ht_slots t)" using S by (auto simp: live_slots_def)
  have c1: "card S = card (S - {i}) + 1" using card_Suc_Diff1 [OF c(2) S(2)] by simp
  have "ht_live_count t \<le> length (ht_slots t)" "length (ht_slots t) < 2 ^ 64"
    using wf by (auto simp: table_wf_def)
  then have "ht_live_count t - card S + 1 < 2 ^ 64" using c(1) c1 by linarith
  then have "restore_entry (emptied S t) i tok =
      Some ((update_slot i ?f (emptied S t))\<lparr>ht_live_count := ht_live_count t - card S + 1\<rparr>)"
    by (simp add: restore_entry_def checked_add_usize_def)
  also have "(update_slot i ?f (emptied S t))\<lparr>ht_live_count := ht_live_count t - card S + 1\<rparr> = emptied (S - {i}) t"
    using c c1 e by (intro handle_table_eqI) (auto simp: update_slot_nth emptied_nth)
  finally show ?thesis .
qed

text \<open>The handle of a live slot.\<close>

definition slot_handle :: "handle_table \<Rightarrow> nat \<Rightarrow> dw_handle" where
  "slot_handle t i = the (encode_handle i (hs_generation (ht_slots t ! i)))"

lemma slot_handle_decode:
  assumes "table_wf t" and "i \<in> live_slots t"
  shows "decode_handle (slot_handle t i) = Some (i, hs_generation (ht_slots t ! i))"
proof -
  have "entry_ok i (ht_slots t ! i)" using assms table_wf_slot [OF assms(1)] by (simp add: hslot_ok_def live_slots_def)
  then obtain h where "encode_handle i (hs_generation (ht_slots t ! i)) = Some h"
    using assms(2) handle_codec.encode_defined [of i "hs_generation (ht_slots t ! i)"]
    by (auto simp: entry_ok_def live_slots_def has_entry_def)
  then show ?thesis by (simp add: slot_handle_def handle_codec.decode_encode)
qed

definition slots_token :: "handle_table \<Rightarrow> nat \<Rightarrow> token" where
  "slots_token t i = handle_token (he_reference (the (hs_entry (ht_slots t ! i))))"

lemma emptied_refines:
  assumes wf: "table_wf t" and S: "S \<subseteq> live_slots t"
  shows "table_wf (emptied S t) \<and>
    table_view (emptied S t) = (\<lambda>h. if h \<in> slot_handle t ` S then None else table_view t h) \<and>
    table_tokens t = table_tokens (emptied S t) + image_mset (slots_token t) (mset_set S)"
  using card_subset_live(2) [OF wf S] S
proof (induction S rule: finite_induct)
  case empty
  then show ?case using wf by simp
next
  case (insert i S)
  then obtain e where e: "hs_entry (ht_slots t ! i) = Some e" and i: "i \<in> live_slots t" and S: "S \<subseteq> live_slots t"
    by (auto simp: live_slots_def has_entry_def)
  have IH: "table_wf (emptied S t)"
    "table_view (emptied S t) = (\<lambda>h. if h \<in> slot_handle t ` S then None else table_view t h)"
    "table_tokens t = table_tokens (emptied S t) + image_mset (slots_token t) (mset_set S)"
    using insert.IH [OF S] by auto
  have at: "ht_slots (emptied S t) ! i = ht_slots t ! i" and len: "i < length (ht_slots (emptied S t))"
    using i insert.hyps(2) by (auto simp: emptied_nth live_slots_def)
  have h: "decode_handle (slot_handle t i) = Some (i, hs_generation (ht_slots (emptied S t) ! i))"
    using slot_handle_decode [OF wf i] at by simp
  note step = take_entry_refines [OF IH(1) len _ h]
  from step [of e] take_entry_emptied [OF wf insert.prems insert.hyps(2) e] e at
  have "table_wf (emptied (insert i S) t)"
    "table_view (emptied (insert i S) t) = (table_view (emptied S t))(slot_handle t i := None)"
    "table_tokens (emptied S t) = add_mset (handle_token (he_reference e)) (table_tokens (emptied (insert i S) t))"
    by auto
  moreover have "slots_token t i = handle_token (he_reference e)" using e by (simp add: slots_token_def)
  ultimately show ?case using IH insert.hyps by (auto simp: fun_eq_iff)
qed

section \<open>Batches\<close>

lemma check_move_Ok_iff:
  "check_move e requested = Ok u \<longleftrightarrow> rights_le DW_RIGHT_TRANSFER (he_rights e) \<and>
    rights_wf (hr_object_type (he_reference e)) requested \<and> rights_le requested (he_rights e)"
  by (auto simp: check_move_def rights_wf_def split: if_splits dest: compatible_imp_known)

text \<open>What a successful preparation establishes about an entry.\<close>

definition prepared_for :: "handle_table \<Rightarrow> handle_move_request \<Rightarrow> prepared_move_entry \<Rightarrow> bool" where
  "prepared_for t request p \<longleftrightarrow> (\<exists>slot e. resolve_slot t (mr_handle request) = Ok slot \<and>
    hs_entry (ht_slots t ! slot) = Some e \<and> check_move e (mr_requested_rights request) = Ok () \<and>
    p = prepared_entry slot request e 0)"

lemma prepare_entry_Ok: "prepare_entry t request = Some (Ok p) \<Longrightarrow> prepared_for t request p"
  by (auto simp: prepare_entry_def prepared_for_def bind_Some_iff result_case_Some_iff and_then_Ok_iff
      prepared_entry_def)

lemma prepare_entry_no_panic: "prepare_entry t request \<noteq> None"
  by (cases "resolve_slot t (mr_handle request)") (auto simp: prepare_entry_def elim: resolve_slot_entry)

lemma prepare_entries_Ok:
  assumes "prepare_entries t index requests entries = Some (Ok entries')"
    and "index + length requests \<le> length entries"
  shows "\<exists>ps. entries' = take index entries @ map Some ps @ drop (index + length requests) entries \<and>
    list_all2 (prepared_for t) requests ps"
  using assms
proof (induction requests arbitrary: index entries)
  case (Cons request requests)
  then obtain p where p: "prepare_entry t request = Some (Ok p)"
    and rest: "prepare_entries t (index + 1) requests (entries[index := Some p]) = Some (Ok entries')"
    by (auto simp: bind_Some_iff result_case_Some_iff)
  from Cons.IH [OF rest] Cons.prems obtain ps where
    ps: "entries' = take (index + 1) (entries[index := Some p]) @ map Some ps @
      drop (index + 1 + length requests) (entries[index := Some p])" "list_all2 (prepared_for t) requests ps"
    by auto
  then show ?case using Cons.prems(2) prepare_entry_Ok [OF p]
    by (intro exI [of _ "p # ps"]) (simp add: take_Suc_conv_app_nth)
qed simp

lemma prepare_entries_no_panic: "prepare_entries t index requests entries \<noteq> None"
proof (induction requests arbitrary: index entries)
  case (Cons request requests)
  then show ?case using prepare_entry_no_panic [of t request] by (auto split: result.split)
qed simp

lemma duplicate_source_distinct: "\<not> duplicate_source requests \<longleftrightarrow> distinct (map mr_handle requests)"
  by (induction requests) (auto simp: list_ex_iff)

lemma flatten_map_Some [simp]: "flatten_options (map Some xs) = xs"
  by (induction xs) (auto simp: flatten_options_def List.map_filter_def)

text \<open>The slots of distinct live handles are distinct.\<close>

lemma prepared_distinct_slots:
  assumes "list_all2 (prepared_for t) requests ps" and "distinct (map mr_handle requests)"
  shows "distinct (map pm_slot ps)"
  using assms
proof (induction requests ps rule: list_all2_induct)
  case (Cons r rs p ps)
  have "pm_slot p \<noteq> pm_slot q" if q: "q \<in> set ps" for q
  proof
    assume eq: "pm_slot p = pm_slot q"
    from q Cons.hyps(2) obtain r' where "r' \<in> set rs" "prepared_for t r' q"
      by (metis in_set_conv_nth list_all2_conv_all_nth)
    moreover from this Cons.hyps(1) eq have "mr_handle r = mr_handle r'"
      by (auto simp: prepared_for_def prepared_entry_def resolve_slot_Ok_iff dest: handle_codec.decode_inj)
    ultimately show False using Cons.prems by auto
  qed
  with Cons show ?case by auto
qed simp

definition transfer_of :: "handle_table \<Rightarrow> prepared_move_entry \<Rightarrow> handle_transfer_token" where
  "transfer_of t p = (let e = the (hs_entry (ht_slots t ! pm_slot p)) in
    \<lparr>tt_reference = he_reference e, tt_source_rights = he_rights e,
     tt_requested_rights = pm_requested_rights p\<rparr>)"

text \<open>A prepared entry that still matches its table.\<close>

definition ready :: "handle_table \<Rightarrow> prepared_move_entry \<Rightarrow> bool" where
  "ready t p \<longleftrightarrow> resolve_slot t (pm_handle p) = Ok (pm_slot p) \<and>
    (\<exists>e. hs_entry (ht_slots t ! pm_slot p) = Some e \<and> entry_matches e p)"

lemma prepared_for_ready: "prepared_for t request p \<Longrightarrow> ready t p"
  by (auto simp: prepared_for_def ready_def entry_matches_def prepared_entry_def)

lemma ready_live: "ready t p \<Longrightarrow> pm_slot p \<in> live_slots t"
  by (auto simp: ready_def resolve_slot_Ok_iff live_slots_def has_entry_def)

lemma ready_emptied:
  "ready t p \<Longrightarrow> pm_slot p \<notin> S \<Longrightarrow> ready (emptied S t) p \<and>
    hs_entry (ht_slots (emptied S t) ! pm_slot p) = hs_entry (ht_slots t ! pm_slot p)"
  by (auto simp: ready_def resolve_slot_Ok_iff emptied_nth)

lemma extract_entries_spec:
  assumes wf: "table_wf t" and "\<forall>p\<in>set ps. ready t p" and "S \<subseteq> live_slots t"
    and "distinct (map pm_slot ps)" and "pm_slot ` set ps \<inter> S = {}"
    and "index + length ps \<le> length (tb_entries b)"
  shows "extract_entries (emptied S t) index ps b =
    Some (emptied (S \<union> pm_slot ` set ps) t,
      \<lparr>tb_entries = take index (tb_entries b) @ map (Some \<circ> transfer_of t) ps @ drop (index + length ps) (tb_entries b),
       tb_len = tb_len b + length ps\<rparr>)"
  using assms(2-)
proof (induction ps arbitrary: S index b)
  case (Cons p ps)
  then obtain e where e: "hs_entry (ht_slots t ! pm_slot p) = Some e" "entry_matches e p"
    and r: "ready t p" and live: "insert (pm_slot p) S \<subseteq> live_slots t" and new: "pm_slot p \<notin> S"
    by (auto simp: ready_live) (auto simp: ready_def)
  have "resolve_slot (emptied S t) (pm_handle p) = Ok (pm_slot p)"
    using ready_emptied [OF r new] by (simp add: ready_def)
  moreover have "transfer_of t p = \<lparr>tt_reference = he_reference e, tt_source_rights = he_rights e,
      tt_requested_rights = pm_requested_rights p\<rparr>" using e by (simp add: transfer_of_def)
  moreover have "pm_slot ` set ps \<inter> insert (pm_slot p) S = {}" using Cons.prems by auto
  ultimately show ?case
    using Cons.IH [OF _ live] Cons.prems take_entry_emptied [OF wf live new e(1)] e(2)
    by (simp add: take_Suc_conv_app_nth)
qed simp

lemma decode_handle_generation: "decode_handle h = Some (i, g) \<Longrightarrow> handle_generation h = g"
  by (auto simp: decode_handle_def handle_generation_def Let_def bind_Some_iff split: if_splits)

lemma transfer_of_matches: "ready t p \<Longrightarrow> token_matches (transfer_of t p) p"
  by (auto simp: ready_def token_matches_def transfer_of_def entry_matches_def)

lemma ready_slot:
  assumes "ready t p"
  shows "pm_slot p < length (ht_slots t)" "\<not> hs_retired (ht_slots t ! pm_slot p)"
    "hs_generation (ht_slots t ! pm_slot p) = handle_generation (pm_handle p)"
    "hs_entry (ht_slots t ! pm_slot p) = Some \<lparr>he_reference = tt_reference (transfer_of t p),
      he_rights = tt_source_rights (transfer_of t p)\<rparr>"
  using assms by (auto simp: ready_def resolve_slot_Ok_iff decode_handle_generation transfer_of_def)

lemma rollback_entries_spec:
  assumes wf: "table_wf t" and "\<forall>p\<in>set ps. ready t p" and "S \<subseteq> live_slots t"
    and "distinct (map pm_slot ps)" and "pm_slot ` set ps \<subseteq> S"
    and "index + length ps \<le> length tokens"
    and "\<forall>k<length ps. tokens ! (index + k) = Some (transfer_of t (ps ! k))"
  shows "rollback_entries (emptied S t) index ps tokens = Some (emptied (S - pm_slot ` set ps) t)"
  using assms(2-)
proof (induction ps arbitrary: S index tokens)
  case (Cons p ps)
  have r: "ready t p" and S: "pm_slot p \<in> S" using Cons.prems by auto
  note slot = ready_slot [OF r]
  have tok: "tokens ! index = Some (transfer_of t p)" using Cons.prems(6) by (auto dest: spec [of _ 0])
  have "rollback_entries (emptied (S - {pm_slot p}) t) (index + 1) ps (tokens[index := None]) =
      Some (emptied (S - {pm_slot p} - pm_slot ` set ps) t)"
  proof (rule Cons.IH)
    show "pm_slot ` set ps \<subseteq> S - {pm_slot p}" using Cons.prems(3,4) by (auto simp: image_iff)
    show "\<forall>k<length ps. tokens[index := None] ! (index + 1 + k) = Some (transfer_of t (ps ! k))"
      using Cons.prems(6) by (auto dest: spec [of _ "Suc _"])
  qed (use Cons.prems in auto)
  moreover have "restore_entry (emptied S t) (pm_slot p) (transfer_of t p) = Some (emptied (S - {pm_slot p}) t)"
    using restore_entry_emptied [OF wf Cons.prems(2) S slot(4)] .
  moreover have "S - pm_slot ` set (p # ps) = S - {pm_slot p} - pm_slot ` set ps" by auto
  ultimately show ?case
    using Cons.prems(5) tok slot S transfer_of_matches [OF r] by (simp add: emptied_nth)
qed simp

lemma finish_entries_spec:
  assumes "table_wf t"
    and "\<forall>p\<in>set ps. pm_slot p < length (ht_slots t) \<and> hs_entry (ht_slots t ! pm_slot p) = None \<and>
      hs_generation (ht_slots t ! pm_slot p) = handle_generation (pm_handle p) \<and>
      (\<forall>r. hs_reservation (ht_slots t ! pm_slot p) = Some r \<longrightarrow> sr_kind r = MovePrepared)"
  shows "\<exists>t'. finish_entries t ps = Some t' \<and> invisible t t' \<and> table_wf t' \<and> table_evolves t t'"
  using assms
proof (induction ps arbitrary: t)
  case (Cons p ps)
  let ?t = "retire_if_exhausted (pm_slot p) t"
  from Cons.prems(2) have slot: "pm_slot p < length (ht_slots t)" "hs_entry (ht_slots t ! pm_slot p) = None"
    "hs_generation (ht_slots t ! pm_slot p) = handle_generation (pm_handle p)"
    "\<forall>r. hs_reservation (ht_slots t ! pm_slot p) = Some r \<longrightarrow> sr_kind r = MovePrepared" by auto
  note ret = retire_invisible [OF slot(1,2,4)]
  have "hs_reservation (ht_slots ?t ! j) = hs_reservation (ht_slots t ! j)" if "j < length (ht_slots t)" for j
    using that by (simp add: retire_if_exhausted_def update_slot_nth)
  then have "\<exists>t'. finish_entries ?t ps = Some t' \<and> invisible ?t t' \<and> table_wf t' \<and> table_evolves ?t t'"
    using ret Cons.prems by (intro Cons.IH) (auto simp: invisible_def)
  moreover have "finish_entries t (p # ps) = finish_entries ?t ps" using slot by simp
  ultimately show ?case using ret retire_evolves by (metis invisible_trans table_evolves_trans)
qed simp

lemma prepare_move_batch_Ok:
  assumes "prepare_move_batch t requests = Some (Ok b)"
  obtains ps where "list_all2 (prepared_for t) requests ps" "distinct (map pm_slot ps)"
    "length ps \<le> HANDLE_TRANSFER_LIMIT" "pb_len b = length ps"
    "flatten_options (take (pb_len b) (pb_entries b)) = ps" "\<forall>p\<in>set ps. ready t p"
proof -
  from assms obtain entries where len: "length requests \<le> HANDLE_TRANSFER_LIMIT"
    and dist: "\<not> duplicate_source requests"
    and prep: "prepare_entries t 0 requests (replicate HANDLE_TRANSFER_LIMIT None) = Some (Ok entries)"
    and b: "b = \<lparr>pb_entries = entries, pb_len = length requests\<rparr>"
    by (auto simp: prepare_move_batch_def bind_Some_iff case_eq_iffs split: if_splits)
  from prepare_entries_Ok [OF prep] len obtain ps where
    entries: "entries = map Some ps @ drop (length requests) (replicate HANDLE_TRANSFER_LIMIT None)"
    and ps: "list_all2 (prepared_for t) requests ps" by auto
  have l: "length ps = length requests" using list_all2_lengthD [OF ps] by simp
  show thesis
  proof (rule that [OF ps])
    show "distinct (map pm_slot ps)"
      using prepared_distinct_slots [OF ps] dist by (simp add: duplicate_source_distinct)
    show "\<forall>p\<in>set ps. ready t p"
      using ps unfolding list_all2_conv_all_nth by (metis in_set_conv_nth prepared_for_ready)
  qed (use l len b entries in auto)
qed

lemma prepare_move_batch_no_panic:
  "length requests \<le> HANDLE_TRANSFER_LIMIT \<Longrightarrow> prepare_move_batch t requests \<noteq> None"
  using prepare_entries_no_panic [of t 0 requests "replicate HANDLE_TRANSFER_LIMIT None"]
  by (auto simp: prepare_move_batch_def)

text \<open>The transfers that the extraction of a prepared list hands out.\<close>

definition transfers_of :: "handle_table \<Rightarrow> prepared_move_entry list \<Rightarrow> handle_transfer_batch" where
  "transfers_of t ps = \<lparr>tb_entries = map (Some \<circ> transfer_of t) ps @ replicate (HANDLE_TRANSFER_LIMIT - length ps) None,
    tb_len = length ps\<rparr>"

lemma extract_batch_spec:
  assumes wf: "table_wf t" and ready: "\<forall>p\<in>set ps. ready t p" and dist: "distinct (map pm_slot ps)"
    and len: "length ps \<le> HANDLE_TRANSFER_LIMIT"
    and b: "flatten_options (take (pb_len b) (pb_entries b)) = ps"
  shows "extract_batch t b = Some (\<lparr>mb_entries = pb_entries b, mb_len = pb_len b, mb_completed = False\<rparr>,
    transfers_of t ps, emptied (pm_slot ` set ps) t)"
  using extract_entries_spec [OF wf ready _ dist, of "{}" 0 transfer_batch_empty] len
  by (simp add: extract_batch_def b transfers_of_def transfer_batch_empty_def)

lemma rollback_batch_spec:
  assumes wf: "table_wf t" and ready: "\<forall>p\<in>set ps. ready t p" and dist: "distinct (map pm_slot ps)"
    and len: "length ps \<le> HANDLE_TRANSFER_LIMIT" and g: "mb_len g = length ps"
    "flatten_options (take (mb_len g) (mb_entries g)) = ps"
  shows "rollback_batch (emptied (pm_slot ` set ps) t) g (transfers_of t ps) =
    Some (t, g\<lparr>mb_completed := True\<rparr>)"
proof -
  have live: "pm_slot ` set ps \<subseteq> live_slots t" using ready by (auto intro: ready_live)
  have "rollback_entries (emptied (pm_slot ` set ps) t) 0 ps (tb_entries (transfers_of t ps)) = Some t"
    using rollback_entries_spec [OF wf ready live dist, of 0 "tb_entries (transfers_of t ps)"]
    by (simp add: transfers_of_def nth_append)
  with g show ?thesis by (simp add: rollback_batch_def transfers_of_def)
qed

lemma rollback_finish_spec:
  assumes wf: "table_wf t" and ready: "\<forall>p\<in>set ps. ready t p"
    and g: "flatten_options (take (mb_len g) (mb_entries g)) = ps"
  shows "\<exists>t'. rollback_finish (emptied (pm_slot ` set ps) t) g = Some (t', g\<lparr>mb_completed := True\<rparr>) \<and>
    invisible (emptied (pm_slot ` set ps) t) t' \<and> table_wf t' \<and> table_evolves (emptied (pm_slot ` set ps) t) t'"
proof -
  let ?S = "pm_slot ` set ps"
  have live: "?S \<subseteq> live_slots t" using ready by (auto intro: ready_live)
  have "sr_kind r = MovePrepared" if "p \<in> set ps" "hs_reservation (ht_slots t ! pm_slot p) = Some r" for p r
    using that ready ready_slot [of t p] table_wf_slot [OF wf, of "pm_slot p"]
    by (cases "sr_kind r") (auto simp: hslot_ok_def reservation_ok_def)
  then have "\<forall>p\<in>set ps. pm_slot p < length (ht_slots (emptied ?S t)) \<and>
      hs_entry (ht_slots (emptied ?S t) ! pm_slot p) = None \<and>
      hs_generation (ht_slots (emptied ?S t) ! pm_slot p) = handle_generation (pm_handle p) \<and>
      (\<forall>r. hs_reservation (ht_slots (emptied ?S t) ! pm_slot p) = Some r \<longrightarrow> sr_kind r = MovePrepared)"
    using ready by (auto simp: emptied_nth ready_slot)
  moreover have "table_wf (emptied ?S t)" using emptied_refines [OF wf live] by simp
  ultimately obtain t' where "finish_entries (emptied ?S t) ps = Some t'"
    "invisible (emptied ?S t) t'" "table_wf t'" "table_evolves (emptied ?S t) t'"
    using finish_entries_spec by blast
  then show ?thesis using g by (simp add: rollback_finish_def)
qed

lemma emptied_evolves: "table_evolves t (emptied S t)"
  by (auto simp: table_evolves_def emptied_nth slot_evolves_local)

lemma batch_handles:
  assumes wf: "table_wf t" and ps: "list_all2 (prepared_for t) requests ps"
  shows "slot_handle t ` pm_slot ` set ps = mr_handle ` set requests"
proof -
  have "slot_handle t (pm_slot p) = mr_handle r" if "prepared_for t r p" for r p
    using that by (auto simp: prepared_for_def prepared_entry_def resolve_slot_Ok_iff slot_handle_def
        dest: handle_codec.encode_decode)
  then have "map (slot_handle t \<circ> pm_slot) ps = map mr_handle requests"
    using ps by (auto simp: list_all2_conv_all_nth intro: nth_equalityI)
  then show ?thesis by (metis image_comp list.set_map)
qed

section \<open>Single moves\<close>

lemma prepare_move_Ok:
  assumes "prepare_move t request = Some (Ok g, t')"
  obtains slot e np where "resolve_slot t (mr_handle request) = Ok slot" "hs_entry (ht_slots t ! slot) = Some e"
    "check_move e (mr_requested_rights request) = Ok ()" "hs_reservation (ht_slots t ! slot) = None"
    "mint_permit (ht_next_permit t) = Some (ht_next_permit t, np)"
    "g = \<lparr>ph_domain = ht_domain t, ph_entry = prepared_entry slot request e (ht_next_permit t), ph_completed = False\<rparr>"
    "t' = update_slot slot (\<lambda>s. s\<lparr>hs_reservation := Some \<lparr>sr_permit = ht_next_permit t, sr_kind = MovePrepared\<rparr>\<rparr>)
      (t\<lparr>ht_next_permit := np\<rparr>)"
proof -
  from assms obtain slot e permit np where *: "resolve_slot t (mr_handle request) = Ok slot"
    "hs_entry (ht_slots t ! slot) = Some e" "check_move e (mr_requested_rights request) = Ok ()"
    "hs_reservation (ht_slots t ! slot) = None" "mint_permit (ht_next_permit t) = Some (permit, np)"
    "g = \<lparr>ph_domain = ht_domain t', ph_entry = prepared_entry slot request e permit, ph_completed = False\<rparr>"
    "t' = update_slot slot (\<lambda>s. s\<lparr>hs_reservation := Some \<lparr>sr_permit = permit, sr_kind = MovePrepared\<rparr>\<rparr>)
      (t\<lparr>ht_next_permit := np\<rparr>)"
    by (auto simp: prepare_move_def reserve_live_slot_def bind_Some_iff case_eq_iffs split: if_splits)
  have "permit = ht_next_permit t" using *(5) by (auto dest: mint_permit_grows)
  with * that show thesis by simp
qed

text \<open>The live slot of a prepared single move, and the table that its permit produced.\<close>

definition move_pinned :: "handle_table \<Rightarrow> prepared_move_entry \<Rightarrow> slot_reservation_kind \<Rightarrow> handle_table" where
  "move_pinned t p k = update_slot (pm_slot p)
    (\<lambda>s. s\<lparr>hs_reservation := Some \<lparr>sr_permit = pm_permit p, sr_kind = k\<rparr>\<rparr>) t"

lemma update_slot_collapse:
  "i < length (ht_slots t) \<Longrightarrow> update_slot i f (update_slot i g t) = update_slot i (\<lambda>s. f (g s)) t"
  by (simp add: update_slot_def)

lemma update_slot_id: "f (ht_slots t ! i) = ht_slots t ! i \<Longrightarrow> update_slot i f t = t"
  by (simp add: update_slot_def)

lemma hslot_eta: "hs_reservation s = None \<Longrightarrow> s\<lparr>hs_reservation := None\<rparr> = s"
  "hs_entry s = Some e \<Longrightarrow> s\<lparr>hs_entry := Some e\<rparr> = s"
  by (simp_all add: handle_slot.equality)

lemma ready_validates:
  "ready t p \<Longrightarrow> validate_prepared_move (move_pinned t p MovePrepared) p MovePrepared True = Ok ()"
  by (auto simp: validate_prepared_move_Ok_iff move_pinned_def update_slot_nth ready_slot ready_def)

lemma cancel_unpins:
  assumes "ready t p" and "hs_reservation (ht_slots t ! pm_slot p) = None"
  shows "prepared_cancel \<lparr>ph_domain = ht_domain t, ph_entry = p, ph_completed = False\<rparr> (move_pinned t p MovePrepared) =
    (Ok (), \<lparr>ph_domain = ht_domain t, ph_entry = p, ph_completed = True\<rparr>, t)"
  using ready_validates [OF assms(1)] ready_slot(1) [OF assms(1)] assms(2)
  by (simp add: prepared_cancel_def) (simp add: move_pinned_def update_slot_collapse update_slot_id hslot_eta)

lemma extract_single:
  assumes wf: "table_wf t" and r: "ready t p"
  shows "try_extract \<lparr>ph_domain = ht_domain t, ph_entry = p, ph_completed = False\<rparr> (move_pinned t p MovePrepared) =
    Some (Ok (\<lparr>pr_domain = ht_domain t, pr_entry = p, pr_completed = False\<rparr>, transfer_of t p),
      \<lparr>ph_domain = ht_domain t, ph_entry = p, ph_completed = True\<rparr>,
      move_pinned (emptied {pm_slot p} t) p MoveExtracted)"
proof -
  note slot = ready_slot [OF r]
  have live: "0 < ht_live_count t" using live_count_pos [OF wf slot(1,4)] .
  have "take_entry (move_pinned t p MovePrepared) (pm_slot p) =
      Some (\<lparr>he_reference = tt_reference (transfer_of t p), he_rights = tt_source_rights (transfer_of t p)\<rparr>,
        move_pinned (emptied {pm_slot p} t) p MovePrepared)"
    using slot live
    by (auto simp: take_entry_def move_pinned_def update_slot_nth checked_sub_usize_def Suc_le_eq emptied_nth
        intro!: handle_table_eqI)
  moreover have "update_slot (pm_slot p) (\<lambda>s. s\<lparr>hs_reservation := Some \<lparr>sr_permit = pm_permit p, sr_kind = MoveExtracted\<rparr>\<rparr>)
      (move_pinned (emptied {pm_slot p} t) p MovePrepared) = move_pinned (emptied {pm_slot p} t) p MoveExtracted"
    using slot(1) by (simp add: move_pinned_def update_slot_collapse)
  ultimately show ?thesis
    using ready_validates [OF r] by (simp add: try_extract_def Let_def) (simp add: move_pinned_def transfer_of_def Let_def)
qed

lemma extracted_validates:
  assumes "ready t p"
  shows "validate_prepared_move (move_pinned (emptied {pm_slot p} t) p MoveExtracted) p MoveExtracted False = Ok ()"
  using ready_slot [OF assms]
  by (auto simp: validate_prepared_move_Ok_iff move_pinned_def update_slot_nth emptied_nth)

lemma rollback_single:
  assumes wf: "table_wf t" and r: "ready t p" and free: "hs_reservation (ht_slots t ! pm_slot p) = None"
  shows "try_rollback \<lparr>pr_domain = ht_domain t, pr_entry = p, pr_completed = False\<rparr>
      (move_pinned (emptied {pm_slot p} t) p MoveExtracted) (transfer_of t p) =
    Some (Ok (), \<lparr>pr_domain = ht_domain t, pr_entry = p, pr_completed = True\<rparr>, t)"
proof -
  note slot = ready_slot [OF r]
  have live: "0 < ht_live_count t" using live_count_pos [OF wf slot(1,4)] .
  have "ht_live_count t < 2 ^ 64" using wf le_less_trans [OF length_filter_le [of has_entry "ht_slots t"]]
    by (auto simp: table_wf_def)
  let ?t = "move_pinned (emptied {pm_slot p} t) p MoveExtracted"
  let ?t1 = "(update_slot (pm_slot p) (\<lambda>s. s\<lparr>hs_entry := Some \<lparr>he_reference = tt_reference (transfer_of t p),
      he_rights = tt_source_rights (transfer_of t p)\<rparr>\<rparr>) ?t)\<lparr>ht_live_count := ht_live_count t\<rparr>"
  have "restore_entry ?t (pm_slot p) (transfer_of t p) = Some ?t1"
    using live \<open>ht_live_count t < 2 ^ 64\<close> by (simp add: restore_entry_def checked_add_usize_def) (simp add: move_pinned_def)
  moreover have "update_slot (pm_slot p) (\<lambda>s. s\<lparr>hs_reservation := None\<rparr>) ?t1 = t"
    using slot free by (intro handle_table_eqI)
      (auto simp: move_pinned_def update_slot_nth emptied_nth intro!: handle_slot.equality)
  moreover note t1 = calculation
  show ?thesis
    using extracted_validates [OF r] transfer_of_matches [OF r] t1
    by (simp add: try_rollback_def Let_def) (simp add: move_pinned_def)
qed

end
