(* ===== verification/Handle_Publish.thy ===== *)
theory Handle_Publish
  imports Handle_Moves
begin

text \<open>
  Destination reservations and their publication: a failed multi-slot reservation leaves no
  slot pinned, a successful one can be cancelled without trace or published completely, and
  publication installs each reference under its reserved handle with the requested rights.
\<close>

section \<open>Sets of reservations\<close>

definition reserved_all :: "handle_table \<Rightarrow> reservation list \<Rightarrow> bool" where
  "reserved_all t rvs \<longleftrightarrow> (\<forall>rv\<in>set rvs. reserved t rv) \<and> distinct (map rv_slot rvs)"

text \<open>The permits held in the slots.\<close>

definition reservations_of :: "handle_table \<Rightarrow> slot_reservation option list" where
  "reservations_of t = map hs_reservation (ht_slots t)"

lemma reserve_reservations:
  assumes "reserve_slot_with_kind t excluded Destination retire = Some (r, t')"
  shows "reservations_of t' = (case r of
      Ok rv \<Rightarrow> (reservations_of t)[rv_slot rv := Some \<lparr>sr_permit = rv_permit rv, sr_kind = Destination\<rparr>]
    | Err e \<Rightarrow> reservations_of t)
    \<and> (\<forall>rv. r = Ok rv \<longrightarrow> hs_reservation (ht_slots t ! rv_slot rv) = None)"
proof -
  obtain ss np where scan: "reserve_scan excluded Destination retire (ht_next_permit t) 0 (ht_slots t) = Some (r, ss, np)"
    and t': "t' = t\<lparr>ht_slots := ss, ht_next_permit := np\<rparr>"
    using assms by (auto simp: reserve_slot_with_kind_def bind_Some_iff)
  have skip: "hslot_skipped s s' \<Longrightarrow> hs_reservation s' = hs_reservation s" for s s'
    by (auto simp: hslot_skipped_def)
  show ?thesis
  proof (cases r)
    case (Ok rv)
    with reserve_scan_spec [OF scan] obtain p where "length ss = length (ht_slots t)" "p < length (ht_slots t)"
      "ss ! p = (ht_slots t ! p)\<lparr>hs_reservation := Some \<lparr>sr_permit = rv_permit rv, sr_kind = Destination\<rparr>\<rparr>"
      "\<forall>j<length (ht_slots t). j \<noteq> p \<longrightarrow> hslot_skipped (ht_slots t ! j) (ss ! j)" "rv_slot rv = p"
      "hs_reservation (ht_slots t ! p) = None" by (auto simp: pins_def reservable_def)
    then show ?thesis
      by (auto simp: Ok t' reservations_of_def nth_update_if skip intro!: nth_equalityI)
  next
    case (Err e)
    with reserve_scan_spec [OF scan] show ?thesis
      by (auto simp: t' reservations_of_def skip intro!: nth_equalityI)
  qed
qed

lemma reserved_in: "reserved t rv \<Longrightarrow>
  rv_slot rv < length (ht_slots t) \<and>
  reservations_of t ! rv_slot rv = Some \<lparr>sr_permit = rv_permit rv, sr_kind = Destination\<rparr>"
  by (simp add: reserved_def reservations_of_def)

lemma reserve_extends:
  assumes res: "reserve_slot_with_kind t excluded Destination retire = Some (Ok rv, t')"
    and all: "reserved_all t rvs"
  shows "reserved_all t' (rvs @ [rv])"
proof -
  have "rv_slot rv' \<noteq> rv_slot rv" if "rv' \<in> set rvs" for rv'
    using that all reserve_reservations [OF res] by (auto simp: reserved_all_def reserved_def)
  then have "rv_slot rv \<notin> set (map rv_slot rvs)" by force
  with all reserve_Ok [OF res] show ?thesis by (auto simp: reserved_all_def keeps_reservations_def)
qed

section \<open>Releasing\<close>

lemma release_reservations_spec:
  assumes "table_wf t" and "reserved_all t rvs"
  shows "\<exists>t'. release_reservations t rvs = Some t' \<and> invisible t t' \<and> table_wf t' \<and>
    ht_next_permit t' = ht_next_permit t \<and> length (ht_slots t') = length (ht_slots t) \<and>
    (\<forall>j<length (ht_slots t). ht_slots t' ! j =
      (if j \<in> rv_slot ` set rvs then (ht_slots t ! j)\<lparr>hs_reservation := None\<rparr> else ht_slots t ! j))"
  using assms
proof (induction rvs arbitrary: t)
  case (Cons rv rvs)
  then have rv: "reserved t rv" and rvs: "\<forall>r\<in>set rvs. reserved t r \<and> rv_slot r \<noteq> rv_slot rv"
    by (auto simp: reserved_all_def image_iff)
  from release_reserved [OF Cons.prems(1) rv] obtain t1 where
    t1: "release_reservation t rv Destination = Some (Ok (), t1)" "invisible t t1" "table_wf t1"
    "keeps_other_reservations (rv_slot rv) t t1"
    "ht_slots t1 ! rv_slot rv = (ht_slots t ! rv_slot rv)\<lparr>hs_reservation := None\<rparr>" by blast
  have "reserved_all t1 rvs"
    using Cons.prems(2) rvs keeps_other_reservationsD [OF t1(4)] by (auto simp: reserved_all_def)
  from Cons.IH [OF t1(3) this] obtain t' where t': "release_reservations t1 rvs = Some t'" "invisible t1 t'"
    "table_wf t'" "ht_next_permit t' = ht_next_permit t1" "length (ht_slots t') = length (ht_slots t1)"
    "\<forall>j<length (ht_slots t1). ht_slots t' ! j =
      (if j \<in> rv_slot ` set rvs then (ht_slots t1 ! j)\<lparr>hs_reservation := None\<rparr> else ht_slots t1 ! j)" by blast
  have "ht_slots t' ! j = (if j \<in> rv_slot ` set (rv # rvs) then (ht_slots t ! j)\<lparr>hs_reservation := None\<rparr> else ht_slots t ! j)"
    if "j < length (ht_slots t)" for j
    using that t' t1(4,5) by (cases "j = rv_slot rv") (auto simp: keeps_other_reservations_def)
  with t1 t' show ?case by (auto simp: keeps_other_reservations_def intro: invisible_trans)
qed simp

text \<open>After a release the permits are those of before the reservations.\<close>

lemma released_reservations:
  assumes "length (ht_slots t') = length (ht_slots t)"
    and "\<forall>j<length (ht_slots t). ht_slots t' ! j =
      (if j \<in> S then (ht_slots t ! j)\<lparr>hs_reservation := None\<rparr> else ht_slots t ! j)"
    and "length rs = length (ht_slots t)"
    and "\<And>j. j < length (ht_slots t) \<Longrightarrow> j \<in> S \<Longrightarrow> rs ! j = None"
    and "\<And>j. j < length (ht_slots t) \<Longrightarrow> j \<notin> S \<Longrightarrow> rs ! j = reservations_of t ! j"
  shows "reservations_of t' = rs"
  using assms by (auto simp: reservations_of_def intro!: nth_equalityI)

section \<open>Publishing\<close>

fun published_view ::
  "(dw_handle \<rightharpoonup> handle_entry) \<Rightarrow> (reservation \<times> handle_entry) list \<Rightarrow> dw_handle \<rightharpoonup> handle_entry" where
  "published_view v [] = v"
| "published_view v ((rv, e) # ps) = published_view (v(rv_handle rv \<mapsto> e)) ps"

lemma publish_all_spec:
  assumes "table_wf t" and "reserved_all t (map fst ps)"
    and "\<forall>(rv, e)\<in>set ps. rights_wf (hr_object_type (he_reference e)) (he_rights e)"
  shows "\<exists>t'. publish_all t ps = Some t' \<and> table_wf t' \<and>
    table_view t' = published_view (table_view t) ps \<and>
    table_tokens t' = table_tokens t + mset (map (\<lambda>(rv, e). handle_token (he_reference e)) ps) \<and>
    ht_domain t' = ht_domain t"
  using assms
proof (induction ps arbitrary: t)
  case (Cons x ps)
  obtain rv e where x: "x = (rv, e)" by (cases x)
  have rv: "reserved t rv" and others: "\<forall>r\<in>fst ` set ps. reserved t r \<and> rv_slot r \<noteq> rv_slot rv"
    and rights: "rights_wf (hr_object_type (he_reference e)) (he_rights e)"
    using Cons.prems x by (auto simp: reserved_all_def image_iff)
  from publish_reserved [OF Cons.prems(1) rv rights] obtain t1 where
    t1: "publish t rv e = Some (Ok (), t1)" "table_wf t1" "table_view t1 = (table_view t)(rv_handle rv \<mapsto> e)"
    "table_tokens t1 = add_mset (handle_token (he_reference e)) (table_tokens t)"
    "keeps_other_reservations (rv_slot rv) t t1" by blast
  have "reserved_all t1 (map fst ps)"
    using Cons.prems(2) others keeps_other_reservationsD [OF t1(5)] by (auto simp: reserved_all_def x)
  from Cons.IH [OF t1(2) this] Cons.prems(3) obtain t' where t': "publish_all t1 ps = Some t'" "table_wf t'"
    "table_view t' = published_view (table_view t1) ps"
    "table_tokens t' = table_tokens t1 + mset (map (\<lambda>(rv, e). handle_token (he_reference e)) ps)"
    "ht_domain t' = ht_domain t1" by auto
  with t1 x show ?case by (auto simp: keeps_other_reservations_def)
qed simp

section \<open>Reserving several slots\<close>

text \<open>A table after \<open>rvs\<close> were reserved starting from \<open>t0\<close>.\<close>

definition reserved_since :: "handle_table \<Rightarrow> reservation list \<Rightarrow> handle_table \<Rightarrow> bool" where
  "reserved_since t0 rvs t \<longleftrightarrow> invisible t0 t \<and> table_wf t \<and> reserved_all t rvs \<and>
    (\<forall>rv\<in>set rvs. reservations_of t0 ! rv_slot rv = None) \<and>
    (\<forall>j<length (ht_slots t0). j \<notin> rv_slot ` set rvs \<longrightarrow> reservations_of t ! j = reservations_of t0 ! j)"

lemma reserved_since_start: "table_wf t \<Longrightarrow> reserved_since t [] t"
  by (simp add: reserved_since_def reserved_all_def)

lemma reserved_since_step:
  assumes since: "reserved_since t0 rvs t"
    and res: "reserve_slot_with_kind t excluded Destination retire = Some (Ok rv, t')"
  shows "reserved_since t0 (rvs @ [rv]) t'"
proof -
  have rr: "reservations_of t' = (reservations_of t)[rv_slot rv := Some \<lparr>sr_permit = rv_permit rv, sr_kind = Destination\<rparr>]"
    and none: "hs_reservation (ht_slots t ! rv_slot rv) = None"
    using reserve_reservations [OF res] by auto
  have inv: "invisible t t'" "reserved t' rv" "table_wf t'"
    using reserve_Ok [OF res] since by (auto simp: reserved_since_def)
  have len: "length (ht_slots t) = length (ht_slots t0)" using since by (simp add: reserved_since_def invisible_def)
  have at: "rv_slot rv < length (ht_slots t)" using inv(1,2) by (simp add: reserved_def invisible_def)
  have "rv_slot rv \<notin> rv_slot ` set rvs"
    using since none by (auto simp: reserved_since_def reserved_all_def reserved_def)
  with none len at have "reservations_of t0 ! rv_slot rv = None"
    using since by (auto simp: reserved_since_def reservations_of_def)
  moreover have "reservations_of t' ! j = reservations_of t0 ! j"
    if "j < length (ht_slots t0)" "j \<notin> rv_slot ` set (rvs @ [rv])" for j
    using that since rr len by (auto simp: reserved_since_def nth_update_if reservations_of_def)
  ultimately show ?thesis
    using inv since reserve_extends [OF res] by (auto simp: reserved_since_def intro: invisible_trans)
qed

lemma reserved_since_fail:
  assumes since: "reserved_since t0 rvs t"
    and res: "reserve_slot_with_kind t excluded Destination retire = Some (Err e, t1)"
  shows "\<exists>t'. release_reservations t1 rvs = Some t' \<and> invisible t0 t' \<and> table_wf t' \<and>
    reservations_of t' = reservations_of t0"
proof -
  have e: "invisible t t1" "keeps_reservations t t1" "table_wf t1"
    using reserve_Err [OF res] since by (auto simp: reserved_since_def)
  then have "reserved_all t1 rvs" using since by (auto simp: reserved_since_def reserved_all_def keeps_reservations_def)
  from release_reservations_spec [OF e(3) this] obtain t' where
    t': "release_reservations t1 rvs = Some t'" "invisible t1 t'" "table_wf t'"
    "length (ht_slots t') = length (ht_slots t1)"
    "\<forall>j<length (ht_slots t1). ht_slots t' ! j =
      (if j \<in> rv_slot ` set rvs then (ht_slots t1 ! j)\<lparr>hs_reservation := None\<rparr> else ht_slots t1 ! j)" by blast
  have inv: "invisible t0 t1" using since e(1) by (auto simp: reserved_since_def intro: invisible_trans)
  have "reservations_of t1 = reservations_of t" using reserve_reservations [OF res] by simp
  then have "reservations_of t' = reservations_of t0"
    using since inv by (intro released_reservations [OF t'(4,5)])
      (auto simp: reserved_since_def invisible_def reservations_of_def)
  with t' inv show ?thesis by (auto intro: invisible_trans)
qed

lemma reserved_since_cancel:
  assumes since: "reserved_since t0 rvs t"
  shows "\<exists>t'. release_reservations t rvs = Some t' \<and> invisible t0 t' \<and> table_wf t' \<and>
    reservations_of t' = reservations_of t0"
proof -
  have wf: "table_wf t" and all: "reserved_all t rvs" and inv: "invisible t0 t" using since by (auto simp: reserved_since_def)
  from release_reservations_spec [OF wf all] obtain t' where
    t': "release_reservations t rvs = Some t'" "invisible t t'" "table_wf t'"
    "length (ht_slots t') = length (ht_slots t)"
    "\<forall>j<length (ht_slots t). ht_slots t' ! j =
      (if j \<in> rv_slot ` set rvs then (ht_slots t ! j)\<lparr>hs_reservation := None\<rparr> else ht_slots t ! j)" by blast
  have "reservations_of t' = reservations_of t0"
    using since by (intro released_reservations [OF t'(4,5)])
      (auto simp: reserved_since_def invisible_def reservations_of_def)
  with t' inv show ?thesis by (auto intro: invisible_trans)
qed

text \<open>Enough permits for \<open>n\<close> reservations.\<close>

definition permits_left :: "handle_table \<Rightarrow> nat \<Rightarrow> bool" where
  "permits_left t n \<longleftrightarrow> unat (ht_next_permit t) + n < 2 ^ 64"

lemma permits_left_mint: "permits_left t (Suc n) \<Longrightarrow> mint_permit (ht_next_permit t) \<noteq> None"
proof -
  assume "permits_left t (Suc n)"
  then have "ht_next_permit t \<noteq> - 1"
    by (auto simp: permits_left_def unsigned_minus_1_eq_mask mask_eq_exp_minus_1)
  then show ?thesis by (cases "checked_next (ht_next_permit t)") (auto simp: mint_permit_def checked_next_None_iff)
qed

lemma reserve_permits:
  assumes "reserve_slot_with_kind t excluded Destination retire = Some (r, t')" and "permits_left t (Suc n)"
  shows "permits_left t' n"
proof -
  obtain ss np where scan: "reserve_scan excluded Destination retire (ht_next_permit t) 0 (ht_slots t) = Some (r, ss, np)"
    and t': "t' = t\<lparr>ht_slots := ss, ht_next_permit := np\<rparr>"
    using assms by (auto simp: reserve_slot_with_kind_def bind_Some_iff)
  from reserve_scan_spec [OF scan] have "unat np \<le> unat (ht_next_permit t) + 1"
    by (cases r) (auto dest: mint_permit_grows)
  with assms(2) show ?thesis by (simp add: t' permits_left_def)
qed

subsection \<open>Pairs\<close>

lemma reserve_two_spec:
  assumes wf: "table_wf t" and permits: "permits_left t 2"
    and reserve: "\<And>t x. reserve t x = reserve_slot_with_kind t x Destination retire"
  shows "\<exists>r t'. reserve_two reserve t = Some (r, t') \<and>
    (case r of
      Ok (first, second) \<Rightarrow> reserved_since t [first, second] t'
    | Err e \<Rightarrow> e = HandleCapacity \<and> invisible t t' \<and> table_wf t' \<and> reservations_of t' = reservations_of t)"
proof -
  have p2: "permits_left t (Suc (Suc 0))" using permits by (simp add: numeral_2_eq_2)
  obtain r1 t1 where r1: "reserve_slot_with_kind t None Destination retire = Some (r1, t1)"
    using reserve_no_panic permits_left_mint [OF p2] by blast
  show ?thesis
  proof (cases r1)
    case (Ok first)
    have s1: "reserved_since t [first] t1"
      using reserved_since_step [OF reserved_since_start [OF wf], of None retire first t1] r1 Ok by simp
    obtain r2 t2 where r2: "reserve_slot_with_kind t1 (Some (rv_slot first)) Destination retire = Some (r2, t2)"
      using reserve_no_panic permits_left_mint [OF reserve_permits [OF r1 p2]] by blast
    show ?thesis
    proof (cases r2)
      case Ok2: (Ok second)
      with reserved_since_step [OF s1] r2 have "reserved_since t [first, second] t2" by fastforce
      then show ?thesis using r1 r2 Ok Ok2 by (auto simp: reserve_two_def reserve)
    next
      case (Err e)
      with r2 have "e = HandleCapacity" using reserve_Err by blast
      moreover from reserved_since_fail [OF s1] r2 Err obtain t3 where "release_reservations t2 [first] = Some t3"
        "invisible t t3" "table_wf t3" "reservations_of t3 = reservations_of t" by blast
      ultimately show ?thesis using r1 r2 Ok Err by (auto simp: reserve_two_def reserve simp del: release_reservations.simps)
    qed
  next
    case (Err e)
    with r1 reserve_Err [of t None retire e t1] reserve_reservations [OF r1] wf show ?thesis
      by (auto simp: reserve_two_def reserve)
  qed
qed

lemma validate_reservations_reserved:
  "\<forall>rv\<in>set rvs. reserved t rv \<Longrightarrow> validate_reservations t rvs = Some (Ok ())"
  by (induction rvs) (auto simp: reserved_validates)

lemma validate_spec_Ok_iff:
  "validate_spec s = Ok u \<longleftrightarrow> rights_wf (rs_object_type s) (rs_rights s)"
  by (auto simp: validate_spec_def rights_wf_def and_then_Ok_iff split: if_splits dest: compatible_imp_known)

section \<open>Batches\<close>

text \<open>The outcome of reserving \<open>n\<close> slots: all of them, or none and no trace.\<close>

definition batch_outcome ::
  "handle_table \<Rightarrow> nat \<Rightarrow> nat \<Rightarrow> (reservation option list, handle_table_error) result \<Rightarrow> handle_table \<Rightarrow> bool" where
  "batch_outcome t0 n limit r t' =
    (case r of
      Ok rs' \<Rightarrow> \<exists>rvs'. length rvs' = n \<and> take n rs' = map Some rvs' \<and> length rs' = limit \<and> reserved_since t0 rvs' t'
    | Err e \<Rightarrow> e = HandleCapacity \<and> invisible t0 t' \<and> table_wf t' \<and> reservations_of t' = reservations_of t0)"

lemma reserve_indices_spec:
  assumes "reserved_since t0 rvs t" and "permits_left t n" and "length rvs + n \<le> length rs"
    and "take (length rvs) rs = map Some rvs"
  shows "\<exists>r t'. reserve_indices t (length rvs) n rs = Some (r, t') \<and>
    batch_outcome t0 (length rvs + n) (length rs) r t'"
  using assms
proof (induction n arbitrary: t rvs rs)
  case 0
  then show ?case by (auto simp: batch_outcome_def)
next
  case (Suc n)
  obtain r t1 where res: "reserve_slot_with_kind t None Destination True = Some (r, t1)"
    using reserve_no_panic permits_left_mint [OF Suc.prems(2)] by blast
  show ?case
  proof (cases r)
    case (Ok rv)
    have "reserved_since t0 (rvs @ [rv]) t1" using reserved_since_step [OF Suc.prems(1)] res Ok by blast
    moreover have "take (length (rvs @ [rv])) (rs[length rvs := Some rv]) = map Some (rvs @ [rv])"
      using Suc.prems(3,4) by (simp add: take_Suc_conv_app_nth)
    ultimately have "\<exists>r t'. reserve_indices t1 (length (rvs @ [rv])) n (rs[length rvs := Some rv]) = Some (r, t') \<and>
        batch_outcome t0 (length (rvs @ [rv]) + n) (length (rs[length rvs := Some rv])) r t'"
      using Suc.prems(3) reserve_permits [OF res Suc.prems(2)] by (intro Suc.IH) auto
    then show ?thesis using res Ok by (simp add: reserve_slot_excluding_def)
  next
    case (Err e)
    with reserve_Err res have "e = HandleCapacity" by blast
    moreover from reserved_since_fail [OF Suc.prems(1)] res Err obtain t' where
      "release_reservations t1 rvs = Some t'" "invisible t0 t'" "table_wf t'" "reservations_of t' = reservations_of t0"
      by blast
    ultimately show ?thesis using res Err Suc.prems(4) by (simp add: reserve_slot_excluding_def batch_outcome_def)
  qed
qed

text \<open>Publishing a batch: each token appears under its reserved handle.\<close>

definition published_entry :: "handle_transfer_token \<Rightarrow> handle_entry" where
  "published_entry tok = \<lparr>he_reference = tt_reference tok, he_rights = tt_requested_rights tok\<rparr>"

definition published_info :: "reservation \<Rightarrow> handle_transfer_token \<Rightarrow> published_handle_info" where
  "published_info rv tok = \<lparr>pi_handle = rv_handle rv, pi_rights = tt_requested_rights tok,
    pi_object_type = hr_object_type (tt_reference tok)\<rparr>"

definition token_rights_wf :: "handle_transfer_token \<Rightarrow> bool" where
  "token_rights_wf tok \<longleftrightarrow> rights_wf (hr_object_type (tt_reference tok)) (tt_requested_rights tok)"

lemma publish_indices_all:
  assumes "length rvs = length toks" and "table_wf t" and "reserved_all t rvs"
    and "\<forall>tok\<in>set toks. token_rights_wf tok"
    and "index + length toks \<le> length rs" and "\<forall>k<length toks. rs ! (index + k) = Some (rvs ! k)"
    and "index + length toks \<le> length ts" and "\<forall>k<length toks. ts ! (index + k) = Some (toks ! k)"
    and "index + length toks \<le> length out"
  shows "\<exists>t'. publish_indices t index (length toks) rs ts out =
      Some (take index out @ map Some (map2 published_info rvs toks) @ drop (index + length toks) out, t') \<and>
    publish_all t (zip rvs (map published_entry toks)) = Some t'"
  using assms
proof (induction rvs toks arbitrary: t index ts out rule: list_induct2)
  case Nil
  then show ?case by simp
next
  case (Cons rv rvs tok toks)
  have rv: "reserved t rv" and others: "\<forall>r\<in>set rvs. reserved t r \<and> rv_slot r \<noteq> rv_slot rv"
    using Cons.prems(2) by (auto simp: reserved_all_def image_iff)
  have rs: "rs ! index = Some rv" and ts: "ts ! index = Some tok"
    using Cons.prems(5,7) by (auto dest: spec [of _ 0])
  obtain t1 where t1: "publish t rv (published_entry tok) = Some (Ok (), t1)" "table_wf t1"
    "keeps_other_reservations (rv_slot rv) t t1"
    using publish_reserved [OF Cons.prems(1) rv, of "published_entry tok"] Cons.prems(3)
    by (auto simp: published_entry_def token_rights_wf_def)
  have "\<exists>t'. publish_indices t1 (index + 1) (length toks) rs (ts[index := None]) (out[index := Some (published_info rv tok)]) =
      Some (take (index + 1) (out[index := Some (published_info rv tok)]) @ map Some (map2 published_info rvs toks) @
        drop (index + 1 + length toks) (out[index := Some (published_info rv tok)]), t') \<and>
    publish_all t1 (zip rvs (map published_entry toks)) = Some t'"
  proof (rule Cons.IH [OF t1(2)])
    show "reserved_all t1 rvs"
      using Cons.prems(2) others keeps_other_reservationsD [OF t1(3)] by (auto simp: reserved_all_def)
    show "\<forall>k<length toks. rs ! (index + 1 + k) = Some (rvs ! k)" using Cons.prems(5) by (auto dest: spec [of _ "Suc _"])
    show "\<forall>k<length toks. ts[index := None] ! (index + 1 + k) = Some (toks ! k)"
      using Cons.prems(7) by (auto dest: spec [of _ "Suc _"])
  qed (use Cons.prems in auto)
  then obtain t' where IH: "publish_indices t1 (index + 1) (length toks) rs (ts[index := None]) (out[index := Some (published_info rv tok)]) =
      Some (take (index + 1) (out[index := Some (published_info rv tok)]) @ map Some (map2 published_info rvs toks) @
        drop (index + 1 + length toks) (out[index := Some (published_info rv tok)]), t')"
    "publish_all t1 (zip rvs (map published_entry toks)) = Some t'" by blast
  then show ?case
    using rs ts t1(1) Cons.prems reserved_validates [OF rv]
    by (simp add: take_Suc_conv_app_nth flip: published_entry_def published_info_def)
qed

section \<open>Releasing queued transfers\<close>

lemma release_tokens_all:
  assumes "release_all release_handle reg (map tt_reference toks) = (Ok fs, reg')"
  shows "\<exists>rs. release_tokens reg (map Some toks) = Some (rs, reg') \<and> length rs = length toks \<and>
    flatten_options rs = fs"
  using assms
proof (induction toks arbitrary: reg fs)
  case Nil
  then show ?case by (simp add: flatten_options_def List.map_filter_def)
next
  case (Cons tok toks)
  then obtain f reg1 fs' where rel: "release_handle reg (tt_reference tok) = (Ok f, reg1)"
    and rest: "release_all release_handle reg1 (map tt_reference toks) = (Ok fs', reg')"
    and fs: "fs = (case f of None \<Rightarrow> fs' | Some fr \<Rightarrow> fr # fs')"
    by (auto simp: case_eq_iffs)
  from Cons.IH [OF rest] obtain rs where "release_tokens reg1 (map Some toks) = Some (rs, reg')"
    "length rs = length toks" "flatten_options rs = fs'" by blast
  with rel fs show ?case
    by (auto simp: flatten_options_def List.map_filter_def split: option.splits)
qed

end
