(* ===== verification/Handle_Properties.thy ===== *)
theory Handle_Properties
  imports Handle_Publish
begin

text \<open>
  The properties of the handle table over its whole interface: handles are unforgeable and
  never reused, authority never grows, no operation panics on a consistent kernel state, and
  the multi-slot transactions are all-or-nothing.
\<close>

section \<open>Sequences of operations\<close>

text \<open>
  Every way a table changes. A batch move is atomic here because its guard borrows the table
  exclusively; a publication needs a reservation that the table minted and rights that its
  callers validated, and a rollback a guard built by a preparation.
\<close>

inductive table_step :: "handle_table \<Rightarrow> handle_table \<Rightarrow> bool" where
  ts_install: "install t ref rights = Some (r1, t') \<Longrightarrow> table_step t t'"
| ts_close: "close t reg h = Some (r2, t', reg') \<Longrightarrow> table_step t t'"
| ts_duplicate: "duplicate t reg h rights = Some (r3, t', reg') \<Longrightarrow> table_step t t'"
| ts_drain: "drain_window t reg from_slot out = Some (w, out', t', reg') \<Longrightarrow> table_step t t'"
| ts_reserve: "reserve_slot_with_kind t excluded Destination retire = Some (r4, t') \<Longrightarrow> table_step t t'"
| ts_release: "release_reservation t rv Destination = Some (r5, t') \<Longrightarrow> table_step t t'"
| ts_publish: "genuine rv \<Longrightarrow> rights_wf (hr_object_type (he_reference e)) (he_rights e) \<Longrightarrow>
    publish t rv e = Some (r6, t') \<Longrightarrow> table_step t t'"
| ts_prepare: "prepare_move t request = Some (r7, t') \<Longrightarrow> table_step t t'"
| ts_cancel: "prepared_cancel g t = (r8, g', t') \<Longrightarrow> table_step t t'"
| ts_extract: "try_extract g t = Some (r9, g', t') \<Longrightarrow> table_step t t'"
| ts_finish: "try_finish rg t = (r8, rg', t') \<Longrightarrow> table_step t t'"
| ts_rollback: "rights_wf (pm_object_type (pr_entry rg)) (pm_source_rights (pr_entry rg)) \<Longrightarrow>
    try_rollback rg t tok = Some (r10, rg', t') \<Longrightarrow> table_step t t'"
| ts_batch: "table_wf t \<Longrightarrow> prepare_move_batch t requests = Some (Ok b) \<Longrightarrow> extract_batch t b = Some (bg, tb, t1) \<Longrightarrow>
    rollback_finish t1 bg = Some (t', bg') \<Longrightarrow> table_step t t'"
| ts_batch_rollback: "table_wf t \<Longrightarrow> prepare_move_batch t requests = Some (Ok b) \<Longrightarrow>
    extract_batch t b = Some (bg, tb, t1) \<Longrightarrow> rollback_batch t1 bg tb = Some (t', bg') \<Longrightarrow> table_step t t'"

lemma batch_moved:
  assumes wf: "table_wf t" and prep: "prepare_move_batch t requests = Some (Ok b)"
  obtains ps where "list_all2 (prepared_for t) requests ps" "\<forall>p\<in>set ps. ready t p"
    "extract_batch t b = Some (\<lparr>mb_entries = pb_entries b, mb_len = pb_len b, mb_completed = False\<rparr>,
      transfers_of t ps, emptied (pm_slot ` set ps) t)"
    "rollback_batch (emptied (pm_slot ` set ps) t) \<lparr>mb_entries = pb_entries b, mb_len = pb_len b, mb_completed = False\<rparr>
      (transfers_of t ps) = Some (t, \<lparr>mb_entries = pb_entries b, mb_len = pb_len b, mb_completed = True\<rparr>)"
    "flatten_options (take (pb_len b) (pb_entries b)) = ps"
  using prep
proof (rule prepare_move_batch_Ok)
  fix ps
  assume ps: "list_all2 (prepared_for t) requests ps" and dist: "distinct (map pm_slot ps)"
    and len: "length ps \<le> HANDLE_TRANSFER_LIMIT" and b: "pb_len b = length ps"
    and fl: "flatten_options (take (pb_len b) (pb_entries b)) = ps" and r: "\<forall>p\<in>set ps. ready t p"
  show thesis
    by (rule that [OF ps r extract_batch_spec [OF wf r dist len fl] _ fl])
      (use rollback_batch_spec [OF wf r dist len, of "\<lparr>mb_entries = pb_entries b, mb_len = pb_len b, mb_completed = False\<rparr>"]
        b fl in simp)
qed

lemma table_step_evolves: "table_step t t' \<Longrightarrow> table_evolves t t'"
proof (induction rule: table_step.induct)
  case (ts_drain t reg from_slot out w out' t' reg')
  then show ?case by (auto simp: drain_window_def bind_Some_iff intro: drain_loop_evolves)
next
  case (ts_batch t requests b bg tb t1 t' bg')
  from ts_batch.hyps(1,2) show ?case
  proof (rule batch_moved)
    fix ps
    assume r: "\<forall>p\<in>set ps. ready t p" and fl: "flatten_options (take (pb_len b) (pb_entries b)) = ps"
      and ex: "extract_batch t b = Some (\<lparr>mb_entries = pb_entries b, mb_len = pb_len b, mb_completed = False\<rparr>,
        transfers_of t ps, emptied (pm_slot ` set ps) t)"
    let ?g = "\<lparr>mb_entries = pb_entries b, mb_len = pb_len b, mb_completed = False\<rparr>"
    have "table_evolves (emptied (pm_slot ` set ps) t) t'"
      using rollback_finish_spec [OF ts_batch.hyps(1) r, of ?g] ex fl ts_batch.hyps(3,4) by auto
    with emptied_evolves show ?thesis by (rule table_evolves_trans)
  qed
next
  case (ts_batch_rollback t requests b bg tb t1 t' bg')
  from ts_batch_rollback.hyps(1,2) show ?case
    by (rule batch_moved) (use ts_batch_rollback.hyps in auto)
qed (auto intro: install_evolves close_evolves duplicate_evolves reserve_evolves release_reservation_evolves
    publish_evolves prepare_move_evolves prepared_cancel_evolves try_extract_evolves try_finish_evolves
    try_rollback_evolves)

lemma table_steps_evolve: "table_step\<^sup>*\<^sup>* t t' \<Longrightarrow> table_evolves t t'"
  by (induction rule: rtranclp_induct) (auto intro: table_evolves_trans table_step_evolves)

subsection \<open>The invariant along a sequence\<close>

lemma reserve_wf:
  "table_wf t \<Longrightarrow> reserve_slot_with_kind t excluded Destination retire = Some (r, t') \<Longrightarrow> table_wf t'"
  by (cases r) (auto dest: reserve_Ok reserve_Err)

lemma publish_wf:
  assumes wf: "table_wf t" and g: "genuine rv" and r: "rights_wf (hr_object_type (he_reference e)) (he_rights e)"
    and pub: "publish t rv e = Some (x, t')"
  shows "table_wf t'"
proof (cases "validate_reservation t rv Destination = Some (Ok ())")
  case True
  from publish_reserved [OF wf genuine_reserved [OF g True] r] pub show ?thesis by auto
next
  case False
  with pub have "t' = t" by (auto simp: publish_def bind_Some_iff result_case_Some_iff)
  with wf show ?thesis by simp
qed

lemma release_reservation_wf:
  assumes wf: "table_wf t" and rel: "release_reservation t rv k = Some (r, t')"
  shows "table_wf t'"
proof (cases "t' = t")
  case False
  with rel have i: "rv_slot rv < length (ht_slots t)"
    and t': "t' = update_slot (rv_slot rv) (\<lambda>s. s\<lparr>hs_reservation := None\<rparr>) t"
    by (auto simp: release_reservation_def bind_Some_iff case_eq_iffs validate_reservation_Ok_iff)
  show ?thesis
    using table_wf_slot [OF wf i] unfolding t'
    by (intro table_wf_update_same wf i) (auto simp: hslot_ok_defs has_entry_def split: option.splits)
qed (use wf in simp)

lemma live_slot_decode:
  assumes "table_wf t" and "i < length (ht_slots t)" and "hs_entry (ht_slots t ! i) = Some e"
  shows "decode_handle (slot_handle t i) = Some (i, hs_generation (ht_slots t ! i))"
  using assms by (intro slot_handle_decode) (auto simp: live_slots_def has_entry_def)

lemma take_retire_wf:
  assumes wf: "table_wf t" and i: "i < length (ht_slots t)" and take: "take_entry t i = Some (e, t1)"
    and free: "hs_reservation (ht_slots t ! i) = None"
  shows "table_wf (retire_if_exhausted i t1)"
proof -
  have e: "hs_entry (ht_slots t ! i) = Some e" using take by (auto simp: take_entry_def bind_Some_iff)
  from take_entry_refines [OF wf i e live_slot_decode [OF wf i e]] take free
  have "table_wf t1" "i < length (ht_slots t1)" "ht_slots t1 ! i = (ht_slots t ! i)\<lparr>hs_entry := None\<rparr>"
    using i by (auto simp: keeps_other_reservations_def)
  with free retire_invisible [of i t1] show ?thesis by simp
qed

lemma close_wf: "table_wf t \<Longrightarrow> close t reg h = Some (r, t', reg') \<Longrightarrow> table_wf t'"
  by (cases rule: resolve_mutation_slot_cases [of t h])
    (auto simp: close_def bind_Some_iff case_eq_iffs intro: take_retire_wf)

lemma retain_handle_same: "retain_handle reg h = (Ok d, reg') \<Longrightarrow> d = h"
  by (auto simp: retain_handle_def case_eq_iffs)

lemma duplicate_wf:
  assumes wf: "table_wf t" and dup: "duplicate t reg src rights = Some (r, t', reg')"
  shows "table_wf t'"
proof -
  from dup consider "t' = t" | x where "reserve_slot_with_kind t None Destination True = Some (x, t')"
    | rv t1 entry p where "reserve_slot_with_kind t None Destination True = Some (Ok rv, t1)"
      "duplicate_decision rights (table_view t src) (busy t src) = Ok entry"
      "publish t1 rv \<lparr>he_reference = he_reference entry, he_rights = rights\<rparr> = Some (p, t')"
    by (auto simp: duplicate_authorised reserve_slot_def reserve_slot_excluding_def bind_Some_iff case_eq_iffs
        dest: retain_handle_same)
  then show ?thesis
  proof cases
    case (3 rv t1 entry p)
    then show ?thesis
      by (intro publish_wf [OF reserve_wf [OF wf 3(1)] reserve_genuine [OF 3(1)] _ 3(3)])
        (simp add: duplicate_decision_Ok_iff)
  qed (use wf reserve_wf in auto)
qed

lemma drain_loop_cases:
  assumes "drain_loop t reg out n slot = Some (w, out', t', reg')"
  obtains "t' = t"
  | "slot < length (ht_slots t)" "drain_loop t reg out n (Suc slot) = Some (w, out', t', reg')"
  | e t1 reg1 out1 n1 where "slot < length (ht_slots t)" "hs_reservation (ht_slots t ! slot) = None"
    "take_entry t slot = Some (e, t1)"
    "drain_loop (retire_if_exhausted slot t1) reg1 out1 n1 (Suc slot) = Some (w, out', t', reg')"
  using assms by (subst (asm) drain_loop.simps) (auto simp: case_eq_iffs split: if_splits)

lemma drain_loop_wf: "table_wf t \<Longrightarrow> drain_loop t reg out n slot = Some (w, out', t', reg') \<Longrightarrow> table_wf t'"
proof (induction "length (ht_slots t) - slot" arbitrary: t reg out n slot rule: less_induct)
  case less
  from less.prems(2) show ?case
  proof (cases rule: drain_loop_cases)
    case 1
    with less.prems(1) show ?thesis by simp
  next
    case 2
    with less.hyps [OF _ less.prems(1) 2(2)] show ?thesis by simp
  next
    case (3 e t1 reg1 out1 n1)
    have "length (ht_slots (retire_if_exhausted slot t1)) = length (ht_slots t)"
      using length_take_entry [OF 3(3)] by simp
    with less.hyps [OF _ take_retire_wf [OF less.prems(1) 3(1,3,2)] 3(4)] 3(1) show ?thesis by simp
  qed
qed

lemma prepare_move_wf:
  assumes wf: "table_wf t" and prep: "prepare_move t request = Some (r, t')"
  shows "table_wf t'"
proof (cases r)
  case (Ok g)
  with prep have "prepare_move t request = Some (Ok g, t')" by simp
  then show ?thesis
  proof (rule prepare_move_Ok)
    fix slot e np
    assume slot: "resolve_slot t (mr_handle request) = Ok slot" and np: "mint_permit (ht_next_permit t) = Some (ht_next_permit t, np)"
      and t': "t' = update_slot slot (\<lambda>s. s\<lparr>hs_reservation := Some \<lparr>sr_permit = ht_next_permit t, sr_kind = MovePrepared\<rparr>\<rparr>)
        (t\<lparr>ht_next_permit := np\<rparr>)"
    have i: "slot < length (ht_slots t)" using slot by (simp add: resolve_slot_Ok_iff)
    have wf': "table_wf (t\<lparr>ht_next_permit := np\<rparr>)"
      using wf mint_permit_grows [OF np] by (auto simp: table_wf_def intro: hslot_ok_mono)
    from table_wf_slot [OF wf' , of slot] i show ?thesis
      unfolding t' using mint_permit_grows [OF np]
      by (intro table_wf_update_same wf') (auto simp: hslot_ok_defs has_entry_def split: option.splits)
  qed
next
  case (Err x)
  with prep wf show ?thesis
    by (auto simp: prepare_move_def reserve_live_slot_def bind_Some_iff case_eq_iffs split: if_splits)
qed

lemma clear_reservation_wf:
  assumes wf: "table_wf t" and i: "i < length (ht_slots t)"
  shows "table_wf (update_slot i (\<lambda>s. s\<lparr>hs_reservation := None\<rparr>) t)"
  using table_wf_slot [OF wf i]
  by (intro table_wf_update_same wf i) (auto simp: hslot_ok_defs has_entry_def split: option.splits)

lemma prepared_cancel_wf: "table_wf t \<Longrightarrow> prepared_cancel g t = (r, g', t') \<Longrightarrow> table_wf t'"
  by (auto simp: prepared_cancel_def case_eq_iffs validate_prepared_move_Ok_iff split: if_splits
      intro!: clear_reservation_wf)

lemma try_extract_wf:
  assumes wf: "table_wf t" and ex: "try_extract g t = Some (r, g', t')"
  shows "table_wf t'"
proof (cases "t' = t")
  case False
  let ?p = "ph_entry g"
  let ?f = "\<lambda>s. s\<lparr>hs_reservation := Some \<lparr>sr_permit = pm_permit ?p, sr_kind = MoveExtracted\<rparr>\<rparr>"
  obtain src t1 where v: "validate_prepared_move t ?p MovePrepared True = Ok ()"
    and take: "take_entry t (pm_slot ?p) = Some (src, t1)" and t': "t' = update_slot (pm_slot ?p) ?f t1"
    using ex False by (auto simp: try_extract_def Let_def bind_Some_iff result_case_Some_iff split: if_splits)
  have i: "pm_slot ?p < length (ht_slots t)" and e: "hs_entry (ht_slots t ! pm_slot ?p) = Some src"
    and res: "hs_reservation (ht_slots t ! pm_slot ?p) = Some \<lparr>sr_permit = pm_permit ?p, sr_kind = MovePrepared\<rparr>"
    using v take by (auto simp: validate_prepared_move_Ok_iff take_entry_def bind_Some_iff)
  from take_entry_refines [OF wf i e live_slot_decode [OF wf i e]] take
  have t1: "table_wf t1" "ht_slots t1 ! pm_slot ?p = (ht_slots t ! pm_slot ?p)\<lparr>hs_entry := None\<rparr>"
    "pm_slot ?p < length (ht_slots t1)" "ht_next_permit t1 = ht_next_permit t"
    using i by (auto simp: keeps_other_reservations_def)
  from table_wf_slot [OF wf i] e res t1 show ?thesis
    unfolding t' by (intro table_wf_update_same) (auto simp: hslot_ok_defs has_entry_def)
qed (use wf in simp)

lemma try_finish_wf:
  assumes wf: "table_wf t" and fin: "try_finish g t = (r, g', t')"
  shows "table_wf t'"
proof (cases "t' = t")
  case False
  let ?i = "pm_slot (pr_entry g)"
  have v: "validate_prepared_move t (pr_entry g) MoveExtracted False = Ok ()"
    and t': "t' = update_slot ?i (\<lambda>s. s\<lparr>hs_reservation := None\<rparr>) (retire_if_exhausted ?i t)"
    using fin False by (auto simp: try_finish_def case_eq_iffs split: if_splits)
  have i: "?i < length (ht_slots t)" and none: "hs_entry (ht_slots t ! ?i) = None"
    using v by (auto simp: validate_prepared_move_Ok_iff)
  let ?f = "\<lambda>s. (if handle_next_generation (hs_generation s) = None then s\<lparr>hs_retired := True\<rparr> else s)
    \<lparr>hs_reservation := None\<rparr>"
  have "t' = update_slot ?i ?f t"
    using i by (simp add: t' retire_if_exhausted_def update_slot_collapse) (simp add: update_slot_def)
  with i none table_wf_slot [OF wf i] show ?thesis
    by (auto intro!: table_wf_update_same wf simp: hslot_ok_defs has_entry_def split: if_splits)
qed (use wf in simp)

lemma try_rollback_wf:
  assumes wf: "table_wf t" and rights: "rights_wf (pm_object_type (pr_entry g)) (pm_source_rights (pr_entry g))"
    and rb: "try_rollback g t tok = Some (r, g', t')"
  shows "table_wf t'"
proof (cases "t' = t")
  case False
  let ?i = "pm_slot (pr_entry g)"
  let ?e = "\<lparr>he_reference = tt_reference tok, he_rights = tt_source_rights tok\<rparr>"
  obtain t1 where v: "validate_prepared_move t (pr_entry g) MoveExtracted False = Ok ()"
    and m: "token_matches tok (pr_entry g)" and t1: "restore_entry t ?i tok = Some t1"
    and t': "t' = update_slot ?i (\<lambda>s. s\<lparr>hs_reservation := None\<rparr>) t1"
    using rb False by (auto simp: try_rollback_def Let_def bind_Some_iff case_eq_iffs split: if_splits)
  have i: "?i < length (ht_slots t)" and none: "hs_entry (ht_slots t ! ?i) = None"
    and res: "hs_reservation (ht_slots t ! ?i) = Some \<lparr>sr_permit = pm_permit (pr_entry g), sr_kind = MoveExtracted\<rparr>"
    and nr: "\<not> hs_retired (ht_slots t ! ?i)"
    using v by (auto simp: validate_prepared_move_Ok_iff)
  have "t' = (update_slot ?i (\<lambda>s. s\<lparr>hs_entry := Some ?e, hs_reservation := None\<rparr>) t)\<lparr>ht_live_count := ht_live_count t + 1\<rparr>"
    using t1 i by (auto simp: t' restore_entry_def bind_Some_iff checked_add_usize_def update_slot_def split: if_splits)
  with i none res nr m rights table_wf_slot [OF wf i] show ?thesis
    by (auto intro!: table_wf_update wf simp: hslot_ok_defs has_entry_def token_matches_def)
qed (use wf in simp)

lemma install_wf: "table_wf t \<Longrightarrow> install t ref rights = Some (r, t') \<Longrightarrow> table_wf t'"
  by (cases r) (auto dest: install_Ok install_Err)

lemma table_step_wf: "table_step t t' \<Longrightarrow> table_wf t \<Longrightarrow> table_wf t'"
proof (induction rule: table_step.induct)
  case (ts_drain t reg from_slot out w out' t' reg')
  then show ?case by (auto simp: drain_window_def bind_Some_iff intro: drain_loop_wf)
next
  case (ts_batch t requests b bg tb t1 t' bg')
  from ts_batch.hyps(1,2) show ?case
  proof (rule batch_moved)
    fix ps
    assume r: "\<forall>p\<in>set ps. ready t p" and fl: "flatten_options (take (pb_len b) (pb_entries b)) = ps"
      and ex: "extract_batch t b = Some (\<lparr>mb_entries = pb_entries b, mb_len = pb_len b, mb_completed = False\<rparr>,
        transfers_of t ps, emptied (pm_slot ` set ps) t)"
    let ?g = "\<lparr>mb_entries = pb_entries b, mb_len = pb_len b, mb_completed = False\<rparr>"
    show ?thesis
      using rollback_finish_spec [OF ts_batch.hyps(1) r, of ?g] ex fl ts_batch.hyps(3,4) by auto
  qed
next
  case (ts_batch_rollback t requests b bg tb t1 t' bg')
  from ts_batch_rollback.hyps(1,2) show ?case
    by (rule batch_moved) (use ts_batch_rollback.hyps in auto)
qed (auto intro: install_wf close_wf duplicate_wf reserve_wf release_reservation_wf publish_wf prepare_move_wf
    prepared_cancel_wf try_extract_wf try_finish_wf try_rollback_wf)

subsection \<open>Dead handles\<close>

text \<open>A handle that named a slot in the past and does not any more.\<close>

definition dead_handle :: "handle_table \<Rightarrow> dw_handle \<Rightarrow> bool" where
  "dead_handle t h =
    (case decode_handle h of None \<Rightarrow> False
     | Some (i, g) \<Rightarrow> i < length (ht_slots t) \<and>
         (unat g < unat (hs_generation (ht_slots t ! i)) \<or>
          g = hs_generation (ht_slots t ! i) \<and> vacated (ht_slots t ! i)))"

lemma dead_handle_evolves:
  assumes "dead_handle t h" and "table_evolves t t'"
  shows "dead_handle t' h"
proof -
  obtain i g where d: "decode_handle h = Some (i, g)" and i: "i < length (ht_slots t)"
    and old: "unat g < unat (hs_generation (ht_slots t ! i)) \<or> g = hs_generation (ht_slots t ! i) \<and> vacated (ht_slots t ! i)"
    using assms(1) by (auto simp: dead_handle_def split: option.splits)
  have ev: "unat (hs_generation (ht_slots t ! i)) \<le> unat (hs_generation (ht_slots t' ! i))"
    "hs_generation (ht_slots t' ! i) = hs_generation (ht_slots t ! i) \<and> vacated (ht_slots t ! i) \<longrightarrow> vacated (ht_slots t' ! i)"
    and len: "length (ht_slots t') = length (ht_slots t)"
    using assms(2) i by (auto simp: table_evolves_def slot_evolves_def)
  have "unat g < unat (hs_generation (ht_slots t' ! i)) \<or> g = hs_generation (ht_slots t' ! i) \<and> vacated (ht_slots t' ! i)"
  proof (cases "hs_generation (ht_slots t' ! i) = hs_generation (ht_slots t ! i)")
    case True
    then show ?thesis using old ev by auto
  next
    case False
    then have "unat (hs_generation (ht_slots t ! i)) < unat (hs_generation (ht_slots t' ! i))"
      using ev(1) by (metis le_neq_implies_less word_unat_eq_iff)
    then show ?thesis using old by auto
  qed
  then show ?thesis using d i len by (simp add: dead_handle_def)
qed

lemma dead_handle_unresolved: "dead_handle t h \<Longrightarrow> resolve_slot t h = Err InvalidHandle"
  by (auto simp: dead_handle_def vacated_def simp flip: table_view_None_iff
      simp: table_view_decode slot_view_def split: option.splits)

lemma reserved_not_dead: "reserved t rv \<Longrightarrow> \<not> dead_handle t (rv_handle rv)"
  using reserved_handle [of t rv]
  by (auto simp: dead_handle_def reserved_def pins_def dest: handle_next_generation_unat)

lemma install_not_dead:
  assumes "install t ref rights = Some (Ok h, t')"
  shows "\<not> dead_handle t h"
proof -
  obtain rv t1 where res: "reserve_slot_with_kind t None Destination True = Some (Ok rv, t1)" and h: "h = rv_handle rv"
    using assms by (auto simp: install_def reserve_slot_def reserve_slot_excluding_def bind_Some_iff result_case_Some_iff)
  have "\<not> dead_handle t1 h" using reserve_Ok [OF res] reserved_not_dead h by blast
  then show ?thesis using dead_handle_evolves [OF _ reserve_evolves [OF res]] by blast
qed

lemma close_dead:
  assumes "close t reg h = Some (Ok f, t', reg')"
  shows "dead_handle t' h"
proof (cases rule: resolve_mutation_slot_cases [of t h])
  case (3 e slot)
  then obtain e' t1 where "take_entry t slot = Some (e', t1)" "t' = retire_if_exhausted slot t1"
    using assms by (auto simp: close_def bind_Some_iff case_eq_iffs)
  with 3 show ?thesis
    by (auto simp: take_entry_def bind_Some_iff retire_if_exhausted_def dead_handle_def vacated_def extracted_def
        update_slot_nth)
qed (use assms in \<open>auto simp: close_def\<close>)

end
