(* ===== verification/Handle_Claims.thy ===== *)
theory Handle_Claims
  imports Handle_Properties
begin

text \<open>
  The properties of the handle table, each with a run on a two-slot sample table that shows
  its hypotheses can hold.
\<close>

section \<open>Sample table\<close>

definition sample_ref :: handle_ref where
  "sample_ref = \<lparr>hr_id = sample_id, hr_object_type = DW_OBJECT_TYPE_CHANNEL\<rparr>"

definition sample_entry :: handle_entry where
  "sample_entry = \<lparr>he_reference = sample_ref, he_rights = 0x1D3\<rparr>"

definition sample_handle :: dw_handle where
  "sample_handle = 0x100000001"

definition sample_table :: handle_table where
  "sample_table = \<lparr>ht_domain = 1, ht_slots =
    [\<lparr>hs_generation = 1, hs_retired = False, hs_entry = Some sample_entry, hs_reservation = None\<rparr>, VACANT_HANDLE_SLOT],
    ht_live_count = 1, ht_next_permit = 1\<rparr>"

definition sample_empty_table :: handle_table where
  "sample_empty_table = \<lparr>ht_domain = 1, ht_slots = [VACANT_HANDLE_SLOT, VACANT_HANDLE_SLOT],
    ht_live_count = 0, ht_next_permit = 1\<rparr>"

lemmas sample_table_defs = sample_ref_def sample_entry_def sample_handle_def sample_table_def
  sample_empty_table_def sample_defs

lemma sample_table_wf: "table_wf sample_table" "table_wf sample_empty_table"
proof -
  have bits: "(0x1D3 :: dw_rights) AND NOT 0x1D3 = 0" by simp
  show "table_wf sample_table" "table_wf sample_empty_table"
    using bits
    by (simp_all add: table_wf_def sample_table_defs hslot_ok_defs VACANT_HANDLE_SLOT_def has_entry_def rights_wf_def
        dw_rights_are_compatible_def dw_object_compatible_rights_def nth_Cons split: nat.splits)
qed

lemma sample_tokens: "table_tokens sample_table = {#(sample_id, DW_OBJECT_TYPE_CHANNEL)#}"
  by (simp add: table_tokens_def slot_tokens_def sample_table_def sample_entry_def sample_ref_def VACANT_HANDLE_SLOT_def
      handle_token_def)

lemma sample_table_states:
  assumes "h \<noteq> 0"
  shows "table_state (sample_live h 0) (sample_ledger (unat h) 0) sample_table"
proof -
  have "(sample_id, DW_OBJECT_TYPE_CHANNEL) \<in># replicate_mset (unat h) (sample_id, DW_OBJECT_TYPE_CHANNEL)"
    using assms by (simp add: unat_gt_0)
  then show ?thesis
    using accounts_sample [of h 0] assms sample_table_wf(1)
    by (simp add: table_state_def sample_tokens sample_ledger_def)
qed

lemma sample_table_state: "table_state (sample_live 1 0) (sample_ledger 1 0) sample_table"
  using sample_table_states [of 1] by simp

lemma sample_resolves: "resolve_slot sample_table sample_handle = Ok 0"
  by (simp add: eval_simps sample_table_defs)

lemma sample_view: "table_view sample_table sample_handle = Some sample_entry"
  by (simp add: table_view_def sample_resolves) (simp add: sample_table_def)

lemma sample_permits: "permits_left sample_table 2" "permits_left sample_table 16"
  "permits_left sample_empty_table 16" "permits_left sample_empty_table 2" "permits_left sample_table 1"
  by (simp_all add: permits_left_def sample_table_def sample_empty_table_def)

section \<open>Invariant, unforgeability, no reuse\<close>

text \<open>
  C5: every table reachable from a new one by any sequence of table operations satisfies the
  representation invariant: the live count is the number of entries, entries carry non-empty
  rights compatible with their object's type, destination and extracted slots are empty, and
  no outstanding permit is ahead of the permit counter.
\<close>

theorem handle_table_invariant:
  assumes "handle_table_new capacity d = Some (t0, d')" and "capacity < 2 ^ 64" and "table_step\<^sup>*\<^sup>* t0 t"
  shows "table_wf t \<and> length (ht_slots t) = capacity"
  using assms(3)
proof (induction rule: rtranclp_induct)
  case base
  show ?case
    using assms(1,2) by (auto simp: handle_table_new_def bind_Some_iff table_wf_def VACANT_HANDLE_SLOT_def
        has_entry_def hslot_ok_defs)
next
  case (step t t')
  then show ?case using table_step_wf table_step_evolves by (auto simp: table_evolves_def)
qed

theorem handle_table_invariant_witness:
  "handle_table_new (Suc (Suc 0)) 1 = Some (sample_empty_table, 2) \<and>
    (\<exists>h t. install sample_empty_table sample_ref 0x40 = Some (Ok h, t) \<and> table_wf t)"
proof -
  have new: "handle_table_new (Suc (Suc 0)) 1 = Some (sample_empty_table, 2)"
    by (simp add: eval_simps sample_empty_table_def)
  obtain h t where ins: "install sample_empty_table sample_ref 0x40 = Some (Ok h, t)"
    by (simp add: eval_simps sample_table_defs)
  then have "table_step\<^sup>*\<^sup>* sample_empty_table t" using ts_install by blast
  with handle_table_invariant [OF new _ this] new ins show ?thesis by auto
qed

text \<open>
  C6: a handle is exactly the encoding of the slot and generation it resolves to, so a table
  resolves at most one value per slot and a guessed value resolves only if it equals the
  handle the table issued.
\<close>

theorem handle_unforgeable:
  assumes "resolve_slot t h = Ok slot"
  shows "encode_handle slot (hs_generation (ht_slots t ! slot)) = Some h \<and>
    (\<forall>h'. resolve_slot t h' = Ok slot \<longrightarrow> h' = h)"
  using assms by (auto simp: resolve_slot_Ok_iff dest: handle_codec.encode_decode handle_codec.decode_inj)

theorem handle_unforgeable_witness:
  "resolve_slot sample_table sample_handle = Ok 0 \<and> encode_handle 0 1 = Some sample_handle"
  using handle_unforgeable [OF sample_resolves] sample_resolves by (simp add: sample_table_def)

text \<open>
  C7: a closed handle never resolves again, whatever happens to the table afterwards, and no
  later installation returns it.
\<close>

theorem closed_handle_never_resolves:
  assumes "close t reg h = Some (Ok f, t1, reg1)" and "table_step\<^sup>*\<^sup>* t1 t2"
  shows "resolve_slot t2 h = Err InvalidHandle \<and>
    (\<forall>ref rights h' t3. install t2 ref rights = Some (Ok h', t3) \<longrightarrow> h' \<noteq> h)"
proof -
  have "dead_handle t2 h"
    using dead_handle_evolves [OF close_dead [OF assms(1)] table_steps_evolve [OF assms(2)]] .
  then show ?thesis using dead_handle_unresolved install_not_dead by blast
qed

theorem closed_handle_never_resolves_witness:
  "\<exists>f t1 reg1 h t2. close sample_table (sample_live 1 0) sample_handle = Some (Ok f, t1, reg1) \<and>
    install t1 sample_ref 0x40 = Some (Ok h, t2) \<and> resolve_slot t2 sample_handle = Err InvalidHandle"
proof -
  obtain f t1 reg1 where cl: "close sample_table (sample_live 1 0) sample_handle = Some (Ok f, t1, reg1)"
    and t1: "t1 = sample_table\<lparr>ht_slots := [\<lparr>hs_generation = 1, hs_retired = False, hs_entry = None,
      hs_reservation = None\<rparr>, VACANT_HANDLE_SLOT], ht_live_count := 0\<rparr>"
    by (simp add: eval_simps sample_table_defs)
  obtain h t2 where ins: "install t1 sample_ref 0x40 = Some (Ok h, t2)"
    unfolding t1 by (simp add: eval_simps sample_table_defs)
  have "table_step\<^sup>*\<^sup>* t1 t2" using ts_install [OF ins] by blast
  with closed_handle_never_resolves [OF cl this] cl ins show ?thesis by blast
qed

section \<open>Single-handle operations\<close>



text \<open>
  C9: a lookup never panics and grants exactly what the table holds: it succeeds only for a
  live handle whose object type is accepted and whose rights include the required ones, the
  result carries the entry's own rights and a fresh internal token for the same object, and
  the only failure besides a refused check is an exhausted reference counter.
\<close>

theorem lookup_exactly_authorised:
  assumes "table_state reg L t"
  shows "\<exists>r reg'. lookup t reg h accepted required = Some (r, reg') \<and>
    (case r of
      Err e \<Rightarrow> reg' = reg \<and> (access_decision accepted required (table_view t h) = Err e \<or> e = ReferenceCapacity)
    | Ok rh \<Rightarrow> \<exists>e. table_view t h = Some e \<and> accepts accepted (hr_object_type (he_reference e)) \<and>
        rights_le required (he_rights e) \<and> rh_rights rh = he_rights e \<and>
        internal_token (rh_reference rh) = handle_token (he_reference e) \<and>
        table_state reg' (ledger_add Internal (handle_token (he_reference e)) L) t)"
  using lookup_spec [OF assms, of h accepted required]
  by (cases "access_decision accepted required (table_view t h)") (auto simp: access_decision_Ok_iff)

theorem lookup_exactly_authorised_witness:
  "\<exists>rh reg'. lookup sample_table (sample_live 1 0) sample_handle (OneType DW_OBJECT_TYPE_CHANNEL) DW_RIGHT_DUPLICATE
    = Some (Ok rh, reg') \<and> rh_rights rh = 0x1D3"
proof -
  obtain rh reg' where l: "lookup sample_table (sample_live 1 0) sample_handle (OneType DW_OBJECT_TYPE_CHANNEL)
      DW_RIGHT_DUPLICATE = Some (Ok rh, reg')"
    by (simp add: eval_simps sample_table_defs)
  with lookup_exactly_authorised [OF sample_table_state, of sample_handle "OneType DW_OBJECT_TYPE_CHANNEL" DW_RIGHT_DUPLICATE]
  have "rh_rights rh = he_rights sample_entry" by (auto simp: sample_view)
  with l show ?thesis by (auto simp: sample_entry_def)
qed

text \<open>
  Installing a reference and looking the new handle up again returns the same object with
  the installed rights; the new handle was not in use before.
\<close>

theorem install_lookup_roundtrip:
  assumes "table_state reg L t" and "install t ref rights = Some (Ok h, t')"
    and "add_mset (handle_token ref) (table_tokens t) \<subseteq># lg_live L Handle"
    and "rights_le required rights"
  shows "table_view t h = None \<and>
    (\<exists>r reg'. lookup t' reg h (OneType (hr_object_type ref)) required = Some (r, reg') \<and>
      (r = Err ReferenceCapacity \<or>
       (\<exists>i. r = Ok \<lparr>rh_reference = i, rh_rights = rights\<rparr> \<and> internal_token i = handle_token ref)))"
proof -
  have ins: "rights_wf (hr_object_type ref) rights" "table_wf t'" "table_view t h = None"
    "table_view t' = (table_view t)(h \<mapsto> \<lparr>he_reference = ref, he_rights = rights\<rparr>)"
    "table_tokens t' = add_mset (handle_token ref) (table_tokens t)"
    using install_Ok [OF _ assms(2)] assms(1) by (auto simp: table_state_def)
  have st: "table_state reg L t'" using assms(1,3) ins by (simp add: table_state_def)
  have "dw_rights_are_compatible (hr_object_type ref) required"
    using assms(4) ins(1) and_not_trans [of required rights]
    by (auto simp: rights_wf_def rights_le_def dw_rights_are_compatible_def)
  then have "access_decision (OneType (hr_object_type ref)) required (table_view t' h) =
      Ok \<lparr>he_reference = ref, he_rights = rights\<rparr>"
    using assms(4) ins(4) by (simp add: access_decision_def compatible_imp_known)
  with lookup_spec [OF st, of h "OneType (hr_object_type ref)" required] ins show ?thesis by auto
qed

theorem install_lookup_roundtrip_witness:
  "\<exists>h t'. install sample_table sample_ref 0x40 = Some (Ok h, t') \<and> table_view sample_table h = None"
proof -
  have st: "table_state (sample_live 2 0) (sample_ledger 2 0) sample_table"
    using sample_table_states [of 2] by simp
  obtain h t' where ins: "install sample_table sample_ref 0x40 = Some (Ok h, t')"
    by (simp add: eval_simps sample_table_defs)
  have "add_mset (handle_token sample_ref) (table_tokens sample_table) \<subseteq># lg_live (sample_ledger 2 0) Handle"
    by (simp add: sample_tokens sample_ledger_def sample_ref_def handle_token_def numeral_2_eq_2)
  with install_lookup_roundtrip [OF st ins this, of "0x40"] ins show ?thesis by simp
qed

text \<open>
  C10: duplication never panics and never escalates: a new handle appears only if the source
  entry holds the duplicate right and every requested right, it names the same object with
  exactly the requested rights, and nothing else in the table changes; on every error the
  visible table and the registry are unchanged.
\<close>

theorem duplicate_never_escalates:
  assumes "table_state reg L t" and "permits_left t 1"
  shows "\<exists>r t' reg'. duplicate t reg src requested = Some (r, t', reg') \<and>
    (\<forall>h. r = Ok h \<longrightarrow> (\<exists>e. table_view t src = Some e \<and> rights_le DW_RIGHT_DUPLICATE (he_rights e) \<and>
      rights_le requested (he_rights e) \<and> table_view t h = None \<and>
      table_view t' = (table_view t)(h \<mapsto> \<lparr>he_reference = he_reference e, he_rights = requested\<rparr>) \<and>
      table_state reg' (ledger_add Handle (handle_token (he_reference e)) L) t')) \<and>
    (\<forall>x. r = Err x \<longrightarrow> table_view t' = table_view t \<and> reg' = reg)"
proof (cases "duplicate_decision requested (table_view t src) (busy t src)")
  case (Ok entry)
  have "mint_permit (ht_next_permit t) \<noteq> None" using assms(2) permits_left_mint [of t 0] by simp
  from duplicate_spec [OF assms(1) this Ok] Ok show ?thesis
    by (auto simp: duplicate_decision_Ok_iff invisible_def)
qed (simp add: duplicate_authorised)

theorem duplicate_never_escalates_witness:
  "\<exists>h t' reg'. duplicate sample_table (sample_live 1 0) sample_handle 0x40 = Some (Ok h, t', reg') \<and>
    table_view t' h = Some \<lparr>he_reference = sample_ref, he_rights = 0x40\<rparr>"
proof -
  obtain h t' reg' where d: "duplicate sample_table (sample_live 1 0) sample_handle 0x40 = Some (Ok h, t', reg')"
    by (simp add: eval_simps sample_table_defs)
  with duplicate_never_escalates [OF sample_table_state sample_permits(5), of sample_handle "0x40"]
  have "table_view t' h = Some \<lparr>he_reference = he_reference sample_entry, he_rights = 0x40\<rparr>"
    by (auto simp: sample_view)
  with d show ?thesis by (auto simp: sample_entry_def)
qed

text \<open>
  C11: when the registry cannot count one more reference, duplication reports the error but
  leaves a slot of the table reserved that was free before; no token for that reservation
  exists, so the slot is lost.
\<close>

theorem duplicate_overflow_leaks_slot:
  assumes "table_state reg L t" and "permits_left t 1"
    and "duplicate t reg src requested = Some (Err ReferenceCapacity, t', reg')"
  shows "\<exists>j<length (ht_slots t). hs_reservation (ht_slots t ! j) = None \<and> hs_reservation (ht_slots t' ! j) \<noteq> None"
proof (cases "duplicate_decision requested (table_view t src) (busy t src)")
  case (Ok entry)
  with assms(3) obtain rv t1 where res: "reserve_slot_with_kind t None Destination True = Some (Ok rv, t1)" and t': "t' = t1"
    using reserve_Err
    by (fastforce simp: duplicate_authorised reserve_slot_def reserve_slot_excluding_def bind_Some_iff case_eq_iffs)
  have "rv_slot rv < length (ht_slots t)" "hs_reservation (ht_slots t' ! rv_slot rv) \<noteq> None"
    using reserve_Ok [OF res] t' by (auto simp: reserved_def invisible_def)
  with reserve_reservations [OF res] show ?thesis by blast
next
  case (Err e)
  with assms(3) show ?thesis
    by (auto simp: duplicate_authorised duplicate_decision_def split: if_splits option.splits)
qed

theorem duplicate_overflow_leaks_slot_witness:
  "\<exists>t' reg'. duplicate sample_table (sample_live 0xFFFFFFFF 0) sample_handle 0x40 = Some (Err ReferenceCapacity, t', reg') \<and>
    (\<exists>j<2. hs_reservation (ht_slots sample_table ! j) = None \<and> hs_reservation (ht_slots t' ! j) \<noteq> None)"
proof -
  have st: "table_state (sample_live 0xFFFFFFFF 0) (sample_ledger 0xFFFFFFFF 0) sample_table"
    using sample_table_states [of "0xFFFFFFFF"] by simp
  obtain t' reg' where d: "duplicate sample_table (sample_live 0xFFFFFFFF 0) sample_handle 0x40
      = Some (Err ReferenceCapacity, t', reg')"
    by (simp add: eval_simps sample_table_defs)
  have "length (ht_slots sample_table) = 2" by (simp add: sample_table_def)
  with duplicate_overflow_leaks_slot [OF st sample_permits(5) d] d show ?thesis by auto
qed




section \<open>Moves\<close>

text \<open>
  C13: preparing a batch of at most sixteen moves never panics; a prepared batch extracts
  without panicking, and rolling the extraction back restores the table bit for bit.
\<close>

theorem batch_rollback_restores:
  assumes "table_wf t" and "length requests \<le> HANDLE_TRANSFER_LIMIT"
  shows "\<exists>r. prepare_move_batch t requests = Some r \<and>
    (\<forall>b. r = Ok b \<longrightarrow> (\<exists>g tb t1. extract_batch t b = Some (g, tb, t1) \<and>
      rollback_batch t1 g tb = Some (t, g\<lparr>mb_completed := True\<rparr>)))"
proof -
  obtain r where r: "prepare_move_batch t requests = Some r"
    using prepare_move_batch_no_panic [OF assms(2)] by blast
  moreover have "\<exists>g tb t1. extract_batch t b = Some (g, tb, t1) \<and>
      rollback_batch t1 g tb = Some (t, g\<lparr>mb_completed := True\<rparr>)" if "r = Ok b" for b
    using batch_moved [OF assms(1), of requests b] r that by fastforce
  ultimately show ?thesis by blast
qed

definition sample_request :: handle_move_request where
  "sample_request = \<lparr>mr_handle = sample_handle, mr_requested_rights = 0x40\<rparr>"

lemma sample_prepared: "\<exists>b. prepare_move_batch sample_table [sample_request] = Some (Ok b)"
  by (simp add: eval_simps sample_table_defs sample_request_def)

theorem batch_rollback_restores_witness:
  "\<exists>b g tb t1. prepare_move_batch sample_table [sample_request] = Some (Ok b) \<and>
    extract_batch sample_table b = Some (g, tb, t1) \<and>
    rollback_batch t1 g tb = Some (sample_table, g\<lparr>mb_completed := True\<rparr>)"
  using batch_rollback_restores [OF sample_table_wf(1), of "[sample_request]"] sample_prepared by auto

text \<open>
  C14: a committed batch removes exactly the named handles, and every transfer token it hands
  out names the source's object with the requested rights, which the source held together
  with the transfer right.
\<close>

theorem batch_move_commits:
  assumes "table_wf t" and "prepare_move_batch t requests = Some (Ok b)"
  shows "\<exists>g tb t1 t2. extract_batch t b = Some (g, tb, t1) \<and>
    rollback_finish t1 g = Some (t2, g\<lparr>mb_completed := True\<rparr>) \<and> table_wf t2 \<and>
    table_view t2 = (\<lambda>h. if h \<in> mr_handle ` set requests then None else table_view t h) \<and>
    tb_len tb = length requests \<and>
    (\<forall>k<length requests. \<exists>e tok. tb_entries tb ! k = Some tok \<and>
      table_view t (mr_handle (requests ! k)) = Some e \<and> tt_reference tok = he_reference e \<and>
      tt_requested_rights tok = mr_requested_rights (requests ! k) \<and> token_rights_wf tok \<and>
      rights_le (tt_requested_rights tok) (he_rights e) \<and> rights_le DW_RIGHT_TRANSFER (he_rights e))"
  using assms
proof (rule batch_moved)
  fix ps :: "prepared_move_entry list"
  let ?g = "\<lparr>mb_entries = pb_entries b, mb_len = pb_len b, mb_completed = False\<rparr>"
  let ?S = "pm_slot ` set ps"
  assume ps: "list_all2 (prepared_for t) requests ps" and r: "\<forall>p\<in>set ps. ready t p"
    and ex: "extract_batch t b = Some (?g, transfers_of t ps, emptied ?S t)"
    and fl: "flatten_options (take (pb_len b) (pb_entries b)) = ps"
  have len: "length ps = length requests" using list_all2_lengthD [OF ps] by simp
  have S: "?S \<subseteq> live_slots t" using r ready_live by auto
  obtain t2 where t2: "rollback_finish (emptied ?S t) ?g = Some (t2, ?g\<lparr>mb_completed := True\<rparr>)"
    "invisible (emptied ?S t) t2" "table_wf t2"
    using rollback_finish_spec [OF assms(1) r, of ?g] fl by auto
  have "table_view t2 = (\<lambda>h. if h \<in> mr_handle ` set requests then None else table_view t h)"
    using emptied_refines [OF assms(1) S] t2(2) batch_handles [OF assms(1) ps] by (simp add: invisible_def)
  moreover have "\<exists>e tok. tb_entries (transfers_of t ps) ! k = Some tok \<and>
      table_view t (mr_handle (requests ! k)) = Some e \<and> tt_reference tok = he_reference e \<and>
      tt_requested_rights tok = mr_requested_rights (requests ! k) \<and> token_rights_wf tok \<and>
      rights_le (tt_requested_rights tok) (he_rights e) \<and> rights_le DW_RIGHT_TRANSFER (he_rights e)"
    if k: "k < length requests" for k
  proof -
    have "prepared_for t (requests ! k) (ps ! k)" using ps k by (simp add: list_all2_conv_all_nth)
    then show ?thesis
      using k len by (auto simp: prepared_for_def prepared_entry_def transfers_of_def transfer_of_def nth_append
          table_view_def token_rights_wf_def check_move_Ok_iff)
  qed
  ultimately show ?thesis using ex t2 len by (fastforce simp: transfers_of_def)
qed

theorem batch_move_commits_witness:
  "\<exists>b g tb t1 t2. prepare_move_batch sample_table [sample_request] = Some (Ok b) \<and>
    extract_batch sample_table b = Some (g, tb, t1) \<and> rollback_finish t1 g = Some (t2, g\<lparr>mb_completed := True\<rparr>) \<and>
    table_view t2 sample_handle = None"
proof -
  obtain b where b: "prepare_move_batch sample_table [sample_request] = Some (Ok b)" using sample_prepared by blast
  with batch_move_commits [OF sample_table_wf(1) b] show ?thesis by (auto simp: sample_request_def)
qed

text \<open>
  C15: a prepared single move can be cancelled, which restores the table except for the used
  permit; it can be extracted, which removes exactly that handle, and rolling the extraction
  back restores the same table.
\<close>

theorem single_move_rollback_restores:
  assumes "table_wf t" and "prepare_move t request = Some (Ok g, t1)"
  shows "prepared_cancel g t1 = (Ok (), g\<lparr>ph_completed := True\<rparr>, t\<lparr>ht_next_permit := ht_next_permit t1\<rparr>) \<and>
    (\<exists>rg tok t2. try_extract g t1 = Some (Ok (rg, tok), g\<lparr>ph_completed := True\<rparr>, t2) \<and>
      table_view t2 = (table_view t)(mr_handle request := None) \<and>
      try_rollback rg t2 tok = Some (Ok (), rg\<lparr>pr_completed := True\<rparr>, t\<lparr>ht_next_permit := ht_next_permit t1\<rparr>))"
  using assms(2)
proof (rule prepare_move_Ok)
  fix slot e np
  let ?t = "t\<lparr>ht_next_permit := np\<rparr>"
  let ?p = "prepared_entry slot request e (ht_next_permit t)"
  assume h: "resolve_slot t (mr_handle request) = Ok slot" and e: "hs_entry (ht_slots t ! slot) = Some e"
    and free: "hs_reservation (ht_slots t ! slot) = None"
    and np: "mint_permit (ht_next_permit t) = Some (ht_next_permit t, np)"
    and g: "g = \<lparr>ph_domain = ht_domain t, ph_entry = ?p, ph_completed = False\<rparr>"
    and t1: "t1 = update_slot slot (\<lambda>s. s\<lparr>hs_reservation := Some \<lparr>sr_permit = ht_next_permit t, sr_kind = MovePrepared\<rparr>\<rparr>) ?t"
  have wf: "table_wf ?t"
    using assms(1) mint_permit_grows [OF np] by (auto simp: table_wf_def intro: hslot_ok_mono)
  have r: "ready ?t ?p" using h e by (auto simp: ready_def prepared_entry_def entry_matches_def resolve_slot_Ok_iff)
  have pin: "t1 = move_pinned ?t ?p MovePrepared" and sl: "pm_slot ?p = slot"
    by (simp_all add: t1 move_pinned_def prepared_entry_def)
  have free': "hs_reservation (ht_slots ?t ! pm_slot ?p) = None" using free sl by simp
  have same: "ht_next_permit t1 = np" "g = \<lparr>ph_domain = ht_domain ?t, ph_entry = ?p, ph_completed = False\<rparr>"
    by (simp_all add: t1 g)
  have live: "{slot} \<subseteq> live_slots ?t" using ready_live [OF r] sl by simp
  have "slot_handle ?t slot = mr_handle request"
    using h by (auto simp: slot_handle_def resolve_slot_Ok_iff dest: handle_codec.encode_decode)
  then have v: "table_view (emptied {slot} ?t) = (table_view t)(mr_handle request := None)"
    using emptied_refines [OF wf live] table_view_cong [of ?t t] by (auto simp: fun_eq_iff)
  have "table_view (move_pinned (emptied {slot} ?t) ?p MoveExtracted) = table_view (emptied {slot} ?t)"
    by (rule table_view_cong) (auto simp: move_pinned_def update_slot_nth slot_view_def fun_eq_iff)
  with v have "table_view (move_pinned (emptied {pm_slot ?p} ?t) ?p MoveExtracted) = (table_view t)(mr_handle request := None)"
    by (simp add: sl)
  with cancel_unpins [OF r free'] extract_single [OF wf r] rollback_single [OF wf r free'] same pin
  show ?thesis by simp
qed

lemma sample_move: "\<exists>g t1. prepare_move sample_table sample_request = Some (Ok g, t1)"
  by (simp add: eval_simps sample_table_defs sample_request_def)

theorem single_move_rollback_restores_witness:
  "\<exists>g t1. prepare_move sample_table sample_request = Some (Ok g, t1) \<and>
    prepared_cancel g t1 = (Ok (), g\<lparr>ph_completed := True\<rparr>, sample_table\<lparr>ht_next_permit := ht_next_permit t1\<rparr>)"
  using sample_move single_move_rollback_restores [OF sample_table_wf(1)] by blast






section \<open>Reservations and publication\<close>

lemma reserve_pair_spec:
  assumes wf: "table_wf t" and permits: "permits_left t 2"
  shows "\<exists>r t1. reserve_pair t ty rights = Some (r, t1) \<and>
    (case r of
      Ok g \<Rightarrow> rights_wf ty rights \<and> hp_domain g = ht_domain t1 \<and> hp_object_type g = ty \<and> hp_rights g = rights \<and>
        reserved_since t [hp_first g, hp_second g] t1
    | Err e \<Rightarrow> invisible t t1 \<and> reservations_of t1 = reservations_of t)"
proof (cases "validate_spec \<lparr>rs_object_type = ty, rs_rights = rights\<rparr>")
  case (Ok u)
  obtain r t1 where two: "reserve_two reserve_slot_excluding t = Some (r, t1)"
    and spec: "case r of Ok (first, second) \<Rightarrow> reserved_since t [first, second] t1
      | Err e \<Rightarrow> e = HandleCapacity \<and> invisible t t1 \<and> table_wf t1 \<and> reservations_of t1 = reservations_of t"
    using reserve_two_spec [OF wf permits, of reserve_slot_excluding True] by (auto simp: reserve_slot_excluding_def)
  have "rights_wf ty rights" using Ok validate_spec_Ok_iff [of "\<lparr>rs_object_type = ty, rs_rights = rights\<rparr>"] by simp
  with two spec Ok show ?thesis by (cases r) (auto simp: reserve_pair_def)
qed (simp add: reserve_pair_def)

lemma reserved_pair_handles:
  assumes "reserved_all t [a, b]"
  shows "rv_handle a \<noteq> rv_handle b"
  using assms reserved_handle [of t a] reserved_handle [of t b] by (auto simp: reserved_all_def)

text \<open>
  C17: reserving a pair of slots is all-or-nothing and invisible. A failed reservation leaves
  every permit as it was; a successful one can be cancelled, which restores the permits, or
  published, which makes exactly the two references visible under two different handles.
\<close>

theorem reserve_pair_all_or_nothing:
  assumes "table_wf t" and "permits_left t 2"
  shows "\<exists>r t1. reserve_pair t ty rights = Some (r, t1) \<and> table_view t1 = table_view t \<and>
    (\<forall>e. r = Err e \<longrightarrow> reservations_of t1 = reservations_of t) \<and>
    (\<forall>g. r = Ok g \<longrightarrow>
      (\<exists>t2. pair_cancel g t1 = Some (Ok (), g\<lparr>hp_completed := True\<rparr>, t2) \<and> table_view t2 = table_view t \<and>
        reservations_of t2 = reservations_of t) \<and>
      (\<forall>a b. hr_object_type a = ty \<and> hr_object_type b = ty \<longrightarrow>
        (\<exists>h1 h2 t3. try_publish_reserved_pair t1 g a b = Some (Ok (h1, h2), g\<lparr>hp_completed := True\<rparr>, t3) \<and>
          h1 \<noteq> h2 \<and> table_view t3 = (table_view t)(h1 \<mapsto> \<lparr>he_reference = a, he_rights = rights\<rparr>,
            h2 \<mapsto> \<lparr>he_reference = b, he_rights = rights\<rparr>))))"
proof -
  obtain r t1 where res: "reserve_pair t ty rights = Some (r, t1)"
    and spec: "case r of
      Ok g \<Rightarrow> rights_wf ty rights \<and> hp_domain g = ht_domain t1 \<and> hp_object_type g = ty \<and> hp_rights g = rights \<and>
        reserved_since t [hp_first g, hp_second g] t1
    | Err e \<Rightarrow> invisible t t1 \<and> reservations_of t1 = reservations_of t"
    using reserve_pair_spec [OF assms] by blast
  show ?thesis
  proof (cases r)
    case (Ok g)
    let ?rvs = "[hp_first g, hp_second g]"
    have g: "rights_wf ty rights" "hp_domain g = ht_domain t1" "hp_object_type g = ty" "hp_rights g = rights"
      and since: "reserved_since t ?rvs t1" using spec Ok by auto
    have v: "table_view t1 = table_view t" and wf1: "table_wf t1" and all: "reserved_all t1 ?rvs"
      using since by (auto simp: reserved_since_def invisible_def)
    have val: "validate_reservations t1 ?rvs = Some (Ok ())"
      using all by (intro validate_reservations_reserved) (simp add: reserved_all_def)
    obtain t2 where "release_reservations t1 ?rvs = Some t2" "invisible t t2" "reservations_of t2 = reservations_of t"
      using reserved_since_cancel [OF since] by blast
    then have "\<exists>t2. pair_cancel g t1 = Some (Ok (), g\<lparr>hp_completed := True\<rparr>, t2) \<and> table_view t2 = table_view t \<and>
        reservations_of t2 = reservations_of t"
      using val g by (auto simp: pair_cancel_def invisible_def simp del: release_reservations.simps validate_reservations.simps)
    moreover have "\<exists>h1 h2 t3. try_publish_reserved_pair t1 g a b = Some (Ok (h1, h2), g\<lparr>hp_completed := True\<rparr>, t3) \<and>
          h1 \<noteq> h2 \<and> table_view t3 = (table_view t)(h1 \<mapsto> \<lparr>he_reference = a, he_rights = rights\<rparr>,
            h2 \<mapsto> \<lparr>he_reference = b, he_rights = rights\<rparr>)"
      if ty: "hr_object_type a = ty \<and> hr_object_type b = ty" for a b
    proof -
      let ?ps = "[(hp_first g, \<lparr>he_reference = a, he_rights = rights\<rparr>), (hp_second g, \<lparr>he_reference = b, he_rights = rights\<rparr>)]"
      obtain t3 where "publish_all t1 ?ps = Some t3" "table_view t3 = published_view (table_view t1) ?ps"
        using publish_all_spec [OF wf1, of ?ps] all ty g(1) by auto
      then show ?thesis
        using val g ty v reserved_pair_handles [OF all]
        by (auto simp: try_publish_reserved_pair_def Let_def simp del: publish_all.simps validate_reservations.simps)
    qed
    ultimately show ?thesis using res Ok v by blast
  next
    case (Err e)
    with res spec show ?thesis by (auto simp: invisible_def)
  qed
qed

theorem reserve_pair_all_or_nothing_witness:
  "\<exists>g t1 t2. reserve_pair sample_empty_table DW_OBJECT_TYPE_CHANNEL 0x40 = Some (Ok g, t1) \<and>
    pair_cancel g t1 = Some (Ok (), g\<lparr>hp_completed := True\<rparr>, t2)"
proof -
  have "\<exists>g t1. reserve_pair sample_empty_table DW_OBJECT_TYPE_CHANNEL 0x40 = Some (Ok g, t1)"
    by (simp add: eval_simps sample_empty_table_def)
  with reserve_pair_all_or_nothing [OF sample_table_wf(2) sample_permits(4), of DW_OBJECT_TYPE_CHANNEL "0x40"]
  show ?thesis by auto
qed








end
