(* ===== verification/Payload_Pool.thy ===== *)
theory Payload_Pool
  imports Kernel_Prelude
begin

text \<open>
  The datagram payload pool of \<^verbatim>\<open>kernel/src/ipc/mod.rs\<close>: two arrays of slots (a small and a
  large size class) and tokens that name a class, a slot and a slot generation. The pool is
  read as a partial map from tokens to contents; allocation adds one fresh token, reading and
  releasing remove it. The pool is one static in the code and an explicit argument here; the
  diagnostic refusal counters of \<^verbatim>\<open>debug::liveness\<close> are left out.
\<close>

section \<open>Data and operations\<close>

datatype channel_error =
    ChannelCapacity
  | InvalidArgument
  | InvalidEndpoint
  | StalePair
  | WouldBlock
  | PayloadExhausted
  | PeerClosed
  | BufferTooSmall
  | ChannelAccessDenied
  | FinalizationMismatch

abbreviation (input) PAYLOAD_POOL_SLOTS :: nat where "PAYLOAD_POOL_SLOTS \<equiv> 16"
abbreviation (input) PAYLOAD_BYTES :: nat where "PAYLOAD_BYTES \<equiv> 65536"
abbreviation (input) SMALL_PAYLOAD_BYTES :: nat where "SMALL_PAYLOAD_BYTES \<equiv> 1024"
abbreviation (input) SMALL_PAYLOAD_SLOTS :: nat where "SMALL_PAYLOAD_SLOTS \<equiv> 128"

datatype payload_class = Small | Large

record payload_token =
  pt_class :: payload_class
  pt_slot :: u8
  pt_generation :: u32

text \<open>The two slot structures of the code differ only in the length of their byte array.\<close>

record payload_slot =
  ps_generation :: u32
  ps_in_use :: bool
  ps_bytes :: "u8 list"

definition EMPTY_PAYLOAD_SLOT :: payload_slot where
  "EMPTY_PAYLOAD_SLOT = \<lparr>ps_generation = 0, ps_in_use = False, ps_bytes = replicate PAYLOAD_BYTES 0\<rparr>"

definition EMPTY_SMALL_PAYLOAD_SLOT :: payload_slot where
  "EMPTY_SMALL_PAYLOAD_SLOT = \<lparr>ps_generation = 0, ps_in_use = False, ps_bytes = replicate SMALL_PAYLOAD_BYTES 0\<rparr>"

record payload_pool =
  pp_slots :: "payload_slot list"
  pp_small :: "payload_slot list"

definition payload_pool_new :: payload_pool where
  "payload_pool_new = \<lparr>pp_slots = replicate PAYLOAD_POOL_SLOTS EMPTY_PAYLOAD_SLOT,
    pp_small = replicate SMALL_PAYLOAD_SLOTS EMPTY_SMALL_PAYLOAD_SLOT\<rparr>"

text \<open>\<open>slot.bytes[..payload.len()].copy_from_slice(payload)\<close>.\<close>

definition copy_into :: "u8 list \<Rightarrow> u8 list \<Rightarrow> u8 list option" where
  "copy_into bytes payload =
    (if length payload \<le> length bytes then Some (payload @ drop (length payload) bytes) else None)"

definition fill_slot ::
  "payload_class \<Rightarrow> nat \<Rightarrow> u32 \<Rightarrow> u8 list \<Rightarrow> payload_slot \<Rightarrow> (payload_token \<times> payload_slot) option" where
  "fill_slot cls index generation payload s =
    do { bytes \<leftarrow> copy_into (ps_bytes s) payload;
         slot \<leftarrow> u8_try_from_usize index;
         Some (\<lparr>pt_class = cls, pt_slot = slot, pt_generation = generation\<rparr>,
               \<lparr>ps_generation = generation, ps_in_use = True, ps_bytes = bytes\<rparr>) }"

text \<open>
  The scan of the small class: a free slot whose generation is exhausted ends it (the code's
  \<open>?\<close> returns from the function).
\<close>

fun allocate_small ::
  "nat \<Rightarrow> u8 list \<Rightarrow> payload_slot list \<Rightarrow> (payload_token option \<times> payload_slot list) option" where
  "allocate_small index payload [] = Some (None, [])"
| "allocate_small index payload (s # rest) =
    (if ps_in_use s
     then do { (r, rest') \<leftarrow> allocate_small (index + 1) payload rest; Some (r, s # rest') }
     else (case checked_next (ps_generation s) of
        None \<Rightarrow> Some (None, s # rest)
      | Some generation \<Rightarrow>
         do { (token, s') \<leftarrow> fill_slot Small index generation payload s;
              Some (Some token, s' # rest) }))"

text \<open>The scan of the large class passes over exhausted slots.\<close>

fun allocate_large ::
  "nat \<Rightarrow> u8 list \<Rightarrow> payload_slot list \<Rightarrow> (payload_token option \<times> payload_slot list) option" where
  "allocate_large index payload [] = Some (None, [])"
| "allocate_large index payload (s # rest) =
    (if ps_in_use s
     then do { (r, rest') \<leftarrow> allocate_large (index + 1) payload rest; Some (r, s # rest') }
     else (case checked_next (ps_generation s) of
        None \<Rightarrow> do { (r, rest') \<leftarrow> allocate_large (index + 1) payload rest; Some (r, s # rest') }
      | Some generation \<Rightarrow>
         do { (token, s') \<leftarrow> fill_slot Large index generation payload s;
              Some (Some token, s' # rest) }))"

definition allocate ::
  "payload_pool \<Rightarrow> u8 list \<Rightarrow> ((payload_token option, channel_error) result \<times> payload_pool) option" where
  "allocate pool payload =
    (if payload = [] then Some (Ok None, pool)
     else do {
       (small, pool1) \<leftarrow>
         (if length payload \<le> SMALL_PAYLOAD_BYTES
          then do { (r, slots) \<leftarrow> allocate_small 0 payload (pp_small pool); Some (r, pool\<lparr>pp_small := slots\<rparr>) }
          else Some (None, pool));
       case small of
         Some token \<Rightarrow> Some (Ok (Some token), pool1)
       | None \<Rightarrow>
          do { (r, slots) \<leftarrow> allocate_large 0 payload (pp_slots pool1);
               Some (case r of Some token \<Rightarrow> Ok (Some token) | None \<Rightarrow> Err PayloadExhausted, pool1\<lparr>pp_slots := slots\<rparr>) } })"

definition class_slots :: "payload_class \<Rightarrow> payload_pool \<Rightarrow> payload_slot list" where
  "class_slots cls pool = (case cls of Small \<Rightarrow> pp_small pool | Large \<Rightarrow> pp_slots pool)"

definition set_class_slots :: "payload_class \<Rightarrow> payload_slot list \<Rightarrow> payload_pool \<Rightarrow> payload_pool" where
  "set_class_slots cls slots pool =
    (case cls of Small \<Rightarrow> pool\<lparr>pp_small := slots\<rparr> | Large \<Rightarrow> pool\<lparr>pp_slots := slots\<rparr>)"

definition pool_release :: "payload_pool \<Rightarrow> payload_token \<Rightarrow> payload_pool option" where
  "pool_release pool token =
    (let slots = class_slots (pt_class token) pool; i = unat (pt_slot token) in
     do { slot \<leftarrow> slice_get slots i;
          _ \<leftarrow> assert_panic (ps_in_use slot \<and> ps_generation slot = pt_generation token);
          Some (set_class_slots (pt_class token) (slots[i := slot\<lparr>ps_in_use := False\<rparr>]) pool) })"

definition copy_and_release ::
  "payload_pool \<Rightarrow> payload_token \<Rightarrow> nat \<Rightarrow> u8 list \<Rightarrow> (u8 list \<times> payload_pool) option" where
  "copy_and_release pool token byte_len output =
    (let slots = class_slots (pt_class token) pool; i = unat (pt_slot token) in
     do { slot \<leftarrow> slice_get slots i;
          _ \<leftarrow> assert_panic (ps_in_use slot \<and> ps_generation slot = pt_generation token);
          _ \<leftarrow> assert_panic (byte_len \<le> length output \<and> byte_len \<le> length (ps_bytes slot));
          Some (take byte_len (ps_bytes slot) @ drop byte_len output,
                set_class_slots (pt_class token) (slots[i := slot\<lparr>ps_in_use := False\<rparr>]) pool) })"

lemmas pool_eval [eval_simps] =
  copy_into_def fill_slot_def allocate_def class_slots_def set_class_slots_def pool_release_def copy_and_release_def

section \<open>The pool as a map from tokens to contents\<close>

definition class_view :: "payload_class \<Rightarrow> payload_slot list \<Rightarrow> payload_token \<Rightarrow> u8 list option" where
  "class_view cls slots t =
    (if pt_class t = cls \<and> unat (pt_slot t) < length slots \<and> ps_in_use (slots ! unat (pt_slot t)) \<and>
        ps_generation (slots ! unat (pt_slot t)) = pt_generation t
     then Some (ps_bytes (slots ! unat (pt_slot t))) else None)"

definition pool_view :: "payload_pool \<Rightarrow> payload_token \<Rightarrow> u8 list option" where
  "pool_view pool t = class_view (pt_class t) (class_slots (pt_class t) pool) t"

definition class_bytes :: "payload_class \<Rightarrow> nat" where
  "class_bytes cls = (case cls of Small \<Rightarrow> SMALL_PAYLOAD_BYTES | Large \<Rightarrow> PAYLOAD_BYTES)"

definition class_wf :: "payload_class \<Rightarrow> payload_slot list \<Rightarrow> bool" where
  "class_wf cls slots \<longleftrightarrow> length slots \<le> 256 \<and> (\<forall>s\<in>set slots. length (ps_bytes s) = class_bytes cls)"

definition pool_wf :: "payload_pool \<Rightarrow> bool" where
  "pool_wf pool \<longleftrightarrow> (\<forall>cls. class_wf cls (class_slots cls pool))"

lemma class_slots_set [simp]:
  "class_slots c (set_class_slots cls slots pool) = (if c = cls then slots else class_slots c pool)"
  by (cases c; cases cls) (simp_all add: class_slots_def set_class_slots_def)

lemma pool_wf_new: "pool_wf payload_pool_new"
  by (auto simp: pool_wf_def class_wf_def class_slots_def payload_pool_new_def class_bytes_def
      EMPTY_PAYLOAD_SLOT_def EMPTY_SMALL_PAYLOAD_SLOT_def split: payload_class.split)

lemma pool_view_new: "pool_view payload_pool_new t = None"
  by (auto simp: pool_view_def class_view_def class_slots_def payload_pool_new_def
      EMPTY_PAYLOAD_SLOT_def EMPTY_SMALL_PAYLOAD_SLOT_def split: payload_class.split)

text \<open>Replacing one slot of a class changes the view only at tokens of that slot.\<close>

lemma class_view_update:
  assumes "i < length slots" and "i < 256" and "pt_class t0 = cls" and "pt_slot t0 = of_nat i"
    and "ps_in_use (slots ! i) \<longrightarrow> pt_generation t0 = ps_generation (slots ! i)"
    and "ps_in_use s \<longrightarrow> pt_generation t0 = ps_generation s" and "ps_in_use s \<longrightarrow> \<not> ps_in_use (slots ! i)"
  shows "class_view cls (slots[i := s]) = (class_view cls slots)(t0 := if ps_in_use s then Some (ps_bytes s) else None)"
proof
  fix t :: payload_token
  have i: "unat (of_nat i :: u8) = i" using assms(2) by (simp add: unat_of_nat take_bit_nat_eq_self)
  show "class_view cls (slots[i := s]) t = ((class_view cls slots)(t0 := if ps_in_use s then Some (ps_bytes s) else None)) t"
  proof (cases "pt_slot t = of_nat i \<and> pt_class t = cls")
    case True
    moreover have "t = t0 \<longleftrightarrow> pt_generation t = pt_generation t0"
      using True assms(3,4) by (auto intro: payload_token.equality)
    ultimately show ?thesis using assms i by (auto simp: class_view_def)
  next
    case False
    moreover have "unat (pt_slot t) \<noteq> i" if "pt_slot t \<noteq> of_nat i" using that by auto
    ultimately show ?thesis using assms i by (auto simp: class_view_def)
  qed
qed

lemma fill_slot_eq:
  "fill_slot cls k g payload s =
    (if length payload \<le> length (ps_bytes s) \<and> k < 256
     then Some (\<lparr>pt_class = cls, pt_slot = of_nat k, pt_generation = g\<rparr>,
       \<lparr>ps_generation = g, ps_in_use = True, ps_bytes = payload @ drop (length payload) (ps_bytes s)\<rparr>) else None)"
  by (auto simp: fill_slot_def copy_into_def u8_try_from_usize_def)

text \<open>
  Both scans step over used slots and fill the first usable one; at a free slot whose
  generation is exhausted they stop or go on. That is enough for the contract below.
\<close>

locale slot_class =
  fixes cls :: payload_class
    and scan :: "nat \<Rightarrow> u8 list \<Rightarrow> payload_slot list \<Rightarrow> (payload_token option \<times> payload_slot list) option"
  assumes scan_Nil: "scan k payload [] = Some (None, [])"
    and scan_used: "ps_in_use s \<Longrightarrow>
      scan k payload (s # rest) = do { (r, rest') \<leftarrow> scan (k + 1) payload rest; Some (r, s # rest') }"
    and scan_free: "\<not> ps_in_use s \<Longrightarrow> checked_next (ps_generation s) = Some g \<Longrightarrow>
      scan k payload (s # rest) = do { (t, s') \<leftarrow> fill_slot cls k g payload s; Some (Some t, s' # rest) }"
    and scan_exhausted: "\<not> ps_in_use s \<Longrightarrow> checked_next (ps_generation s) = None \<Longrightarrow>
      scan k payload (s # rest) = Some (None, s # rest) \<or>
      scan k payload (s # rest) = do { (r, rest') \<leftarrow> scan (k + 1) payload rest; Some (r, s # rest') }"
begin

lemma scan_cases:
  obtains (go_on) "scan k payload (s # rest) = do { (r, rest') \<leftarrow> scan (k + 1) payload rest; Some (r, s # rest') }"
  | (stop) "scan k payload (s # rest) = Some (None, s # rest)"
  | (fill) g where "\<not> ps_in_use s" and "checked_next (ps_generation s) = Some g"
    and "scan k payload (s # rest) = do { (t, s') \<leftarrow> fill_slot cls k g payload s; Some (Some t, s' # rest) }"
  using scan_used scan_free scan_exhausted by (cases "ps_in_use s"; cases "checked_next (ps_generation s)") blast+

lemma scan_None: "scan k payload slots = Some (None, slots') \<Longrightarrow> slots' = slots"
proof (induction slots arbitrary: k slots')
  case (Cons s slots)
  show ?case
  proof (cases rule: scan_cases [of k payload s slots])
    case go_on
    show ?thesis using Cons.prems unfolding go_on by (auto simp: bind_Some_iff dest: Cons.IH)
  next
    case stop
    show ?thesis using Cons.prems unfolding stop by simp
  next
    case (fill g)
    show ?thesis using Cons.prems unfolding fill(3) by (auto simp: bind_Some_iff)
  qed
qed (simp add: scan_Nil)

lemma scan_Some:
  "scan k payload slots = Some (Some t, slots') \<Longrightarrow>
    \<exists>i g. i < length slots \<and> k + i < 256 \<and> \<not> ps_in_use (slots ! i) \<and> length payload \<le> length (ps_bytes (slots ! i)) \<and>
      t = \<lparr>pt_class = cls, pt_slot = of_nat (k + i), pt_generation = g\<rparr> \<and>
      slots' = slots[i := \<lparr>ps_generation = g, ps_in_use = True,
        ps_bytes = payload @ drop (length payload) (ps_bytes (slots ! i))\<rparr>]"
proof (induction slots arbitrary: k slots')
  case (Cons s slots)
  show ?case
  proof (cases rule: scan_cases [of k payload s slots])
    case go_on
    obtain rest where "scan (k + 1) payload slots = Some (Some t, rest)" and s': "slots' = s # rest"
      using Cons.prems unfolding go_on by (auto simp: bind_Some_iff)
    from Cons.IH [OF this(1)] obtain i g where "i < length slots" "k + 1 + i < 256" "\<not> ps_in_use (slots ! i)"
      "length payload \<le> length (ps_bytes (slots ! i))" "t = \<lparr>pt_class = cls, pt_slot = of_nat (k + 1 + i), pt_generation = g\<rparr>"
      "rest = slots[i := \<lparr>ps_generation = g, ps_in_use = True,
        ps_bytes = payload @ drop (length payload) (ps_bytes (slots ! i))\<rparr>]" by blast
    with s' show ?thesis by (intro exI [of _ "Suc i"] exI [of _ g]) (simp add: ac_simps)
  next
    case (fill g)
    show ?thesis
      using Cons.prems fill(1,2) unfolding fill(3) by (intro exI [of _ 0] exI [of _ g]) (auto simp: fill_slot_eq split: if_splits)
  next
    case stop
    show ?thesis using Cons.prems unfolding stop by simp
  qed
qed (simp add: scan_Nil)

lemma scan_total:
  "k + length slots \<le> 256 \<Longrightarrow> \<forall>s\<in>set slots. length payload \<le> length (ps_bytes s) \<Longrightarrow> \<exists>r. scan k payload slots = Some r"
proof (induction slots arbitrary: k)
  case (Cons s slots)
  then obtain r where "scan (k + 1) payload slots = Some r" by fastforce
  with Cons.prems show ?case by (cases rule: scan_cases [of k payload s slots]; cases r) (auto simp: fill_slot_eq)
qed (simp add: scan_Nil)

lemma scan_allocates:
  assumes "scan 0 payload slots = Some (Some t, slots')" and "class_wf cls slots"
  shows "\<exists>bytes. class_view cls slots t = None \<and> class_view cls slots' = (class_view cls slots)(t \<mapsto> bytes) \<and>
    take (length payload) bytes = payload \<and> length bytes = class_bytes cls \<and> class_wf cls slots' \<and>
    length payload \<le> length bytes \<and> pt_class t = cls"
proof -
  obtain i g where i: "i < length slots" "i < 256" "\<not> ps_in_use (slots ! i)"
    and len: "length payload \<le> length (ps_bytes (slots ! i))"
    and t: "t = \<lparr>pt_class = cls, pt_slot = of_nat i, pt_generation = g\<rparr>"
    and s': "slots' = slots[i := \<lparr>ps_generation = g, ps_in_use = True,
          ps_bytes = payload @ drop (length payload) (ps_bytes (slots ! i))\<rparr>]"
    using scan_Some [OF assms(1)] by auto
  have bytes: "length (ps_bytes (slots ! i)) = class_bytes cls"
    using assms(2) i(1) by (simp add: class_wf_def)
  have "unat (of_nat i :: u8) = i" using i(2) by (simp add: unat_of_nat take_bit_nat_eq_self)
  then have "class_view cls slots t = None" using i by (simp add: class_view_def t)
  moreover have "class_view cls slots' = (class_view cls slots)(t \<mapsto> payload @ drop (length payload) (ps_bytes (slots ! i)))"
    unfolding s' using i by (subst class_view_update [where ?t0.0 = t]) (auto simp: t)
  moreover have "class_wf cls slots'"
    using assms(2) len bytes i(1) unfolding s' class_wf_def by (auto dest!: set_update_subset_insert [THEN subsetD])
  ultimately show ?thesis using len bytes by (auto simp: t)
qed

end

interpretation small_class: slot_class Small allocate_small
  by unfold_locales auto

interpretation large_class: slot_class Large allocate_large
  by unfold_locales auto

section \<open>Laws of the pool\<close>

lemma pool_view_set:
  assumes "class_view cls slots = (class_view cls (class_slots cls pool))(t0 := v)" and "pt_class t0 = cls"
  shows "pool_view (set_class_slots cls slots pool) = (pool_view pool)(t0 := v)"
proof
  fix t
  show "pool_view (set_class_slots cls slots pool) t = ((pool_view pool)(t0 := v)) t"
    using assms fun_cong [OF assms(1), of t] by (cases "pt_class t = cls") (auto simp: pool_view_def)
qed

text \<open>
  Allocation never panics. Its token is fresh and its contents begin with the payload; a
  failure leaves the pool alone.
\<close>

definition allocated :: "payload_pool \<Rightarrow> u8 list \<Rightarrow> payload_token option \<Rightarrow> payload_pool \<Rightarrow> bool" where
  "allocated pool payload r pool' \<longleftrightarrow> pool_wf pool' \<and>
    (case r of None \<Rightarrow> payload = [] \<and> pool' = pool
     | Some t \<Rightarrow> payload \<noteq> [] \<and> pool_view pool t = None \<and>
        (\<exists>bytes. pool_view pool' = (pool_view pool)(t \<mapsto> bytes) \<and> take (length payload) bytes = payload \<and>
          length payload \<le> length bytes))"

lemma pool_wf_set: "pool_wf pool \<Longrightarrow> class_wf cls slots \<Longrightarrow> pool_wf (set_class_slots cls slots pool)"
  by (simp add: pool_wf_def)

lemma scan_allocated:
  assumes "slot_class cls scan" and "pool_wf pool" and "payload \<noteq> []"
    and "scan 0 payload (class_slots cls pool) = Some (Some t, slots)"
  shows "allocated pool payload (Some t) (set_class_slots cls slots pool)"
proof -
  have wf: "class_wf cls (class_slots cls pool)" using assms(2) by (simp add: pool_wf_def)
  from slot_class.scan_allocates [OF assms(1,4) wf] obtain bytes where
    v: "class_view cls (class_slots cls pool) t = None"
      "class_view cls slots = (class_view cls (class_slots cls pool))(t \<mapsto> bytes)"
    and b: "take (length payload) bytes = payload" "length payload \<le> length bytes"
    and wf': "class_wf cls slots" and c: "pt_class t = cls" by blast
  show ?thesis
    using pool_view_set [OF v(2) c] v(1) b pool_wf_set [OF assms(2) wf'] assms(3) c
    by (auto simp: allocated_def pool_view_def)
qed

lemma class_scan_total:
  assumes "slot_class cls scan" and "pool_wf pool" and "length payload \<le> class_bytes cls"
  shows "\<exists>r slots. scan 0 payload (class_slots cls pool) = Some (r, slots)"
  using slot_class.scan_total [OF assms(1), of 0 "class_slots cls pool" payload] assms(2,3)
  by (auto simp: pool_wf_def class_wf_def)

lemmas small_scans =
  scan_allocated [OF small_class.slot_class_axioms, unfolded class_slots_def set_class_slots_def payload_class.case]
  class_scan_total [OF small_class.slot_class_axioms, unfolded class_slots_def class_bytes_def payload_class.case]

lemmas large_scans =
  scan_allocated [OF large_class.slot_class_axioms, unfolded class_slots_def set_class_slots_def payload_class.case]
  class_scan_total [OF large_class.slot_class_axioms, unfolded class_slots_def class_bytes_def payload_class.case]

lemma allocate_spec:
  assumes wf: "pool_wf pool" and len: "length payload \<le> PAYLOAD_BYTES"
  shows "\<exists>r pool'. allocate pool payload = Some (r, pool') \<and>
    (case r of Ok t \<Rightarrow> allocated pool payload t pool' | Err e \<Rightarrow> e = PayloadExhausted \<and> pool' = pool)"
proof (cases "payload = []")
  case True
  with wf show ?thesis by (simp add: allocate_def allocated_def)
next
  case False
  obtain r slots where lg: "allocate_large 0 payload (pp_slots pool) = Some (r, slots)"
    using large_scans(2) [OF wf len] by blast
  have large: "case r of Some t \<Rightarrow> allocated pool payload (Some t) (pool\<lparr>pp_slots := slots\<rparr>) | None \<Rightarrow> slots = pp_slots pool"
    using lg large_scans(1) [OF wf False] large_class.scan_None by (cases r) auto
  show ?thesis
  proof (cases "length payload \<le> SMALL_PAYLOAD_BYTES")
    case True
    obtain q sl where sm: "allocate_small 0 payload (pp_small pool) = Some (q, sl)"
      using small_scans(2) [OF wf True] by blast
    show ?thesis
    proof (cases q)
      case None
      then have "pool\<lparr>pp_small := sl\<rparr> = pool" using sm small_class.scan_None by auto
      with None sm lg large True False show ?thesis by (auto simp: allocate_def split: option.splits)
    next
      case (Some t)
      with sm small_scans(1) [OF wf False] True False show ?thesis by (simp add: allocate_def)
    qed
  next
    case small: False
    with lg large False show ?thesis by (auto simp: allocate_def split: option.splits)
  qed
qed

lemma take_slot:
  assumes "pool_view pool t = Some bytes" and "pool_wf pool"
  defines "slots \<equiv> class_slots (pt_class t) pool"
  defines "pool' \<equiv> set_class_slots (pt_class t) (slots[unat (pt_slot t) := (slots ! unat (pt_slot t))\<lparr>ps_in_use := False\<rparr>]) pool"
  shows "unat (pt_slot t) < length slots \<and> ps_in_use (slots ! unat (pt_slot t)) \<and>
    ps_generation (slots ! unat (pt_slot t)) = pt_generation t \<and> ps_bytes (slots ! unat (pt_slot t)) = bytes \<and>
    pool_wf pool' \<and> pool_view pool' = (pool_view pool)(t := None)"
proof -
  let ?i = "unat (pt_slot t)"
  have i: "?i < length slots" "ps_in_use (slots ! ?i)" "ps_generation (slots ! ?i) = pt_generation t"
    "ps_bytes (slots ! ?i) = bytes"
    using assms(1) by (auto simp: pool_view_def class_view_def slots_def split: if_splits)
  have wf: "class_wf (pt_class t) slots" using assms(2) by (simp add: pool_wf_def slots_def)
  then have "class_wf (pt_class t) (slots[?i := (slots ! ?i)\<lparr>ps_in_use := False\<rparr>])"
    using i(1) by (auto simp: class_wf_def dest!: set_update_subset_insert [THEN subsetD])
  then have "pool_wf pool'" unfolding pool'_def by (rule pool_wf_set [OF assms(2)])
  moreover have "?i < 256" using wf i(1) by (simp add: class_wf_def)
  then have "class_view (pt_class t) (slots[?i := (slots ! ?i)\<lparr>ps_in_use := False\<rparr>]) = (class_view (pt_class t) slots)(t := None)"
    using i by (subst class_view_update [where ?t0.0 = t]) auto
  then have "pool_view pool' = (pool_view pool)(t := None)"
    unfolding pool'_def slots_def by (rule pool_view_set) simp
  ultimately show ?thesis using i by simp
qed

lemma pool_release_spec:
  assumes "pool_view pool t = Some bytes" and "pool_wf pool"
  shows "\<exists>pool'. pool_release pool t = Some pool' \<and> pool_wf pool' \<and> pool_view pool' = (pool_view pool)(t := None)"
  using take_slot [OF assms] by (simp add: pool_release_def Let_def)

lemma copy_and_release_spec:
  assumes "pool_view pool t = Some bytes" and "pool_wf pool" and "n \<le> length bytes" and "n \<le> length output"
  shows "\<exists>pool'. copy_and_release pool t n output = Some (take n bytes @ drop n output, pool') \<and>
    pool_wf pool' \<and> pool_view pool' = (pool_view pool)(t := None)"
  using take_slot [OF assms(1,2)] assms(3,4) by (simp add: copy_and_release_def Let_def)

section \<open>Retired small slots\<close>

lemma allocate_large_full: "\<forall>s\<in>set slots. ps_in_use s \<Longrightarrow> allocate_large index payload slots = Some (None, slots)"
  by (induction slots arbitrary: index) auto

text \<open>
  A free small slot whose generation is used up hides every later slot of its class: with the
  large class full, a small payload is refused however many small slots are free.
\<close>

lemma retired_small_slot_refuses:
  assumes "pp_small pool = s # rest" and "\<not> ps_in_use s" and "ps_generation s = - 1"
    and "\<forall>l\<in>set (pp_slots pool). ps_in_use l" and "payload \<noteq> []" and "length payload \<le> SMALL_PAYLOAD_BYTES"
  shows "allocate pool payload = Some (Err PayloadExhausted, pool)"
proof -
  have "checked_next (- 1 :: u32) = None" by (simp add: checked_next_None_iff)
  with assms show ?thesis by (cases pool) (simp add: allocate_def allocate_large_full)
qed

end
