(* ===== verification/Byte_Queue.thy ===== *)
theory Byte_Queue
  imports Payload_Pool Handle_Transfer
begin

text \<open>
  The bounded datagram queue of one channel direction, \<open>ByteQueue\<close> in
  \<^verbatim>\<open>kernel/src/ipc/mod.rs\<close>: a ring of descriptors with send reservations, which hold capacity
  until they are committed or cancelled, and at most one receive reservation on the head.
  This theory holds the operations; \<^verbatim>\<open>Byte_Queue_View\<close> shows that they implement a FIFO list.
\<close>

record queued_message =
  qm_byte_len :: u32
  qm_payload :: "payload_token option"
  qm_transfers :: handle_transfer_batch

record channel_message_info =
  mi_required_bytes :: u32
  mi_required_handles :: u32

record byte_queue =
  bq_descriptors :: "queued_message option list"
  bq_head :: nat
  bq_len :: nat
  bq_send_reservations :: "u64 option list"
  bq_next_send_generation :: u64
  bq_receive_reservation :: "u64 option"
  bq_next_receive_generation :: u64

definition byte_queue_new :: "nat \<Rightarrow> byte_queue" where
  "byte_queue_new depth =
    \<lparr>bq_descriptors = replicate depth None, bq_head = 0, bq_len = 0,
     bq_send_reservations = replicate depth None, bq_next_send_generation = 0,
     bq_receive_reservation = None, bq_next_receive_generation = 0\<rparr>"

definition queue_is_empty :: "byte_queue \<Rightarrow> bool" where
  "queue_is_empty q \<longleftrightarrow> bq_len q = 0"

definition reserved_send_count :: "byte_queue \<Rightarrow> nat" where
  "reserved_send_count q = length (filter (\<lambda>r. r \<noteq> None) (bq_send_reservations q))"

definition has_minimal_capacity :: "byte_queue \<Rightarrow> bool" where
  "has_minimal_capacity q \<longleftrightarrow> bq_len q + reserved_send_count q < length (bq_descriptors q)"

definition can_admit :: "byte_queue \<Rightarrow> bool" where
  "can_admit q \<longleftrightarrow> has_minimal_capacity q"

text \<open>The outer \<open>None\<close> is the index panic of \<open>self.descriptors[self.head]\<close>.\<close>

definition queue_head :: "byte_queue \<Rightarrow> queued_message option option" where
  "queue_head q = slice_get (bq_descriptors q) (bq_head q)"

definition queue_reserve_send :: "byte_queue \<Rightarrow> (u64, channel_error) result \<times> byte_queue" where
  "queue_reserve_send q =
    (if \<not> can_admit q then (Err WouldBlock, q)
     else (case checked_next (bq_next_send_generation q) of
        None \<Rightarrow> (Err ChannelCapacity, q)
      | Some generation \<Rightarrow> (case position (\<lambda>r. r = None) (bq_send_reservations q) of
          None \<Rightarrow> (Err WouldBlock, q)
        | Some slot \<Rightarrow>
           (Ok generation, q\<lparr>bq_next_send_generation := generation,
              bq_send_reservations := (bq_send_reservations q)[slot := Some generation]\<rparr>))))"

definition queue_cancel_send :: "byte_queue \<Rightarrow> u64 \<Rightarrow> (unit, channel_error) result \<times> byte_queue" where
  "queue_cancel_send q generation =
    (case position (\<lambda>r. r = Some generation) (bq_send_reservations q) of
      None \<Rightarrow> (Err StalePair, q)
    | Some slot \<Rightarrow> (Ok (), q\<lparr>bq_send_reservations := (bq_send_reservations q)[slot := None]\<rparr>))"

definition queue_commit_send :: "byte_queue \<Rightarrow> u64 \<Rightarrow> queued_message \<Rightarrow> byte_queue option" where
  "queue_commit_send q generation message =
    (case queue_cancel_send q generation of (r, q1) \<Rightarrow>
      do { _ \<leftarrow> expect_ok r;
           _ \<leftarrow> assert_panic (bq_len q1 < length (bq_descriptors q1));
           let tail = (bq_head q1 + bq_len q1) mod length (bq_descriptors q1);
           Some (q1\<lparr>bq_descriptors := (bq_descriptors q1)[tail := Some message], bq_len := bq_len q1 + 1\<rparr>) })"

definition message_info :: "queued_message \<Rightarrow> channel_message_info option" where
  "message_info message =
    do { handles \<leftarrow> u32_try_from_usize (tb_len (qm_transfers message));
         Some \<lparr>mi_required_bytes = qm_byte_len message, mi_required_handles = handles\<rparr> }"

definition reserve_head ::
  "byte_queue \<Rightarrow> ((u64 \<times> channel_message_info, channel_error) result \<times> byte_queue) option" where
  "reserve_head q =
    do { head \<leftarrow> queue_head q;
         case head of
           None \<Rightarrow> Some (Err WouldBlock, q)
         | Some message \<Rightarrow>
            do { info \<leftarrow> message_info message;
                 Some (if bq_receive_reservation q \<noteq> None then (Err WouldBlock, q)
                   else (case checked_next (bq_next_receive_generation q) of
                      None \<Rightarrow> (Err ChannelCapacity, q)
                    | Some generation \<Rightarrow>
                       (Ok (generation, info),
                        q\<lparr>bq_next_receive_generation := generation, bq_receive_reservation := Some generation\<rparr>))) } }"

definition queue_cancel_receive :: "byte_queue \<Rightarrow> u64 \<Rightarrow> (unit, channel_error) result \<times> byte_queue" where
  "queue_cancel_receive q generation =
    (if bq_receive_reservation q \<noteq> Some generation then (Err StalePair, q)
     else (Ok (), q\<lparr>bq_receive_reservation := None\<rparr>))"

text \<open>\<open>self.head = (self.head + 1) % DEPTH; self.len -= 1\<close> after the head descriptor was taken.\<close>

definition advance_head :: "byte_queue \<Rightarrow> byte_queue option" where
  "advance_head q =
    do { len \<leftarrow> checked_sub_usize (bq_len q) 1;
         Some (q\<lparr>bq_descriptors := (bq_descriptors q)[bq_head q := None],
                 bq_head := (bq_head q + 1) mod length (bq_descriptors q), bq_len := len\<rparr>) }"

definition pop_reserved ::
  "byte_queue \<Rightarrow> u64 \<Rightarrow> ((queued_message, channel_error) result \<times> byte_queue) option" where
  "pop_reserved q generation =
    (case queue_cancel_receive q generation of
      (Err e, q1) \<Rightarrow> Some (Err e, q1)
    | (Ok _, q1) \<Rightarrow>
       do { head \<leftarrow> queue_head q1;
            case head of
              None \<Rightarrow> Some (Err StalePair, q1)
            | Some message \<Rightarrow> do { q2 \<leftarrow> advance_head q1; Some (Ok message, q2) } })"

definition queue_pop :: "byte_queue \<Rightarrow> (queued_message option \<times> byte_queue) option" where
  "queue_pop q =
    do { _ \<leftarrow> assert_panic (bq_receive_reservation q = None);
         head \<leftarrow> queue_head q;
         case head of
           None \<Rightarrow> Some (None, q)
         | Some message \<Rightarrow> do { q' \<leftarrow> advance_head q; Some (Some message, q') } }"

definition release_payload :: "payload_pool \<Rightarrow> payload_token option \<Rightarrow> payload_pool option" where
  "release_payload pool payload = (case payload of None \<Rightarrow> Some pool | Some token \<Rightarrow> pool_release pool token)"

text \<open>The loop of \<open>drain_transfers\<close>; it ends because every round empties one descriptor.\<close>

function drain_transfers_loop ::
  "byte_queue \<Rightarrow> payload_pool \<Rightarrow> handle_transfer_batch option list \<Rightarrow> nat \<Rightarrow>
   (byte_queue \<times> payload_pool \<times> handle_transfer_batch option list) option" where
  "drain_transfers_loop q pool transfers transfer_count =
    (case queue_pop q of
      None \<Rightarrow> None
    | Some (None, q') \<Rightarrow> Some (q', pool, transfers)
    | Some (Some message, q') \<Rightarrow>
       do { pool' \<leftarrow> release_payload pool (qm_payload message);
            if tb_len (qm_transfers message) \<noteq> 0
            then do { _ \<leftarrow> assert_panic (transfer_count < length transfers);
                      drain_transfers_loop q' pool' (transfers[transfer_count := Some (qm_transfers message)])
                        (transfer_count + 1) }
            else drain_transfers_loop q' pool' transfers transfer_count })"
  by pat_completeness auto

lemma advance_head_descriptors:
  "advance_head q = Some q' \<Longrightarrow> bq_descriptors q' = (bq_descriptors q)[bq_head q := None]"
  by (auto simp: advance_head_def bind_Some_iff)

lemma queue_pop_shrinks:
  assumes "queue_pop q = Some (Some message, q')"
  shows "length (filter (\<lambda>d. d \<noteq> None) (bq_descriptors q')) < length (filter (\<lambda>d. d \<noteq> None) (bq_descriptors q))"
proof -
  from assms have h: "bq_head q < length (bq_descriptors q)" "bq_descriptors q ! bq_head q = Some message"
    and q': "bq_descriptors q' = (bq_descriptors q)[bq_head q := None]"
    by (auto simp: queue_pop_def queue_head_def bind_Some_iff advance_head_descriptors split: option.splits)
  show ?thesis
    using count_list_filter_update [OF h(1), of "\<lambda>d. d \<noteq> None" None] h(2) by (simp add: q')
qed

termination drain_transfers_loop
  by (relation "measure (\<lambda>(q, _). length (filter (\<lambda>d. d \<noteq> None) (bq_descriptors q)))")
    (auto dest: queue_pop_shrinks)

definition drain_transfers ::
  "byte_queue \<Rightarrow> payload_pool \<Rightarrow> (handle_transfer_batch option list \<times> byte_queue \<times> payload_pool) option" where
  "drain_transfers q pool =
    do { (q1, pool1, transfers) \<leftarrow>
           drain_transfers_loop q pool (replicate (length (bq_descriptors q)) None) 0;
         Some (transfers,
           q1\<lparr>bq_send_reservations := replicate (length (bq_send_reservations q1)) None, bq_head := 0\<rparr>, pool1) }"

declare drain_transfers_loop.simps [simp del]

lemmas queue_eval [eval_simps] =
  byte_queue_new_def queue_is_empty_def reserved_send_count_def has_minimal_capacity_def can_admit_def
  queue_head_def queue_reserve_send_def queue_cancel_send_def queue_commit_send_def message_info_def
  reserve_head_def queue_cancel_receive_def advance_head_def pop_reserved_def queue_pop_def
  release_payload_def drain_transfers_loop.simps drain_transfers_def

end
