(* ===== verification/Wait_Registry.thy ===== *)
theory Wait_Registry
  imports Object_Registry
begin

text \<open>
  The registry of published waits, \<^verbatim>\<open>kernel/src/wait/mod.rs\<close>: a fixed table of slots, each
  holding at most one registration. A registration owns an internal reference (the pin) to
  the object it waits for and names the block generation to wake. One blocked operation may
  own several registrations with the same wake key. This theory holds the data and the
  operations; the laws are in \<^verbatim>\<open>Wait_View\<close>.

  The table is behind a lock in the code and every operation takes the lock once, so an
  operation is a function from the table to its result and the new table.
\<close>

section \<open>Data\<close>

type_synonym thread_key = object_id

record block_wake_key =
  bw_domain :: u64
  bw_token :: u64
  bw_thread :: thread_key
  bw_cpu :: u8
  bw_execution_generation :: u64

datatype wait_error =
    WaitCapacity
  | InvalidObject
  | InvalidSignals
  | WaitAccessDenied
  | UnsupportedSource
  | ForeignRegistration
  | StaleRegistration
  | EventFinalizationMismatch
  | EventReference

record wait_entry_identity =
  wi_object :: object_id
  wi_thread :: thread_key
  wi_wake :: block_wake_key

record wait_entry =
  we_identity :: wait_entry_identity
  we_desired :: dw_signals
  we_item_index :: u32
  we_pin :: internal_ref

record wait_slot =
  ws_generation :: u32
  ws_entry :: "wait_entry option"

record wait_registration =
  wr_domain :: u64
  wr_slot :: u16
  wr_generation :: u32
  wr_identity :: wait_entry_identity

record wait_registration_failure =
  wf_error :: wait_error
  wf_pin :: internal_ref

record wake_intent =
  wk_wake :: block_wake_key
  wk_observed :: dw_signals
  wk_item_index :: u32

record wake_batch =
  wb_wakes :: "wake_intent option list"
  wb_wake_len :: nat
  wb_pins :: "internal_ref option list"
  wb_pin_len :: nat

record wait_registry =
  wg_domain :: u64
  wg_slots :: "wait_slot list"

definition mint_wait_domain :: "u64 \<Rightarrow> (u64 \<times> u64) option" where
  "mint_wait_domain next_domain =
    (case checked_next next_domain of None \<Rightarrow> None | Some n \<Rightarrow> Some (next_domain, n))"

definition VACANT_WAIT_SLOT :: wait_slot where
  "VACANT_WAIT_SLOT = \<lparr>ws_generation = 0, ws_entry = None\<rparr>"

definition wait_registry_new :: "nat \<Rightarrow> u64 \<Rightarrow> (wait_registry \<times> u64) option" where
  "wait_registry_new capacity next_domain =
    do { (domain, next_domain') \<leftarrow> mint_wait_domain next_domain;
         Some (\<lparr>wg_domain = domain, wg_slots = replicate capacity VACANT_WAIT_SLOT\<rparr>, next_domain') }"

section \<open>Wake batches\<close>

definition wake_batch_empty :: "nat \<Rightarrow> wake_batch" where
  "wake_batch_empty capacity =
    \<lparr>wb_wakes = replicate capacity None, wb_wake_len = 0,
     wb_pins = replicate capacity None, wb_pin_len = 0\<rparr>"

definition push_wake :: "wake_batch \<Rightarrow> wake_intent \<Rightarrow> wake_batch option" where
  "push_wake b wake =
    do { _ \<leftarrow> assert_panic (wb_wake_len b < length (wb_wakes b));
         Some (b\<lparr>wb_wakes := (wb_wakes b)[wb_wake_len b := Some wake], wb_wake_len := wb_wake_len b + 1\<rparr>) }"

definition push_pin :: "wake_batch \<Rightarrow> internal_ref \<Rightarrow> wake_batch option" where
  "push_pin b pin =
    do { _ \<leftarrow> assert_panic (wb_pin_len b < length (wb_pins b));
         Some (b\<lparr>wb_pins := (wb_pins b)[wb_pin_len b := Some pin], wb_pin_len := wb_pin_len b + 1\<rparr>) }"

definition wake_batch_is_empty :: "wake_batch \<Rightarrow> bool" where
  "wake_batch_is_empty b \<longleftrightarrow> wb_wake_len b = 0 \<and> wb_pin_len b = 0"

definition wake_batch_into_parts :: "wake_batch \<Rightarrow> wake_intent option list \<times> internal_ref option list" where
  "wake_batch_into_parts b = (wb_wakes b, wb_pins b)"

fun push_wakes :: "wake_batch \<Rightarrow> wake_intent option list \<Rightarrow> wake_batch option" where
  "push_wakes b [] = Some b"
| "push_wakes b (None # ws) = push_wakes b ws"
| "push_wakes b (Some w # ws) = do { b' \<leftarrow> push_wake b w; push_wakes b' ws }"

fun push_pins :: "wake_batch \<Rightarrow> internal_ref option list \<Rightarrow> wake_batch option" where
  "push_pins b [] = Some b"
| "push_pins b (None # ps) = push_pins b ps"
| "push_pins b (Some p # ps) = do { b' \<leftarrow> push_pin b p; push_pins b' ps }"

definition wake_batch_append :: "wake_batch \<Rightarrow> wake_batch \<Rightarrow> wake_batch option" where
  "wake_batch_append b other =
    (case wake_batch_into_parts other of (wakes, pins) \<Rightarrow>
      do { b' \<leftarrow> push_wakes b wakes; push_pins b' pins })"

section \<open>Registration and cancellation\<close>

definition validate_wait_signals :: "dw_object_type \<Rightarrow> dw_signals \<Rightarrow> (unit, wait_error) result" where
  "validate_wait_signals object_type desired =
    (if desired = 0 \<or> \<not> dw_signals_are_compatible object_type desired then Err InvalidSignals else Ok ())"

text \<open>The first slot that holds no entry and whose generation can still advance.\<close>

definition find_wait_slot :: "wait_slot list \<Rightarrow> nat option" where
  "find_wait_slot slots = position (\<lambda>s. ws_entry s = None \<and> ws_generation s \<noteq> - 1) slots"

definition wait_register ::
  "wait_registry \<Rightarrow> internal_ref \<Rightarrow> dw_signals \<Rightarrow> u32 \<Rightarrow> thread_key \<Rightarrow> block_wake_key \<Rightarrow>
   (wait_registration, wait_registration_failure) result \<times> wait_registry" where
  "wait_register w pin desired item_index thread wake =
    (case validate_wait_signals (ir_object_type pin) desired of
      Err e \<Rightarrow> (Err \<lparr>wf_error = e, wf_pin = pin\<rparr>, w)
    | Ok _ \<Rightarrow>
       let identity = \<lparr>wi_object = ir_id pin, wi_thread = thread, wi_wake = wake\<rparr> in
       (case find_wait_slot (wg_slots w) of
         None \<Rightarrow> (Err \<lparr>wf_error = WaitCapacity, wf_pin = pin\<rparr>, w)
       | Some index \<Rightarrow> (case checked_next (ws_generation (wg_slots w ! index)) of
           None \<Rightarrow> (Err \<lparr>wf_error = WaitCapacity, wf_pin = pin\<rparr>, w)
         | Some generation \<Rightarrow> (case u16_try_from_usize index of
             None \<Rightarrow> (Err \<lparr>wf_error = WaitCapacity, wf_pin = pin\<rparr>, w)
           | Some slot_index \<Rightarrow>
              (Ok \<lparr>wr_domain = wg_domain w, wr_slot = slot_index, wr_generation = generation,
                  wr_identity = identity\<rparr>,
               w\<lparr>wg_slots := (wg_slots w)[index :=
                 \<lparr>ws_generation = generation,
                  ws_entry = Some \<lparr>we_identity = identity, we_desired = desired,
                    we_item_index = item_index, we_pin = pin\<rparr>\<rparr>]\<rparr>)))))"

definition wait_cancel ::
  "wait_registry \<Rightarrow> wait_registration \<Rightarrow> (internal_ref, wait_error) result \<times> wait_registry" where
  "wait_cancel w registration =
    (if wr_domain registration \<noteq> wg_domain w then (Err ForeignRegistration, w)
     else (case slice_get (wg_slots w) (unat (wr_slot registration)) of
        None \<Rightarrow> (Err StaleRegistration, w)
      | Some slot \<Rightarrow>
         if ws_generation slot \<noteq> wr_generation registration then (Err StaleRegistration, w)
         else (case ws_entry slot of
            None \<Rightarrow> (Err StaleRegistration, w)
          | Some entry \<Rightarrow>
             if wi_object (we_identity entry) = wi_object (wr_identity registration) \<and>
                wi_thread (we_identity entry) = wi_thread (wr_identity registration) \<and>
                wi_wake (we_identity entry) = wi_wake (wr_identity registration)
             then (Ok (we_pin entry),
                   w\<lparr>wg_slots := (wg_slots w)[unat (wr_slot registration) := slot\<lparr>ws_entry := None\<rparr>]\<rparr>)
             else (Err StaleRegistration, w))))"

text \<open>
  The loop that consumes every entry of one block generation, shared by \<open>cancel_generation\<close>
  and \<open>take_ready\<close>.
\<close>

definition entry_has_wake :: "block_wake_key \<Rightarrow> wait_slot \<Rightarrow> bool" where
  "entry_has_wake wake s = (case ws_entry s of None \<Rightarrow> False | Some e \<Rightarrow> wi_wake (we_identity e) = wake)"

fun take_generation ::
  "block_wake_key \<Rightarrow> wait_slot list \<Rightarrow> wake_batch \<Rightarrow> (wait_slot list \<times> wake_batch) option" where
  "take_generation wake [] b = Some ([], b)"
| "take_generation wake (s # rest) b =
    (if \<not> entry_has_wake wake s
     then do { (rest', b') \<leftarrow> take_generation wake rest b; Some (s # rest', b') }
     else do { entry \<leftarrow> ws_entry s;
               b1 \<leftarrow> push_pin b (we_pin entry);
               (rest', b') \<leftarrow> take_generation wake rest b1;
               Some (s\<lparr>ws_entry := None\<rparr> # rest', b') })"

definition cancel_generation :: "wait_registry \<Rightarrow> block_wake_key \<Rightarrow> (wake_batch \<times> wait_registry) option" where
  "cancel_generation w wake =
    do { (slots, b) \<leftarrow> take_generation wake (wg_slots w) (wake_batch_empty (length (wg_slots w)));
         Some (b, w\<lparr>wg_slots := slots\<rparr>) }"

section \<open>Readiness\<close>

definition wait_entries :: "wait_slot list \<Rightarrow> wait_entry list" where
  "wait_entries slots = List.map_filter ws_entry slots"

definition entry_ready :: "object_id \<Rightarrow> dw_signals \<Rightarrow> wait_entry \<Rightarrow> bool" where
  "entry_ready object observed e \<longleftrightarrow> wi_object (we_identity e) = object \<and> we_desired e AND observed \<noteq> 0"

fun iter_min :: "u32 list \<Rightarrow> u32 option" where
  "iter_min [] = None"
| "iter_min (x # xs) = Some (fold min xs x)"

definition winning_index :: "object_id \<Rightarrow> dw_signals \<Rightarrow> block_wake_key \<Rightarrow> wait_slot list \<Rightarrow> u32 option" where
  "winning_index object observed wake slots =
    iter_min (map we_item_index (filter (\<lambda>e. wi_wake (we_identity e) = wake \<and> entry_ready object observed e)
      (wait_entries slots)))"

fun ready_wakes_loop ::
  "object_id \<Rightarrow> dw_signals \<Rightarrow> wait_slot list \<Rightarrow> wait_entry list \<Rightarrow> wake_batch \<Rightarrow> wake_batch option" where
  "ready_wakes_loop object observed slots [] b = Some b"
| "ready_wakes_loop object observed slots (candidate # rest) b =
    (let wake = wi_wake (we_identity candidate) in
     if \<not> entry_ready object observed candidate then ready_wakes_loop object observed slots rest b
     else if \<exists>intent \<in> set (List.map_filter id (take (wb_wake_len b) (wb_wakes b))). wk_wake intent = wake
     then ready_wakes_loop object observed slots rest b
     else do { index \<leftarrow> winning_index object observed wake slots;
               b' \<leftarrow> push_wake b \<lparr>wk_wake = wake, wk_observed = observed, wk_item_index = index\<rparr>;
               ready_wakes_loop object observed slots rest b' })"

definition ready_wakes :: "wait_registry \<Rightarrow> object_id \<Rightarrow> dw_signals \<Rightarrow> wake_batch option" where
  "ready_wakes w object observed =
    ready_wakes_loop object observed (wg_slots w) (wait_entries (wg_slots w))
      (wake_batch_empty (length (wg_slots w)))"

fun take_ready_loop ::
  "object_id \<Rightarrow> dw_signals \<Rightarrow> nat list \<Rightarrow> wait_slot list \<Rightarrow> wake_batch \<Rightarrow>
   (wait_slot list \<times> wake_batch) option" where
  "take_ready_loop object observed [] slots b = Some (slots, b)"
| "take_ready_loop object observed (candidate_index # rest) slots b =
    do { slot \<leftarrow> slice_get slots candidate_index;
         case ws_entry slot of
           None \<Rightarrow> take_ready_loop object observed rest slots b
         | Some candidate \<Rightarrow>
            if \<not> entry_ready object observed candidate then take_ready_loop object observed rest slots b
            else let wake = wi_wake (we_identity candidate) in
              do { index \<leftarrow> winning_index object observed wake slots;
                   b1 \<leftarrow> push_wake b \<lparr>wk_wake = wake, wk_observed = observed, wk_item_index = index\<rparr>;
                   (slots', b') \<leftarrow> take_generation wake slots b1;
                   take_ready_loop object observed rest slots' b' } }"

definition take_ready :: "wait_registry \<Rightarrow> object_id \<Rightarrow> dw_signals \<Rightarrow> (wake_batch \<times> wait_registry) option" where
  "take_ready w object observed =
    do { (slots, b) \<leftarrow> take_ready_loop object observed [0..<length (wg_slots w)] (wg_slots w)
           (wake_batch_empty (length (wg_slots w)));
         Some (b, w\<lparr>wg_slots := slots\<rparr>) }"

lemmas wait_eval [eval_simps] =
  mint_wait_domain_def VACANT_WAIT_SLOT_def wait_registry_new_def wake_batch_empty_def push_wake_def push_pin_def
  wake_batch_into_parts_def wake_batch_append_def validate_wait_signals_def dw_signals_are_compatible_def
  dw_object_compatible_signals_def find_wait_slot_def wait_register_def wait_cancel_def entry_has_wake_def cancel_generation_def
  wait_entries_def map_filter_simps entry_ready_def winning_index_def ready_wakes_def take_ready_def

end
