(* ===== verification/Channel.thy ===== *)
theory Channel
  imports Byte_Queue Wait_Registry Handle_Table
begin

text \<open>
  The channel authority of \<^verbatim>\<open>kernel/src/ipc/mod.rs\<close>: a table of endpoint pairs with one
  inbound queue per side, created in pairs with their registry objects, and the send, receive,
  wait and finalization operations over it. Each operation of the code holds the pair lock
  throughout, so each is one function of the authority, the payload pool and the wait registry
  it touches. The two-element arrays of a pair are indexed only by a side and are functions of
  the side here; the queue depth, a const generic of the code, is a field.
\<close>

section \<open>Data\<close>

datatype channel_create_error = ChannelCreateRegistry object_registry_error | ChannelCreateChannel channel_error

type_synonym channel_endpoint_key = object_id

record channel_pair_key =
  pk_domain :: u64
  pk_slot :: u16
  pk_generation :: u32

datatype channel_side = Zero | One

fun side_index :: "channel_side \<Rightarrow> nat" where
  "side_index Zero = 0"
| "side_index One = 1"

fun peer :: "channel_side \<Rightarrow> channel_side" where
  "peer Zero = One"
| "peer One = Zero"

record channel_side_lease =
  sl_pair :: channel_pair_key
  sl_side :: channel_side

record endpoint_record =
  er_object :: object_id
  er_lease :: channel_side_lease

record pair_record =
  pc_endpoints :: "channel_side \<Rightarrow> endpoint_record option"
  pc_inbound :: "channel_side \<Rightarrow> byte_queue"

definition pair_record_new :: "nat \<Rightarrow> pair_record" where
  "pair_record_new depth = \<lparr>pc_endpoints = (\<lambda>_. None), pc_inbound = (\<lambda>_. byte_queue_new depth)\<rparr>"

record pair_slot =
  cs_generation :: u32
  cs_pair :: "pair_record option"

record channel_authority =
  ca_domain :: u64
  ca_pairs :: "pair_slot list"
  ca_depth :: nat

record channel_send_reservation =
  csr_pair :: channel_pair_key
  csr_side :: channel_side
  csr_generation :: u64
  csr_byte_len :: u32
  csr_payload :: "payload_token option"

record channel_receive_reservation =
  crr_pair :: channel_pair_key
  crr_side :: channel_side
  crr_generation :: u64
  crr_info :: channel_message_info

record channel_received_message =
  rm_byte_len :: nat
  rm_transfers :: handle_transfer_batch
  rm_wakes :: wake_batch

record channel_finalization =
  cf_final_release :: final_release
  cf_wakes :: wake_batch
  cf_drained_transfers :: "handle_transfer_batch option list"

record channel_completion =
  cc_wakes :: wake_batch
  cc_final_releases :: "final_release option list"

datatype channel_wait_outcome = ChannelReady dw_signals internal_ref | ChannelRegistered wait_registration

record channel_wait_failure =
  cw_error :: channel_error
  cw_pin :: internal_ref

definition mint_channel_domain :: "u64 \<Rightarrow> (u64 \<times> u64) option" where
  "mint_channel_domain next_domain =
    (case checked_next next_domain of None \<Rightarrow> None | Some n \<Rightarrow> Some (next_domain, n))"

definition channel_authority_new :: "nat \<Rightarrow> nat \<Rightarrow> u64 \<Rightarrow> (channel_authority \<times> u64) option" where
  "channel_authority_new pairs depth next_domain =
    do { _ \<leftarrow> assert_panic (0 < pairs);
         _ \<leftarrow> assert_panic (0 < depth);
         (domain, next_domain') \<leftarrow> mint_channel_domain next_domain;
         Some (\<lparr>ca_domain = domain, ca_pairs = replicate pairs \<lparr>cs_generation = 0, cs_pair = None\<rparr>, ca_depth = depth\<rparr>,
               next_domain') }"

section \<open>Pairs\<close>

fun reserve_pair_scan ::
  "u64 \<Rightarrow> nat \<Rightarrow> nat \<Rightarrow> pair_slot list \<Rightarrow> (channel_pair_key, channel_error) result \<times> pair_slot list" where
  "reserve_pair_scan domain depth index [] = (Err ChannelCapacity, [])"
| "reserve_pair_scan domain depth index (slot # rest) =
    (if cs_pair slot \<noteq> None
     then (case reserve_pair_scan domain depth (index + 1) rest of (r, rest') \<Rightarrow> (r, slot # rest'))
     else (case checked_next (cs_generation slot) of
        None \<Rightarrow> (case reserve_pair_scan domain depth (index + 1) rest of (r, rest') \<Rightarrow> (r, slot # rest'))
      | Some generation \<Rightarrow> (case u16_try_from_usize index of
          None \<Rightarrow> (Err ChannelCapacity, slot # rest)
        | Some slot_index \<Rightarrow>
           (Ok \<lparr>pk_domain = domain, pk_slot = slot_index, pk_generation = generation\<rparr>,
            \<lparr>cs_generation = generation, cs_pair = Some (pair_record_new depth)\<rparr> # rest))))"

definition channel_reserve_pair :: "channel_authority \<Rightarrow> (channel_pair_key, channel_error) result \<times> channel_authority" where
  "channel_reserve_pair ca =
    (case reserve_pair_scan (ca_domain ca) (ca_depth ca) 0 (ca_pairs ca) of
      (r, slots) \<Rightarrow> (r, ca\<lparr>ca_pairs := slots\<rparr>))"

definition set_pair :: "channel_authority \<Rightarrow> nat \<Rightarrow> pair_record option \<Rightarrow> channel_authority" where
  "set_pair ca i pair = ca\<lparr>ca_pairs := (ca_pairs ca)[i := (ca_pairs ca ! i)\<lparr>cs_pair := pair\<rparr>]\<rparr>"

definition cancel_empty_pair :: "channel_authority \<Rightarrow> channel_pair_key \<Rightarrow> channel_authority option" where
  "cancel_empty_pair ca key =
    do { slot \<leftarrow> slice_get (ca_pairs ca) (unat (pk_slot key));
         _ \<leftarrow> assert_panic (pk_domain key = ca_domain ca);
         _ \<leftarrow> assert_panic (cs_generation slot = pk_generation key);
         pair \<leftarrow> cs_pair slot;
         _ \<leftarrow> assert_panic (pc_endpoints pair Zero = None \<and> pc_endpoints pair One = None);
         _ \<leftarrow> assert_panic (queue_is_empty (pc_inbound pair Zero) \<and> queue_is_empty (pc_inbound pair One));
         Some (set_pair ca (unat (pk_slot key)) None) }"

definition bind_pair ::
  "channel_authority \<Rightarrow> channel_pair_key \<Rightarrow> creation_ref \<Rightarrow> creation_ref \<Rightarrow>
   (creation_ref \<times> creation_ref, channel_error) result \<times> channel_authority" where
  "bind_pair ca key first second =
    (if cr_object_type first \<noteq> DW_OBJECT_TYPE_CHANNEL \<or> cr_object_type second \<noteq> DW_OBJECT_TYPE_CHANNEL
     then (Err InvalidEndpoint, ca)
     else (case slice_get (ca_pairs ca) (unat (pk_slot key)) of
        None \<Rightarrow> (Err StalePair, ca)
      | Some slot \<Rightarrow>
         if pk_domain key \<noteq> ca_domain ca \<or> cs_generation slot \<noteq> pk_generation key then (Err StalePair, ca)
         else (case cs_pair slot of
            None \<Rightarrow> (Err StalePair, ca)
          | Some pair \<Rightarrow>
             if pc_endpoints pair Zero \<noteq> None \<or> pc_endpoints pair One \<noteq> None then (Err StalePair, ca)
             else (Ok (first, second), set_pair ca (unat (pk_slot key)) (Some (pair\<lparr>pc_endpoints := (\<lambda>side.
               Some \<lparr>er_object = (case side of Zero \<Rightarrow> cr_id first | One \<Rightarrow> cr_id second),
                     er_lease = \<lparr>sl_pair = key, sl_side = side\<rparr>\<rparr>)\<rparr>))))))"

text \<open>Sealing a bound creation into its first handle, with the two panics of the code.\<close>

definition seal_handle :: "object_registry \<Rightarrow> bound_creation \<Rightarrow> (handle_ref \<times> object_registry) option" where
  "seal_handle reg bound =
    (case bound_into_handle reg bound of (r, reg') \<Rightarrow> do { h \<leftarrow> expect_ok r; Some (h, reg') })"

definition create_pair ::
  "channel_authority \<Rightarrow> object_registry \<Rightarrow>
   (((channel_endpoint_key \<times> channel_endpoint_key) \<times> (handle_ref \<times> handle_ref), channel_create_error) result \<times>
     channel_authority \<times> object_registry) option" where
  "create_pair ca reg =
    (case channel_reserve_pair ca of
      (Err e, ca1) \<Rightarrow> Some (Err (ChannelCreateChannel e), ca1, reg)
    | (Ok pair, ca1) \<Rightarrow>
       (case create reg DW_OBJECT_TYPE_CHANNEL of
         (Err e, reg1) \<Rightarrow>
           do { ca2 \<leftarrow> cancel_empty_pair ca1 pair; Some (Err (ChannelCreateRegistry e), ca2, reg1) }
       | (Ok first, reg1) \<Rightarrow>
          (case create reg1 DW_OBJECT_TYPE_CHANNEL of
            (Err e, reg2) \<Rightarrow>
              do { (r, reg3) \<leftarrow> cancel_creation reg2 first;
                   _ \<leftarrow> expect_ok r;
                   ca2 \<leftarrow> cancel_empty_pair ca1 pair;
                   Some (Err (ChannelCreateRegistry e), ca2, reg3) }
          | (Ok second, reg2) \<Rightarrow>
              (case bind_pair ca1 pair first second of (b, ca2) \<Rightarrow>
                do { (first', second') \<leftarrow> expect_ok b;
                     first_bound \<leftarrow> expect_ok (finish_payload_binding reg2 first');
                     second_bound \<leftarrow> expect_ok (finish_payload_binding reg2 second');
                     (first_handle, reg3) \<leftarrow> seal_handle reg2 first_bound;
                     (second_handle, reg4) \<leftarrow> seal_handle reg3 second_bound;
                     Some (Ok ((cr_id first, cr_id second), (first_handle, second_handle)), ca2, reg4) }))))"

section \<open>Endpoints and signals\<close>

definition lease_valid :: "u64 \<Rightarrow> nat \<Rightarrow> pair_slot \<Rightarrow> channel_side \<Rightarrow> channel_side_lease \<Rightarrow> bool" where
  "lease_valid domain slot_index slot side lease \<longleftrightarrow>
    pk_domain (sl_pair lease) = domain \<and> unat (pk_slot (sl_pair lease)) = slot_index \<and>
    pk_generation (sl_pair lease) = cs_generation slot \<and> sl_side lease = side"

definition side_holds :: "object_id \<Rightarrow> pair_record \<Rightarrow> channel_side \<Rightarrow> bool" where
  "side_holds object pair side = (case pc_endpoints pair side of None \<Rightarrow> False | Some e \<Rightarrow> er_object e = object)"

definition locate_side ::
  "u64 \<Rightarrow> nat \<Rightarrow> pair_slot \<Rightarrow> channel_side \<Rightarrow> endpoint_record \<Rightarrow> (nat \<times> channel_side, channel_error) result" where
  "locate_side domain slot_index slot side endpoint =
    (if lease_valid domain slot_index slot side (er_lease endpoint) then Ok (slot_index, side) else Err StalePair)"

fun locate_scan ::
  "u64 \<Rightarrow> nat \<Rightarrow> pair_slot list \<Rightarrow> channel_endpoint_key \<Rightarrow> (nat \<times> channel_side, channel_error) result" where
  "locate_scan domain slot_index [] key = Err InvalidEndpoint"
| "locate_scan domain slot_index (slot # rest) key =
    (case cs_pair slot of
      None \<Rightarrow> locate_scan domain (slot_index + 1) rest key
    | Some pair \<Rightarrow>
       if side_holds key pair Zero then locate_side domain slot_index slot Zero (the (pc_endpoints pair Zero))
       else if side_holds key pair One then locate_side domain slot_index slot One (the (pc_endpoints pair One))
       else locate_scan domain (slot_index + 1) rest key)"

definition locate :: "channel_authority \<Rightarrow> channel_endpoint_key \<Rightarrow> (nat \<times> channel_side, channel_error) result" where
  "locate ca key = locate_scan (ca_domain ca) 0 (ca_pairs ca) key"

text \<open>\<open>locate\<close> followed by \<open>slots[slot_index].pair.as_ref().ok_or(StalePair)\<close>.\<close>

definition located_pair ::
  "channel_authority \<Rightarrow> channel_endpoint_key \<Rightarrow> (nat \<times> channel_side \<times> pair_record, channel_error) result" where
  "located_pair ca key =
    and_then (locate ca key) (\<lambda>(slot_index, side).
      and_then (ok_or StalePair (cs_pair (ca_pairs ca ! slot_index))) (\<lambda>pair. Ok (slot_index, side, pair)))"

definition signals_for_pair :: "pair_record \<Rightarrow> channel_side \<Rightarrow> (dw_signals, channel_error) result" where
  "signals_for_pair pair side =
    (if pc_endpoints pair side = None then Err InvalidEndpoint
     else let peer_open = (pc_endpoints pair (peer side) \<noteq> None) in
       Ok ((if \<not> queue_is_empty (pc_inbound pair side) then DW_SIGNAL_READABLE else 0) OR
           (if peer_open \<and> has_minimal_capacity (pc_inbound pair (peer side)) then DW_SIGNAL_WRITABLE else 0) OR
           (if \<not> peer_open then DW_SIGNAL_PEER_CLOSED else 0)))"

definition channel_current_signals :: "channel_authority \<Rightarrow> channel_endpoint_key \<Rightarrow> (dw_signals, channel_error) result" where
  "channel_current_signals ca key =
    and_then (located_pair ca key) (\<lambda>(_, side, pair). signals_for_pair pair side)"

fun collect_sides ::
  "pair_record \<Rightarrow> wait_registry \<Rightarrow> wake_batch \<Rightarrow> channel_side list \<Rightarrow>
   ((wake_batch, channel_error) result \<times> wait_registry) option" where
  "collect_sides pair waits wakes [] = Some (Ok wakes, waits)"
| "collect_sides pair waits wakes (side # rest) =
    (case pc_endpoints pair side of
      None \<Rightarrow> collect_sides pair waits wakes rest
    | Some endpoint \<Rightarrow> (case signals_for_pair pair side of
        Err e \<Rightarrow> Some (Err e, waits)
      | Ok observed \<Rightarrow>
         do { (ready, waits') \<leftarrow> take_ready waits (er_object endpoint) observed;
              wakes' \<leftarrow> wake_batch_append wakes ready;
              collect_sides pair waits' wakes' rest }))"

definition collect_changed ::
  "pair_record \<Rightarrow> wait_registry \<Rightarrow> channel_side \<Rightarrow> channel_side \<Rightarrow>
   ((wake_batch, channel_error) result \<times> wait_registry) option" where
  "collect_changed pair waits first second =
    collect_sides pair waits (wake_batch_empty (length (wg_slots waits))) [first, second]"

definition peer_object :: "channel_authority \<Rightarrow> channel_endpoint_key \<Rightarrow> (object_id, channel_error) result" where
  "peer_object ca endpoint =
    and_then (located_pair ca endpoint) (\<lambda>(_, side, pair).
      ok_or PeerClosed (map_option er_object (pc_endpoints pair (peer side))))"

section \<open>The queue-cycle check\<close>

definition side_bit :: "channel_side \<Rightarrow> u8" where
  "side_bit side = push_bit (side_index side) 1"

fun scan_sides ::
  "nat \<Rightarrow> channel_side list \<Rightarrow> u8 list \<Rightarrow> u8 list \<Rightarrow> (nat \<times> channel_side) option \<times> u8 list \<times> u8 list" where
  "scan_sides slot [] pending visited = (None, pending, visited)"
| "scan_sides slot (side # rest) pending visited =
    (if pending ! slot AND side_bit side \<noteq> 0
     then let pending' = pending[slot := pending ! slot AND NOT (side_bit side)] in
       if visited ! slot AND side_bit side = 0
       then (Some (slot, side), pending', visited[slot := visited ! slot OR side_bit side])
       else scan_sides slot rest pending' visited
     else scan_sides slot rest pending visited)"

fun scan_pending ::
  "nat list \<Rightarrow> u8 list \<Rightarrow> u8 list \<Rightarrow> (nat \<times> channel_side) option \<times> u8 list \<times> u8 list" where
  "scan_pending [] pending visited = (None, pending, visited)"
| "scan_pending (slot # rest) pending visited =
    (case scan_sides slot [Zero, One] pending visited of
      (Some next, pending', visited') \<Rightarrow> (Some next, pending', visited')
    | (None, pending', visited') \<Rightarrow> scan_pending rest pending' visited')"

text \<open>
  The two loops that mark endpoints: over the transferred channels (every located endpoint is
  marked) and over the channels queued at an endpoint (visited ones are left out). Meeting the
  destination ends the search, which the flag reports.
\<close>

fun mark_roots ::
  "channel_authority \<Rightarrow> object_id \<Rightarrow> object_id list \<Rightarrow> u8 list \<Rightarrow> (bool \<times> u8 list, channel_error) result" where
  "mark_roots ca destination [] pending = Ok (False, pending)"
| "mark_roots ca destination (object # rest) pending =
    (if object = destination then Ok (True, pending)
     else (case locate ca object of
        Err _ \<Rightarrow> Err StalePair
      | Ok (slot, side) \<Rightarrow> mark_roots ca destination rest (pending[slot := pending ! slot OR side_bit side])))"

fun mark_queued ::
  "channel_authority \<Rightarrow> object_id \<Rightarrow> u8 list \<Rightarrow> object_id list \<Rightarrow> u8 list \<Rightarrow> (bool \<times> u8 list, channel_error) result" where
  "mark_queued ca destination visited [] pending = Ok (False, pending)"
| "mark_queued ca destination visited (object # rest) pending =
    (if object = destination then Ok (True, pending)
     else (case locate ca object of
        Err _ \<Rightarrow> Err StalePair
      | Ok (slot, side) \<Rightarrow> mark_queued ca destination visited rest
          (if visited ! slot AND side_bit side = 0 then pending[slot := pending ! slot OR side_bit side] else pending)))"

definition queued_channels :: "byte_queue \<Rightarrow> object_id list" where
  "queued_channels q =
    concat (map (\<lambda>m. transfer_objects_of_type (qm_transfers m) DW_OBJECT_TYPE_CHANNEL) (flatten_options (bq_descriptors q)))"

definition unvisited :: "u8 list \<Rightarrow> (nat \<times> channel_side) set" where
  "unvisited visited = {(slot, side). slot < length visited \<and> visited ! slot AND side_bit side = 0}"

lemma UNIV_side: "(UNIV :: channel_side set) = {Zero, One}"
  using channel_side.exhaust by auto

lemma finite_unvisited [simp]: "finite (unvisited visited)"
proof (rule finite_subset)
  show "unvisited visited \<subseteq> {..<length visited} \<times> UNIV" by (auto simp: unvisited_def)
  show "finite ({..<length visited} \<times> (UNIV :: channel_side set))" by (simp add: UNIV_side)
qed

lemma side_index_inj [simp]: "side_index a = side_index b \<longleftrightarrow> a = b"
  by (cases a; cases b) auto

lemma side_bit_exp: "side_bit side = 2 ^ side_index side"
  by (simp add: side_bit_def push_bit_eq_mult)

lemma and_side_bit_iff [simp]: "x AND side_bit side = 0 \<longleftrightarrow> \<not> bit x (side_index side)"
  by (simp add: side_bit_exp and_exp_eq_0_iff_not_bit)

lemma bit_side_bit [simp]: "bit (side_bit a) (side_index b) \<longleftrightarrow> a = b"
  by (cases a; cases b) (simp_all add: side_bit_def bit_simps)

lemma bit_mark [simp]: "bit (x OR side_bit a) (side_index b) \<longleftrightarrow> bit x (side_index b) \<or> a = b"
  by (simp add: bit_or_iff)

lemma bit_unmark [simp]: "bit (x AND NOT (side_bit a)) (side_index b) \<longleftrightarrow> bit x (side_index b) \<and> a \<noteq> b"
  using bit_side_bit [of a b] by (cases b) (auto simp: bit_and_iff bit_not_iff)

lemma scan_sides_visits:
  "scan_sides slot sides pending visited = (Some next, pending', visited') \<Longrightarrow> slot < length visited \<Longrightarrow>
    fst next < length visited \<and> next \<in> unvisited visited \<and> unvisited visited' = unvisited visited - {next}"
  by (induction slot sides pending visited rule: scan_sides.induct)
    (auto simp: unvisited_def nth_update_if Let_def split: if_splits)

lemma scan_sides_none:
  "scan_sides slot sides pending visited = (None, pending', visited') \<Longrightarrow> visited' = visited"
  by (induction slot sides pending visited rule: scan_sides.induct) (auto simp: Let_def split: if_splits)

lemma scan_pending_visits:
  "scan_pending slots pending visited = (Some next, pending', visited') \<Longrightarrow> \<forall>s\<in>set slots. s < length visited \<Longrightarrow>
    next \<in> unvisited visited \<and> unvisited visited' = unvisited visited - {next}"
  by (induction slots pending visited rule: scan_pending.induct)
    (auto dest: scan_sides_visits scan_sides_none simp del: scan_sides.simps split: prod.splits option.splits)

text \<open>
  The search loop. Every round visits an endpoint that was not visited before, so it ends. The
  slots it scans are those of the masks, one per pair.
\<close>

function cycle_loop ::
  "channel_authority \<Rightarrow> object_id \<Rightarrow> u8 list \<Rightarrow> u8 list \<Rightarrow> (bool, channel_error) result" where
  "cycle_loop ca destination pending visited =
    (case scan_pending [0..<length visited] pending visited of
      (None, _, _) \<Rightarrow> Ok False
    | (Some (slot, side), pending', visited') \<Rightarrow>
       (case cs_pair (ca_pairs ca ! slot) of
         None \<Rightarrow> Err StalePair
       | Some pair \<Rightarrow> (case pc_endpoints pair side of
           None \<Rightarrow> Err StalePair
         | Some endpoint \<Rightarrow>
            if er_object endpoint = destination then Ok True
            else (case mark_queued ca destination visited' (queued_channels (pc_inbound pair side)) pending' of
                Err e \<Rightarrow> Err e
              | Ok (True, _) \<Rightarrow> Ok True
              | Ok (False, pending'') \<Rightarrow> cycle_loop ca destination pending'' visited'))))"
  by pat_completeness auto

lemma scan_pending_shrinks:
  assumes "(Some next, pending', visited') = scan_pending [0..<length visited] pending visited"
  shows "card (unvisited visited') < card (unvisited visited)"
  using scan_pending_visits [OF assms [symmetric]] card_Diff1_less [of "unvisited visited" "next"] by simp

termination cycle_loop
  by (relation "measure (\<lambda>(_, _, _, visited). card (unvisited visited))") (auto dest: scan_pending_shrinks)

declare cycle_loop.simps [simp del]

definition transfer_closes_queue_cycle ::
  "channel_authority \<Rightarrow> object_id \<Rightarrow> object_id list \<Rightarrow> (bool, channel_error) result" where
  "transfer_closes_queue_cycle ca destination transferred_channels =
    (let empty = replicate (length (ca_pairs ca)) 0 in
     and_then (mark_roots ca destination transferred_channels empty)
       (\<lambda>(found, pending). if found then Ok True else cycle_loop ca destination pending empty))"

definition transfer_would_close_queue_cycle ::
  "channel_authority \<Rightarrow> channel_endpoint_key \<Rightarrow> object_id list \<Rightarrow> (bool, channel_error) result" where
  "transfer_would_close_queue_cycle ca endpoint transferred_channels =
    and_then (peer_object ca endpoint)
      (\<lambda>destination. transfer_closes_queue_cycle ca destination transferred_channels)"

end
