(* ===== verification/Channel_Ops.thy ===== *)
theory Channel_Ops
  imports Channel
begin

text \<open>
  Sending, receiving, waiting and finalization of the channel authority
  (\<^verbatim>\<open>kernel/src/ipc/mod.rs\<close>). The static payload pool is an argument; an operation that
  touches the wait registry takes and returns it.
\<close>

definition set_inbound :: "channel_authority \<Rightarrow> nat \<Rightarrow> pair_record \<Rightarrow> channel_side \<Rightarrow> byte_queue \<Rightarrow> channel_authority" where
  "set_inbound ca i pair side q = set_pair ca i (Some (pair\<lparr>pc_inbound := (pc_inbound pair)(side := q)\<rparr>))"

section \<open>Sending\<close>

definition channel_reserve_send ::
  "channel_authority \<Rightarrow> payload_pool \<Rightarrow> channel_endpoint_key \<Rightarrow> u8 list \<Rightarrow>
   ((channel_send_reservation, channel_error) result \<times> channel_authority \<times> payload_pool) option" where
  "channel_reserve_send ca pool endpoint payload =
    (if length payload > DW_CHANNEL_MAX_PAYLOAD then Some (Err InvalidArgument, ca, pool)
     else (case located_pair ca endpoint of
        Err e \<Rightarrow> Some (Err e, ca, pool)
      | Ok (slot_index, side, pair) \<Rightarrow>
         if pc_endpoints pair (peer side) = None then Some (Err PeerClosed, ca, pool)
         else (case queue_reserve_send (pc_inbound pair (peer side)) of
            (Err e, _) \<Rightarrow> Some (Err e, ca, pool)
          | (Ok generation, q1) \<Rightarrow>
             do { (r, pool') \<leftarrow> allocate pool payload;
                  case r of
                    Err error \<Rightarrow>
                      (case queue_cancel_send q1 generation of (c, q2) \<Rightarrow>
                        do { _ \<leftarrow> expect_ok c;
                             Some (Err error, set_inbound ca slot_index pair (peer side) q2, pool') })
                  | Ok payload_token \<Rightarrow>
                     (let ca' = set_inbound ca slot_index pair (peer side) q1 in
                      case u16_try_from_usize slot_index of
                        None \<Rightarrow> Some (Err ChannelCapacity, ca', pool')
                      | Some slot \<Rightarrow>
                         do { byte_len \<leftarrow> u32_try_from_usize (length payload);
                              Some (Ok \<lparr>csr_pair = \<lparr>pk_domain = ca_domain ca, pk_slot = slot,
                                    pk_generation = cs_generation (ca_pairs ca ! slot_index)\<rparr>,
                                  csr_side = side, csr_generation = generation, csr_byte_len = byte_len,
                                  csr_payload = payload_token\<rparr>, ca', pool') }) })))"

text \<open>
  The check every operation on a reservation begins with: the key's domain, slot, generation
  and pair must be current.
\<close>

definition keyed_pair :: "channel_authority \<Rightarrow> channel_pair_key \<Rightarrow> (nat \<times> pair_record, channel_error) result" where
  "keyed_pair ca key =
    (if pk_domain key \<noteq> ca_domain ca then Err StalePair
     else and_then (ok_or StalePair (slice_get (ca_pairs ca) (unat (pk_slot key)))) (\<lambda>slot.
       if cs_generation slot \<noteq> pk_generation key then Err StalePair
       else and_then (ok_or StalePair (cs_pair slot)) (\<lambda>pair. Ok (unat (pk_slot key), pair))))"

definition channel_cancel_send ::
  "channel_authority \<Rightarrow> payload_pool \<Rightarrow> channel_send_reservation \<Rightarrow>
   ((unit, channel_error) result \<times> channel_authority \<times> payload_pool) option" where
  "channel_cancel_send ca pool reservation =
    (let (result, ca') =
       (case keyed_pair ca (csr_pair reservation) of
          Err e \<Rightarrow> (Err e, ca)
        | Ok (i, pair) \<Rightarrow>
           (case queue_cancel_send (pc_inbound pair (peer (csr_side reservation))) (csr_generation reservation) of
              (Err _, _) \<Rightarrow> (Err StalePair, ca)
            | (Ok _, q) \<Rightarrow> (Ok (), set_inbound ca i pair (peer (csr_side reservation)) q)))
     in do { pool' \<leftarrow> release_payload pool (csr_payload reservation); Some (result, ca', pool') })"

text \<open>The failure exits of \<open>commit_send\<close>: the reservation is dropped and the payload released.\<close>

definition abort_send ::
  "channel_authority \<Rightarrow> payload_pool \<Rightarrow> channel_send_reservation \<Rightarrow> nat \<Rightarrow> pair_record \<Rightarrow>
   (channel_authority \<times> payload_pool) option" where
  "abort_send ca pool reservation i pair =
    (case queue_cancel_send (pc_inbound pair (peer (csr_side reservation))) (csr_generation reservation) of (_, q) \<Rightarrow>
      do { pool' \<leftarrow> release_payload pool (csr_payload reservation);
           Some (set_inbound ca i pair (peer (csr_side reservation)) q, pool') })"

definition channel_commit_send ::
  "channel_authority \<Rightarrow> payload_pool \<Rightarrow> channel_send_reservation \<Rightarrow> handle_transfer_batch \<Rightarrow> wait_registry \<Rightarrow>
   ((wake_batch, channel_error \<times> handle_transfer_batch) result \<times> channel_authority \<times> payload_pool \<times> wait_registry) option" where
  "channel_commit_send ca pool reservation transfers waits =
    (case keyed_pair ca (csr_pair reservation) of
      Err e \<Rightarrow>
        do { pool' \<leftarrow> release_payload pool (csr_payload reservation); Some (Err (e, transfers), ca, pool', waits) }
    | Ok (i, pair) \<Rightarrow>
       (let side = csr_side reservation;
            abort = (\<lambda>e. do { (ca', pool') \<leftarrow> abort_send ca pool reservation i pair;
                               Some (Err (e, transfers), ca', pool', waits) }) in
        if pc_endpoints pair side = None then abort InvalidEndpoint
        else (case pc_endpoints pair (peer side) of
           None \<Rightarrow> abort PeerClosed
         | Some endpoint \<Rightarrow>
            (case transfer_closes_queue_cycle ca (er_object endpoint)
                    (transfer_objects_of_type transfers DW_OBJECT_TYPE_CHANNEL) of
               Err e \<Rightarrow> abort e
             | Ok True \<Rightarrow> abort InvalidArgument
             | Ok False \<Rightarrow>
                do { q \<leftarrow> queue_commit_send (pc_inbound pair (peer side)) (csr_generation reservation)
                       \<lparr>qm_byte_len = csr_byte_len reservation, qm_payload = csr_payload reservation,
                        qm_transfers = transfers\<rparr>;
                     let pair' = pair\<lparr>pc_inbound := (pc_inbound pair)(peer side := q)\<rparr>;
                     (r, waits') \<leftarrow> collect_changed pair' waits (peer side) side;
                     wakes \<leftarrow> expect_ok r;
                     Some (Ok wakes, set_pair ca i (Some pair'), pool, waits') }))))"

definition channel_send ::
  "channel_authority \<Rightarrow> payload_pool \<Rightarrow> channel_endpoint_key \<Rightarrow> u8 list \<Rightarrow> wait_registry \<Rightarrow>
   ((wake_batch, channel_error) result \<times> channel_authority \<times> payload_pool \<times> wait_registry) option" where
  "channel_send ca pool endpoint payload waits =
    do { (r, ca1, pool1) \<leftarrow> channel_reserve_send ca pool endpoint payload;
         case r of
           Err e \<Rightarrow> Some (Err e, ca1, pool1, waits)
         | Ok reservation \<Rightarrow>
            do { (c, ca2, pool2, waits') \<leftarrow> channel_commit_send ca1 pool1 reservation transfer_batch_empty waits;
                 Some (case c of Ok wakes \<Rightarrow> Ok wakes | Err (error, _) \<Rightarrow> Err error, ca2, pool2, waits') } }"

section \<open>Receiving\<close>

definition peek_receive ::
  "channel_authority \<Rightarrow> channel_endpoint_key \<Rightarrow> (channel_message_info, channel_error) result option" where
  "peek_receive ca endpoint =
    (case located_pair ca endpoint of
      Err e \<Rightarrow> Some (Err e)
    | Ok (_, side, pair) \<Rightarrow>
       do { head \<leftarrow> queue_head (pc_inbound pair side);
            case head of
              Some message \<Rightarrow> do { info \<leftarrow> message_info message; Some (Ok info) }
            | None \<Rightarrow> Some (Err (if pc_endpoints pair (peer side) = None then PeerClosed else WouldBlock)) })"

definition reserve_receive ::
  "channel_authority \<Rightarrow> channel_endpoint_key \<Rightarrow>
   ((channel_receive_reservation, channel_error) result \<times> channel_authority) option" where
  "reserve_receive ca endpoint =
    (case located_pair ca endpoint of
      Err e \<Rightarrow> Some (Err e, ca)
    | Ok (slot_index, side, pair) \<Rightarrow>
       if queue_is_empty (pc_inbound pair side)
       then Some (Err (if pc_endpoints pair (peer side) = None then PeerClosed else WouldBlock), ca)
       else do { (r, q) \<leftarrow> reserve_head (pc_inbound pair side);
                 case r of
                   Err e \<Rightarrow> Some (Err e, ca)
                 | Ok (generation, info) \<Rightarrow>
                    (let ca' = set_inbound ca slot_index pair side q in
                     Some (case u16_try_from_usize slot_index of
                         None \<Rightarrow> (Err ChannelCapacity, ca')
                       | Some slot \<Rightarrow>
                          (Ok \<lparr>crr_pair = \<lparr>pk_domain = ca_domain ca, pk_slot = slot,
                                 pk_generation = cs_generation (ca_pairs ca ! slot_index)\<rparr>,
                               crr_side = side, crr_generation = generation, crr_info = info\<rparr>, ca'))) })"

definition channel_cancel_receive ::
  "channel_authority \<Rightarrow> channel_receive_reservation \<Rightarrow> (unit, channel_error) result \<times> channel_authority" where
  "channel_cancel_receive ca reservation =
    (case keyed_pair ca (crr_pair reservation) of
      Err e \<Rightarrow> (Err e, ca)
    | Ok (i, pair) \<Rightarrow>
       (case queue_cancel_receive (pc_inbound pair (crr_side reservation)) (crr_generation reservation) of
         (r, q) \<Rightarrow> (r, set_inbound ca i pair (crr_side reservation) q)))"

text \<open>\<open>if let Some(token) = message.payload\<close>: an empty datagram leaves the output alone.\<close>

definition copy_payload ::
  "payload_pool \<Rightarrow> payload_token option \<Rightarrow> nat \<Rightarrow> u8 list \<Rightarrow> (u8 list \<times> payload_pool) option" where
  "copy_payload pool payload byte_len output =
    (case payload of None \<Rightarrow> Some (output, pool) | Some token \<Rightarrow> copy_and_release pool token byte_len output)"

definition receive_reserved ::
  "channel_authority \<Rightarrow> payload_pool \<Rightarrow> channel_receive_reservation \<Rightarrow> u8 list \<Rightarrow> wait_registry \<Rightarrow>
   ((channel_received_message, channel_error) result \<times> u8 list \<times> channel_authority \<times> payload_pool \<times> wait_registry) option" where
  "receive_reserved ca pool reservation output waits =
    (case keyed_pair ca (crr_pair reservation) of
      Err e \<Rightarrow> Some (Err e, output, ca, pool, waits)
    | Ok (i, pair) \<Rightarrow>
       (let side = crr_side reservation; required = unat (mi_required_bytes (crr_info reservation)) in
        if pc_endpoints pair side = None then Some (Err InvalidEndpoint, output, ca, pool, waits)
        else if length output < required
        then (case queue_cancel_receive (pc_inbound pair side) (crr_generation reservation) of
            (Err e, q) \<Rightarrow> Some (Err e, output, set_inbound ca i pair side q, pool, waits)
          | (Ok _, q) \<Rightarrow> Some (Err BufferTooSmall, output, set_inbound ca i pair side q, pool, waits))
        else do { (r, q) \<leftarrow> pop_reserved (pc_inbound pair side) (crr_generation reservation);
                  let pair' = pair\<lparr>pc_inbound := (pc_inbound pair)(side := q)\<rparr>;
                  let ca' = set_pair ca i (Some pair');
                  case r of
                    Err e \<Rightarrow> Some (Err e, output, ca', pool, waits)
                  | Ok message \<Rightarrow>
                     do { (output', pool') \<leftarrow> copy_payload pool (qm_payload message) required output;
                          (c, waits') \<leftarrow> collect_changed pair' waits (peer side) side;
                          Some (case c of
                              Err e \<Rightarrow> Err e
                            | Ok wakes \<Rightarrow> Ok \<lparr>rm_byte_len = required, rm_transfers = qm_transfers message, rm_wakes = wakes\<rparr>,
                            output', ca', pool', waits') } }))"

definition receive_into ::
  "channel_authority \<Rightarrow> payload_pool \<Rightarrow> channel_endpoint_key \<Rightarrow> u8 list \<Rightarrow> wait_registry \<Rightarrow>
   ((nat \<times> wake_batch, channel_error) result \<times> u8 list \<times> channel_authority \<times> payload_pool \<times> wait_registry) option" where
  "receive_into ca pool endpoint output waits =
    do { (r, ca1) \<leftarrow> reserve_receive ca endpoint;
         case r of
           Err e \<Rightarrow> Some (Err e, output, ca1, pool, waits)
         | Ok reservation \<Rightarrow>
            (let info = crr_info reservation;
                 refuse = (\<lambda>error. case channel_cancel_receive ca1 reservation of
                    (Err e, ca2) \<Rightarrow> Some (Err e, output, ca2, pool, waits)
                  | (Ok _, ca2) \<Rightarrow> Some (Err error, output, ca2, pool, waits)) in
             if mi_required_handles info \<noteq> 0 then refuse InvalidArgument
             else if length output < unat (mi_required_bytes info) then refuse BufferTooSmall
             else do { (m, output', ca2, pool', waits') \<leftarrow> receive_reserved ca1 pool reservation output waits;
                       Some (case m of
                           Err e \<Rightarrow> Err e
                         | Ok received \<Rightarrow> Ok (rm_byte_len received, rm_wakes received),
                         output', ca2, pool', waits') }) }"

section \<open>Waiting\<close>

definition channel_wait_error :: "wait_error \<Rightarrow> channel_error" where
  "channel_wait_error e =
    (case e of WaitCapacity \<Rightarrow> ChannelCapacity | WaitAccessDenied \<Rightarrow> ChannelAccessDenied
     | InvalidSignals \<Rightarrow> InvalidArgument | _ \<Rightarrow> StalePair)"

definition channel_register_wait ::
  "channel_authority \<Rightarrow> wait_registry \<Rightarrow> resolved_handle \<Rightarrow> dw_signals \<Rightarrow> u32 \<Rightarrow> thread_key \<Rightarrow> block_wake_key \<Rightarrow>
   (channel_wait_outcome, channel_wait_failure) result \<times> wait_registry" where
  "channel_register_wait ca waits target desired item_index thread wake =
    (let pin = rh_reference target; fail = (\<lambda>e. (Err \<lparr>cw_error = e, cw_pin = pin\<rparr>, waits)) in
     if ir_object_type pin \<noteq> DW_OBJECT_TYPE_CHANNEL then fail InvalidEndpoint
     else if rh_rights target AND DW_RIGHT_WAIT \<noteq> DW_RIGHT_WAIT then fail ChannelAccessDenied
     else if desired = 0 \<or> \<not> dw_signals_are_compatible (ir_object_type pin) desired then fail InvalidArgument
     else (case located_pair ca (ir_id pin) of
        Err e \<Rightarrow> fail e
      | Ok (_, side, pair) \<Rightarrow> (case signals_for_pair pair side of
          Err e \<Rightarrow> fail e
        | Ok observed \<Rightarrow>
           if observed AND desired \<noteq> 0 then (Ok (ChannelReady observed pin), waits)
           else (case wait_register waits pin desired item_index thread wake of
              (Ok registration, waits') \<Rightarrow> (Ok (ChannelRegistered registration), waits')
            | (Err failure, waits') \<Rightarrow>
                (Err \<lparr>cw_error = channel_wait_error (wf_error failure), cw_pin = wf_pin failure\<rparr>, waits')))))"

section \<open>Finalization\<close>

definition channel_take_finalization ::
  "channel_authority \<Rightarrow> payload_pool \<Rightarrow> final_release \<Rightarrow> wait_registry \<Rightarrow>
   ((channel_finalization, channel_error \<times> final_release) result \<times> channel_authority \<times> payload_pool \<times> wait_registry) option" where
  "channel_take_finalization ca pool final_release waits =
    (if fr_object_type final_release \<noteq> DW_OBJECT_TYPE_CHANNEL
     then Some (Err (FinalizationMismatch, final_release), ca, pool, waits)
     else (case located_pair ca (fr_id final_release) of
        Err error \<Rightarrow> Some (Err (error, final_release), ca, pool, waits)
      | Ok (slot_index, side, pair) \<Rightarrow>
         do { endpoint \<leftarrow> pc_endpoints pair side;
              let pair1 = pair\<lparr>pc_endpoints := (pc_endpoints pair)(side := None)\<rparr>;
              if \<not> lease_valid (ca_domain ca) slot_index (ca_pairs ca ! slot_index) side (er_lease endpoint)
              then Some (Err (StalePair, final_release), set_pair ca slot_index (Some pair1), pool, waits)
              else do {
                (drained, q, pool') \<leftarrow> drain_transfers (pc_inbound pair1 side) pool;
                let pair2 = pair1\<lparr>pc_inbound := (pc_inbound pair1)(side := q)\<rparr>;
                let empty = wake_batch_empty (length (wg_slots waits));
                (wakes, waits') \<leftarrow>
                  (case pc_endpoints pair2 (peer side) of
                     None \<Rightarrow> Some (empty, waits)
                   | Some peer_endpoint \<Rightarrow>
                      do { observed \<leftarrow> expect_ok (signals_for_pair pair2 (peer side));
                           (ready, waits') \<leftarrow> take_ready waits (er_object peer_endpoint) observed;
                           wakes \<leftarrow> wake_batch_append empty ready;
                           Some (wakes, waits') });
                let remaining = (if pc_endpoints pair2 Zero = None \<and> pc_endpoints pair2 One = None then None else Some pair2);
                Some (Ok \<lparr>cf_final_release = final_release, cf_wakes = wakes, cf_drained_transfers = drained\<rparr>,
                      set_pair ca slot_index remaining, pool', waits') } }))"

text \<open>Collecting the final releases of the drained transfers, in order, into an array of \<open>OBJECTS\<close> slots.\<close>

fun push_releases :: "final_release option list \<Rightarrow> final_release option list \<Rightarrow> nat \<Rightarrow> (final_release option list \<times> nat) option" where
  "push_releases [] out n = Some (out, n)"
| "push_releases (None # rest) out n = push_releases rest out n"
| "push_releases (Some f # rest) out n =
    do { _ \<leftarrow> assert_panic (n < length out); push_releases rest (out[n := Some f]) (n + 1) }"

fun release_drained ::
  "object_registry \<Rightarrow> handle_transfer_batch option list \<Rightarrow> final_release option list \<Rightarrow> nat \<Rightarrow>
   (final_release option list \<times> object_registry) option" where
  "release_drained reg [] out n = Some (out, reg)"
| "release_drained reg (None # rest) out n = release_drained reg rest out n"
| "release_drained reg (Some transfers # rest) out n =
    do { (releases, reg') \<leftarrow> transfer_batch_release reg transfers;
         (out', n') \<leftarrow> push_releases releases out n;
         release_drained reg' rest out' n' }"

definition complete_channel_finalization ::
  "object_registry \<Rightarrow> channel_finalization \<Rightarrow> (channel_completion \<times> object_registry) option" where
  "complete_channel_finalization reg finalization =
    do { (r, reg1) \<leftarrow> complete_payload_finalization reg (cf_final_release finalization);
         _ \<leftarrow> expect_ok r;
         (out, reg2) \<leftarrow> release_drained reg1 (cf_drained_transfers finalization)
            (replicate (length (or_slots reg1)) None) 0;
         Some (\<lparr>cc_wakes = cf_wakes finalization, cc_final_releases = out\<rparr>, reg2) }"

lemmas channel_eval [eval_simps] =
  pair_record_new_def mint_channel_domain_def channel_authority_new_def channel_reserve_pair_def set_pair_def
  cancel_empty_pair_def bind_pair_def seal_handle_def create_pair_def lease_valid_def side_holds_def locate_side_def
  locate_def located_pair_def signals_for_pair_def channel_current_signals_def collect_changed_def peer_object_def
  side_bit_def queued_channels_def cycle_loop.simps transfer_closes_queue_cycle_def transfer_would_close_queue_cycle_def
  set_inbound_def channel_reserve_send_def keyed_pair_def channel_cancel_send_def abort_send_def channel_commit_send_def
  channel_send_def peek_receive_def reserve_receive_def channel_cancel_receive_def copy_payload_def receive_reserved_def
  receive_into_def channel_wait_error_def channel_register_wait_def channel_take_finalization_def
  complete_channel_finalization_def

end
