(* ===== verification/Byte_Queue_View.thy ===== *)
theory Byte_Queue_View
  imports Byte_Queue
begin

text \<open>
  The ring of \<^verbatim>\<open>Byte_Queue\<close> as a FIFO list. \<open>queue_items\<close> reads the messages in order,
  \<open>send_claims\<close> the outstanding send reservations. The locale \<open>reserved_fifo\<close> is the contract
  the channel authority relies on, and it is interpreted on the ring.
\<close>

section \<open>Ring arithmetic\<close>

lemma ring_inj:
  assumes "k < d" and "j < (d :: nat)" and "(h + k) mod d = (h + j) mod d"
  shows "k = j"
proof -
  have "a = b" if "a \<le> b" "b < d" "(h + a) mod d = (h + b) mod d" for a b
  proof -
    from that have "d dvd (h + b) - (h + a)" by (metis mod_eq_dvd_iff_nat add_le_cancel_left)
    then have "d dvd b - a" by simp
    then have "\<not> 0 < b - a" using nat_dvd_not_less [of "b - a" d] that(2) by linarith
    with that(1) show ?thesis by simp
  qed
  from this [of k j] this [of j k] assms show ?thesis by (cases "k \<le> j") auto
qed

definition ring_at :: "byte_queue \<Rightarrow> nat \<Rightarrow> queued_message option" where
  "ring_at q k = bq_descriptors q ! ((bq_head q + k) mod length (bq_descriptors q))"

definition queue_items :: "byte_queue \<Rightarrow> queued_message list" where
  "queue_items q = map (\<lambda>k. the (ring_at q k)) [0..<bq_len q]"

definition send_claims :: "byte_queue \<Rightarrow> u64 set" where
  "send_claims q = {g. Some g \<in> set (bq_send_reservations q)}"

definition queue_wf :: "nat \<Rightarrow> byte_queue \<Rightarrow> bool" where
  "queue_wf depth q \<longleftrightarrow> 0 < depth \<and> length (bq_descriptors q) = depth \<and> length (bq_send_reservations q) = depth \<and>
    bq_head q < depth \<and> bq_len q + card (send_claims q) \<le> depth \<and>
    distinct (filter (\<lambda>r. r \<noteq> None) (bq_send_reservations q)) \<and>
    (\<forall>k<depth. ring_at q k \<noteq> None \<longleftrightarrow> k < bq_len q) \<and>
    (\<forall>g\<in>send_claims q. unat g \<le> unat (bq_next_send_generation q)) \<and>
    (bq_receive_reservation q \<noteq> None \<longrightarrow> 0 < bq_len q)"

lemma finite_send_claims [simp]: "finite (send_claims q)"
proof -
  have "send_claims q \<subseteq> the ` set (bq_send_reservations q)" by (force simp: send_claims_def)
  then show ?thesis by (rule finite_subset) simp
qed

lemma reserved_send_count_card:
  assumes "distinct (filter (\<lambda>r. r \<noteq> None) (bq_send_reservations q))"
  shows "reserved_send_count q = card (send_claims q)"
proof -
  have "set (filter (\<lambda>r. r \<noteq> None) (bq_send_reservations q)) = Some ` send_claims q"
    by (auto simp: send_claims_def)
  then have "card (Some ` send_claims q) = reserved_send_count q"
    using distinct_card [OF assms] by (simp add: reserved_send_count_def)
  then show ?thesis by (simp add: card_image)
qed

lemma queue_wf_capacity:
  "queue_wf depth q \<Longrightarrow> has_minimal_capacity q \<longleftrightarrow> bq_len q + card (send_claims q) < depth"
  by (simp add: has_minimal_capacity_def reserved_send_count_card queue_wf_def)

lemma length_queue_items [simp]: "length (queue_items q) = bq_len q"
  by (simp add: queue_items_def)

lemma queue_wf_new: "0 < depth \<Longrightarrow> queue_wf depth (byte_queue_new depth)"
proof -
  have "send_claims (byte_queue_new depth) = {}" by (auto simp: send_claims_def byte_queue_new_def)
  moreover assume "0 < depth"
  ultimately show ?thesis by (simp add: queue_wf_def byte_queue_new_def ring_at_def)
qed

lemma queue_items_new [simp]: "queue_items (byte_queue_new depth) = []"
  by (simp add: queue_items_def byte_queue_new_def)

lemma queue_head_hd:
  assumes "queue_wf depth q"
  shows "queue_head q = Some (if queue_items q = [] then None else Some (hd (queue_items q)))"
proof -
  have h: "bq_head q < length (bq_descriptors q)" "ring_at q 0 = bq_descriptors q ! bq_head q"
    using assms by (auto simp: queue_wf_def ring_at_def)
  have "ring_at q 0 \<noteq> None \<longleftrightarrow> 0 < bq_len q" using assms by (auto simp: queue_wf_def)
  moreover have "hd (queue_items q) = the (ring_at q 0)" if "0 < bq_len q"
    using that by (simp add: queue_items_def hd_map)
  moreover have "queue_items q = [] \<longleftrightarrow> bq_len q = 0" by (metis length_0_conv length_queue_items)
  ultimately show ?thesis using h by (auto simp: queue_head_def)
qed

section \<open>Send reservations\<close>

text \<open>Updates of the reservation array leave the ring alone.\<close>

lemma queue_items_reservations [simp]:
  "queue_items (q\<lparr>bq_send_reservations := rs\<rparr>) = queue_items q"
  "queue_items (q\<lparr>bq_next_send_generation := g\<rparr>) = queue_items q"
  "queue_items (q\<lparr>bq_receive_reservation := r\<rparr>) = queue_items q"
  "queue_items (q\<lparr>bq_next_receive_generation := g\<rparr>) = queue_items q"
  by (simp_all add: queue_items_def ring_at_def)

lemma ring_at_reservations [simp]:
  "ring_at (q\<lparr>bq_send_reservations := rs\<rparr>) = ring_at q"
  "ring_at (q\<lparr>bq_next_send_generation := g\<rparr>) = ring_at q"
  "ring_at (q\<lparr>bq_receive_reservation := r\<rparr>) = ring_at q"
  "ring_at (q\<lparr>bq_next_receive_generation := g\<rparr>) = ring_at q"
  by (simp_all add: ring_at_def fun_eq_iff)

lemma distinct_filter_update_None:
  "distinct (filter (\<lambda>r. r \<noteq> None) rs) \<Longrightarrow> distinct (filter (\<lambda>r. r \<noteq> None) (rs[i := None]))"
proof (induction rs arbitrary: i)
  case (Cons a rs)
  show ?case
  proof (cases i)
    case (Suc j)
    have "set (rs[j := None]) \<subseteq> insert None (set rs)" by (rule set_update_subset_insert)
    with Suc Cons show ?thesis by auto
  qed (use Cons in \<open>auto split: if_splits\<close>)
qed simp

lemma distinct_filter_update_Some:
  "distinct (filter (\<lambda>r. r \<noteq> None) rs) \<Longrightarrow> Some g \<notin> set rs \<Longrightarrow> distinct (filter (\<lambda>r. r \<noteq> None) (rs[i := Some g]))"
proof (induction rs arbitrary: i)
  case (Cons a rs)
  show ?case
  proof (cases i)
    case (Suc j)
    have "set (rs[j := Some g]) \<subseteq> insert (Some g) (set rs)" by (rule set_update_subset_insert)
    with Suc Cons show ?thesis by (auto split: if_splits)
  qed (use Cons in \<open>auto split: if_splits\<close>)
qed simp

lemma count_distinct_filter:
  "distinct (filter (\<lambda>r. r \<noteq> None) rs) \<Longrightarrow> i < length rs \<Longrightarrow> j < length rs \<Longrightarrow> rs ! i = Some g \<Longrightarrow> rs ! j = Some g \<Longrightarrow> i = j"
proof (induction rs arbitrary: i j)
  case (Cons a rs)
  have "Some g \<in> set rs" if "k < length rs" "rs ! k = Some g" for k using that nth_mem by metis
  with Cons show ?case by (cases i; cases j) (auto split: if_splits)
qed simp

lemma send_claims_cancel:
  assumes "distinct (filter (\<lambda>r. r \<noteq> None) (bq_send_reservations q))"
    and "i < length (bq_send_reservations q)" and "bq_send_reservations q ! i = Some g"
  shows "send_claims (q\<lparr>bq_send_reservations := (bq_send_reservations q)[i := None]\<rparr>) = send_claims q - {g}"
proof -
  have "Some x \<in> set ((bq_send_reservations q)[i := None]) \<longleftrightarrow> Some x \<in> set (bq_send_reservations q) \<and> x \<noteq> g" for x
    unfolding in_set_update [OF assms(2)] unfolding in_set_conv_nth
    using assms(2,3) count_distinct_filter [OF assms(1)] by (safe; metis option.inject option.distinct(1))
  then show ?thesis by (auto simp: send_claims_def)
qed

lemma queue_cancel_send_claimed:
  assumes "queue_wf depth q" and "g \<in> send_claims q"
  shows "\<exists>q'. queue_cancel_send q g = (Ok (), q') \<and> queue_wf depth q' \<and> queue_items q' = queue_items q \<and>
    send_claims q' = send_claims q - {g} \<and> bq_receive_reservation q' = bq_receive_reservation q"
proof -
  obtain i where i: "position (\<lambda>r. r = Some g) (bq_send_reservations q) = Some i"
    using assms(2) position_None_iff [of "\<lambda>r. r = Some g" "bq_send_reservations q"]
    by (auto simp: send_claims_def simp del: position_None_iff)
  then have "i < length (bq_send_reservations q)" "bq_send_reservations q ! i = Some g"
    by (auto dest: position_SomeD)
  with send_claims_cancel [of q i g] assms i show ?thesis
    by (auto simp: queue_cancel_send_def queue_wf_def distinct_filter_update_None card_Diff_singleton simp del: not_None_eq)
qed

lemma queue_cancel_send_unclaimed:
  "g \<notin> send_claims q \<Longrightarrow> queue_cancel_send q g = (Err StalePair, q)"
  using position_None_iff [of "\<lambda>r. r = Some g" "bq_send_reservations q"]
  by (auto simp: queue_cancel_send_def send_claims_def)

lemma queue_cancel_send_receive:
  "queue_cancel_send q g = (x, q') \<Longrightarrow> bq_receive_reservation q' = bq_receive_reservation q"
  by (auto simp: queue_cancel_send_def split: option.splits)

lemma queue_reserve_send_spec:
  assumes "queue_wf depth q"
  shows "case queue_reserve_send q of
    (Ok g, q') \<Rightarrow> queue_wf depth q' \<and> has_minimal_capacity q \<and> g \<notin> send_claims q \<and> send_claims q' = insert g (send_claims q) \<and>
      queue_items q' = queue_items q \<and> bq_receive_reservation q' = bq_receive_reservation q
  | (Err e, q') \<Rightarrow> q' = q \<and> (e = WouldBlock \<and> \<not> has_minimal_capacity q \<or> e = ChannelCapacity)"
proof (cases "can_admit q")
  case False
  then show ?thesis by (simp add: queue_reserve_send_def can_admit_def)
next
  case True
  show ?thesis
  proof (cases "checked_next (bq_next_send_generation q)")
    case None
    with True show ?thesis by (simp add: queue_reserve_send_def)
  next
    case (Some g)
    have fresh: "g \<notin> send_claims q" using assms checked_next_unat [OF Some] by (fastforce simp: queue_wf_def)
    have cap: "bq_len q + card (send_claims q) < depth" using True queue_wf_capacity [OF assms] by (simp add: can_admit_def)
    have "\<exists>i. position (\<lambda>r. r = None) (bq_send_reservations q) = Some i"
    proof (rule ccontr)
      assume "\<nexists>i. position (\<lambda>r. r = None) (bq_send_reservations q) = Some i"
      then have "position (\<lambda>r. r = None) (bq_send_reservations q) = None"
        by (cases "position (\<lambda>r. r = None) (bq_send_reservations q)") auto
      then have "\<forall>r\<in>set (bq_send_reservations q). r \<noteq> None" unfolding position_None_iff .
      then have "filter (\<lambda>r. r \<noteq> None) (bq_send_reservations q) = bq_send_reservations q" by (rule filter_True)
      then have "reserved_send_count q = depth" using assms by (simp only: reserved_send_count_def queue_wf_def)
      with cap reserved_send_count_card [of q] assms show False by (simp add: queue_wf_def)
    qed
    then obtain i where i: "position (\<lambda>r. r = None) (bq_send_reservations q) = Some i" by blast
    then have free: "i < length (bq_send_reservations q)" "bq_send_reservations q ! i = None" by (auto dest: position_SomeD)
    let ?q = "q\<lparr>bq_next_send_generation := g, bq_send_reservations := (bq_send_reservations q)[i := Some g]\<rparr>"
    have "Some x \<in> set ((bq_send_reservations q)[i := Some g]) \<longleftrightarrow> x = g \<or> Some x \<in> set (bq_send_reservations q)" for x
      unfolding in_set_update [OF free(1)] unfolding in_set_conv_nth
      using free by (safe; metis option.inject option.distinct(1))
    then have claims: "send_claims ?q = insert g (send_claims q)" by (auto simp: send_claims_def)
    have "queue_wf depth ?q"
      using assms cap fresh claims checked_next_unat [OF Some]
      by (auto simp: queue_wf_def send_claims_def distinct_filter_update_Some simp del: not_None_eq)
    with True Some i claims fresh show ?thesis by (simp add: queue_reserve_send_def can_admit_def)
  qed
qed

section \<open>Pushing and popping\<close>

lemma ring_at_push:
  assumes "queue_wf depth q" and "bq_len q < depth" and "k < depth"
  defines "ds \<equiv> bq_descriptors q"
  shows "ring_at (q\<lparr>bq_descriptors := ds[(bq_head q + bq_len q) mod length ds := Some m], bq_len := n\<rparr>) k =
    (if k = bq_len q then Some m else ring_at q k)"
proof -
  have len: "length ds = depth" using assms(1) by (simp add: queue_wf_def ds_def)
  have "(bq_head q + bq_len q) mod depth = (bq_head q + k) mod depth \<longleftrightarrow> k = bq_len q"
    using ring_inj [of k depth "bq_len q" "bq_head q"] assms(2,3) by auto
  moreover have "(bq_head q + k) mod depth < depth" using assms(3) by simp
  ultimately show ?thesis using len by (simp add: ring_at_def ds_def nth_update_if)
qed

lemma queue_commit_send_spec:
  assumes "queue_wf depth q" and "g \<in> send_claims q"
  shows "\<exists>q'. queue_commit_send q g m = Some q' \<and> queue_wf depth q' \<and> queue_items q' = queue_items q @ [m] \<and>
    send_claims q' = send_claims q - {g} \<and> bq_receive_reservation q' = bq_receive_reservation q"
proof -
  obtain q1 where q1: "queue_cancel_send q g = (Ok (), q1)" "queue_wf depth q1" "queue_items q1 = queue_items q"
    "send_claims q1 = send_claims q - {g}" "bq_receive_reservation q1 = bq_receive_reservation q"
    using queue_cancel_send_claimed [OF assms] by blast
  have "bq_len q1 = bq_len q" using q1(3) by (metis length_queue_items)
  moreover have "bq_len q + card (send_claims q) \<le> depth" "0 < card (send_claims q)"
    using assms by (auto simp: queue_wf_def card_gt_0_iff)
  moreover have "card (send_claims q1) = card (send_claims q) - 1" using q1(4) assms(2) by (simp add: card_Diff_singleton)
  ultimately have room: "bq_len q1 < depth" "bq_len q1 + 1 + card (send_claims q1) \<le> depth" by linarith+
  have len: "length (bq_descriptors q1) = depth" using q1(2) by (simp add: queue_wf_def)
  let ?q = "q1\<lparr>bq_descriptors := (bq_descriptors q1)[(bq_head q1 + bq_len q1) mod length (bq_descriptors q1) := Some m],
    bq_len := bq_len q1 + 1\<rparr>"
  have ring: "ring_at ?q k = (if k = bq_len q1 then Some m else ring_at q1 k)" if "k < depth" for k
    using ring_at_push [OF q1(2) room(1) that] .
  have "queue_items ?q = queue_items q1 @ [m]"
    using ring room(1) by (auto simp: queue_items_def intro!: map_cong)
  moreover have "send_claims ?q = send_claims q1" by (simp add: send_claims_def)
  moreover have "queue_wf depth ?q"
    using q1(2) room ring by (auto simp: queue_wf_def send_claims_def simp del: not_None_eq)
  moreover have "queue_commit_send q g m = Some ?q" using q1(1) room(1) len by (simp add: queue_commit_send_def Let_def)
  ultimately show ?thesis using q1 by auto
qed

lemma advance_head_spec:
  assumes "queue_wf depth q" and "queue_items q = m # ms" and "bq_receive_reservation q = None"
  shows "\<exists>q'. advance_head q = Some q' \<and> queue_wf depth q' \<and> queue_items q' = ms \<and>
    send_claims q' = send_claims q \<and> bq_receive_reservation q' = None"
proof -
  have len: "length (bq_descriptors q) = depth" "bq_head q < depth" "bq_len q = Suc (length ms)"
    using assms(1,2) length_queue_items [of q] by (auto simp: queue_wf_def)
  then have lt: "bq_len q \<le> depth" using assms(1) by (simp add: queue_wf_def)
  let ?q = "q\<lparr>bq_descriptors := (bq_descriptors q)[bq_head q := None],
    bq_head := (bq_head q + 1) mod length (bq_descriptors q), bq_len := length ms\<rparr>"
  have ring: "ring_at ?q k = (if Suc k < depth then ring_at q (Suc k) else None)" if "k < depth" for k
  proof -
    have idx: "((bq_head q + 1) mod depth + k) mod depth = (bq_head q + Suc k) mod depth" by (simp add: mod_simps)
    have "bq_head q = (bq_head q + Suc k) mod depth \<longleftrightarrow> \<not> Suc k < depth"
    proof (cases "Suc k < depth")
      case True
      then show ?thesis using ring_inj [of "Suc k" depth 0 "bq_head q"] len by auto
    next
      case False
      with that have "Suc k = depth" by simp
      with len show ?thesis by simp
    qed
    with that len idx show ?thesis by (simp add: ring_at_def nth_update_if)
  qed
  have "queue_items ?q = map (\<lambda>k. the (ring_at q (Suc k))) [0..<length ms]"
    using ring lt len(3) by (auto simp: queue_items_def intro!: map_cong)
  also have "\<dots> = tl (queue_items q)"
    unfolding queue_items_def len(3) by (simp add: upt_conv_Cons map_Suc_upt [symmetric] comp_def del: upt_Suc map_Suc_upt)
  finally have "queue_items ?q = ms" using assms(2) by simp
  moreover have "send_claims ?q = send_claims q" by (simp add: send_claims_def)
  moreover have "ring_at q (Suc k) \<noteq> None \<longleftrightarrow> k < length ms" if "Suc k < depth" for k
    using assms(1) len(3) that by (simp add: queue_wf_def del: not_None_eq)
  then have "queue_wf depth ?q"
    using assms(1,3) len lt ring by (auto simp: queue_wf_def send_claims_def simp del: not_None_eq)
  moreover have "advance_head q = Some ?q" using len(3) by (simp add: advance_head_def checked_sub_usize_def)
  ultimately show ?thesis using assms(3) by auto
qed

section \<open>Receiving\<close>

definition message_fits :: "queued_message \<Rightarrow> bool" where
  "message_fits m \<longleftrightarrow> tb_len (qm_transfers m) < 2 ^ 32"

definition info_of :: "queued_message \<Rightarrow> channel_message_info" where
  "info_of m = \<lparr>mi_required_bytes = qm_byte_len m, mi_required_handles = of_nat (tb_len (qm_transfers m))\<rparr>"

lemma message_info_fits: "message_fits m \<Longrightarrow> message_info m = Some (info_of m)"
  by (simp add: message_fits_def message_info_def info_of_def u32_try_from_usize_def)

lemma reserve_head_spec:
  assumes "queue_wf depth q" and "queue_items q = m # ms" and "message_fits m"
  shows "\<exists>r q'. reserve_head q = Some (r, q') \<and> queue_wf depth q' \<and> queue_items q' = queue_items q \<and>
    send_claims q' = send_claims q \<and>
    (case r of
      Ok (g, info) \<Rightarrow> bq_receive_reservation q = None \<and> bq_receive_reservation q' = Some g \<and> info = info_of m
    | Err e \<Rightarrow> q' = q \<and> (e = WouldBlock \<and> bq_receive_reservation q \<noteq> None \<or> e = ChannelCapacity))"
proof -
  have "queue_head q = Some (Some m)" using queue_head_hd [OF assms(1)] assms(2) by simp
  moreover have "0 < bq_len q" using length_queue_items [of q] assms(2) by simp
  then have "queue_wf depth (q\<lparr>bq_next_receive_generation := g, bq_receive_reservation := Some g\<rparr>)" for g
    using assms(1) by (simp add: queue_wf_def send_claims_def)
  ultimately show ?thesis
    using assms(1) message_info_fits [OF assms(3)]
    by (cases "checked_next (bq_next_receive_generation q)") (auto simp: reserve_head_def send_claims_def)
qed

lemma queue_cancel_receive_spec:
  assumes "queue_wf depth q"
  shows "queue_cancel_receive q g =
      (if bq_receive_reservation q = Some g then (Ok (), q\<lparr>bq_receive_reservation := None\<rparr>) else (Err StalePair, q)) \<and>
    queue_wf depth (q\<lparr>bq_receive_reservation := None\<rparr>) \<and>
    send_claims (q\<lparr>bq_receive_reservation := None\<rparr>) = send_claims q"
  using assms by (simp add: queue_cancel_receive_def queue_wf_def send_claims_def)

lemma pop_reserved_spec:
  assumes "queue_wf depth q" and "bq_receive_reservation q = Some g" and "queue_items q = m # ms"
  shows "\<exists>q'. pop_reserved q g = Some (Ok m, q') \<and> queue_wf depth q' \<and> queue_items q' = ms \<and>
    send_claims q' = send_claims q \<and> bq_receive_reservation q' = None"
proof -
  let ?q = "q\<lparr>bq_receive_reservation := None\<rparr>"
  have wf: "queue_wf depth ?q" "send_claims ?q = send_claims q" "queue_items ?q = m # ms"
    using queue_cancel_receive_spec [OF assms(1)] assms(3) by auto
  with advance_head_spec [OF wf(1,3)] queue_head_hd [OF wf(1)] assms(2) show ?thesis
    by (auto simp: pop_reserved_def queue_cancel_receive_def)
qed

lemma pop_reserved_stale:
  "bq_receive_reservation q \<noteq> Some g \<Longrightarrow> pop_reserved q g = Some (Err StalePair, q)"
  by (simp add: pop_reserved_def queue_cancel_receive_def)

lemma queue_pop_Cons:
  assumes "queue_wf depth q" and "bq_receive_reservation q = None" and "queue_items q = m # ms"
  shows "\<exists>q'. queue_pop q = Some (Some m, q') \<and> queue_wf depth q' \<and> queue_items q' = ms \<and>
    send_claims q' = send_claims q \<and> bq_receive_reservation q' = None"
  using advance_head_spec [OF assms(1,3,2)] queue_head_hd [OF assms(1)] assms(2,3)
  by (auto simp: queue_pop_def)

lemma queue_pop_Nil:
  "queue_wf depth q \<Longrightarrow> bq_receive_reservation q = None \<Longrightarrow> queue_items q = [] \<Longrightarrow> queue_pop q = Some (None, q)"
  using queue_head_hd [of depth q] by (auto simp: queue_pop_def)

section \<open>Draining\<close>

definition payload_tokens :: "queued_message list \<Rightarrow> payload_token list" where
  "payload_tokens ms = List.map_filter qm_payload ms"

lemma payload_tokens_simps [simp]:
  "payload_tokens [] = []"
  "payload_tokens (m # ms) = (case qm_payload m of None \<Rightarrow> payload_tokens ms | Some t \<Rightarrow> t # payload_tokens ms)"
  by (simp_all add: payload_tokens_def split: option.split)

lemma payload_tokens_append [simp]: "payload_tokens (xs @ ys) = payload_tokens xs @ payload_tokens ys"
  by (induction xs) (auto split: option.split)

definition drained_batches :: "queued_message list \<Rightarrow> handle_transfer_batch list" where
  "drained_batches ms = filter (\<lambda>b. tb_len b \<noteq> 0) (map qm_transfers ms)"

definition forget :: "payload_token set \<Rightarrow> payload_pool \<Rightarrow> payload_token \<Rightarrow> u8 list option" where
  "forget T pool = (\<lambda>t. if t \<in> T then None else pool_view pool t)"

lemma release_payload_spec:
  assumes "pool_wf pool" and "\<And>t. payload = Some t \<Longrightarrow> pool_view pool t \<noteq> None"
  shows "\<exists>pool'. release_payload pool payload = Some pool' \<and> pool_wf pool' \<and> pool_view pool' = forget (set_option payload) pool"
proof (cases payload)
  case None
  with assms(1) show ?thesis by (simp add: release_payload_def forget_def)
next
  case (Some t)
  then obtain bytes where "pool_view pool t = Some bytes" using assms(2) by blast
  from pool_release_spec [OF this assms(1)] Some show ?thesis
    by (auto simp: release_payload_def forget_def fun_eq_iff)
qed

lemma drain_transfers_loop_spec:
  assumes "queue_wf depth q" and "bq_receive_reservation q = None" and "queue_items q = ms" and "pool_wf pool"
    and "distinct (payload_tokens ms)" and "\<forall>t\<in>set (payload_tokens ms). pool_view pool t \<noteq> None"
    and "length ds + length ms \<le> depth"
  shows "\<exists>q' pool'. drain_transfers_loop q pool (map Some ds @ replicate (depth - length ds) None) (length ds) =
      Some (q', pool', map Some (ds @ drained_batches ms) @ replicate (depth - length (ds @ drained_batches ms)) None) \<and>
    queue_wf depth q' \<and> queue_items q' = [] \<and> bq_receive_reservation q' = None \<and>
    pool_wf pool' \<and> pool_view pool' = forget (set (payload_tokens ms)) pool"
  using assms
proof (induction ms arbitrary: q pool ds)
  case Nil
  with queue_pop_Nil [OF Nil.prems(1-3)] show ?case
    by (subst drain_transfers_loop.simps) (auto simp: drained_batches_def forget_def)
next
  case (Cons m ms)
  obtain q1 where q1: "queue_pop q = Some (Some m, q1)" "queue_wf depth q1" "queue_items q1 = ms" "bq_receive_reservation q1 = None"
    using queue_pop_Cons [OF Cons.prems(1-3)] by blast
  obtain pool1 where p1: "release_payload pool (qm_payload m) = Some pool1" "pool_wf pool1"
      "pool_view pool1 = forget (set_option (qm_payload m)) pool"
    using release_payload_spec [OF Cons.prems(4), of "qm_payload m"] Cons.prems(6) by (auto split: option.splits)
  have tok: "distinct (payload_tokens ms)" "\<forall>t\<in>set (payload_tokens ms). pool_view pool1 t \<noteq> None"
    using Cons.prems(5,6) p1(3) by (auto simp: forget_def split: option.splits)
  have forget: "forget (set (payload_tokens ms)) pool1 = forget (set (payload_tokens (m # ms))) pool"
    using p1(3) by (auto simp: forget_def fun_eq_iff split: option.splits)
  note IH = Cons.IH [OF q1(2,4,3) p1(2) tok]
  show ?case
  proof (cases "tb_len (qm_transfers m) = 0")
    case True
    with IH [of ds] Cons.prems(7) q1(1) p1(1) forget show ?thesis
      by (subst drain_transfers_loop.simps) (simp add: drained_batches_def)
  next
    case False
    have room: "length ds < depth" using Cons.prems(7) by simp
    with IH [of "ds @ [qm_transfers m]"] Cons.prems(7) q1(1) p1(1) forget False padded_update [OF room] show ?thesis
      by (subst drain_transfers_loop.simps) (simp add: drained_batches_def)
  qed
qed

lemma drain_transfers_spec:
  assumes "queue_wf depth q" and "bq_receive_reservation q = None" and "pool_wf pool"
    and "distinct (payload_tokens (queue_items q))" and "\<forall>t\<in>set (payload_tokens (queue_items q)). pool_view pool t \<noteq> None"
  shows "\<exists>transfers q' pool'. drain_transfers q pool = Some (transfers, q', pool') \<and>
    transfers = map Some (drained_batches (queue_items q)) @ replicate (depth - length (drained_batches (queue_items q))) None \<and>
    queue_wf depth q' \<and> queue_items q' = [] \<and> send_claims q' = {} \<and> bq_receive_reservation q' = None \<and>
    pool_wf pool' \<and> pool_view pool' = forget (set (payload_tokens (queue_items q))) pool"
proof -
  have len: "length (bq_descriptors q) = depth" "length (queue_items q) \<le> depth"
    using assms(1) by (auto simp: queue_wf_def)
  obtain q1 pool' where q1: "drain_transfers_loop q pool (replicate depth None) 0 =
      Some (q1, pool', map Some (drained_batches (queue_items q)) @ replicate (depth - length (drained_batches (queue_items q))) None)"
    "queue_wf depth q1" "queue_items q1 = []" "bq_receive_reservation q1 = None"
    and pool': "pool_wf pool'" "pool_view pool' = forget (set (payload_tokens (queue_items q))) pool"
    using drain_transfers_loop_spec [OF assms(1,2) refl assms(3-5), of "[]"] len(2) by auto
  let ?q = "q1\<lparr>bq_send_reservations := replicate (length (bq_send_reservations q1)) None, bq_head := 0\<rparr>"
  have empty: "bq_len q1 = 0" using length_queue_items [of q1] q1(3) by simp
  have "bq_descriptors q1 ! j = None" if "j < depth" for j
  proof -
    have hd: "bq_head q1 < depth" "length (bq_descriptors q1) = depth" using q1(2) by (auto simp: queue_wf_def)
    let ?k = "(j + depth - bq_head q1) mod depth"
    have "(bq_head q1 + ?k) mod depth = (bq_head q1 + (j + depth - bq_head q1)) mod depth" by (simp add: mod_simps)
    also have "\<dots> = j" using that hd by simp
    finally have "ring_at q1 ?k = bq_descriptors q1 ! j" by (simp add: ring_at_def hd)
    moreover have "?k < depth" using that by simp
    ultimately show ?thesis using q1(2) empty by (auto simp: queue_wf_def)
  qed
  moreover have claims: "send_claims ?q = {}" by (auto simp: send_claims_def)
  ultimately have "queue_wf depth ?q"
    using q1(2,4) empty by (auto simp: queue_wf_def ring_at_def send_claims_def)
  with q1 pool' claims len(1) empty show ?thesis by (auto simp: drain_transfers_def queue_items_def)
qed

section \<open>The contract with the channel authority\<close>

locale reserved_fifo =
  fixes invar :: "'q \<Rightarrow> bool" and items :: "'q \<Rightarrow> 'm list" and claims :: "'q \<Rightarrow> 'g set" and room :: "'q \<Rightarrow> bool"
    and reserve :: "'q \<Rightarrow> ('g, 'e) result \<times> 'q" and cancel :: "'q \<Rightarrow> 'g \<Rightarrow> (unit, 'e) result \<times> 'q"
    and commit :: "'q \<Rightarrow> 'g \<Rightarrow> 'm \<Rightarrow> 'q option"
  assumes reserve_Ok: "invar q \<Longrightarrow> reserve q = (Ok g, q') \<Longrightarrow>
      invar q' \<and> room q \<and> items q' = items q \<and> g \<notin> claims q \<and> claims q' = insert g (claims q)"
    and reserve_Err: "invar q \<Longrightarrow> reserve q = (Err e, q') \<Longrightarrow> q' = q"
    and cancel_claimed: "invar q \<Longrightarrow> g \<in> claims q \<Longrightarrow>
      \<exists>q'. cancel q g = (Ok (), q') \<and> invar q' \<and> items q' = items q \<and> claims q' = claims q - {g}"
    and cancel_unclaimed: "g \<notin> claims q \<Longrightarrow> \<exists>e. cancel q g = (Err e, q)"
    and commit_claimed: "invar q \<Longrightarrow> g \<in> claims q \<Longrightarrow>
      \<exists>q'. commit q g m = Some q' \<and> invar q' \<and> items q' = items q @ [m] \<and> claims q' = claims q - {g}"
begin

lemma cancel_invar: "invar q \<Longrightarrow> cancel q g = (r, q') \<Longrightarrow> invar q' \<and> items q' = items q \<and> claims q' = claims q - {g}"
  using cancel_claimed [of q g] cancel_unclaimed [of g q] by (cases "g \<in> claims q") auto

text \<open>A reservation can always be cancelled without trace, or committed, which appends exactly one item.\<close>

lemma reserve_cancel:
  assumes "invar q" and "reserve q = (Ok g, q1)"
  shows "\<exists>q2. cancel q1 g = (Ok (), q2) \<and> invar q2 \<and> items q2 = items q \<and> claims q2 = claims q"
  using cancel_claimed [of q1 g] reserve_Ok [OF assms] by auto

lemma reserve_commit:
  assumes "invar q" and "reserve q = (Ok g, q1)"
  shows "\<exists>q2. commit q1 g m = Some q2 \<and> invar q2 \<and> items q2 = items q @ [m] \<and> claims q2 = claims q"
  using commit_claimed [of q1 g m] reserve_Ok [OF assms] by auto

end

interpretation queue_fifo: reserved_fifo "queue_wf depth" queue_items send_claims has_minimal_capacity
  queue_reserve_send queue_cancel_send queue_commit_send for depth
proof (unfold_locales, goal_cases)
  case (1 q g q')
  with queue_reserve_send_spec [of depth q] show ?case by simp
next
  case (2 q e q')
  with queue_reserve_send_spec [of depth q] show ?case by simp
next
  case (3 q g)
  with queue_cancel_send_claimed show ?case by blast
next
  case (4 g q)
  with queue_cancel_send_unclaimed show ?case by blast
next
  case (5 q g m)
  with queue_commit_send_spec show ?case by blast
qed

end
