(* ===== verification/Wait_View.thy ===== *)
theory Wait_View
  imports Wait_Registry
begin

text \<open>
  The laws of the wait registry. \<open>holds_batch\<close> says which intents and pins a wake batch
  carries; the consuming loops are shown to return exactly the entries of the block
  generations that became ready, one intent per generation with its lowest ready item index,
  and never to overflow a batch. The theory \<^verbatim>\<open>Wait_Service\<close> draws from these laws what the event
  and channel authorities rely on.
\<close>

section \<open>Contents of a wake batch\<close>

definition holds_batch :: "nat \<Rightarrow> wake_batch \<Rightarrow> wake_intent list \<Rightarrow> internal_ref list \<Rightarrow> bool" where
  "holds_batch n b ws ps \<longleftrightarrow>
    length ws \<le> n \<and> wb_wakes b = map Some ws @ replicate (n - length ws) None \<and> wb_wake_len b = length ws \<and>
    length ps \<le> n \<and> wb_pins b = map Some ps @ replicate (n - length ps) None \<and> wb_pin_len b = length ps"

lemma holds_batch_empty [simp]: "holds_batch n (wake_batch_empty n) [] []"
  by (simp add: holds_batch_def wake_batch_empty_def)

lemma push_wake_holds:
  assumes "holds_batch n b ws ps" and "length ws < n"
  shows "\<exists>b'. push_wake b w = Some b' \<and> holds_batch n b' (ws @ [w]) ps"
  using assms padded_update [OF assms(2)] by (auto simp: holds_batch_def push_wake_def)

lemma push_pin_holds:
  assumes "holds_batch n b ws ps" and "length ps < n"
  shows "\<exists>b'. push_pin b p = Some b' \<and> holds_batch n b' ws (ps @ [p])"
  using assms padded_update [OF assms(2)] by (auto simp: holds_batch_def push_pin_def)

lemma map_filter_padded [simp]: "List.map_filter id (map Some xs @ replicate k None) = xs"
proof -
  have "List.map_filter id (replicate k None) = ([] :: 'a list)" by (induction k) auto
  then show ?thesis by (induction xs) auto
qed

lemma push_wakes_holds:
  assumes "holds_batch n b ws ps" and "length ws + length xs \<le> n"
  shows "\<exists>b'. push_wakes b (map Some xs @ replicate k None) = Some b' \<and> holds_batch n b' (ws @ xs) ps"
  using assms
proof (induction xs arbitrary: b ws)
  case Nil
  have "push_wakes b (replicate k None) = Some b" by (induction k) auto
  with Nil show ?case by auto
next
  case (Cons x xs)
  then obtain b1 where b1: "push_wake b x = Some b1" "holds_batch n b1 (ws @ [x]) ps"
    using push_wake_holds [of n b ws ps x] by auto
  from Cons.IH [OF b1(2)] Cons.prems(2) b1(1) show ?case by auto
qed

lemma push_pins_holds:
  assumes "holds_batch n b ws ps" and "length ps + length xs \<le> n"
  shows "\<exists>b'. push_pins b (map Some xs @ replicate k None) = Some b' \<and> holds_batch n b' ws (ps @ xs)"
  using assms
proof (induction xs arbitrary: b ps)
  case Nil
  have "push_pins b (replicate k None) = Some b" by (induction k) auto
  with Nil show ?case by auto
next
  case (Cons x xs)
  then obtain b1 where b1: "push_pin b x = Some b1" "holds_batch n b1 ws (ps @ [x])"
    using push_pin_holds [of n b ws ps x] by auto
  from Cons.IH [OF b1(2)] Cons.prems(2) b1(1) show ?case by auto
qed

lemma wake_batch_append_holds:
  assumes "holds_batch n b ws ps" and "holds_batch n c ws' ps'"
    and "length ws + length ws' \<le> n" and "length ps + length ps' \<le> n"
  shows "\<exists>b'. wake_batch_append b c = Some b' \<and> holds_batch n b' (ws @ ws') (ps @ ps')"
proof -
  obtain b1 where b1: "push_wakes b (map Some ws' @ replicate (n - length ws') None) = Some b1"
    "holds_batch n b1 (ws @ ws') ps"
    using push_wakes_holds [OF assms(1,3)] by blast
  then show ?thesis
    using assms(2) push_pins_holds [OF b1(2) assms(4)]
    by (auto simp: wake_batch_append_def wake_batch_into_parts_def holds_batch_def [of n c])
qed

section \<open>Entries by wake key\<close>

definition entry_wake :: "wait_entry \<Rightarrow> block_wake_key" where
  "entry_wake e = wi_wake (we_identity e)"

text \<open>Consuming the entries of a set of block generations.\<close>

definition clear_wakes :: "block_wake_key set \<Rightarrow> wait_slot \<Rightarrow> wait_slot" where
  "clear_wakes W s = (case ws_entry s of None \<Rightarrow> s | Some e \<Rightarrow> if entry_wake e \<in> W then s\<lparr>ws_entry := None\<rparr> else s)"

lemma wait_entries_simps [simp]:
  "wait_entries [] = []"
  "wait_entries (s # ss) = (case ws_entry s of None \<Rightarrow> wait_entries ss | Some e \<Rightarrow> e # wait_entries ss)"
  by (simp_all add: wait_entries_def split: option.split)

lemma wait_entries_append [simp]: "wait_entries (xs @ ys) = wait_entries xs @ wait_entries ys"
  by (induction xs) (auto split: option.split)

lemma set_wait_entries: "e \<in> set (wait_entries slots) \<longleftrightarrow> (\<exists>s\<in>set slots. ws_entry s = Some e)"
  by (induction slots) (auto split: option.splits)

lemma length_wait_entries: "length (wait_entries slots) \<le> length slots"
  by (induction slots) (auto split: option.splits)

lemma entry_has_wake_iff: "entry_has_wake wake s \<longleftrightarrow> (\<exists>e. ws_entry s = Some e \<and> entry_wake e = wake)"
  by (auto simp: entry_has_wake_def entry_wake_def split: option.splits)

lemma wait_entries_clear:
  "wait_entries (map (clear_wakes W) slots) = filter (\<lambda>e. entry_wake e \<notin> W) (wait_entries slots)"
  by (induction slots) (auto simp: clear_wakes_def split: option.splits)

lemma clear_wakes_empty [simp]: "clear_wakes {} s = s"
  by (simp add: clear_wakes_def split: option.split)

lemma clear_wakes_insert: "clear_wakes {w} (clear_wakes W s) = clear_wakes (insert w W) s"
  by (auto simp: clear_wakes_def split: option.splits)

lemma ws_generation_clear [simp]: "ws_generation (clear_wakes W s) = ws_generation s"
  by (simp add: clear_wakes_def split: option.split)

lemma ws_entry_clear:
  "ws_entry (clear_wakes W s) = (case ws_entry s of None \<Rightarrow> None | Some e \<Rightarrow> if entry_wake e \<in> W then None else Some e)"
  by (auto simp: clear_wakes_def split: option.split)

lemma take_generation_spec:
  assumes "holds_batch n b ws ps"
    and "length ps + length (filter (\<lambda>e. entry_wake e = wake) (wait_entries slots)) \<le> n"
  shows "\<exists>b'. take_generation wake slots b = Some (map (clear_wakes {wake}) slots, b') \<and>
    holds_batch n b' ws (ps @ map we_pin (filter (\<lambda>e. entry_wake e = wake) (wait_entries slots)))"
  using assms
proof (induction slots arbitrary: b ps)
  case Nil
  then show ?case by simp
next
  case (Cons s slots)
  show ?case
  proof (cases "entry_has_wake wake s")
    case False
    with Cons.IH [of b ps] Cons.prems show ?thesis
      by (auto simp: entry_has_wake_iff clear_wakes_def split: option.splits)
  next
    case True
    then obtain e where e: "ws_entry s = Some e" "entry_wake e = wake" by (auto simp: entry_has_wake_iff)
    obtain b1 where b1: "push_pin b (we_pin e) = Some b1" "holds_batch n b1 ws (ps @ [we_pin e])"
      using Cons.prems e push_pin_holds [of n b ws ps "we_pin e"] by auto
    from Cons.IH [OF b1(2)] Cons.prems(2) e True b1(1) show ?thesis
      by (auto simp: clear_wakes_def)
  qed
qed

lemma cancel_generation_spec:
  "\<exists>b. cancel_generation w wake = Some (b, w\<lparr>wg_slots := map (clear_wakes {wake}) (wg_slots w)\<rparr>) \<and>
    holds_batch (length (wg_slots w)) b []
      (map we_pin (filter (\<lambda>e. entry_wake e = wake) (wait_entries (wg_slots w))))"
  using take_generation_spec [OF holds_batch_empty, of wake "wg_slots w" "length (wg_slots w)"]
    length_filter_le [of "\<lambda>e. entry_wake e = wake" "wait_entries (wg_slots w)"] length_wait_entries [of "wg_slots w"]
  by (auto simp: cancel_generation_def)

section \<open>Ready generations\<close>

text \<open>The first occurrences of a list, in order.\<close>

definition firsts :: "'a list \<Rightarrow> 'a list" where
  "firsts xs = rev (remdups (rev xs))"

lemma firsts_simps [simp]:
  "firsts [] = []"
  "firsts (xs @ [x]) = (if x \<in> set xs then firsts xs else firsts xs @ [x])"
  "set (firsts xs) = set xs" "distinct (firsts xs)"
  by (simp_all add: firsts_def)

lemma length_firsts: "length (firsts xs) \<le> length xs"
  using length_remdups_leq [of "rev xs"] by (simp add: firsts_def)

definition ready_keys :: "object_id \<Rightarrow> dw_signals \<Rightarrow> wait_entry list \<Rightarrow> block_wake_key list" where
  "ready_keys object observed es = map entry_wake (filter (entry_ready object observed) es)"

text \<open>The lowest item index among the ready entries of a generation.\<close>

definition lowest_index :: "object_id \<Rightarrow> dw_signals \<Rightarrow> wait_entry list \<Rightarrow> block_wake_key \<Rightarrow> u32" where
  "lowest_index object observed es wake =
    Min (we_item_index ` {e \<in> set es. entry_wake e = wake \<and> entry_ready object observed e})"

definition intent_of :: "object_id \<Rightarrow> dw_signals \<Rightarrow> wait_entry list \<Rightarrow> block_wake_key \<Rightarrow> wake_intent" where
  "intent_of object observed es wake =
    \<lparr>wk_wake = wake, wk_observed = observed, wk_item_index = lowest_index object observed es wake\<rparr>"

definition intents :: "object_id \<Rightarrow> dw_signals \<Rightarrow> wait_entry list \<Rightarrow> wake_intent list" where
  "intents object observed es = map (intent_of object observed es) (firsts (ready_keys object observed es))"

lemma iter_min_Min: "xs \<noteq> [] \<Longrightarrow> iter_min xs = Some (Min (set xs))"
  by (cases xs) (auto simp: Min.set_eq_fold [symmetric])

lemma winning_index_lowest:
  assumes "e \<in> set (wait_entries slots)" and "entry_wake e = wake" and "entry_ready object observed e"
  shows "winning_index object observed wake slots = Some (lowest_index object observed (wait_entries slots) wake)"
proof -
  have "map we_item_index (filter (\<lambda>e. entry_wake e = wake \<and> entry_ready object observed e) (wait_entries slots)) \<noteq> []"
    using assms by (auto simp: filter_empty_conv)
  from iter_min_Min [OF this] show ?thesis
    by (simp add: winning_index_def lowest_index_def entry_wake_def)
qed

lemma lowest_index_clear:
  "wake \<notin> W \<Longrightarrow> lowest_index object observed (filter (\<lambda>e. entry_wake e \<notin> W) es) wake = lowest_index object observed es wake"
  unfolding lowest_index_def by (rule arg_cong [where f = "\<lambda>S. Min (we_item_index ` S)"]) auto

lemma ready_keys_append:
  "ready_keys object observed (xs @ ys) = ready_keys object observed xs @ ready_keys object observed ys"
  by (simp add: ready_keys_def)

lemma length_ready_keys: "length (ready_keys object observed es) \<le> length es"
  by (simp add: ready_keys_def)


text \<open>
  The state of \<open>take_ready\<close> after the candidates below \<open>i\<close>: the generations ready among them
  are consumed, each announced once, and their pins are in the batch.
\<close>

definition taken_upto ::
  "object_id \<Rightarrow> dw_signals \<Rightarrow> wait_slot list \<Rightarrow> nat \<Rightarrow> wait_slot list \<Rightarrow> wake_batch \<Rightarrow> bool" where
  "taken_upto object observed slots0 i slots b \<longleftrightarrow>
    (let keys = ready_keys object observed (wait_entries (take i slots0)) in
     slots = map (clear_wakes (set keys)) slots0 \<and>
     (\<exists>ps. holds_batch (length slots0) b (map (intent_of object observed (wait_entries slots0)) (firsts keys)) ps \<and>
       mset ps = image_mset we_pin {#e \<in># mset (wait_entries slots0). entry_wake e \<in> set keys#}))"

lemma ready_keys_take_Suc:
  assumes "i < length slots"
  shows "ready_keys object observed (wait_entries (take (Suc i) slots)) =
    ready_keys object observed (wait_entries (take i slots)) @
    (case ws_entry (slots ! i) of None \<Rightarrow> []
     | Some e \<Rightarrow> if entry_ready object observed e then [entry_wake e] else [])"
  using assms by (simp add: take_Suc_conv_app_nth ready_keys_def split: option.split)

lemma length_ready_keys_take: "length (ready_keys object observed (wait_entries (take i slots))) \<le> i"
proof -
  have "length (ready_keys object observed (wait_entries (take i slots))) \<le> length (take i slots)"
    by (rule le_trans [OF length_ready_keys length_wait_entries])
  then show ?thesis by simp
qed

lemma filter_mset_insert_split:
  "x \<notin> W \<Longrightarrow> {#e \<in># M. f e \<in> insert x W#} = {#e \<in># M. f e \<in> W#} + {#e \<in># M. f e = x#}"
  by (induction M) auto

lemma taken_upto_claim:
  assumes taken: "taken_upto object observed slots0 i slots b" and i: "i < length slots0"
    and e: "ws_entry (slots0 ! i) = Some e" "entry_ready object observed e"
    and new: "entry_wake e \<notin> set (ready_keys object observed (wait_entries (take i slots0)))"
  shows "\<exists>index b1 slots' b'. winning_index object observed (entry_wake e) slots = Some index \<and>
    push_wake b \<lparr>wk_wake = entry_wake e, wk_observed = observed, wk_item_index = index\<rparr> = Some b1 \<and>
    take_generation (entry_wake e) slots b1 = Some (slots', b') \<and>
    taken_upto object observed slots0 (Suc i) slots' b'"
proof -
  let ?es = "wait_entries slots0" and ?w = "entry_wake e" and ?n = "length slots0"
  let ?keys = "ready_keys object observed (wait_entries (take i slots0))"
  let ?in = "intent_of object observed ?es"
  obtain ps where slots: "slots = map (clear_wakes (set ?keys)) slots0"
    and b: "holds_batch ?n b (map ?in (firsts ?keys)) ps"
    and ps: "mset ps = image_mset we_pin {#e \<in># mset ?es. entry_wake e \<in> set ?keys#}"
    using taken by (auto simp: taken_upto_def Let_def)
  have es: "wait_entries slots = filter (\<lambda>e. entry_wake e \<notin> set ?keys) ?es"
    by (simp add: slots wait_entries_clear)
  have "e \<in> set (wait_entries slots)"
    using e(1) i new by (auto simp: es set_wait_entries intro: nth_mem)
  then have idx: "winning_index object observed ?w slots = Some (lowest_index object observed ?es ?w)"
    using winning_index_lowest [of e slots] e(2) lowest_index_clear [OF new] by (simp add: es)
  have "length (map ?in (firsts ?keys)) < ?n"
    using length_firsts [of ?keys] length_ready_keys_take [of object observed i slots0] i by simp
  then obtain b1 where b1: "push_wake b (?in ?w) = Some b1" "holds_batch ?n b1 (map ?in (firsts ?keys) @ [?in ?w]) ps"
    using push_wake_holds [OF b] by blast
  have gen: "filter (\<lambda>e. entry_wake e = ?w) (wait_entries slots) = filter (\<lambda>e. entry_wake e = ?w) ?es"
    using new by (auto simp: es intro: filter_cong)
  have split: "mset ps + image_mset we_pin (mset (filter (\<lambda>e. entry_wake e = ?w) ?es)) =
      image_mset we_pin {#e \<in># mset ?es. entry_wake e \<in> insert ?w (set ?keys)#}"
    unfolding filter_mset_insert_split [OF new] by (simp add: ps)
  have "size (mset ps + image_mset we_pin (mset (filter (\<lambda>e. entry_wake e = ?w) ?es))) \<le> ?n"
    unfolding split size_image_mset using size_filter_mset_lesseq length_wait_entries [of slots0]
    by (metis le_trans size_mset)
  then have "length ps + length (filter (\<lambda>e. entry_wake e = ?w) (wait_entries slots)) \<le> ?n"
    by (simp add: gen del: mset_filter)
  from take_generation_spec [OF b1(2) this] obtain b' where
    b': "take_generation ?w slots b1 = Some (map (clear_wakes {?w}) slots, b')"
      "holds_batch ?n b' (map ?in (firsts ?keys) @ [?in ?w]) (ps @ map we_pin (filter (\<lambda>e. entry_wake e = ?w) ?es))"
    by (auto simp: gen)
  have "taken_upto object observed slots0 (Suc i) (map (clear_wakes {?w}) slots) b'"
    unfolding taken_upto_def Let_def ready_keys_take_Suc [OF i]
    using b'(2) e new split by (auto simp: slots clear_wakes_insert intro!: exI)
  with idx b1(1) b'(1) show ?thesis by (auto simp: intent_of_def)
qed

lemma taken_upto_skip:
  assumes "taken_upto object observed slots0 i slots b" and "i < length slots0"
    and "\<And>e. ws_entry (slots0 ! i) = Some e \<Longrightarrow> entry_ready object observed e \<Longrightarrow>
      entry_wake e \<in> set (ready_keys object observed (wait_entries (take i slots0)))"
  shows "taken_upto object observed slots0 (Suc i) slots b"
proof -
  let ?keys = "\<lambda>i. ready_keys object observed (wait_entries (take i slots0))"
  have "set (?keys (Suc i)) = set (?keys i)" and "firsts (?keys (Suc i)) = firsts (?keys i)"
    using assms(2,3) by (auto simp: ready_keys_take_Suc split: option.splits if_splits)
  with assms(1) show ?thesis by (simp only: taken_upto_def Let_def)
qed

lemma take_ready_loop_step:
  assumes "taken_upto object observed slots0 i slots b" and "i < length slots0"
  shows "\<exists>slots' b'. take_ready_loop object observed (i # rest) slots b = take_ready_loop object observed rest slots' b' \<and>
    taken_upto object observed slots0 (Suc i) slots' b'"
proof -
  let ?keys = "ready_keys object observed (wait_entries (take i slots0))"
  have slot: "i < length slots" "slots ! i = clear_wakes (set ?keys) (slots0 ! i)"
    using assms by (auto simp: taken_upto_def Let_def)
  show ?thesis
  proof (cases "\<exists>e. ws_entry (slots0 ! i) = Some e \<and> entry_ready object observed e \<and> entry_wake e \<notin> set ?keys")
    case True
    then obtain e where e: "ws_entry (slots0 ! i) = Some e" "entry_ready object observed e" "entry_wake e \<notin> set ?keys" by blast
    from taken_upto_claim [OF assms e] slot e show ?thesis
      by (fastforce simp: ws_entry_clear entry_wake_def [symmetric] Let_def)
  next
    case False
    then have "taken_upto object observed slots0 (Suc i) slots b" using taken_upto_skip [OF assms] by blast
    moreover have "take_ready_loop object observed (i # rest) slots b = take_ready_loop object observed rest slots b"
      using False slot by (auto simp: ws_entry_clear split: option.splits)
    ultimately show ?thesis by blast
  qed
qed

lemma take_ready_loop_spec:
  "taken_upto object observed slots0 i slots b \<Longrightarrow> i \<le> length slots0 \<Longrightarrow>
    \<exists>slots' b'. take_ready_loop object observed [i..<length slots0] slots b = Some (slots', b') \<and>
      taken_upto object observed slots0 (length slots0) slots' b'"
proof (induction "length slots0 - i" arbitrary: i slots b)
  case 0
  then show ?case by simp
next
  case (Suc k)
  then have i: "i < length slots0" by simp
  then have "[i..<length slots0] = i # [Suc i..<length slots0]" by (rule upt_conv_Cons)
  with take_ready_loop_step [OF Suc.prems(1) i, of "[Suc i..<length slots0]"] Suc.hyps(1) [of "Suc i"] Suc.hyps(2) i
  show ?case by fastforce
qed

definition ready_generations :: "object_id \<Rightarrow> dw_signals \<Rightarrow> wait_entry set \<Rightarrow> block_wake_key set" where
  "ready_generations object observed E = entry_wake ` {e \<in> E. entry_ready object observed e}"

lemma set_ready_keys: "set (ready_keys object observed es) = ready_generations object observed (set es)"
  by (auto simp: ready_keys_def ready_generations_def)

lemma take_ready_spec:
  "\<exists>b ps. take_ready w object observed =
      Some (b, w\<lparr>wg_slots := map (clear_wakes (ready_generations object observed (set (wait_entries (wg_slots w))))) (wg_slots w)\<rparr>) \<and>
    holds_batch (length (wg_slots w)) b (intents object observed (wait_entries (wg_slots w))) ps \<and>
    mset ps = image_mset we_pin
      {#e \<in># mset (wait_entries (wg_slots w)). entry_wake e \<in> ready_generations object observed (set (wait_entries (wg_slots w)))#}"
proof -
  have "taken_upto object observed (wg_slots w) 0 (wg_slots w) (wake_batch_empty (length (wg_slots w)))"
    by (simp add: taken_upto_def ready_keys_def cong: map_cong)
  from take_ready_loop_spec [OF this] show ?thesis
    by (auto simp: take_ready_def taken_upto_def Let_def set_ready_keys intents_def)
qed

text \<open>\<open>ready_wakes\<close> announces exactly the same intents and consumes nothing.\<close>

lemma ready_wakes_loop_spec:
  assumes "holds_batch n b (map (intent_of object observed (wait_entries slots)) (firsts (ready_keys object observed es))) []"
    and "set rest \<subseteq> set (wait_entries slots)" and "length es + length rest \<le> n"
  shows "\<exists>b'. ready_wakes_loop object observed slots rest b = Some b' \<and>
    holds_batch n b' (map (intent_of object observed (wait_entries slots)) (firsts (ready_keys object observed (es @ rest)))) []"
  using assms
proof (induction rest arbitrary: es b)
  case Nil
  then show ?case by simp
next
  case (Cons e rest)
  let ?in = "intent_of object observed (wait_entries slots)" and ?keys = "ready_keys object observed es"
  have seen: "(\<exists>intent\<in>set (List.map_filter id (take (wb_wake_len b) (wb_wakes b))). wk_wake intent = entry_wake e) \<longleftrightarrow>
      entry_wake e \<in> set ?keys"
  proof -
    have "take (wb_wake_len b) (wb_wakes b) = map Some (map ?in (firsts ?keys)) @ replicate 0 None"
      using Cons.prems(1) unfolding holds_batch_def by (metis append_eq_conv_conj length_map append_Nil2 replicate_0)
    then have "List.map_filter id (take (wb_wake_len b) (wb_wakes b)) = map ?in (firsts ?keys)"
      by (simp only: map_filter_padded)
    then show ?thesis by (auto simp: intent_of_def)
  qed
  have len: "length (es @ [e]) + length rest \<le> n" using Cons.prems(3) by simp
  show ?case
  proof (cases "entry_ready object observed e \<and> entry_wake e \<notin> set ?keys")
    case True
    have "length (map ?in (firsts ?keys)) < n"
      using length_firsts [of ?keys] length_ready_keys [of object observed es] Cons.prems(3) by simp
    then obtain b1 where b1: "push_wake b (?in (entry_wake e)) = Some b1"
        "holds_batch n b1 (map ?in (firsts ?keys) @ [?in (entry_wake e)]) []"
      using push_wake_holds [OF Cons.prems(1)] by blast
    have idx: "winning_index object observed (entry_wake e) slots = Some (lowest_index object observed (wait_entries slots) (entry_wake e))"
      using winning_index_lowest [of e slots] True Cons.prems(2) by auto
    have keys: "ready_keys object observed (es @ [e]) = ?keys @ [entry_wake e]" using True by (simp add: ready_keys_def)
    then have "holds_batch n b1 (map ?in (firsts (ready_keys object observed (es @ [e])))) []" using b1(2) True by simp
    from Cons.IH [OF this _ len] Cons.prems(2) idx b1(1) True seen show ?thesis
      by (simp add: entry_wake_def [symmetric] Let_def intent_of_def)
  next
    case False
    then have "firsts (ready_keys object observed (es @ [e])) = firsts ?keys"
      by (auto simp: ready_keys_def)
    then have "holds_batch n b (map ?in (firsts (ready_keys object observed (es @ [e])))) []" using Cons.prems(1) by simp
    from Cons.IH [OF this _ len] Cons.prems(2) False seen show ?thesis
      by (auto simp: entry_wake_def [symmetric] Let_def)
  qed
qed

lemma ready_wakes_spec:
  "\<exists>b. ready_wakes w object observed = Some b \<and>
    holds_batch (length (wg_slots w)) b (intents object observed (wait_entries (wg_slots w))) []"
  using ready_wakes_loop_spec [of "length (wg_slots w)" "wake_batch_empty (length (wg_slots w))" object observed "wg_slots w" "[]"
      "wait_entries (wg_slots w)"] length_wait_entries [of "wg_slots w"]
  by (simp add: ready_wakes_def intents_def ready_keys_def)

end
