(* ===== verification/Wait_Service.thy ===== *)
theory Wait_Service
  imports Wait_View
begin

text \<open>
  What the sources of signals rely on. The abstract state of the wait registry is the
  multiset of its entries; the locale \<open>wait_service\<close> states how registration and the
  consumption of ready generations change it, and derives that a source which registers only
  unready waiters and reports every change of its signals leaves no ready waiter behind
  (\<open>quiet\<close>). The second part shows that a registration token is good for exactly one
  consumption.
\<close>

section \<open>The multiset of waiters\<close>

definition waiters :: "wait_registry \<Rightarrow> wait_entry multiset" where
  "waiters w = mset (wait_entries (wg_slots w))"

fun entry_mset :: "wait_entry option \<Rightarrow> wait_entry multiset" where
  "entry_mset None = {#}"
| "entry_mset (Some e) = {#e#}"

lemma wait_entries_update:
  "i < length slots \<Longrightarrow> mset (wait_entries (slots[i := s])) + entry_mset (ws_entry (slots ! i)) =
    mset (wait_entries slots) + entry_mset (ws_entry s)"
proof (induction slots arbitrary: i)
  case Nil
  then show ?case by simp
next
  case (Cons x slots)
  show ?case
  proof (cases i)
    case 0
    then show ?thesis by (auto split: option.split)
  next
    case (Suc j)
    with Cons have "mset (wait_entries (slots[j := s])) + entry_mset (ws_entry (slots ! j)) =
      mset (wait_entries slots) + entry_mset (ws_entry s)" by simp
    with Suc show ?thesis by (auto split: option.split)
  qed
qed

definition new_entry ::
  "internal_ref \<Rightarrow> dw_signals \<Rightarrow> u32 \<Rightarrow> thread_key \<Rightarrow> block_wake_key \<Rightarrow> wait_entry" where
  "new_entry pin desired item_index thread wake =
    \<lparr>we_identity = \<lparr>wi_object = ir_id pin, wi_thread = thread, wi_wake = wake\<rparr>, we_desired = desired,
     we_item_index = item_index, we_pin = pin\<rparr>"

lemma new_entry_simps [simp]:
  "wi_object (we_identity (new_entry pin desired k thread wake)) = ir_id pin"
  "we_desired (new_entry pin desired k thread wake) = desired"
  "we_pin (new_entry pin desired k thread wake) = pin"
  "entry_wake (new_entry pin desired k thread wake) = wake"
  by (simp_all add: new_entry_def entry_wake_def)

lemma wait_register_Ok:
  assumes "wait_register w pin desired k thread wake = (Ok r, w')"
  obtains i g where "i < length (wg_slots w)" and "ws_entry (wg_slots w ! i) = None"
    and "unat g = unat (ws_generation (wg_slots w ! i)) + 1" and "i < 2 ^ 16"
    and "r = \<lparr>wr_domain = wg_domain w, wr_slot = of_nat i, wr_generation = g,
      wr_identity = we_identity (new_entry pin desired k thread wake)\<rparr>"
    and "w' = w\<lparr>wg_slots := (wg_slots w)[i := \<lparr>ws_generation = g, ws_entry = Some (new_entry pin desired k thread wake)\<rparr>]\<rparr>"
    and "validate_wait_signals (ir_object_type pin) desired = Ok ()"
proof -
  from assms obtain i g where i: "find_wait_slot (wg_slots w) = Some i"
    and g: "checked_next (ws_generation (wg_slots w ! i)) = Some g"
    and b: "u16_try_from_usize i \<noteq> None"
    and eqs: "r = \<lparr>wr_domain = wg_domain w, wr_slot = the (u16_try_from_usize i), wr_generation = g,
      wr_identity = we_identity (new_entry pin desired k thread wake)\<rparr>"
      "w' = w\<lparr>wg_slots := (wg_slots w)[i := \<lparr>ws_generation = g, ws_entry = Some (new_entry pin desired k thread wake)\<rparr>]\<rparr>"
      "validate_wait_signals (ir_object_type pin) desired = Ok ()"
    by (auto simp: wait_register_def new_entry_def Let_def split: result.splits option.splits)
  have "i < length (wg_slots w)" "ws_entry (wg_slots w ! i) = None"
    using i by (auto simp: find_wait_slot_def dest: position_SomeD)
  moreover have "i < 2 ^ 16" "the (u16_try_from_usize i) = of_nat i"
    using b by (auto simp: u16_try_from_usize_def split: if_splits)
  ultimately show thesis using that checked_next_unat [OF g] eqs by auto
qed

lemma wait_register_Err:
  "wait_register w pin desired k thread wake = (Err f, w') \<Longrightarrow> w' = w \<and> wf_pin f = pin"
  by (auto simp: wait_register_def Let_def split: result.splits option.splits)

lemma wait_register_waiters:
  assumes "wait_register w pin desired k thread wake = (Ok r, w')"
  shows "waiters w' = add_mset (new_entry pin desired k thread wake) (waiters w)"
  using assms
proof (rule wait_register_Ok)
  fix i g
  assume "i < length (wg_slots w)" and "ws_entry (wg_slots w ! i) = None"
    and "w' = w\<lparr>wg_slots := (wg_slots w)[i := \<lparr>ws_generation = g, ws_entry = Some (new_entry pin desired k thread wake)\<rparr>]\<rparr>"
  with wait_entries_update [of i "wg_slots w" "\<lparr>ws_generation = g, ws_entry = Some (new_entry pin desired k thread wake)\<rparr>"]
  show ?thesis by (simp add: waiters_def)
qed

definition registered :: "wait_registry \<Rightarrow> wait_registration \<Rightarrow> wait_entry \<Rightarrow> bool" where
  "registered w r e \<longleftrightarrow> wr_domain r = wg_domain w \<and> unat (wr_slot r) < length (wg_slots w) \<and>
    ws_generation (wg_slots w ! unat (wr_slot r)) = wr_generation r \<and>
    ws_entry (wg_slots w ! unat (wr_slot r)) = Some e \<and> we_identity e = wr_identity r"

lemma wait_cancel_Ok_iff:
  "wait_cancel w r = (Ok pin, w') \<longleftrightarrow> (\<exists>e. registered w r e \<and> pin = we_pin e \<and>
    w' = w\<lparr>wg_slots := (wg_slots w)[unat (wr_slot r) := (wg_slots w ! unat (wr_slot r))\<lparr>ws_entry := None\<rparr>]\<rparr>)"
  by (cases "slice_get (wg_slots w) (unat (wr_slot r))")
    (auto simp: wait_cancel_def registered_def slice_get_def
      intro!: wait_entry_identity.equality split: if_splits option.splits)

lemma wait_cancel_Err: "wait_cancel w r = (Err x, w') \<Longrightarrow> w' = w"
  by (auto simp: wait_cancel_def split: if_splits option.splits)

lemma registered_waiter: "registered w r e \<Longrightarrow> e \<in># waiters w"
  by (force simp: registered_def waiters_def set_wait_entries)

lemma wait_cancel_waiters:
  assumes "registered w r e" and "wait_cancel w r = (x, w')"
  shows "x = Ok (we_pin e) \<and> waiters w = add_mset e (waiters w')"
proof -
  have "wait_cancel w r = (Ok (we_pin e), w\<lparr>wg_slots := (wg_slots w)[unat (wr_slot r) := (wg_slots w ! unat (wr_slot r))\<lparr>ws_entry := None\<rparr>]\<rparr>)"
    using assms(1) unfolding wait_cancel_Ok_iff by blast
  with assms wait_entries_update [of "unat (wr_slot r)" "wg_slots w" "(wg_slots w ! unat (wr_slot r))\<lparr>ws_entry := None\<rparr>"]
  show ?thesis by (auto simp: registered_def waiters_def)
qed

lemma wait_register_registered:
  assumes "wait_register w pin desired k thread wake = (Ok r, w')"
  shows "registered w' r (new_entry pin desired k thread wake)"
  using assms
  by (rule wait_register_Ok) (auto simp: registered_def unat_of_nat take_bit_nat_eq_self)

lemma take_ready_waiters:
  "\<exists>b w' ps. take_ready w object observed = Some (b, w') \<and>
    waiters w' = {#e \<in># waiters w. entry_wake e \<notin> ready_generations object observed (set_mset (waiters w))#} \<and>
    holds_batch (length (wg_slots w)) b (intents object observed (wait_entries (wg_slots w))) ps \<and>
    image_mset we_pin (waiters w) = mset ps + image_mset we_pin (waiters w')"
proof -
  let ?G = "ready_generations object observed (set (wait_entries (wg_slots w)))"
  have "waiters w = {#e \<in># waiters w. entry_wake e \<in> ?G#} + {#e \<in># waiters w. entry_wake e \<notin> ?G#}"
    by (rule multiset_partition)
  then have "image_mset we_pin (waiters w) = image_mset we_pin {#e \<in># waiters w. entry_wake e \<in> ?G#} +
      image_mset we_pin {#e \<in># waiters w. entry_wake e \<notin> ?G#}"
    by (metis image_mset_union)
  with take_ready_spec [of w object observed] show ?thesis
    by (fastforce simp: waiters_def wait_entries_clear)
qed

lemma no_waiters_new:
  assumes "wait_registry_new capacity d = Some (w, d')"
  shows "waiters w = {#}"
proof -
  have "wait_entries (replicate n VACANT_WAIT_SLOT) = []" for n by (induction n) (auto simp: VACANT_WAIT_SLOT_def)
  with assms show ?thesis by (auto simp: wait_registry_new_def bind_Some_iff waiters_def)
qed

lemma wait_cancel_subset:
  assumes "wait_cancel w r = (x, w')"
  shows "waiters w' \<subseteq># waiters w"
proof (cases x)
  case (Ok pin)
  with assms obtain e where "registered w r e" by (auto simp: wait_cancel_Ok_iff)
  from wait_cancel_waiters [OF this assms] show ?thesis by simp
qed (use wait_cancel_Err assms in auto)

lemma cancel_generation_subset: "cancel_generation w wake = Some (b, w') \<Longrightarrow> waiters w' \<subseteq># waiters w"
  using cancel_generation_spec [of w wake] by (auto simp: waiters_def wait_entries_clear)

section \<open>The contract with the sources\<close>

text \<open>No waiter's condition holds under the given signals.\<close>

definition quiet :: "(object_id \<Rightarrow> dw_signals option) \<Rightarrow> wait_entry multiset \<Rightarrow> bool" where
  "quiet signals M \<longleftrightarrow> (\<forall>e\<in>#M. \<forall>s. signals (wi_object (we_identity e)) = Some s \<longrightarrow> we_desired e AND s = 0)"

lemma quiet_subset: "quiet signals M \<Longrightarrow> N \<subseteq># M \<Longrightarrow> quiet signals N"
  by (auto simp: quiet_def dest: mset_subset_eqD)

lemma quiet_map_le: "quiet signals M \<Longrightarrow> signals' \<subseteq>\<^sub>m signals \<Longrightarrow> quiet signals' M"
  by (force simp: quiet_def map_le_def dom_def)

locale wait_service =
  fixes waiting :: "'w \<Rightarrow> wait_entry multiset"
    and register :: "'w \<Rightarrow> internal_ref \<Rightarrow> dw_signals \<Rightarrow> u32 \<Rightarrow> thread_key \<Rightarrow> block_wake_key \<Rightarrow>
      (wait_registration, wait_registration_failure) result \<times> 'w"
    and consume :: "'w \<Rightarrow> object_id \<Rightarrow> dw_signals \<Rightarrow> (wake_batch \<times> 'w) option"
  assumes register_adds: "register w pin desired k thread wake = (Ok r, w') \<Longrightarrow>
      waiting w' = add_mset (new_entry pin desired k thread wake) (waiting w)"
    and register_fails: "register w pin desired k thread wake = (Err f, w') \<Longrightarrow> w' = w \<and> wf_pin f = pin"
    and consume_total: "\<exists>b w'. consume w object observed = Some (b, w')"
    and consume_removes: "consume w object observed = Some (b, w') \<Longrightarrow>
      waiting w' = {#e \<in># waiting w. entry_wake e \<notin> ready_generations object observed (set_mset (waiting w))#}"
begin

lemma consume_subset: "consume w object observed = Some (b, w') \<Longrightarrow> waiting w' \<subseteq># waiting w"
  by (simp add: consume_removes)

lemma consume_unready:
  "consume w object observed = Some (b, w') \<Longrightarrow> e \<in># waiting w' \<Longrightarrow> \<not> entry_ready object observed e"
  by (auto simp: consume_removes ready_generations_def)

lemma register_quiet:
  assumes "quiet signals (waiting w)" and "register w pin desired k thread wake = (Ok r, w')"
    and "signals (ir_id pin) = Some s" and "desired AND s = 0"
  shows "quiet signals (waiting w')"
  using assms by (auto simp: quiet_def register_adds)

text \<open>A change of one object's signals, reported by consuming its ready waiters.\<close>

lemma consume_quiet:
  assumes "quiet signals (waiting w)" and "consume w object s = Some (b, w')"
    and "\<And>i. i \<noteq> object \<Longrightarrow> signals' i = signals i" and "signals' object = Some s"
  shows "quiet signals' (waiting w')"
  unfolding quiet_def
proof (intro ballI allI impI)
  fix e s'
  assume e: "e \<in># waiting w'" and s': "signals' (wi_object (we_identity e)) = Some s'"
  show "we_desired e AND s' = 0"
  proof (cases "wi_object (we_identity e) = object")
    case True
    with consume_unready [OF assms(2) e] s' assms(4) show ?thesis by (simp add: entry_ready_def)
  next
    case False
    with assms(1,3) s' mset_subset_eqD [OF consume_subset [OF assms(2)] e] show ?thesis by (auto simp: quiet_def)
  qed
qed

end

interpretation wait_registry_service: wait_service waiters wait_register take_ready
proof
  show "\<exists>b w'. take_ready w object observed = Some (b, w')" for w object observed
    using take_ready_waiters [of w object observed] by blast
  show "waiters w' = {#e \<in># waiters w. entry_wake e \<notin> ready_generations object observed (set_mset (waiters w))#}"
    if "take_ready w object observed = Some (b, w')" for w object observed b w'
    using take_ready_waiters [of w object observed] that by auto
qed (auto dest: wait_register_waiters wait_register_Err)

section \<open>Registrations are consumed once\<close>

inductive wait_step :: "wait_registry \<Rightarrow> wait_registry \<Rightarrow> bool" where
  step_register: "wait_register w pin desired k thread wake = (x, w') \<Longrightarrow> wait_step w w'"
| step_cancel: "wait_cancel w r = (x, w') \<Longrightarrow> wait_step w w'"
| step_cancel_generation: "cancel_generation w wake = Some (b, w') \<Longrightarrow> wait_step w w'"
| step_take_ready: "take_ready w object observed = Some (b, w') \<Longrightarrow> wait_step w w'"

definition wait_slot_evolves :: "wait_slot \<Rightarrow> wait_slot \<Rightarrow> bool" where
  "wait_slot_evolves s s' \<longleftrightarrow> unat (ws_generation s) \<le> unat (ws_generation s') \<and>
    (ws_generation s' = ws_generation s \<longrightarrow> ws_entry s' = ws_entry s \<or> ws_entry s' = None)"

definition wait_evolves :: "wait_registry \<Rightarrow> wait_registry \<Rightarrow> bool" where
  "wait_evolves w w' \<longleftrightarrow> wg_domain w' = wg_domain w \<and> list_all2 wait_slot_evolves (wg_slots w) (wg_slots w')"

lemma wait_slot_evolves_refl [simp]: "wait_slot_evolves s s"
  by (simp add: wait_slot_evolves_def)

lemma wait_slot_evolves_trans:
  "wait_slot_evolves a b \<Longrightarrow> wait_slot_evolves b c \<Longrightarrow> wait_slot_evolves a c"
  by (auto simp: wait_slot_evolves_def word_unat_eq_iff)

lemma wait_evolves_refl [simp]: "wait_evolves w w"
  by (simp add: wait_evolves_def list_all2_refl)

lemma wait_evolves_trans: "wait_evolves a b \<Longrightarrow> wait_evolves b c \<Longrightarrow> wait_evolves a c"
  by (fastforce simp: wait_evolves_def list_all2_conv_all_nth intro: wait_slot_evolves_trans)

lemma wait_evolves_update:
  "i < length (wg_slots w) \<Longrightarrow> wait_slot_evolves (wg_slots w ! i) s \<Longrightarrow> wait_evolves w (w\<lparr>wg_slots := (wg_slots w)[i := s]\<rparr>)"
  by (auto simp: wait_evolves_def list_all2_conv_all_nth nth_update_if)

lemma wait_evolves_clear: "wait_evolves w (w\<lparr>wg_slots := map (clear_wakes W) (wg_slots w)\<rparr>)"
  by (auto simp: wait_evolves_def list_all2_conv_all_nth wait_slot_evolves_def ws_entry_clear split: option.split)

lemma wait_step_evolves: "wait_step w w' \<Longrightarrow> wait_evolves w w'"
proof (induction rule: wait_step.induct)
  case (step_register w pin desired k thread wake x w')
  then show ?case
  proof (cases x)
    case (Ok r)
    with step_register obtain i g where "i < length (wg_slots w)"
      and "unat g = unat (ws_generation (wg_slots w ! i)) + 1"
      and "w' = w\<lparr>wg_slots := (wg_slots w)[i := \<lparr>ws_generation = g, ws_entry = Some (new_entry pin desired k thread wake)\<rparr>]\<rparr>"
      by (auto elim: wait_register_Ok)
    then show ?thesis by (auto intro!: wait_evolves_update simp: wait_slot_evolves_def)
  qed (auto dest: wait_register_Err)
next
  case (step_cancel w r x w')
  then show ?case
    by (cases x)
      (auto dest: wait_cancel_Err simp: wait_cancel_Ok_iff registered_def wait_slot_evolves_def intro!: wait_evolves_update)
next
  case (step_cancel_generation w wake b w')
  then show ?case using cancel_generation_spec [of w wake] wait_evolves_clear by auto
next
  case (step_take_ready w object observed b w')
  then show ?case using take_ready_spec [of w object observed] wait_evolves_clear by auto
qed

lemma wait_steps_evolve: "wait_step\<^sup>*\<^sup>* w w' \<Longrightarrow> wait_evolves w w'"
  by (induction rule: rtranclp_induct) (auto intro: wait_evolves_trans wait_step_evolves)

definition spent :: "wait_registry \<Rightarrow> wait_registration \<Rightarrow> bool" where
  "spent w r \<longleftrightarrow> wr_domain r = wg_domain w \<and> unat (wr_slot r) < length (wg_slots w) \<and>
    (let s = wg_slots w ! unat (wr_slot r) in
     unat (wr_generation r) \<le> unat (ws_generation s) \<and> (ws_generation s = wr_generation r \<longrightarrow> ws_entry s = None))"

lemma wait_evolves_nth:
  "wait_evolves w w' \<Longrightarrow> i < length (wg_slots w) \<Longrightarrow>
    i < length (wg_slots w') \<and> wg_domain w' = wg_domain w \<and> wait_slot_evolves (wg_slots w ! i) (wg_slots w' ! i)"
  by (auto simp: wait_evolves_def list_all2_conv_all_nth)

lemma spent_evolves: "spent w r \<Longrightarrow> wait_evolves w w' \<Longrightarrow> spent w' r"
  using wait_evolves_nth [of w w' "unat (wr_slot r)"]
  by (auto simp: spent_def Let_def wait_slot_evolves_def word_unat_eq_iff)

lemma registered_evolves:
  "registered w r e \<Longrightarrow> wait_evolves w w' \<Longrightarrow> registered w' r e \<or> spent w' r"
  using wait_evolves_nth [of w w' "unat (wr_slot r)"]
  by (auto simp: registered_def spent_def Let_def wait_slot_evolves_def)

lemma spent_cancel: "spent w r \<Longrightarrow> wait_cancel w r = (Err StaleRegistration, w)"
  by (auto simp: spent_def Let_def wait_cancel_def split: option.splits)

lemma cancel_spent: "wait_cancel w r = (Ok pin, w') \<Longrightarrow> spent w' r"
  by (auto simp: wait_cancel_Ok_iff registered_def spent_def)

end
