(* ===== verification/Channel_View.thy ===== *)
theory Channel_View
  imports Channel_Ops Byte_Queue_View Wait_Service
begin

text \<open>
  The invariant of the channel authority and its abstract view. \<open>channel_wf\<close> says that every
  queue is a well-formed ring, every endpoint carries a valid lease and no object is an
  endpoint twice; \<open>endpoint_of\<close> then reads off where an object lives. \<open>channel_messages\<close> is the
  multiset of queued messages, \<open>pool_owns\<close> the exclusive ownership of payload tokens by queued
  messages and outstanding send reservations.
\<close>

section \<open>Endpoints\<close>

definition pair_wf :: "channel_authority \<Rightarrow> nat \<Rightarrow> pair_record \<Rightarrow> bool" where
  "pair_wf ca i pair \<longleftrightarrow> (\<forall>side. queue_wf (ca_depth ca) (pc_inbound pair side) \<and>
    (\<forall>e. pc_endpoints pair side = Some e \<longrightarrow>
      lease_valid (ca_domain ca) i (ca_pairs ca ! i) side (er_lease e)))"

definition lives_at :: "channel_authority \<Rightarrow> object_id \<Rightarrow> nat \<Rightarrow> channel_side \<Rightarrow> bool" where
  "lives_at ca object i side \<longleftrightarrow> i < length (ca_pairs ca) \<and>
    (\<exists>pair e. cs_pair (ca_pairs ca ! i) = Some pair \<and> pc_endpoints pair side = Some e \<and> er_object e = object)"

definition channel_wf :: "channel_authority \<Rightarrow> bool" where
  "channel_wf ca \<longleftrightarrow>
    (\<forall>i<length (ca_pairs ca). \<forall>pair. cs_pair (ca_pairs ca ! i) = Some pair \<longrightarrow> pair_wf ca i pair) \<and>
    (\<forall>object i side j side'. lives_at ca object i side \<longrightarrow> lives_at ca object j side' \<longrightarrow> i = j \<and> side = side')"

lemma channel_wf_pair:
  "channel_wf ca \<Longrightarrow> i < length (ca_pairs ca) \<Longrightarrow> cs_pair (ca_pairs ca ! i) = Some pair \<Longrightarrow> pair_wf ca i pair"
  by (simp add: channel_wf_def)

lemma lives_at_unique: "channel_wf ca \<Longrightarrow> lives_at ca o' i side \<Longrightarrow> lives_at ca o' j side' \<Longrightarrow> i = j \<and> side = side'"
  unfolding channel_wf_def by blast

lemma side_holds_iff: "side_holds object pair side \<longleftrightarrow> (\<exists>e. pc_endpoints pair side = Some e \<and> er_object e = object)"
  by (auto simp: side_holds_def split: option.split)

lemma locate_scan_spec:
  assumes "\<forall>j<length slots. \<forall>pair side e. cs_pair (slots ! j) = Some pair \<longrightarrow> pc_endpoints pair side = Some e \<longrightarrow>
      lease_valid domain (k + j) (slots ! j) side (er_lease e)"
  shows "case locate_scan domain k slots key of
    Ok (i, side) \<Rightarrow> \<exists>j<length slots. i = k + j \<and> (\<exists>pair. cs_pair (slots ! j) = Some pair \<and> side_holds key pair side)
  | Err e \<Rightarrow> e = InvalidEndpoint \<and> (\<forall>s\<in>set slots. \<forall>pair side. cs_pair s = Some pair \<longrightarrow> \<not> side_holds key pair side)"
  using assms
proof (induction slots arbitrary: k)
  case Nil
  then show ?case by simp
next
  case (Cons s slots)
  have lease: "lease_valid domain k s side (er_lease e)"
    if "cs_pair s = Some pair" "pc_endpoints pair side = Some e" for pair side e
    using Cons.prems [rule_format, of 0] that by simp
  have IH: "case locate_scan domain (Suc k) slots key of
    Ok (i, side) \<Rightarrow> \<exists>j<length slots. i = Suc k + j \<and> (\<exists>pair. cs_pair (slots ! j) = Some pair \<and> side_holds key pair side)
  | Err e \<Rightarrow> e = InvalidEndpoint \<and> (\<forall>s\<in>set slots. \<forall>pair side. cs_pair s = Some pair \<longrightarrow> \<not> side_holds key pair side)"
  proof (rule Cons.IH, intro allI impI)
    fix j pair side e
    assume "j < length slots" and "cs_pair (slots ! j) = Some pair" and "pc_endpoints pair side = Some e"
    then show "lease_valid domain (Suc k + j) (slots ! j) side (er_lease e)"
      using Cons.prems [rule_format, of "Suc j" pair side e] by simp
  qed
  have skip: ?case if none: "\<forall>pair side. cs_pair s = Some pair \<longrightarrow> \<not> side_holds key pair side"
  proof -
    have "locate_scan domain k (s # slots) key = locate_scan domain (Suc k) slots key"
      using none by (auto split: option.splits)
    with IH none show ?thesis
      by (cases "locate_scan domain (Suc k) slots key") (auto split: prod.splits intro: exI [of _ "Suc _"])
  qed
  show ?case
  proof (cases "\<exists>pair side. cs_pair s = Some pair \<and> side_holds key pair side")
    case False
    with skip show ?thesis by blast
  next
    case True
    then obtain pair side0 where pair: "cs_pair s = Some pair" "side_holds key pair side0" by blast
    obtain side where side: "side_holds key pair side" "side = One \<longrightarrow> \<not> side_holds key pair Zero"
      using pair(2) by (cases "side_holds key pair Zero"; cases side0) blast+
    then obtain e where "pc_endpoints pair side = Some e" by (auto simp: side_holds_iff)
    with pair(1) side lease have "locate_scan domain k (s # slots) key = Ok (k, side)"
      by (cases side) (simp_all add: locate_side_def)
    with side pair(1) show ?thesis by (auto intro: exI [of _ 0])
  qed
qed

lemma locate_leases:
  assumes "channel_wf ca"
  shows "\<forall>j<length (ca_pairs ca). \<forall>pair side e. cs_pair (ca_pairs ca ! j) = Some pair \<longrightarrow> pc_endpoints pair side = Some e \<longrightarrow>
      lease_valid (ca_domain ca) (0 + j) (ca_pairs ca ! j) side (er_lease e)"
  using assms by (simp add: channel_wf_def pair_wf_def)

lemma locate_Ok_iff:
  assumes "channel_wf ca"
  shows "locate ca object = Ok (i, side) \<longleftrightarrow> lives_at ca object i side"
proof
  show "lives_at ca object i side" if "locate ca object = Ok (i, side)"
    using locate_scan_spec [OF locate_leases [OF assms], of object] that
    by (auto simp: locate_def lives_at_def side_holds_iff)
  show "locate ca object = Ok (i, side)" if lives: "lives_at ca object i side"
  proof (cases "locate ca object")
    case (Ok x)
    obtain j side' where x: "x = (j, side')" by fastforce
    with Ok have "lives_at ca object j side'"
      using locate_scan_spec [OF locate_leases [OF assms], of object] by (auto simp: locate_def lives_at_def side_holds_iff)
    with lives_at_unique [OF assms this lives] Ok x show ?thesis by simp
  next
    case (Err e)
    with locate_scan_spec [OF locate_leases [OF assms], of object] lives show ?thesis
      by (force simp: locate_def lives_at_def side_holds_iff)
  qed
qed

lemma locate_Err:
  assumes "channel_wf ca" and "locate ca object = Err e"
  shows "e = InvalidEndpoint \<and> (\<forall>i side. \<not> lives_at ca object i side)"
  using locate_scan_spec [OF locate_leases [OF assms(1)], of object] assms(2) locate_Ok_iff [OF assms(1), of object]
  by (auto simp: locate_def)

lemma located_pair_Ok_iff:
  assumes "channel_wf ca"
  shows "located_pair ca object = Ok (i, side, pair) \<longleftrightarrow>
    lives_at ca object i side \<and> cs_pair (ca_pairs ca ! i) = Some pair"
  by (auto simp: located_pair_def and_then_Ok_iff locate_Ok_iff [OF assms] lives_at_def)

lemma located_pair_Err:
  assumes "channel_wf ca" and "located_pair ca object = Err e"
  shows "e = InvalidEndpoint \<and> (\<forall>i side. \<not> lives_at ca object i side)"
proof (cases "locate ca object")
  case (Ok x)
  obtain i side where x: "x = (i, side)" by fastforce
  with Ok locate_Ok_iff [OF assms(1)] have "lives_at ca object i side" by blast
  with Ok x assms(2) show ?thesis by (auto simp: located_pair_def lives_at_def)
next
  case (Err e')
  with locate_Err [OF assms(1) Err] assms(2) show ?thesis by (simp add: located_pair_def)
qed

lemma lease_slot_bound: "lease_valid domain i slot side lease \<Longrightarrow> i < 2 ^ 16"
  using unsigned_less [of "pk_slot (sl_pair lease)", where ?'a = nat] by (auto simp: lease_valid_def)

lemma lives_at_pair:
  assumes "channel_wf ca" and "lives_at ca object i side"
  obtains pair e where "i < length (ca_pairs ca)" and "cs_pair (ca_pairs ca ! i) = Some pair" and "pair_wf ca i pair"
    and "pc_endpoints pair side = Some e" and "er_object e = object" and "i < 2 ^ 16"
proof -
  from assms(2) obtain pair e where p: "i < length (ca_pairs ca)" "cs_pair (ca_pairs ca ! i) = Some pair"
    "pc_endpoints pair side = Some e" "er_object e = object" by (auto simp: lives_at_def)
  moreover have wf: "pair_wf ca i pair" using channel_wf_pair [OF assms(1) p(1,2)] .
  moreover have "i < 2 ^ 16" using wf p(3) lease_slot_bound unfolding pair_wf_def by blast
  ultimately show thesis using that by blast
qed

section \<open>Replacing a pair\<close>

text \<open>A pair is replaced by one with the same or fewer endpoints and well-formed queues.\<close>

definition pair_refits :: "channel_authority \<Rightarrow> pair_record \<Rightarrow> pair_record option \<Rightarrow> bool" where
  "pair_refits ca pair r \<longleftrightarrow> (\<forall>pair'. r = Some pair' \<longrightarrow>
    (\<forall>side. queue_wf (ca_depth ca) (pc_inbound pair' side) \<and>
      (pc_endpoints pair' side = pc_endpoints pair side \<or> pc_endpoints pair' side = None)))"

lemma set_pair_simps [simp]:
  "ca_domain (set_pair ca i r) = ca_domain ca" "ca_depth (set_pair ca i r) = ca_depth ca"
  "length (ca_pairs (set_pair ca i r)) = length (ca_pairs ca)"
  "cs_generation (ca_pairs (set_pair ca i r) ! j) = cs_generation (ca_pairs ca ! j)"
  by (simp_all add: set_pair_def) (cases "j < length (ca_pairs ca)"; cases "i = j"; simp add: nth_update_if list_update_beyond)

lemma cs_pair_set_pair:
  "j < length (ca_pairs ca) \<Longrightarrow> cs_pair (ca_pairs (set_pair ca i r) ! j) = (if j = i then r else cs_pair (ca_pairs ca ! j))"
  by (auto simp: set_pair_def nth_update_if)

lemma lives_at_set_pair:
  assumes "i < length (ca_pairs ca)"
  shows "lives_at (set_pair ca i r) object j side \<longleftrightarrow>
    (if j = i then \<exists>pair e. r = Some pair \<and> pc_endpoints pair side = Some e \<and> er_object e = object
     else lives_at ca object j side)"
  using assms by (auto simp: lives_at_def cs_pair_set_pair)

lemma lease_valid_set_pair [simp]:
  "lease_valid domain j (ca_pairs (set_pair ca i r) ! j') side lease \<longleftrightarrow> lease_valid domain j (ca_pairs ca ! j') side lease"
  by (simp add: lease_valid_def)

lemma pair_wf_set_pair [simp]: "pair_wf (set_pair ca i r) j pair \<longleftrightarrow> pair_wf ca j pair"
  by (simp add: pair_wf_def)

lemma lives_at_refit:
  assumes "i < length (ca_pairs ca)" and "cs_pair (ca_pairs ca ! i) = Some pair" and "pair_refits ca pair r"
    and "lives_at (set_pair ca i r) object j side"
  shows "lives_at ca object j side"
proof (cases "j = i")
  case True
  with assms obtain pair' e where "r = Some pair'" "pc_endpoints pair' side = Some e" "er_object e = object"
    by (auto simp: lives_at_set_pair)
  moreover from this assms(3) have "pc_endpoints pair side = Some e" unfolding pair_refits_def by (metis option.distinct(1))
  ultimately show ?thesis using True assms(1,2) by (auto simp: lives_at_def)
qed (use assms in \<open>simp add: lives_at_set_pair\<close>)

lemma channel_wf_set_pair:
  assumes "channel_wf ca" and "i < length (ca_pairs ca)" and "cs_pair (ca_pairs ca ! i) = Some pair"
    and "pair_refits ca pair r"
  shows "channel_wf (set_pair ca i r)"
  unfolding channel_wf_def
proof (intro conjI allI impI)
  fix j pair' assume j: "j < length (ca_pairs (set_pair ca i r))" "cs_pair (ca_pairs (set_pair ca i r) ! j) = Some pair'"
  have wf: "pair_wf ca i pair" using channel_wf_pair [OF assms(1-3)] .
  show "pair_wf (set_pair ca i r) j pair'"
  proof (cases "j = i")
    case True
    with j have "r = Some pair'" by (simp add: cs_pair_set_pair)
    with assms(4) wf show ?thesis using True by (simp add: pair_refits_def pair_wf_def) (metis option.distinct(1))
  next
    case False
    with j assms(1) show ?thesis by (simp add: cs_pair_set_pair channel_wf_def)
  qed
next
  fix object j side k side'
  assume l: "lives_at (set_pair ca i r) object j side" "lives_at (set_pair ca i r) object k side'"
  from l [THEN lives_at_refit [OF assms(2-4)]] show "j = k" "side = side'"
    using lives_at_unique [OF assms(1)] by blast+
qed

lemma set_inbound_wf:
  assumes "channel_wf ca" and "i < length (ca_pairs ca)" and "cs_pair (ca_pairs ca ! i) = Some pair"
    and "queue_wf (ca_depth ca) q"
  shows "channel_wf (set_inbound ca i pair side q) \<and> (\<forall>object j s. lives_at (set_inbound ca i pair side q) object j s \<longleftrightarrow> lives_at ca object j s)"
proof -
  have "pair_wf ca i pair" using channel_wf_pair [OF assms(1-3)] .
  then have "pair_refits ca pair (Some (pair\<lparr>pc_inbound := (pc_inbound pair)(side := q)\<rparr>))"
    using assms(4) by (simp add: pair_refits_def pair_wf_def)
  then have "channel_wf (set_inbound ca i pair side q)"
    unfolding set_inbound_def by (rule channel_wf_set_pair [OF assms(1-3)])
  moreover have "lives_at (set_inbound ca i pair side q) object j s \<longleftrightarrow> lives_at ca object j s" for object j s
    unfolding set_inbound_def lives_at_set_pair [OF assms(2)] using assms(2,3) by (auto simp: lives_at_def)
  ultimately show ?thesis by blast
qed

section \<open>Keyed access\<close>

lemma set_inbound_same:
  "i < length (ca_pairs ca) \<Longrightarrow> cs_pair (ca_pairs ca ! i) = Some pair \<Longrightarrow> set_inbound ca i pair side (pc_inbound pair side) = ca"
  by (cases ca) (auto simp: set_inbound_def set_pair_def list_update_same_conv intro: pair_slot.equality)

lemma keyed_pair_Ok_iff:
  "keyed_pair ca key = Ok (i, pair) \<longleftrightarrow> pk_domain key = ca_domain ca \<and> i = unat (pk_slot key) \<and> i < length (ca_pairs ca) \<and>
    cs_generation (ca_pairs ca ! i) = pk_generation key \<and> cs_pair (ca_pairs ca ! i) = Some pair"
  by (auto simp: keyed_pair_def and_then_Ok_iff slice_get_def split: if_splits)

lemma keyed_pair_Err: "keyed_pair ca key = Err e \<Longrightarrow> e = StalePair"
  by (auto simp: keyed_pair_def and_then_Err_iff split: if_splits)

section \<open>Queued messages and payload ownership\<close>

definition pair_messages :: "pair_record option \<Rightarrow> queued_message multiset" where
  "pair_messages r = (case r of None \<Rightarrow> {#}
    | Some pair \<Rightarrow> mset (queue_items (pc_inbound pair Zero)) + mset (queue_items (pc_inbound pair One)))"

definition channel_messages :: "channel_authority \<Rightarrow> queued_message multiset" where
  "channel_messages ca = (\<Sum>slot\<leftarrow>ca_pairs ca. pair_messages (cs_pair slot))"

lemma channel_messages_set_pair:
  "i < length (ca_pairs ca) \<Longrightarrow> channel_messages (set_pair ca i r) + pair_messages (cs_pair (ca_pairs ca ! i)) =
    channel_messages ca + pair_messages r"
  using sum_list_update_mset [of i "ca_pairs ca" "\<lambda>s. pair_messages (cs_pair s)" "(ca_pairs ca ! i)\<lparr>cs_pair := r\<rparr>"]
  by (simp add: channel_messages_def set_pair_def)

lemma pair_messages_update:
  "pair_messages (Some (pair\<lparr>pc_inbound := (pc_inbound pair)(side := q)\<rparr>)) + mset (queue_items (pc_inbound pair side)) =
    pair_messages (Some pair) + mset (queue_items q)"
  by (cases side) (simp_all add: pair_messages_def)

lemma mset_exchange:
  assumes "A + P = C + R" and "R + X = P + (Y :: 'a multiset)"
  shows "A + X = C + Y"
proof -
  have "(A + P) + X = C + (R + X)" unfolding assms(1) by (rule add.assoc)
  also have "\<dots> = C + (P + Y)" unfolding assms(2) ..
  finally have "(A + X) + P = (C + Y) + P" by (simp only: ac_simps)
  then show ?thesis by simp
qed

lemma channel_messages_set_inbound:
  assumes "i < length (ca_pairs ca)" and "cs_pair (ca_pairs ca ! i) = Some pair"
  shows "channel_messages (set_inbound ca i pair side q) + mset (queue_items (pc_inbound pair side)) =
    channel_messages ca + mset (queue_items q)"
proof -
  let ?r = "Some (pair\<lparr>pc_inbound := (pc_inbound pair)(side := q)\<rparr>)"
  have "channel_messages (set_inbound ca i pair side q) + pair_messages (Some pair) = channel_messages ca + pair_messages ?r"
    using channel_messages_set_pair [OF assms(1), of ?r] assms(2) by (simp add: set_inbound_def)
  from mset_exchange [OF this pair_messages_update] show ?thesis .
qed

fun payload_mset :: "payload_token option \<Rightarrow> payload_token multiset" where
  "payload_mset None = {#}"
| "payload_mset (Some t) = {#t#}"

definition tokens_of :: "queued_message multiset \<Rightarrow> payload_token multiset" where
  "tokens_of M = (\<Sum>m\<in>#M. payload_mset (qm_payload m))"

lemma tokens_of_simps [simp]:
  "tokens_of {#} = {#}" "tokens_of (add_mset m M) = payload_mset (qm_payload m) + tokens_of M"
  "tokens_of (M + N) = tokens_of M + tokens_of N"
  by (simp_all add: tokens_of_def)

lemma tokens_of_mset: "tokens_of (mset ms) = mset (payload_tokens ms)"
  by (induction ms) (auto split: option.split)

definition pool_owns :: "payload_pool \<Rightarrow> payload_token multiset \<Rightarrow> bool" where
  "pool_owns pool X \<longleftrightarrow> pool_wf pool \<and> (\<forall>t. count X t \<le> (if pool_view pool t = None then 0 else 1))"

lemma pool_owns_subset: "pool_owns pool X \<Longrightarrow> Y \<subseteq># X \<Longrightarrow> pool_owns pool Y"
  unfolding pool_owns_def by (meson le_trans mset_subset_eq_count)

lemma pool_owns_member: "pool_owns pool X \<Longrightarrow> t \<in># X \<Longrightarrow> pool_view pool t \<noteq> None"
  unfolding pool_owns_def by (metis count_eq_zero_iff le_zero_eq)

lemma pool_owns_forget:
  assumes "pool_owns pool (payload_mset payload + X)" and "pool_wf pool'" and "pool_view pool' = forget (set_option payload) pool"
  shows "pool_owns pool' X"
proof -
  have "count X t \<le> (if pool_view pool' t = None then 0 else 1)" for t
  proof -
    have "count (payload_mset payload) t + count X t \<le> (if pool_view pool t = None then 0 else 1)"
      using assms(1) by (simp add: pool_owns_def)
    with assms(3) show ?thesis by (cases payload) (auto simp: forget_def split: if_splits)
  qed
  with assms(2) show ?thesis by (auto simp: pool_owns_def)
qed

lemma pool_owns_release:
  assumes "pool_owns pool (payload_mset payload + X)"
  shows "\<exists>pool'. release_payload pool payload = Some pool' \<and> pool_owns pool' X \<and> pool_view pool' = forget (set_option payload) pool"
proof -
  have "pool_view pool t \<noteq> None" if "payload = Some t" for t
    using pool_owns_member [OF assms, of t] that by simp
  moreover have "pool_wf pool" using assms by (simp add: pool_owns_def)
  ultimately show ?thesis using release_payload_spec [of pool payload] pool_owns_forget [OF assms] by blast
qed

lemma pool_owns_allocated:
  assumes "pool_owns pool X" and "allocated pool payload t pool'"
  shows "pool_owns pool' (payload_mset t + X)"
proof (cases t)
  case (Some tok)
  with assms(2) obtain bytes where v: "pool_view pool tok = None" "pool_view pool' = (pool_view pool)(tok \<mapsto> bytes)" "pool_wf pool'"
    by (auto simp: allocated_def)
  from assms(1) v(1) have "count X tok = 0" unfolding pool_owns_def by (metis le_zero_eq)
  have "count (payload_mset t + X) t' \<le> (if pool_view pool' t' = None then 0 else 1)" for t'
  proof -
    have "count X t' \<le> (if pool_view pool t' = None then 0 else 1)" using assms(1) by (simp add: pool_owns_def)
    with v(2) Some \<open>count X tok = 0\<close> show ?thesis by (cases "t' = tok") auto
  qed
  with v(3) show ?thesis by (simp add: pool_owns_def)
qed (use assms in \<open>auto simp: allocated_def\<close>)

end
