(* ===== verification/Channel_Wakes.thy ===== *)
theory Channel_Wakes
  imports Channel_View
begin

text \<open>
  Signals of the channel endpoints and the wakeups an operation reports. \<open>collect_changed\<close>
  consumes the ready waiters of both endpoints of a pair and never overflows its batch; an
  operation that touches one pair only and ends with it leaves no ready waiter behind.
\<close>

section \<open>Consuming ready waiters\<close>

definition batch_room :: "wait_registry \<Rightarrow> wake_batch \<Rightarrow> bool" where
  "batch_room w b \<longleftrightarrow> (\<exists>ws ps. holds_batch (length (wg_slots w)) b ws ps \<and> length ws \<le> length ps \<and>
    length ps + size (waiters w) \<le> length (wg_slots w))"

lemma size_waiters: "size (waiters w) \<le> length (wg_slots w)"
  using length_wait_entries [of "wg_slots w"] by (simp add: waiters_def)

lemma batch_room_empty: "batch_room w (wake_batch_empty (length (wg_slots w)))"
  unfolding batch_room_def using size_waiters [of w] by (intro exI [of _ "[]"]) simp

lemma take_ready_accounts:
  "\<exists>b w' ws ps. take_ready w object observed = Some (b, w') \<and> holds_batch (length (wg_slots w)) b ws ps \<and>
    length ws \<le> length ps \<and> length ps + size (waiters w') = size (waiters w) \<and> length (wg_slots w') = length (wg_slots w)"
proof -
  let ?es = "wait_entries (wg_slots w)"
  let ?G = "ready_generations object observed (set ?es)"
  let ?w = "w\<lparr>wg_slots := map (clear_wakes ?G) (wg_slots w)\<rparr>"
  obtain b ps where b: "take_ready w object observed = Some (b, ?w)"
    "holds_batch (length (wg_slots w)) b (intents object observed ?es) ps"
    "mset ps = image_mset we_pin {#e \<in># mset ?es. entry_wake e \<in> ?G#}"
    using take_ready_spec by blast
  have ps: "length ps = length (filter (\<lambda>e. entry_wake e \<in> ?G) ?es)"
    using arg_cong [OF b(3), of size] by (simp flip: mset_filter)
  have "length (intents object observed ?es) \<le> length (filter (entry_ready object observed) ?es)"
    using length_firsts [of "ready_keys object observed ?es"] by (simp add: intents_def ready_keys_def)
  also have "\<dots> = length (filter (entry_ready object observed) (filter (\<lambda>e. entry_wake e \<in> ?G) ?es))"
    by (rule arg_cong [where f = length]) (auto simp: ready_generations_def intro!: filter_cong)
  also have "\<dots> \<le> length ps" unfolding ps by (rule length_filter_le)
  finally have "length (intents object observed ?es) \<le> length ps" .
  moreover have "length ps + size (waiters ?w) = size (waiters w)"
    using sum_length_filter_compl [of "\<lambda>e. entry_wake e \<in> ?G" ?es] by (simp add: ps waiters_def wait_entries_clear flip: mset_filter)
  ultimately show ?thesis using b(1,2) by (intro exI [of _ b] exI [of _ ?w]) auto
qed

lemma append_ready:
  assumes "batch_room w wakes"
  shows "\<exists>ready w' wakes'. take_ready w object observed = Some (ready, w') \<and> wake_batch_append wakes ready = Some wakes' \<and>
    batch_room w' wakes'"
proof -
  obtain ws ps where h: "holds_batch (length (wg_slots w)) wakes ws ps" "length ws \<le> length ps"
    "length ps + size (waiters w) \<le> length (wg_slots w)" using assms by (auto simp: batch_room_def)
  obtain ready w' ws' ps' where r: "take_ready w object observed = Some (ready, w')"
    "holds_batch (length (wg_slots w)) ready ws' ps'" "length ws' \<le> length ps'"
    "length ps' + size (waiters w') = size (waiters w)" "length (wg_slots w') = length (wg_slots w)"
    using take_ready_accounts by blast
  obtain wakes' where "wake_batch_append wakes ready = Some wakes'"
    "holds_batch (length (wg_slots w)) wakes' (ws @ ws') (ps @ ps')"
    using wake_batch_append_holds [OF h(1) r(2)] h(2,3) r(3,4) by auto
  moreover have "batch_room w' wakes'"
    unfolding batch_room_def using calculation(2) h(2,3) r(3-5) by (intro exI [of _ "ws @ ws'"] exI [of _ "ps @ ps'"]) auto
  ultimately show ?thesis using r(1) by blast
qed

section \<open>Collecting the changes of a pair\<close>

text \<open>No waiter of the endpoint at \<open>side\<close> is ready.\<close>

definition side_quiet :: "pair_record \<Rightarrow> wait_entry multiset \<Rightarrow> channel_side \<Rightarrow> bool" where
  "side_quiet pair M side \<longleftrightarrow> (\<forall>endpoint s. pc_endpoints pair side = Some endpoint \<longrightarrow> signals_for_pair pair side = Ok s \<longrightarrow>
    (\<forall>e\<in>#M. \<not> entry_ready (er_object endpoint) s e))"

lemma side_quiet_subset: "side_quiet pair M side \<Longrightarrow> N \<subseteq># M \<Longrightarrow> side_quiet pair N side"
  by (auto simp: side_quiet_def dest: mset_subset_eqD)

lemma signals_for_pair_open: "pc_endpoints pair side = Some e \<Longrightarrow> \<exists>s. signals_for_pair pair side = Ok s"
  by (simp add: signals_for_pair_def Let_def)

lemma collect_sides_spec:
  assumes "batch_room waits wakes"
  shows "\<exists>wakes' waits'. collect_sides pair waits wakes sides = Some (Ok wakes', waits') \<and> batch_room waits' wakes' \<and>
    waiters waits' \<subseteq># waiters waits \<and> (\<forall>side\<in>set sides. side_quiet pair (waiters waits') side)"
  using assms
proof (induction sides arbitrary: waits wakes)
  case (Cons side sides)
  show ?case
  proof (cases "pc_endpoints pair side")
    case None
    then have "side_quiet pair M side" for M by (simp add: side_quiet_def)
    with Cons.IH [OF Cons.prems] None show ?thesis by auto
  next
    case (Some endpoint)
    then obtain s where s: "signals_for_pair pair side = Ok s" using signals_for_pair_open by blast
    obtain ready w1 wakes1 where r: "take_ready waits (er_object endpoint) s = Some (ready, w1)"
      "wake_batch_append wakes ready = Some wakes1" "batch_room w1 wakes1"
      using append_ready [OF Cons.prems] by blast
    obtain wakes' waits' where IH: "collect_sides pair w1 wakes1 sides = Some (Ok wakes', waits')" "batch_room waits' wakes'"
      "waiters waits' \<subseteq># waiters w1" "\<forall>side\<in>set sides. side_quiet pair (waiters waits') side"
      using Cons.IH [OF r(3)] by blast
    have "side_quiet pair (waiters w1) side"
      using wait_registry_service.consume_unready [OF r(1)] Some s by (auto simp: side_quiet_def)
    moreover have "waiters w1 \<subseteq># waiters waits" using wait_registry_service.consume_subset [OF r(1)] .
    ultimately show ?thesis using IH r Some s side_quiet_subset [OF _ IH(3)] by (auto intro: subset_mset.trans)
  qed
qed simp

lemma collect_changed_spec:
  "\<exists>wakes waits'. collect_changed pair waits side (peer side) = Some (Ok wakes, waits') \<and>
    waiters waits' \<subseteq># waiters waits \<and> (\<forall>side. side_quiet pair (waiters waits') side)"
proof -
  have "set [side, peer side] = UNIV" by (cases side) (auto simp: UNIV_side)
  with collect_sides_spec [OF batch_room_empty [of waits], of pair "[side, peer side]"] show ?thesis
    unfolding collect_changed_def by (metis UNIV_I)
qed

lemma peer_peer [simp]: "peer (peer side) = side"
  by (cases side) auto

lemma peer_neq [simp]: "peer side \<noteq> side" "side \<noteq> peer side"
  by (cases side; simp)+

lemmas collect_changed_peer = collect_changed_spec [of _ _ "peer side" for side, simplified]

section \<open>Signals of an authority\<close>

definition channel_signals :: "channel_authority \<Rightarrow> object_id \<Rightarrow> dw_signals option" where
  "channel_signals ca object = (case channel_current_signals ca object of Ok s \<Rightarrow> Some s | Err _ \<Rightarrow> None)"

lemma channel_signals_Some_iff:
  assumes "channel_wf ca"
  shows "channel_signals ca object = Some s \<longleftrightarrow>
    (\<exists>i side pair. lives_at ca object i side \<and> cs_pair (ca_pairs ca ! i) = Some pair \<and> signals_for_pair pair side = Ok s)"
proof (cases "located_pair ca object")
  case (Ok x)
  obtain i side pair where x: "x = (i, side, pair)" by (metis prod.collapse)
  with Ok located_pair_Ok_iff [OF assms] have l: "lives_at ca object i side" "cs_pair (ca_pairs ca ! i) = Some pair" by auto
  have "(\<exists>j s' p. lives_at ca object j s' \<and> cs_pair (ca_pairs ca ! j) = Some p \<and> signals_for_pair p s' = Ok s) \<longleftrightarrow>
    signals_for_pair pair side = Ok s"
    using l lives_at_unique [OF assms l(1)] by (metis option.inject)
  with Ok x show ?thesis by (auto simp: channel_signals_def channel_current_signals_def split: result.splits)
next
  case (Err e)
  with located_pair_Err [OF assms Err] show ?thesis by (auto simp: channel_signals_def channel_current_signals_def)
qed

text \<open>
  An operation replaced one pair and no waiter of that pair is ready: then no waiter at all is
  ready if none was.
\<close>

lemma quiet_set_pair:
  assumes "channel_wf ca" and "channel_wf (set_pair ca i r)" and "i < length (ca_pairs ca)"
    and "quiet (channel_signals ca) M" and "N \<subseteq># M"
    and "\<And>pair side. r = Some pair \<Longrightarrow> side_quiet pair N side"
  shows "quiet (channel_signals (set_pair ca i r)) N"
  unfolding quiet_def
proof (intro ballI allI impI)
  fix e s
  assume e: "e \<in># N" and s: "channel_signals (set_pair ca i r) (wi_object (we_identity e)) = Some s"
  then obtain j side pair where l: "lives_at (set_pair ca i r) (wi_object (we_identity e)) j side"
    "cs_pair (ca_pairs (set_pair ca i r) ! j) = Some pair" "signals_for_pair pair side = Ok s"
    using channel_signals_Some_iff [OF assms(2)] by blast
  have j: "j < length (ca_pairs ca)" using l(1) by (simp add: lives_at_def)
  show "we_desired e AND s = 0"
  proof (cases "j = i")
    case True
    with l j have r: "r = Some pair" by (simp add: cs_pair_set_pair)
    with l(1) True j obtain ep where "pc_endpoints pair side = Some ep" "er_object ep = wi_object (we_identity e)"
      by (auto simp: lives_at_set_pair)
    with assms(6) [OF r, of side] l(3) e show ?thesis by (auto simp: side_quiet_def entry_ready_def)
  next
    case False
    with l j have "lives_at ca (wi_object (we_identity e)) j side" "cs_pair (ca_pairs ca ! j) = Some pair"
      by (simp_all add: lives_at_set_pair [OF assms(3)] cs_pair_set_pair)
    with l(3) have "channel_signals ca (wi_object (we_identity e)) = Some s" using channel_signals_Some_iff [OF assms(1)] by blast
    with assms(4,5) e show ?thesis by (auto simp: quiet_def dest: mset_subset_eqD)
  qed
qed

end
