(* ===== verification/Channel_State.thy ===== *)
theory Channel_State
  imports Channel_Wakes
begin

text \<open>
  The state of the channel system: the authority, the payload pool and the outstanding send
  reservations. \<open>channel_ok\<close> is its invariant: payload tokens are owned exactly once by queued
  messages and reservations, every message's bytes are in the pool, and every outstanding
  reservation still holds its claim on the queue it was made for. \<open>mailbox\<close> is the abstract view:
  the datagrams waiting at a live endpoint, in order.
\<close>

section \<open>Invariant and view\<close>

definition payload_ok :: "payload_pool \<Rightarrow> payload_token option \<Rightarrow> u32 \<Rightarrow> bool" where
  "payload_ok pool payload len \<longleftrightarrow>
    (case payload of None \<Rightarrow> len = 0 | Some t \<Rightarrow> \<exists>bytes. pool_view pool t = Some bytes \<and> unat len \<le> length bytes)"

definition payload_bytes :: "payload_pool \<Rightarrow> payload_token option \<Rightarrow> u32 \<Rightarrow> u8 list" where
  "payload_bytes pool payload len = (case payload of None \<Rightarrow> [] | Some t \<Rightarrow> take (unat len) (the (pool_view pool t)))"

type_synonym datagram = "u8 list \<times> handle_transfer_batch"

definition datagram_of :: "payload_pool \<Rightarrow> queued_message \<Rightarrow> datagram" where
  "datagram_of pool m = (payload_bytes pool (qm_payload m) (qm_byte_len m), qm_transfers m)"

definition claim_key :: "channel_send_reservation \<Rightarrow> channel_pair_key \<times> channel_side \<times> u64" where
  "claim_key r = (csr_pair r, csr_side r, csr_generation r)"

text \<open>A pair key is never ahead of the generation of its slot.\<close>

definition key_issued :: "channel_authority \<Rightarrow> channel_pair_key \<Rightarrow> bool" where
  "key_issued ca key \<longleftrightarrow> (unat (pk_slot key) < length (ca_pairs ca) \<longrightarrow>
    unat (pk_generation key) \<le> unat (cs_generation (ca_pairs ca ! unat (pk_slot key))))"

lemma key_issued_set_pair [simp]: "key_issued (set_pair ca i x) key \<longleftrightarrow> key_issued ca key"
  by (simp add: key_issued_def)

lemma keyed_pair_issued: "keyed_pair ca key = Ok (i, pair) \<Longrightarrow> key_issued ca key"
  by (auto simp: keyed_pair_Ok_iff key_issued_def)

definition send_pending :: "channel_authority \<Rightarrow> channel_send_reservation \<Rightarrow> bool" where
  "send_pending ca r \<longleftrightarrow> key_issued ca (csr_pair r) \<and> (\<forall>i pair. keyed_pair ca (csr_pair r) = Ok (i, pair) \<longrightarrow>
    pc_endpoints pair (peer (csr_side r)) \<noteq> None \<longrightarrow> csr_generation r \<in> send_claims (pc_inbound pair (peer (csr_side r))))"

definition reserved_tokens :: "channel_send_reservation multiset \<Rightarrow> payload_token multiset" where
  "reserved_tokens R = (\<Sum>r\<in>#R. payload_mset (csr_payload r))"

lemma reserved_tokens_simps [simp]:
  "reserved_tokens {#} = {#}" "reserved_tokens (add_mset r R) = payload_mset (csr_payload r) + reserved_tokens R"
  by (simp_all add: reserved_tokens_def)

definition channel_ok :: "channel_authority \<Rightarrow> payload_pool \<Rightarrow> channel_send_reservation multiset \<Rightarrow> bool" where
  "channel_ok ca pool R \<longleftrightarrow> channel_wf ca \<and>
    pool_owns pool (tokens_of (channel_messages ca) + reserved_tokens R) \<and>
    (\<forall>m\<in>#channel_messages ca. message_fits m \<and> payload_ok pool (qm_payload m) (qm_byte_len m)) \<and>
    (\<forall>r\<in>#R. send_pending ca r \<and> payload_ok pool (csr_payload r) (csr_byte_len r)) \<and>
    (\<forall>k. count (image_mset claim_key R) k \<le> 1)"

definition mailbox :: "channel_authority \<Rightarrow> payload_pool \<Rightarrow> object_id \<Rightarrow> datagram list option" where
  "mailbox ca pool object = (case located_pair ca object of
      Ok (i, side, pair) \<Rightarrow> Some (map (datagram_of pool) (queue_items (pc_inbound pair side)))
    | Err _ \<Rightarrow> None)"

lemma mailbox_at:
  assumes "channel_wf ca" and "lives_at ca object i side" and "cs_pair (ca_pairs ca ! i) = Some pair"
  shows "mailbox ca pool object = Some (map (datagram_of pool) (queue_items (pc_inbound pair side)))"
proof -
  have "located_pair ca object = Ok (i, side, pair)" using located_pair_Ok_iff [OF assms(1)] assms(2,3) by blast
  then show ?thesis by (simp add: mailbox_def)
qed

lemma mailbox_None_iff:
  assumes "channel_wf ca"
  shows "mailbox ca pool object = None \<longleftrightarrow> (\<forall>i side. \<not> lives_at ca object i side)"
proof
  assume none: "mailbox ca pool object = None"
  show "\<forall>i side. \<not> lives_at ca object i side"
  proof (intro allI notI)
    fix i side assume l: "lives_at ca object i side"
    then obtain pair where "cs_pair (ca_pairs ca ! i) = Some pair" by (auto simp: lives_at_def)
    with mailbox_at [OF assms l] none show False by simp
  qed
next
  assume none: "\<forall>i side. \<not> lives_at ca object i side"
  show "mailbox ca pool object = None"
  proof (cases "located_pair ca object")
    case (Ok x)
    then obtain i side pair where "located_pair ca object = Ok (i, side, pair)" by (metis prod.collapse)
    with located_pair_Ok_iff [OF assms] none show ?thesis by blast
  qed (simp add: mailbox_def)
qed

section \<open>Changes of the pool\<close>

definition pool_agrees :: "payload_token multiset \<Rightarrow> payload_pool \<Rightarrow> payload_pool \<Rightarrow> bool" where
  "pool_agrees X pool pool' \<longleftrightarrow> (\<forall>t\<in>#X. pool_view pool' t = pool_view pool t)"

lemma pool_agrees_refl [simp]: "pool_agrees X pool pool"
  by (simp add: pool_agrees_def)

lemma pool_agrees_subset: "pool_agrees X pool pool' \<Longrightarrow> Y \<subseteq># X \<Longrightarrow> pool_agrees Y pool pool'"
  by (auto simp: pool_agrees_def dest: mset_subset_eqD)

lemma payload_agrees:
  assumes "pool_agrees (payload_mset payload) pool pool'"
  shows "payload_ok pool' payload len \<longleftrightarrow> payload_ok pool payload len" "payload_bytes pool' payload len = payload_bytes pool payload len"
  using assms by (cases payload; auto simp: pool_agrees_def payload_ok_def payload_bytes_def)+

lemma pool_agrees_allocated: "pool_owns pool X \<Longrightarrow> allocated pool payload t pool' \<Longrightarrow> pool_agrees X pool pool'"
  by (cases t) (auto simp: pool_agrees_def allocated_def dest: pool_owns_member)

lemma pool_agrees_forget:
  assumes "pool_owns pool (payload_mset payload + X)" and "pool_view pool' = forget (set_option payload) pool"
  shows "pool_agrees X pool pool'"
proof (cases payload)
  case (Some t)
  from assms(1) have "count (payload_mset payload + X) t \<le> (if pool_view pool t = None then 0 else 1)"
    unfolding pool_owns_def by blast
  then have "count (payload_mset payload + X) t \<le> 1" by (simp split: if_splits)
  with Some have "t \<notin># X" by (simp add: not_in_iff)
  with assms(2) Some show ?thesis by (auto simp: pool_agrees_def forget_def)
qed (use assms in \<open>simp add: pool_agrees_def forget_def\<close>)

lemma payload_mset_subset: "m \<in># M \<Longrightarrow> payload_mset (qm_payload m) \<subseteq># tokens_of M"
  by (metis insert_DiffM mset_subset_eq_add_left tokens_of_simps(2))

lemma reserved_mset_subset: "r \<in># R \<Longrightarrow> payload_mset (csr_payload r) \<subseteq># reserved_tokens R"
  by (metis insert_DiffM mset_subset_eq_add_left reserved_tokens_simps(2))

lemma queue_items_messages:
  assumes "i < length (ca_pairs ca)" and "cs_pair (ca_pairs ca ! i) = Some pair"
  shows "mset (queue_items (pc_inbound pair side)) \<subseteq># channel_messages ca"
proof -
  have "channel_messages (set_inbound ca i pair side (byte_queue_new 1)) + mset (queue_items (pc_inbound pair side)) = channel_messages ca"
    using channel_messages_set_inbound [OF assms, of side "byte_queue_new 1"] by simp
  then show ?thesis by (metis mset_subset_eq_add_right)
qed

lemma mailbox_agrees:
  assumes "channel_wf ca" and "pool_agrees (tokens_of (channel_messages ca)) pool pool'"
  shows "mailbox ca pool' = mailbox ca pool"
proof
  fix object
  show "mailbox ca pool' object = mailbox ca pool object"
  proof (cases "mailbox ca pool object")
    case None
    with mailbox_None_iff [OF assms(1)] show ?thesis by metis
  next
    case (Some x)
    then obtain i side where l: "lives_at ca object i side" using mailbox_None_iff [OF assms(1), of pool object] by auto
    then obtain pair where pair: "i < length (ca_pairs ca)" "cs_pair (ca_pairs ca ! i) = Some pair" by (auto simp: lives_at_def)
    have "datagram_of pool' m = datagram_of pool m" if "m \<in> set (queue_items (pc_inbound pair side))" for m
    proof -
      have "m \<in># channel_messages ca" using queue_items_messages [OF pair, of side] that by (auto dest: mset_subset_eqD)
      then have "pool_agrees (payload_mset (qm_payload m)) pool pool'" using payload_mset_subset pool_agrees_subset [OF assms(2)] by blast
      then show ?thesis by (simp add: datagram_of_def payload_agrees)
    qed
    with mailbox_at [OF assms(1) l pair(2)] show ?thesis by simp
  qed
qed

lemma channel_ok_pool:
  assumes "channel_ok ca pool R" and "pool_owns pool' (tokens_of (channel_messages ca) + reserved_tokens R)"
    and "pool_agrees (tokens_of (channel_messages ca) + reserved_tokens R) pool pool'"
  shows "channel_ok ca pool' R \<and> mailbox ca pool' = mailbox ca pool"
proof -
  have m: "pool_agrees (payload_mset (qm_payload m)) pool pool'" if "m \<in># channel_messages ca" for m
    using pool_agrees_subset [OF assms(3)] payload_mset_subset [OF that] by (meson mset_subset_eq_add_left subset_mset.trans)
  have r: "pool_agrees (payload_mset (csr_payload r)) pool pool'" if "r \<in># R" for r
    using pool_agrees_subset [OF assms(3)] reserved_mset_subset [OF that] by (meson mset_subset_eq_add_right subset_mset.trans)
  have "mailbox ca pool' = mailbox ca pool"
    using assms(1) mailbox_agrees pool_agrees_subset [OF assms(3)] by (simp add: channel_ok_def)
  with assms(1,2) payload_agrees(1) [OF m] payload_agrees(1) [OF r] show ?thesis by (auto simp: channel_ok_def)
qed

section \<open>Changes of one queue\<close>

lemma mailbox_set_inbound:
  assumes "channel_wf ca" and "i < length (ca_pairs ca)" and "cs_pair (ca_pairs ca ! i) = Some pair"
    and "queue_wf (ca_depth ca) q"
  shows "mailbox (set_inbound ca i pair side q) pool =
    (case pc_endpoints pair side of
       None \<Rightarrow> mailbox ca pool
     | Some e \<Rightarrow> (mailbox ca pool)(er_object e \<mapsto> map (datagram_of pool) (queue_items q)))" (is "mailbox ?ca pool = ?rhs")
proof
  fix object
  have wf: "channel_wf ?ca" and lives: "\<And>object j s. lives_at ?ca object j s \<longleftrightarrow> lives_at ca object j s"
    using set_inbound_wf [OF assms] by blast+
  have here: "lives_at ca (er_object e) i side" if "pc_endpoints pair side = Some e" for e
    using assms(2,3) that by (auto simp: lives_at_def)
  show "mailbox ?ca pool object = ?rhs object"
  proof (cases "\<exists>j s. lives_at ca object j s")
    case False
    then have "mailbox ?ca pool object = None" "mailbox ca pool object = None"
      using mailbox_None_iff [OF wf] mailbox_None_iff [OF assms(1)] lives by blast+
    with False here show ?thesis by (auto split: option.split)
  next
    case True
    then obtain j s where l: "lives_at ca object j s" by blast
    then obtain p where p: "j < length (ca_pairs ca)" "cs_pair (ca_pairs ca ! j) = Some p" by (auto simp: lives_at_def)
    let ?p = "if j = i then pair\<lparr>pc_inbound := (pc_inbound pair)(side := q)\<rparr> else p"
    have "cs_pair (ca_pairs ?ca ! j) = Some ?p" using p by (simp add: set_inbound_def cs_pair_set_pair)
    with mailbox_at [OF wf, of object j s ?p pool] lives l
    have new: "mailbox ?ca pool object = Some (map (datagram_of pool) (queue_items (pc_inbound ?p s)))" by simp
    show ?thesis
    proof (cases "j = i \<and> s = side")
      case True
      with l assms(3) obtain e where "pc_endpoints pair side = Some e" "er_object e = object" by (auto simp: lives_at_def)
      with new True show ?thesis by simp
    next
      case False
      then have "er_object e \<noteq> object" if "pc_endpoints pair side = Some e" for e
        using here [OF that] lives_at_unique [OF assms(1) l] by auto
      moreover have "pc_inbound ?p s = pc_inbound p s" using False p(2) assms(3) by auto
      ultimately show ?thesis using new mailbox_at [OF assms(1) l p(2)] by (auto split: option.split)
    qed
  qed
qed

lemma send_pending_set_pair:
  assumes "send_pending ca r" and "i < length (ca_pairs ca)" and "cs_pair (ca_pairs ca ! i) = Some pair"
    and "\<And>pair'. x = Some pair' \<Longrightarrow> keyed_pair ca (csr_pair r) = Ok (i, pair) \<Longrightarrow> pc_endpoints pair' (peer (csr_side r)) \<noteq> None \<Longrightarrow>
      pc_endpoints pair (peer (csr_side r)) \<noteq> None \<and>
      (csr_generation r \<in> send_claims (pc_inbound pair (peer (csr_side r))) \<longrightarrow>
       csr_generation r \<in> send_claims (pc_inbound pair' (peer (csr_side r))))"
  shows "send_pending (set_pair ca i x) r"
  unfolding send_pending_def
proof (intro conjI allI impI)
  show "key_issued (set_pair ca i x) (csr_pair r)" using assms(1) by (simp add: send_pending_def)
  fix j p
  assume k: "keyed_pair (set_pair ca i x) (csr_pair r) = Ok (j, p)" and o: "pc_endpoints p (peer (csr_side r)) \<noteq> None"
  then have key: "pk_domain (csr_pair r) = ca_domain ca" "j = unat (pk_slot (csr_pair r))" "j < length (ca_pairs ca)"
    "cs_generation (ca_pairs ca ! j) = pk_generation (csr_pair r)" "(if j = i then x else cs_pair (ca_pairs ca ! j)) = Some p"
    by (auto simp: keyed_pair_Ok_iff cs_pair_set_pair)
  show "csr_generation r \<in> send_claims (pc_inbound p (peer (csr_side r)))"
  proof (cases "j = i")
    case True
    with key assms(3) have old: "keyed_pair ca (csr_pair r) = Ok (i, pair)" "x = Some p" by (auto simp: keyed_pair_Ok_iff)
    with assms(1) assms(4) [OF old(2,1) o] show ?thesis by (auto simp: send_pending_def)
  next
    case False
    with key have "keyed_pair ca (csr_pair r) = Ok (j, p)" by (auto simp: keyed_pair_Ok_iff)
    with assms(1) o show ?thesis by (auto simp: send_pending_def)
  qed
qed

lemma channel_ok_wf: "channel_ok ca pool R \<Longrightarrow> channel_wf ca"
  by (simp add: channel_ok_def)

lemma channel_ok_queue:
  assumes "channel_ok ca pool R" and "i < length (ca_pairs ca)" and "cs_pair (ca_pairs ca ! i) = Some pair"
    and "queue_wf (ca_depth ca) q" and "mset (queue_items q) \<subseteq># mset (queue_items (pc_inbound pair side))"
    and "\<And>r. r \<in># R \<Longrightarrow> keyed_pair ca (csr_pair r) = Ok (i, pair) \<Longrightarrow> peer (csr_side r) = side \<Longrightarrow>
      csr_generation r \<in> send_claims (pc_inbound pair side) \<Longrightarrow> csr_generation r \<in> send_claims q"
  shows "channel_ok (set_inbound ca i pair side q) pool R"
proof -
  let ?ca = "set_inbound ca i pair side q"
  note wf = channel_ok_wf [OF assms(1)]
  have "channel_messages ?ca + mset (queue_items (pc_inbound pair side)) = channel_messages ca + mset (queue_items q)"
    by (rule channel_messages_set_inbound [OF assms(2,3)])
  then have sub: "channel_messages ?ca \<subseteq># channel_messages ca"
    using assms(5) by (metis mset_subset_eq_mono_add_right_cancel subset_mset.add_left_mono)
  then have "tokens_of (channel_messages ?ca) \<subseteq># tokens_of (channel_messages ca)"
    by (metis mset_subset_eq_add_left subset_mset.le_iff_add tokens_of_simps(3))
  then have owns: "pool_owns pool (tokens_of (channel_messages ?ca) + reserved_tokens R)"
    using assms(1) pool_owns_subset unfolding channel_ok_def by (metis subset_mset.add_right_mono)
  have pend: "send_pending ?ca r" if r: "r \<in># R" for r
    unfolding set_inbound_def
  proof (rule send_pending_set_pair [OF _ assms(2,3)])
    show "send_pending ca r" using assms(1) r by (simp add: channel_ok_def)
  qed (use assms(6) [OF r] in auto)
  from wf owns pend sub assms(1) set_inbound_wf [OF wf assms(2-4)] show ?thesis
    by (auto simp: channel_ok_def dest: mset_subset_eqD)
qed

text \<open>Reservations come and go.\<close>

lemma channel_ok_drop:
  assumes "channel_ok ca pool (add_mset r R)"
  shows "channel_ok ca pool R" and "r' \<in># R \<Longrightarrow> claim_key r' \<noteq> claim_key r"
    and "pool_owns pool (payload_mset (csr_payload r) + (tokens_of (channel_messages ca) + reserved_tokens R))"
    and "send_pending ca r" and "payload_ok pool (csr_payload r) (csr_byte_len r)"
proof -
  have counts: "\<forall>k. count (image_mset claim_key (add_mset r R)) k \<le> 1" using assms by (simp add: channel_ok_def)
  show owns: "pool_owns pool (payload_mset (csr_payload r) + (tokens_of (channel_messages ca) + reserved_tokens R))"
    using assms by (simp add: channel_ok_def ac_simps)
  have "count (image_mset claim_key R) k \<le> 1" for k
    using counts [rule_format, of k] by (simp split: if_splits)
  then show "channel_ok ca pool R"
    using assms pool_owns_subset [OF owns] by (auto simp: channel_ok_def)
  show "claim_key r' \<noteq> claim_key r" if "r' \<in># R"
  proof
    assume "claim_key r' = claim_key r"
    then have "claim_key r \<in># image_mset claim_key R" using that by (metis image_eqI set_image_mset)
    then have "0 < count (image_mset claim_key R) (claim_key r)" by simp
    with counts [rule_format, of "claim_key r"] show False by simp
  qed
qed (use assms in \<open>simp_all add: channel_ok_def\<close>)

lemma channel_ok_add:
  assumes "channel_ok ca pool R" and "send_pending ca r" and "payload_ok pool (csr_payload r) (csr_byte_len r)"
    and "pool_owns pool (payload_mset (csr_payload r) + (tokens_of (channel_messages ca) + reserved_tokens R))"
    and "\<And>r'. r' \<in># R \<Longrightarrow> claim_key r' \<noteq> claim_key r"
  shows "channel_ok ca pool (add_mset r R)"
proof -
  have "claim_key r \<notin># image_mset claim_key R" using assms(5) by (metis imageE set_image_mset)
  then have "count (image_mset claim_key R) (claim_key r) = 0" by (simp only: count_eq_zero_iff not_False_eq_True)
  with assms show ?thesis by (auto simp: channel_ok_def ac_simps)
qed

end
