(* ===== verification/Channel_Graph.thy ===== *)
theory Channel_Graph
  imports Channel_View
begin

text \<open>
  The graph of queued channels and the search that keeps it acyclic. An endpoint holds the
  channel endpoints that sit in messages queued at it. \<open>transfer_closes_queue_cycle\<close> searches
  this graph with two bit masks per pair; the lemmas show that it decides reachability of the
  destination from the transferred channels.
\<close>

section \<open>The graph\<close>

definition queue_holds :: "channel_authority \<Rightarrow> object_id \<Rightarrow> object_id \<Rightarrow> bool" where
  "queue_holds ca a b \<longleftrightarrow> (\<exists>i side pair. lives_at ca a i side \<and> cs_pair (ca_pairs ca ! i) = Some pair \<and>
    b \<in> set (queued_channels (pc_inbound pair side)))"

definition message_channels :: "queued_message \<Rightarrow> object_id list" where
  "message_channels m = transfer_objects_of_type (qm_transfers m) DW_OBJECT_TYPE_CHANNEL"

text \<open>The set of endpoint positions a bit mask stands for.\<close>

definition marked :: "u8 list \<Rightarrow> (nat \<times> channel_side) set" where
  "marked bits = {(i, side). i < length bits \<and> bit (bits ! i) (side_index side)}"

lemma marked_set [simp]:
  "i < length bits \<Longrightarrow> marked (bits[i := bits ! i OR side_bit side]) = insert (i, side) (marked bits)"
  by (auto simp: marked_def nth_update_if split: if_splits)

lemma marked_clear [simp]:
  "i < length bits \<Longrightarrow> marked (bits[i := bits ! i AND NOT (side_bit side)]) = marked bits - {(i, side)}"
  by (auto simp: marked_def nth_update_if split: if_splits)

lemma marked_replicate [simp]: "marked (replicate n 0) = {}"
  by (auto simp: marked_def)

lemma marked_bit: "i < length bits \<Longrightarrow> bit (bits ! i) (side_index side) \<longleftrightarrow> (i, side) \<in> marked bits"
  by (simp add: marked_def)

section \<open>The next endpoint\<close>

lemma scan_sides_spec:
  assumes "scan_sides slot sides pending visited = (r, pending', visited')"
    and "slot < length pending" and "length visited = length pending"
  shows "length pending' = length pending \<and> length visited' = length pending \<and>
    marked pending' \<union> marked visited' = marked pending \<union> marked visited \<and>
    (case r of
      None \<Rightarrow> visited' = visited \<and> marked pending' \<subseteq> marked pending \<and> (\<forall>side\<in>set sides. (slot, side) \<notin> marked pending')
    | Some next \<Rightarrow> next \<in> marked pending \<and> marked visited' = insert next (marked visited))"
  using assms
proof (induction sides arbitrary: pending visited)
  case (Cons side rest)
  let ?p = "pending[slot := pending ! slot AND NOT (side_bit side)]"
  let ?v = "visited[slot := visited ! slot OR side_bit side]"
  consider (fresh) "(slot, side) \<in> marked pending" "(slot, side) \<notin> marked visited"
    | (old) "(slot, side) \<in> marked pending" "(slot, side) \<in> marked visited" | (unmarked) "(slot, side) \<notin> marked pending"
    by blast
  then show ?case
  proof cases
    case fresh
    with Cons.prems show ?thesis by (auto simp: Let_def marked_bit)
  next
    case old
    then have "scan_sides slot rest ?p visited = (r, pending', visited')" using Cons.prems by (simp add: Let_def marked_bit)
    from Cons.IH [OF this] old Cons.prems(2,3) show ?thesis by (auto split: option.splits)
  next
    case unmarked
    then have "scan_sides slot rest pending visited = (r, pending', visited')" using Cons.prems by (simp add: Let_def marked_bit)
    from Cons.IH [OF this] unmarked Cons.prems(2,3) show ?thesis by (auto split: option.splits)
  qed
qed simp

lemma scan_pending_spec:
  assumes "scan_pending slots pending visited = (r, pending', visited')"
    and "\<forall>slot\<in>set slots. slot < length pending" and "length visited = length pending"
  shows "length pending' = length pending \<and> length visited' = length pending \<and>
    marked pending' \<union> marked visited' = marked pending \<union> marked visited \<and>
    (case r of
      None \<Rightarrow> visited' = visited \<and> marked pending' \<subseteq> marked pending \<and> (\<forall>slot\<in>set slots. \<forall>side. (slot, side) \<notin> marked pending')
    | Some next \<Rightarrow> next \<in> marked pending \<and> marked visited' = insert next (marked visited))"
  using assms
proof (induction slots arbitrary: pending visited)
  case (Cons slot slots)
  obtain q p1 v1 where s: "scan_sides slot [Zero, One] pending visited = (q, p1, v1)" by (metis prod.collapse)
  have spec: "length p1 = length pending \<and> length v1 = length pending \<and>
    marked p1 \<union> marked v1 = marked pending \<union> marked visited \<and>
    (case q of
      None \<Rightarrow> v1 = visited \<and> marked p1 \<subseteq> marked pending \<and> (\<forall>side\<in>set [Zero, One]. (slot, side) \<notin> marked p1)
    | Some next \<Rightarrow> next \<in> marked pending \<and> marked v1 = insert next (marked visited))"
    by (rule scan_sides_spec [OF s]) (use Cons.prems in auto)
  show ?case
  proof (cases q)
    case (Some "next")
    with s spec Cons.prems(1) show ?thesis by (auto simp del: scan_sides.simps)
  next
    case None
    with s Cons.prems(1) have rest: "scan_pending slots p1 v1 = (r, pending', visited')" by (simp del: scan_sides.simps)
    have none: "(slot, side) \<notin> marked p1" for side using None spec by (cases side) auto
    from None spec Cons.prems(2) have "\<forall>slot\<in>set slots. slot < length p1" "length v1 = length p1" by auto
    from Cons.IH [OF rest this] None spec none show ?thesis by (auto split: option.splits)
  qed
qed simp

section \<open>Marking\<close>

definition positions :: "channel_authority \<Rightarrow> object_id set \<Rightarrow> (nat \<times> channel_side) set" where
  "positions ca objects = {(i, side). \<exists>object\<in>objects. lives_at ca object i side}"

definition live_object :: "channel_authority \<Rightarrow> object_id \<Rightarrow> bool" where
  "live_object ca object \<longleftrightarrow> (\<exists>i side. lives_at ca object i side)"

lemma positions_insert:
  "channel_wf ca \<Longrightarrow> lives_at ca object i side \<Longrightarrow> positions ca (insert object X) = insert (i, side) (positions ca X)"
  by (auto simp: positions_def dest: lives_at_unique)

lemma lives_at_less: "lives_at ca object i side \<Longrightarrow> i < length (ca_pairs ca)"
  by (simp add: lives_at_def)

lemma mark_roots_spec:
  assumes "channel_wf ca" and "length pending = length (ca_pairs ca)"
  shows "case mark_roots ca destination objects pending of
    Ok (True, _) \<Rightarrow> destination \<in> set objects
  | Ok (False, pending') \<Rightarrow> destination \<notin> set objects \<and> (\<forall>object\<in>set objects. live_object ca object) \<and>
      length pending' = length (ca_pairs ca) \<and> marked pending' = marked pending \<union> positions ca (set objects)
  | Err e \<Rightarrow> e = StalePair \<and> (\<exists>object\<in>set objects. \<not> live_object ca object)"
  using assms(2)
proof (induction objects arbitrary: pending)
  case (Cons object rest)
  show ?case
  proof (cases "object = destination")
    case False
    show ?thesis
    proof (cases "locate ca object")
      case (Ok x)
      then obtain i side where x: "locate ca object = Ok (i, side)" by (cases x) auto
      with locate_Ok_iff [OF assms(1)] have l: "lives_at ca object i side" by blast
      with Cons.prems have "i < length pending" by (simp add: lives_at_def)
      with Cons.IH [of "pending[i := pending ! i OR side_bit side]"] Cons.prems x l False show ?thesis
        by (auto simp: positions_insert [OF assms(1) l] live_object_def split: result.splits prod.splits bool.splits)
    next
      case (Err e)
      with locate_Err [OF assms(1) Err] False show ?thesis by (simp add: live_object_def)
    qed
  qed simp
qed (simp add: positions_def)

lemma mark_queued_spec:
  assumes "channel_wf ca" and "length pending = length (ca_pairs ca)" and "length visited = length (ca_pairs ca)"
  shows "case mark_queued ca destination visited objects pending of
    Ok (True, _) \<Rightarrow> destination \<in> set objects
  | Ok (False, pending') \<Rightarrow> destination \<notin> set objects \<and> (\<forall>object\<in>set objects. live_object ca object) \<and>
      length pending' = length (ca_pairs ca) \<and>
      marked pending' = marked pending \<union> (positions ca (set objects) - marked visited)
  | Err e \<Rightarrow> e = StalePair \<and> (\<exists>object\<in>set objects. \<not> live_object ca object)"
  using assms(2)
proof (induction objects arbitrary: pending)
  case (Cons object rest)
  show ?case
  proof (cases "object = destination")
    case False
    show ?thesis
    proof (cases "locate ca object")
      case (Ok x)
      then obtain i side where x: "locate ca object = Ok (i, side)" by (cases x) auto
      with locate_Ok_iff [OF assms(1)] have l: "lives_at ca object i side" by blast
      then have i: "i < length pending" "i < length visited" using Cons.prems assms(3) by (simp_all add: lives_at_def)
      show ?thesis
      proof (cases "(i, side) \<in> marked visited")
        case True
        with Cons.IH [OF Cons.prems] x l False i show ?thesis
          by (auto simp: positions_insert [OF assms(1) l] live_object_def marked_bit
              split: result.splits prod.splits bool.splits)
      next
        case new: False
        with Cons.IH [of "pending[i := pending ! i OR side_bit side]"] Cons.prems x l False i show ?thesis
          by (auto simp: positions_insert [OF assms(1) l] live_object_def marked_bit
              split: result.splits prod.splits bool.splits)
      qed
    next
      case (Err e)
      with locate_Err [OF assms(1) Err] False show ?thesis by (simp add: live_object_def)
    qed
  qed simp
qed (simp add: positions_def)

section \<open>The search\<close>

text \<open>
  The loop invariant: every marked endpoint is reachable from a root, every root is marked, and
  whatever a visited endpoint holds is marked and is not the destination.
\<close>

definition search_inv ::
  "channel_authority \<Rightarrow> object_id \<Rightarrow> object_id set \<Rightarrow> u8 list \<Rightarrow> u8 list \<Rightarrow> bool" where
  "search_inv ca destination roots pending visited \<longleftrightarrow>
    length pending = length (ca_pairs ca) \<and> length visited = length (ca_pairs ca) \<and>
    (\<forall>(i, side)\<in>marked pending \<union> marked visited. \<exists>r\<in>roots. \<exists>object. (queue_holds ca)\<^sup>*\<^sup>* r object \<and> lives_at ca object i side) \<and>
    destination \<notin> roots \<and> (\<forall>r\<in>roots. live_object ca r) \<and> positions ca roots \<subseteq> marked pending \<union> marked visited \<and>
    (\<forall>(i, side)\<in>marked visited. \<forall>object. lives_at ca object i side \<longrightarrow> object \<noteq> destination \<and>
      (\<forall>b. queue_holds ca object b \<longrightarrow> b \<noteq> destination \<and> live_object ca b \<and>
        positions ca {b} \<subseteq> marked pending \<union> marked visited))"

lemma search_invD:
  assumes "search_inv ca destination roots pending visited"
  shows "length pending = length (ca_pairs ca)" and "length visited = length (ca_pairs ca)"
    and "(i, side) \<in> marked pending \<union> marked visited \<Longrightarrow>
      \<exists>r\<in>roots. \<exists>object. (queue_holds ca)\<^sup>*\<^sup>* r object \<and> lives_at ca object i side"
    and "r \<in> roots \<Longrightarrow> r \<noteq> destination \<and> live_object ca r \<and> positions ca {r} \<subseteq> marked pending \<union> marked visited"
    and "(i, side) \<in> marked visited \<Longrightarrow> lives_at ca object i side \<Longrightarrow> object \<noteq> destination"
    and "(i, side) \<in> marked visited \<Longrightarrow> lives_at ca object i side \<Longrightarrow> queue_holds ca object b \<Longrightarrow>
      b \<noteq> destination \<and> live_object ca b \<and> positions ca {b} \<subseteq> marked pending \<union> marked visited"
proof -
  have "positions ca {r} \<subseteq> positions ca roots" if "r \<in> roots" for r using that by (auto simp: positions_def)
  with assms show "r \<in> roots \<Longrightarrow> r \<noteq> destination \<and> live_object ca r \<and> positions ca {r} \<subseteq> marked pending \<union> marked visited"
    unfolding search_inv_def by blast
qed (use assms in \<open>unfold search_inv_def, blast+\<close>)

lemma search_complete:
  assumes "search_inv ca destination roots pending visited" and "marked pending \<subseteq> marked visited"
    and "r \<in> roots" and "(queue_holds ca)\<^sup>*\<^sup>* r object"
  shows "object \<noteq> destination \<and> live_object ca object \<and> positions ca {object} \<subseteq> marked visited"
  using assms(4)
proof (induction rule: rtranclp_induct)
  case base
  from search_invD(4) [OF assms(1,3)] assms(2) show ?case by blast
next
  case (step a b)
  then obtain i side where l: "lives_at ca a i side" by (auto simp: live_object_def)
  with step.IH have "(i, side) \<in> marked visited" by (auto simp: positions_def)
  from search_invD(6) [OF assms(1) this l step.hyps(2)] assms(2) show ?case by blast
qed

lemma queue_holds_at:
  assumes "channel_wf ca" and "lives_at ca object i side" and "cs_pair (ca_pairs ca ! i) = Some pair"
  shows "queue_holds ca object b \<longleftrightarrow> b \<in> set (queued_channels (pc_inbound pair side))"
proof
  assume "queue_holds ca object b"
  then obtain j s p where h: "lives_at ca object j s" "cs_pair (ca_pairs ca ! j) = Some p" "b \<in> set (queued_channels (pc_inbound p s))"
    unfolding queue_holds_def by blast
  from lives_at_unique [OF assms(1,2) h(1)] h(2,3) assms(3) show "b \<in> set (queued_channels (pc_inbound pair side))" by simp
qed (use assms(2,3) in \<open>unfold queue_holds_def, blast\<close>)

lemma search_step:
  assumes "channel_wf ca" and inv: "search_inv ca destination roots pending visited"
    and scan: "scan_pending [0..<length visited] pending visited = (Some (i, side), pending', visited')"
    and l: "lives_at ca object i side" and pair: "cs_pair (ca_pairs ca ! i) = Some pair" and "object \<noteq> destination"
    and mark: "mark_queued ca destination visited' (queued_channels (pc_inbound pair side)) pending' = Ok (False, pending'')"
  shows "search_inv ca destination roots pending'' visited'"
proof -
  note D = search_invD [OF inv]
  have len: "\<forall>slot\<in>set [0..<length visited]. slot < length pending" "length visited = length pending" using D(1,2) by auto
  have sc: "length pending' = length (ca_pairs ca)" "length visited' = length (ca_pairs ca)"
    "marked pending' \<union> marked visited' = marked pending \<union> marked visited"
    "(i, side) \<in> marked pending" "marked visited' = insert (i, side) (marked visited)"
    using scan_pending_spec [OF scan len] D(1,2) by auto
  let ?Q = "set (queued_channels (pc_inbound pair side))"
  have mq: "destination \<notin> ?Q" "\<forall>b\<in>?Q. live_object ca b" "length pending'' = length (ca_pairs ca)"
    "marked pending'' = marked pending' \<union> (positions ca ?Q - marked visited')"
    using mark_queued_spec [OF assms(1) sc(1,2), of destination "queued_channels (pc_inbound pair side)"] mark by auto
  have all: "marked pending'' \<union> marked visited' = marked pending \<union> marked visited \<union> positions ca ?Q"
    using mq(4) sc(3) by blast
  obtain r where r: "r \<in> roots" "(queue_holds ca)\<^sup>*\<^sup>* r object"
    using D(3) [of i side] sc(4) lives_at_unique [OF assms(1) l] l by (metis UnI1 lives_at_def option.inject)
  have reach: "\<exists>r\<in>roots. \<exists>b. (queue_holds ca)\<^sup>*\<^sup>* r b \<and> lives_at ca b j s" if "(j, s) \<in> positions ca ?Q" for j s
  proof -
    from that obtain b where b: "b \<in> ?Q" "lives_at ca b j s" by (auto simp: positions_def)
    with queue_holds_at [OF assms(1) l pair] r(2) have "(queue_holds ca)\<^sup>*\<^sup>* r b" by (meson rtranclp.rtrancl_into_rtrancl)
    with b r(1) show ?thesis by blast
  qed
  have closed: "b \<noteq> destination \<and> live_object ca b \<and> positions ca {b} \<subseteq> marked pending'' \<union> marked visited'"
    if "(j, s) \<in> marked visited'" "lives_at ca a j s" "queue_holds ca a b" for j s a b
  proof (cases "(j, s) = (i, side)")
    case True
    with that(2,3) l pair queue_holds_at [OF assms(1)] have "b \<in> ?Q" by simp
    moreover have "positions ca {b} \<subseteq> positions ca ?Q" using calculation by (auto simp: positions_def)
    ultimately show ?thesis using mq(1,2) all by blast
  next
    case False
    with that(1) sc(5) have "(j, s) \<in> marked visited" by blast
    from D(6) [OF this that(2,3)] all show ?thesis by blast
  qed
  have other: "a \<noteq> destination" if "(j, s) \<in> marked visited'" "lives_at ca a j s" for j s a
  proof (cases "(j, s) = (i, side)")
    case True
    with that(2) l have "a = object" by (auto simp: lives_at_def)
    with assms(6) show ?thesis by simp
  qed (use that D(5) sc(5) in blast)
  show ?thesis
    unfolding search_inv_def
  proof (intro conjI)
    show "\<forall>(j, s)\<in>marked pending'' \<union> marked visited'. \<exists>r\<in>roots. \<exists>object. (queue_holds ca)\<^sup>*\<^sup>* r object \<and> lives_at ca object j s"
      unfolding all using D(3) reach by blast
    show "\<forall>(j, s)\<in>marked visited'. \<forall>a. lives_at ca a j s \<longrightarrow> a \<noteq> destination \<and>
        (\<forall>b. queue_holds ca a b \<longrightarrow> b \<noteq> destination \<and> live_object ca b \<and> positions ca {b} \<subseteq> marked pending'' \<union> marked visited')"
      by (intro ballI, simp only: split_paired_all prod.case, intro allI impI conjI) (use closed other in blast)+
    show "positions ca roots \<subseteq> marked pending'' \<union> marked visited'" using inv all by (auto simp: search_inv_def)
  qed (use D(4) mq(3) sc(2) in auto)
qed

lemma cycle_loop_spec:
  assumes "channel_wf ca" and "search_inv ca destination roots pending visited"
  shows "case cycle_loop ca destination pending visited of
    Ok found \<Rightarrow> found = (\<exists>r\<in>roots. (queue_holds ca)\<^sup>*\<^sup>* r destination)
  | Err e \<Rightarrow> e = StalePair \<and> (\<exists>r\<in>roots. \<exists>x. (queue_holds ca)\<^sup>*\<^sup>* r x \<and> \<not> live_object ca x)"
  using assms
proof (induction ca destination pending visited rule: cycle_loop.induct)
  case (1 ca destination pending visited)
  note D = search_invD [OF "1.prems"(2)]
  obtain q pending' visited' where scan: "scan_pending [0..<length visited] pending visited = (q, pending', visited')"
    by (metis prod.collapse)
  have len: "\<forall>slot\<in>set [0..<length visited]. slot < length pending" "length visited = length pending" using D(1,2) by auto
  note spec = scan_pending_spec [OF scan len]
  show ?case
  proof (cases q)
    case None
    with spec len have "marked pending' = {}" by (fastforce simp: marked_def)
    with spec None have "marked pending \<subseteq> marked visited" by auto
    with search_complete [OF "1.prems"(2)] have "\<not> (\<exists>r\<in>roots. (queue_holds ca)\<^sup>*\<^sup>* r destination)" by blast
    with None scan show ?thesis by (simp add: cycle_loop.simps)
  next
    case (Some pos)
    then obtain i side where q: "q = Some (i, side)" by (cases pos) auto
    with spec have "(i, side) \<in> marked pending" by simp
    with D(3) obtain r object where r: "r \<in> roots" "(queue_holds ca)\<^sup>*\<^sup>* r object" and l: "lives_at ca object i side" by blast
    obtain pair e where pair: "cs_pair (ca_pairs ca ! i) = Some pair" "pc_endpoints pair side = Some e" "er_object e = object"
      using l by (auto simp: lives_at_def)
    note holds = queue_holds_at [OF "1.prems"(1) l pair(1)]
    show ?thesis
    proof (cases "object = destination")
      case True
      with scan q pair r show ?thesis by (auto simp: cycle_loop.simps)
    next
      case False
      let ?m = "mark_queued ca destination visited' (queued_channels (pc_inbound pair side)) pending'"
      have unfold: "cycle_loop ca destination pending visited =
        (case ?m of Err e \<Rightarrow> Err e | Ok (True, _) \<Rightarrow> Ok True | Ok (False, pending'') \<Rightarrow> cycle_loop ca destination pending'' visited')"
        using scan q pair False by (simp add: cycle_loop.simps [of ca destination pending visited])
      have m: "case ?m of Ok (True, _) \<Rightarrow> queue_holds ca object destination
        | Ok (False, _) \<Rightarrow> True | Err e \<Rightarrow> e = StalePair \<and> (\<exists>b. queue_holds ca object b \<and> \<not> live_object ca b)"
        using mark_queued_spec [OF "1.prems"(1), of pending' visited' destination "queued_channels (pc_inbound pair side)"]
          spec D(1,2) holds by (auto split: result.splits prod.splits bool.splits)
      show ?thesis
      proof (cases ?m)
        case (Err e)
        with m r unfold show ?thesis by simp (meson rtranclp.rtrancl_into_rtrancl)
      next
        case (Ok x)
        obtain found pending'' where x: "x = (found, pending'')" by fastforce
        show ?thesis
        proof (cases found)
          case True
          with m r unfold Ok x show ?thesis by simp (meson rtranclp.rtrancl_into_rtrancl)
        next
          case nf: False
          have "search_inv ca destination roots pending'' visited'"
            by (rule search_step [OF "1.prems" _ l pair(1) False]) (use scan q Ok x nf in auto)
          from "1.IH" [OF _ _ _ _ pair(1,2) _ Ok x [symmetric] _ "1.prems"(1) this] scan q False pair(3) nf unfold Ok x
          show ?thesis by simp
        qed
      qed
    qed
  qed
qed

lemma transfer_closes_queue_cycle_spec:
  assumes "channel_wf ca"
  shows "case transfer_closes_queue_cycle ca destination objects of
    Ok found \<Rightarrow> found = (\<exists>r\<in>set objects. (queue_holds ca)\<^sup>*\<^sup>* r destination)
  | Err e \<Rightarrow> e = StalePair \<and> (\<exists>r\<in>set objects. \<exists>x. (queue_holds ca)\<^sup>*\<^sup>* r x \<and> \<not> live_object ca x)"
proof -
  let ?none = "replicate (length (ca_pairs ca)) 0 :: u8 list"
  have m: "case mark_roots ca destination objects ?none of
    Ok (True, _) \<Rightarrow> destination \<in> set objects
  | Ok (False, pending') \<Rightarrow> destination \<notin> set objects \<and> (\<forall>object\<in>set objects. live_object ca object) \<and>
      length pending' = length (ca_pairs ca) \<and> marked pending' = marked ?none \<union> positions ca (set objects)
  | Err e \<Rightarrow> e = StalePair \<and> (\<exists>object\<in>set objects. \<not> live_object ca object)"
    by (rule mark_roots_spec [OF assms]) simp
  show ?thesis
  proof (cases "mark_roots ca destination objects ?none")
    case (Err e)
    with m show ?thesis by (auto simp: transfer_closes_queue_cycle_def)
  next
    case (Ok x)
    obtain found pending where x: "x = (found, pending)" by fastforce
    show ?thesis
    proof (cases found)
      case True
      with m Ok x show ?thesis by (auto simp: transfer_closes_queue_cycle_def)
    next
      case False
      with m Ok x have "search_inv ca destination (set objects) pending ?none"
        unfolding search_inv_def by (auto simp: positions_def)
      from cycle_loop_spec [OF assms this] Ok x False show ?thesis by (simp add: transfer_closes_queue_cycle_def)
    qed
  qed
qed

section \<open>Acyclicity\<close>

text \<open>No endpoint holds itself, directly or through the endpoints it holds.\<close>

definition queues_acyclic :: "channel_authority \<Rightarrow> bool" where
  "queues_acyclic ca \<longleftrightarrow> (\<forall>object. \<not> (queue_holds ca)\<^sup>+\<^sup>+ object object)"

lemma queues_acyclic_mono:
  assumes "queues_acyclic ca" and "\<And>a b. queue_holds ca' a b \<Longrightarrow> queue_holds ca a b"
  shows "queues_acyclic ca'"
proof -
  have "(queue_holds ca)\<^sup>+\<^sup>+ a b" if "(queue_holds ca')\<^sup>+\<^sup>+ a b" for a b
    using that by induction (blast intro: assms(2) tranclp.intros)+
  with assms(1) show ?thesis unfolding queues_acyclic_def by blast
qed

text \<open>A node that gains edges to nodes from which it cannot be reached closes no cycle.\<close>

lemma new_edges_path:
  assumes "\<And>a b. R' a b \<Longrightarrow> R a b \<or> a = d \<and> b \<in> T" and "R'\<^sup>*\<^sup>* a b"
  shows "R\<^sup>*\<^sup>* a b \<or> (R\<^sup>*\<^sup>* a d \<and> (\<exists>t\<in>T. R\<^sup>*\<^sup>* t b))"
  using assms(2)
proof (induction rule: rtranclp_induct)
  case (step b c)
  from assms(1) [OF step.hyps(2)] step.IH show ?case by (meson rtranclp.rtrancl_into_rtrancl rtranclp.rtrancl_refl)
qed simp

lemma new_edges_acyclic:
  assumes "\<And>a. \<not> R\<^sup>+\<^sup>+ a a" and "\<And>a b. R' a b \<Longrightarrow> R a b \<or> a = d \<and> b \<in> T" and "\<And>t. t \<in> T \<Longrightarrow> \<not> R\<^sup>*\<^sup>* t d"
  shows "\<not> R'\<^sup>+\<^sup>+ a a"
proof
  assume "R'\<^sup>+\<^sup>+ a a"
  then obtain b where b: "R' a b" "R'\<^sup>*\<^sup>* b a" by (meson tranclpD)
  note path = new_edges_path [OF assms(2) b(2)]
  show False
  proof (cases "R a b")
    case True
    then have "\<not> R\<^sup>*\<^sup>* b a" using assms(1) by (meson rtranclp_into_tranclp2)
    with path obtain t where "R\<^sup>*\<^sup>* b d" "t \<in> T" "R\<^sup>*\<^sup>* t a" by blast
    with True have "R\<^sup>*\<^sup>* t d" by (meson converse_rtranclp_into_rtranclp rtranclp_trans)
    with assms(3) \<open>t \<in> T\<close> show False by blast
  next
    case False
    with assms(2) [OF b(1)] have "a = d" "b \<in> T" by auto
    with path assms(3) show False by blast
  qed
qed

end
