(* ===== verification/Channel_Transactions.thy ===== *)
theory Channel_Transactions
  imports Channel_State Channel_Graph
begin

text \<open>
  What the operations of the channel authority do to the invariant and the mailboxes, one lemma
  per operation and branch. Reserving and cancelling leave every mailbox, signal and edge of the
  queue graph alone or only take the capacity of one queue; committing appends one datagram;
  receiving removes the first; finalizing an endpoint drains its mailbox.
\<close>

section \<open>Indistinguishable authorities\<close>

text \<open>
  \<open>similar\<close>: one queue was replaced by one with the same messages and claims; \<open>alike\<close>: and with the
  same receive reservation.
\<close>

definition similar :: "channel_authority \<Rightarrow> channel_authority \<Rightarrow> bool" where
  "similar ca ca' \<longleftrightarrow> ca' = ca \<or> (\<exists>i pair side q. i < length (ca_pairs ca) \<and> cs_pair (ca_pairs ca ! i) = Some pair \<and>
    ca' = set_inbound ca i pair side q \<and> queue_wf (ca_depth ca) q \<and>
    queue_items q = queue_items (pc_inbound pair side) \<and> send_claims q = send_claims (pc_inbound pair side))"

definition alike :: "channel_authority \<Rightarrow> channel_authority \<Rightarrow> bool" where
  "alike ca ca' \<longleftrightarrow> ca' = ca \<or> (\<exists>i pair side q. i < length (ca_pairs ca) \<and> cs_pair (ca_pairs ca ! i) = Some pair \<and>
    ca' = set_inbound ca i pair side q \<and> queue_wf (ca_depth ca) q \<and>
    queue_items q = queue_items (pc_inbound pair side) \<and> send_claims q = send_claims (pc_inbound pair side) \<and>
    bq_receive_reservation q = bq_receive_reservation (pc_inbound pair side))"

lemma alike_refl [simp]: "alike ca ca" "similar ca ca"
  by (simp_all add: alike_def similar_def)

lemma alike_similar: "alike ca ca' \<Longrightarrow> similar ca ca'"
  unfolding alike_def similar_def by blast

lemma set_flatten_options [simp]: "m \<in> set (flatten_options xs) \<longleftrightarrow> Some m \<in> set xs"
  by (induction xs) (auto simp: flatten_options_def split: option.splits)

lemma queued_channels_items:
  assumes "queue_wf depth q"
  shows "set (queued_channels q) = (\<Union>m\<in>set (queue_items q). set (message_channels m))"
proof -
  have len: "length (bq_descriptors q) = depth" "bq_head q < depth" "bq_len q \<le> depth" using assms by (auto simp: queue_wf_def)
  have ring: "ring_at q k \<noteq> None \<longleftrightarrow> k < bq_len q" if "k < depth" for k using assms that by (simp add: queue_wf_def)
  have "set (flatten_options (bq_descriptors q)) = set (queue_items q)"
  proof (intro equalityI subsetI)
    fix m assume "m \<in> set (flatten_options (bq_descriptors q))"
    then have "Some m \<in> set (bq_descriptors q)" by simp
    then obtain j where j: "j < depth" "bq_descriptors q ! j = Some m" unfolding in_set_conv_nth len(1) by blast
    define k where "k = (j + depth - bq_head q) mod depth"
    have k: "k < depth" "(bq_head q + k) mod depth = j"
      using j(1) len(2) by (auto simp: k_def mod_simps)
    then have "ring_at q k = Some m" using j(2) len(1) by (simp add: ring_at_def)
    with ring [OF k(1)] show "m \<in> set (queue_items q)" by (force simp: queue_items_def)
  next
    fix m assume "m \<in> set (queue_items q)"
    then obtain k where k: "k < bq_len q" "m = the (ring_at q k)" by (auto simp: queue_items_def)
    then have "ring_at q k = Some m" using ring [of k] len(3) by (metis less_le_trans option.collapse)
    moreover have "(bq_head q + k) mod depth < depth" using len(2) by simp
    ultimately have "Some m \<in> set (bq_descriptors q)" using len(1) unfolding ring_at_def by (metis nth_mem)
    then show "m \<in> set (flatten_options (bq_descriptors q))" by simp
  qed
  then show ?thesis by (auto simp: queued_channels_def message_channels_def)
qed

lemma signals_for_pair_cong:
  assumes "pc_endpoints pair' = pc_endpoints pair"
    and "\<And>s. queue_is_empty (pc_inbound pair' s) = queue_is_empty (pc_inbound pair s)"
    and "\<And>s. has_minimal_capacity (pc_inbound pair' s) = has_minimal_capacity (pc_inbound pair s)"
  shows "signals_for_pair pair' side = signals_for_pair pair side"
  using assms by (simp add: signals_for_pair_def)

lemma queue_is_empty_items: "queue_is_empty q \<longleftrightarrow> queue_items q = []"
  by (metis length_0_conv length_queue_items queue_is_empty_def)

lemma queue_alike_signals:
  assumes "queue_wf depth q" and "queue_wf depth q'" and "queue_items q' = queue_items q" and "send_claims q' = send_claims q"
  shows "queue_is_empty q' = queue_is_empty q" and "has_minimal_capacity q' = has_minimal_capacity q"
proof -
  have "bq_len q' = bq_len q" using assms(3) by (metis length_queue_items)
  with assms show "has_minimal_capacity q' = has_minimal_capacity q"
    using queue_wf_capacity [OF assms(1)] queue_wf_capacity [OF assms(2)] by simp
qed (simp add: queue_is_empty_items assms(3))

lemma similar_facts:
  assumes "channel_wf ca" and "similar ca ca'"
  shows "channel_wf ca' \<and> (lives_at ca' object i side \<longleftrightarrow> lives_at ca object i side) \<and>
    mailbox ca' pool = mailbox ca pool \<and> channel_signals ca' = channel_signals ca \<and>
    (queue_holds ca' a b \<longleftrightarrow> queue_holds ca a b) \<and> ca_domain ca' = ca_domain ca \<and> ca_depth ca' = ca_depth ca"
proof (cases "ca' = ca")
  case False
  with assms(2) obtain j pair s q where u: "j < length (ca_pairs ca)" "cs_pair (ca_pairs ca ! j) = Some pair"
    "ca' = set_inbound ca j pair s q" and q: "queue_wf (ca_depth ca) q"
    "queue_items q = queue_items (pc_inbound pair s)" "send_claims q = send_claims (pc_inbound pair s)"
    by (auto simp: similar_def)
  let ?pair = "pair\<lparr>pc_inbound := (pc_inbound pair)(s := q)\<rparr>"
  have pw: "queue_wf (ca_depth ca) (pc_inbound pair t)" for t
    using channel_wf_pair [OF assms(1) u(1,2)] by (simp add: pair_wf_def)
  have wf': "channel_wf ca'" and lives: "lives_at ca' object j t \<longleftrightarrow> lives_at ca object j t" for object j t
    using set_inbound_wf [OF assms(1) u(1,2) q(1)] u(3) by blast+
  have pair': "cs_pair (ca_pairs ca' ! k) = (if k = j then Some ?pair else cs_pair (ca_pairs ca ! k))"
    if "k < length (ca_pairs ca)" for k using that u(3) by (simp add: set_inbound_def cs_pair_set_pair)
  have sig: "signals_for_pair ?pair t = signals_for_pair pair t" for t
    by (rule signals_for_pair_cong) (use queue_alike_signals [OF pw q] in auto)
  have "(\<exists>p. cs_pair (ca_pairs ca' ! k) = Some p \<and> signals_for_pair p t = Ok x) \<longleftrightarrow>
      (\<exists>p. cs_pair (ca_pairs ca ! k) = Some p \<and> signals_for_pair p t = Ok x)" if "lives_at ca object k t" for object k t x
    using pair' [OF lives_at_less [OF that]] u(2) sig by (cases "k = j") auto
  then have "channel_signals ca' object = Some x \<longleftrightarrow> channel_signals ca object = Some x" for object x
    unfolding channel_signals_Some_iff [OF wf'] channel_signals_Some_iff [OF assms(1)] lives by blast
  then have "channel_signals ca' = channel_signals ca" by (metis ext option.exhaust)
  moreover have "mailbox ca' pool = mailbox ca pool"
  proof (cases "pc_endpoints pair s")
    case (Some e)
    then have "lives_at ca (er_object e) j s" using u by (auto simp: lives_at_def)
    with mailbox_at [OF assms(1) this u(2)] have "mailbox ca pool (er_object e) = Some (map (datagram_of pool) (queue_items q))"
      by (simp add: q(2))
    with Some mailbox_set_inbound [OF assms(1) u(1,2) q(1)] u(3) show ?thesis by (auto simp: fun_upd_idem)
  qed (use mailbox_set_inbound [OF assms(1) u(1,2) q(1)] u(3) in simp)
  moreover have "(\<exists>p. cs_pair (ca_pairs ca' ! k) = Some p \<and> b \<in> set (queued_channels (pc_inbound p t))) \<longleftrightarrow>
      (\<exists>p. cs_pair (ca_pairs ca ! k) = Some p \<and> b \<in> set (queued_channels (pc_inbound p t)))" if "lives_at ca a k t" for a b k t
    using pair' [OF lives_at_less [OF that]] u(2) queued_channels_items [OF pw, of t] queued_channels_items [OF q(1)] q(2)
    by (cases "k = j") auto
  then have "queue_holds ca' a b \<longleftrightarrow> queue_holds ca a b" for a b unfolding queue_holds_def lives by blast
  ultimately show ?thesis using wf' lives u(3) by (simp add: set_inbound_def)
qed (use assms in simp)

lemma similar_same:
  assumes "channel_wf ca" and "similar ca ca'"
  shows "channel_wf ca'" and "lives_at ca' object i side \<longleftrightarrow> lives_at ca object i side"
    and "mailbox ca' pool = mailbox ca pool" and "channel_signals ca' = channel_signals ca"
    and "queue_holds ca' a b \<longleftrightarrow> queue_holds ca a b" and "ca_domain ca' = ca_domain ca" and "ca_depth ca' = ca_depth ca"
  using similar_facts [OF assms] by blast+

section \<open>Reserving a send\<close>

lemma key_of_slot:
  assumes "i < length (ca_pairs ca)" and "i < 2 ^ 16" and "cs_pair (ca_pairs ca ! i) = Some pair"
  shows "keyed_pair ca \<lparr>pk_domain = ca_domain ca, pk_slot = of_nat i, pk_generation = cs_generation (ca_pairs ca ! i)\<rparr> = Ok (i, pair)"
  using assms by (simp add: keyed_pair_Ok_iff unat_of_nat take_bit_nat_eq_self)

text \<open>
  The effect of a granted reservation: the peer's queue keeps its messages and gains a fresh
  claim, the payload sits in the pool.
\<close>

definition send_granted ::
  "channel_authority \<Rightarrow> payload_pool \<Rightarrow> object_id \<Rightarrow> u8 list \<Rightarrow> channel_send_reservation \<Rightarrow> channel_authority \<Rightarrow> payload_pool \<Rightarrow> bool" where
  "send_granted ca pool endpoint payload r ca' pool' \<longleftrightarrow> (\<exists>i side pair e q. lives_at ca endpoint i side \<and> i < 2 ^ 16 \<and>
    cs_pair (ca_pairs ca ! i) = Some pair \<and> pc_endpoints pair (peer side) = Some e \<and>
    has_minimal_capacity (pc_inbound pair (peer side)) \<and>
    queue_wf (ca_depth ca) q \<and> queue_items q = queue_items (pc_inbound pair (peer side)) \<and>
    csr_generation r \<notin> send_claims (pc_inbound pair (peer side)) \<and>
    send_claims q = insert (csr_generation r) (send_claims (pc_inbound pair (peer side))) \<and>
    bq_receive_reservation q = bq_receive_reservation (pc_inbound pair (peer side)) \<and>
    ca' = set_inbound ca i pair (peer side) q \<and> csr_side r = side \<and>
    csr_pair r = \<lparr>pk_domain = ca_domain ca, pk_slot = of_nat i, pk_generation = cs_generation (ca_pairs ca ! i)\<rparr> \<and>
    unat (csr_byte_len r) = length payload \<and> allocated pool payload (csr_payload r) pool')"

text \<open>The conditions under which a send is refused, by error.\<close>

definition send_refused :: "channel_authority \<Rightarrow> object_id \<Rightarrow> u8 list \<Rightarrow> channel_error \<Rightarrow> bool" where
  "send_refused ca endpoint payload e \<longleftrightarrow>
    (case e of
       InvalidArgument \<Rightarrow> DW_CHANNEL_MAX_PAYLOAD < length payload
     | InvalidEndpoint \<Rightarrow> \<not> live_object ca endpoint
     | PeerClosed \<Rightarrow> \<exists>i side pair. lives_at ca endpoint i side \<and> cs_pair (ca_pairs ca ! i) = Some pair \<and> pc_endpoints pair (peer side) = None
     | WouldBlock \<Rightarrow> \<exists>i side pair. lives_at ca endpoint i side \<and> cs_pair (ca_pairs ca ! i) = Some pair \<and>
         \<not> has_minimal_capacity (pc_inbound pair (peer side))
     | PayloadExhausted \<Rightarrow> payload \<noteq> []
     | ChannelCapacity \<Rightarrow> live_object ca endpoint
     | _ \<Rightarrow> False)"

definition send_answered ::
  "channel_authority \<Rightarrow> payload_pool \<Rightarrow> object_id \<Rightarrow> u8 list \<Rightarrow>
   (channel_send_reservation, channel_error) result \<times> channel_authority \<times> payload_pool \<Rightarrow> bool" where
  "send_answered ca pool endpoint payload = (\<lambda>(res, ca', pool').
    case res of
      Ok r \<Rightarrow> send_granted ca pool endpoint payload r ca' pool' \<and> length payload \<le> DW_CHANNEL_MAX_PAYLOAD
    | Err e \<Rightarrow> alike ca ca' \<and> pool' = pool \<and> send_refused ca endpoint payload e)"

lemma reserve_send_located:
  assumes wf: "channel_wf ca" and pool: "pool_wf pool" and len: "length payload \<le> DW_CHANNEL_MAX_PAYLOAD"
    and l: "lives_at ca endpoint i side" "cs_pair (ca_pairs ca ! i) = Some pair" "pc_endpoints pair (peer side) = Some e"
  shows "\<exists>a. channel_reserve_send ca pool endpoint payload = Some a \<and> send_answered ca pool endpoint payload a"
proof -
  let ?q = "pc_inbound pair (peer side)"
  have loc: "located_pair ca endpoint = Ok (i, side, pair)" using located_pair_Ok_iff [OF wf] l by blast
  obtain i16: "i < 2 ^ 16" and i: "i < length (ca_pairs ca)" and pw: "pair_wf ca i pair"
    using lives_at_pair [OF wf l(1)] l(2) by (metis option.inject)
  have qw: "queue_wf (ca_depth ca) ?q" using pw by (simp add: pair_wf_def)
  have live: "live_object ca endpoint" using l(1) unfolding live_object_def by blast
  have full: "send_refused ca endpoint payload WouldBlock" if "\<not> has_minimal_capacity ?q"
    using that l unfolding send_refused_def channel_error.case by blast
  obtain g q1 where g: "queue_reserve_send ?q = (g, q1)" by fastforce
  show ?thesis
  proof (cases g)
    case (Err err)
    with queue_reserve_send_spec [OF qw] g have "err = WouldBlock \<and> \<not> has_minimal_capacity ?q \<or> err = ChannelCapacity" by simp
    then have "send_refused ca endpoint payload err" using full live by (auto simp: send_refused_def)
    with Err g len loc l(3) show ?thesis by (simp add: channel_reserve_send_def send_answered_def)
  next
    case g': (Ok gen)
    then have q1: "queue_wf (ca_depth ca) q1" "has_minimal_capacity ?q" "gen \<notin> send_claims ?q"
      "send_claims q1 = insert gen (send_claims ?q)" "queue_items q1 = queue_items ?q"
      "bq_receive_reservation q1 = bq_receive_reservation ?q"
      using queue_reserve_send_spec [OF qw] g by simp_all
    obtain a pool' where a: "allocate pool payload = Some (a, pool')"
      "case a of Ok t \<Rightarrow> allocated pool payload t pool' | Err e \<Rightarrow> e = PayloadExhausted \<and> pool' = pool"
      using allocate_spec [OF pool, of payload] len by auto
    show ?thesis
    proof (cases a)
      case (Err err)
      then have "err = PayloadExhausted" "pool' = pool" "payload \<noteq> []" using a by (auto simp: allocate_def)
      moreover obtain q2 where q2: "queue_cancel_send q1 gen = (Ok (), q2)" "queue_wf (ca_depth ca) q2"
        "queue_items q2 = queue_items ?q" "send_claims q2 = send_claims ?q"
        "bq_receive_reservation q2 = bq_receive_reservation ?q"
        using queue_cancel_send_claimed [OF q1(1), of gen] q1(3-6) by auto
      moreover have "alike ca (set_inbound ca i pair (peer side) q2)" unfolding alike_def using i l(2) q2 by blast
      ultimately show ?thesis
        using Err g g' len loc l(3) a by (simp add: channel_reserve_send_def send_answered_def send_refused_def)
    next
      case t: (Ok t)
      let ?r = "\<lparr>csr_pair = \<lparr>pk_domain = ca_domain ca, pk_slot = of_nat i, pk_generation = cs_generation (ca_pairs ca ! i)\<rparr>,
        csr_side = side, csr_generation = gen, csr_byte_len = of_nat (length payload), csr_payload = t\<rparr>"
      have "channel_reserve_send ca pool endpoint payload = Some (Ok ?r, set_inbound ca i pair (peer side) q1, pool')"
        using t g g' len loc l(3) a(1) i16
        by (simp add: channel_reserve_send_def u16_try_from_usize_def u32_try_from_usize_def Let_def)
      moreover have "send_granted ca pool endpoint payload ?r (set_inbound ca i pair (peer side) q1) pool'"
        unfolding send_granted_def using l i16 q1 a(2) t len
        by (intro exI [of _ i] exI [of _ side] exI [of _ pair] exI [of _ e] exI [of _ q1]) (simp add: unat_of_nat take_bit_nat_eq_self)
      ultimately show ?thesis using len by (simp add: send_answered_def)
    qed
  qed
qed

lemma reserve_send_effect:
  assumes wf: "channel_wf ca" and pool: "pool_wf pool"
  shows "\<exists>a. channel_reserve_send ca pool endpoint payload = Some a \<and> send_answered ca pool endpoint payload a"
proof (cases "length payload > DW_CHANNEL_MAX_PAYLOAD")
  case True
  then show ?thesis by (simp add: channel_reserve_send_def send_refused_def send_answered_def)
next
  case len: False
  show ?thesis
  proof (cases "located_pair ca endpoint")
    case (Err e)
    with len located_pair_Err [OF wf Err] show ?thesis
      by (auto simp: channel_reserve_send_def send_answered_def send_refused_def live_object_def)
  next
    case (Ok x)
    obtain i side pair where x: "x = (i, side, pair)" by (metis prod.collapse)
    with Ok located_pair_Ok_iff [OF wf] have l: "lives_at ca endpoint i side" "cs_pair (ca_pairs ca ! i) = Some pair" by auto
    show ?thesis
    proof (cases "pc_endpoints pair (peer side)")
      case None
      with l have "send_refused ca endpoint payload PeerClosed" unfolding send_refused_def channel_error.case by blast
      with None len Ok x show ?thesis by (simp add: channel_reserve_send_def send_answered_def)
    next
      case (Some e)
      with reserve_send_located [OF wf pool _ l] len show ?thesis by simp
    qed
  qed
qed

lemma channel_ok_similar:
  assumes "channel_ok ca pool R" and "similar ca ca'"
  shows "channel_ok ca' pool R"
proof (cases "ca' = ca")
  case False
  with assms(2) obtain i pair side q where u: "i < length (ca_pairs ca)" "cs_pair (ca_pairs ca ! i) = Some pair"
    "ca' = set_inbound ca i pair side q" "queue_wf (ca_depth ca) q"
    "queue_items q = queue_items (pc_inbound pair side)" "send_claims q = send_claims (pc_inbound pair side)"
    by (auto simp: similar_def)
  then show ?thesis using channel_ok_queue [OF assms(1) u(1,2,4)] by simp
qed (use assms in simp)

lemma keyed_set_inbound:
  assumes "keyed_pair ca key = Ok (i, pair)"
  shows "keyed_pair (set_inbound ca i pair side q) key = Ok (i, pair\<lparr>pc_inbound := (pc_inbound pair)(side := q)\<rparr>)"
  using assms by (auto simp: keyed_pair_Ok_iff set_inbound_def cs_pair_set_pair)

lemma channel_messages_same:
  "i < length (ca_pairs ca) \<Longrightarrow> cs_pair (ca_pairs ca ! i) = Some pair \<Longrightarrow> queue_items q = queue_items (pc_inbound pair side) \<Longrightarrow>
    channel_messages (set_inbound ca i pair side q) = channel_messages ca"
  using channel_messages_set_inbound [of i ca pair side q] by simp

lemma send_granted_ok:
  assumes ok: "channel_ok ca pool R" and granted: "send_granted ca pool endpoint payload r ca' pool'"
  shows "channel_ok ca' pool' (add_mset r R)" and "mailbox ca' pool' = mailbox ca pool"
    and "payload_bytes pool' (csr_payload r) (csr_byte_len r) = payload"
proof -
  from granted obtain i side pair e q where l: "lives_at ca endpoint i side" "i < 2 ^ 16"
    "cs_pair (ca_pairs ca ! i) = Some pair" "pc_endpoints pair (peer side) = Some e"
    and q: "queue_wf (ca_depth ca) q" "queue_items q = queue_items (pc_inbound pair (peer side))"
      "csr_generation r \<notin> send_claims (pc_inbound pair (peer side))"
      "send_claims q = insert (csr_generation r) (send_claims (pc_inbound pair (peer side)))"
    and ca': "ca' = set_inbound ca i pair (peer side) q"
    and r: "csr_side r = side" "csr_pair r = \<lparr>pk_domain = ca_domain ca, pk_slot = of_nat i, pk_generation = cs_generation (ca_pairs ca ! i)\<rparr>"
      "unat (csr_byte_len r) = length payload" "allocated pool payload (csr_payload r) pool'"
    unfolding send_granted_def by blast
  have i: "i < length (ca_pairs ca)" using l(1) by (simp add: lives_at_def)
  have key: "keyed_pair ca (csr_pair r) = Ok (i, pair)" unfolding r(2) by (rule key_of_slot [OF i l(2,3)])
  have msgs: "channel_messages ca' = channel_messages ca" unfolding ca' using channel_messages_same i l(3) q(2) .
  have ok1: "channel_ok ca' pool R" unfolding ca' by (rule channel_ok_queue [OF ok i l(3) q(1)]) (use q in auto)
  let ?X = "tokens_of (channel_messages ca') + reserved_tokens R"
  have owns: "pool_owns pool ?X" using ok1 by (simp add: channel_ok_def)
  have owns': "pool_owns pool' (payload_mset (csr_payload r) + ?X)" by (rule pool_owns_allocated [OF owns r(4)])
  have pool': "channel_ok ca' pool' R \<and> mailbox ca' pool' = mailbox ca' pool"
    by (rule channel_ok_pool [OF ok1 pool_owns_subset [OF owns'] pool_agrees_allocated [OF owns r(4)]]) simp
  show "payload_bytes pool' (csr_payload r) (csr_byte_len r) = payload"
    using r(3,4) by (cases "csr_payload r") (auto simp: allocated_def payload_bytes_def)
  have alike: "mailbox ca' pool = mailbox ca pool"
  proof -
    have "lives_at ca (er_object e) i (peer side)" using i l(3,4) by (auto simp: lives_at_def)
    with mailbox_at [OF channel_ok_wf [OF ok] this l(3)] q(2)
    have "mailbox ca pool (er_object e) = Some (map (datagram_of pool) (queue_items q))" by simp
    with mailbox_set_inbound [OF channel_ok_wf [OF ok] i l(3) q(1)] l(4) ca' show ?thesis by (simp add: fun_upd_idem)
  qed
  with pool' show "mailbox ca' pool' = mailbox ca pool" by simp
  show "channel_ok ca' pool' (add_mset r R)"
  proof (rule channel_ok_add)
    show "channel_ok ca' pool' R" using pool' by simp
    show "send_pending ca' r"
      unfolding send_pending_def ca' keyed_set_inbound [OF key]
      using keyed_pair_issued [OF key] r(1) q(4) by (auto simp: set_inbound_def)
    show "payload_ok pool' (csr_payload r) (csr_byte_len r)"
      using r(3,4) by (cases "csr_payload r") (auto simp: allocated_def payload_ok_def unat_eq_0)
    show "claim_key r' \<noteq> claim_key r" if "r' \<in># R" for r'
    proof
      assume "claim_key r' = claim_key r"
      then have "csr_pair r' = csr_pair r" "csr_side r' = side" "csr_generation r' = csr_generation r" using r(1) by (simp_all add: claim_key_def)
      moreover have "send_pending ca r'" using ok that by (simp add: channel_ok_def)
      ultimately show False using key l(4) q(3) by (simp add: send_pending_def)
    qed
  qed (rule owns')
qed

section \<open>Dropping a reservation\<close>

text \<open>
  The common part of \<open>cancel_send\<close> and of the failure exits of \<open>commit_send\<close>: the claim is
  withdrawn if it still exists and the payload goes back to the pool.
\<close>

lemma same_key_claim:
  assumes "keyed_pair ca (csr_pair r) = Ok (i, pair)" and "keyed_pair ca (csr_pair r') = Ok (i, pair)"
  shows "csr_pair r' = csr_pair r"
  using assms by (auto simp: keyed_pair_Ok_iff word_unat_eq_iff intro: channel_pair_key.equality)

lemma release_reserved_payload:
  assumes "channel_ok ca pool (add_mset r R)"
  shows "\<exists>pool'. release_payload pool (csr_payload r) = Some pool' \<and> channel_ok ca pool' R \<and> mailbox ca pool' = mailbox ca pool \<and>
    pool_view pool' = forget (set_option (csr_payload r)) pool"
proof -
  note d = channel_ok_drop [OF assms]
  obtain pool' where pool': "release_payload pool (csr_payload r) = Some pool'"
    "pool_owns pool' (tokens_of (channel_messages ca) + reserved_tokens R)"
    "pool_view pool' = forget (set_option (csr_payload r)) pool"
    using pool_owns_release [OF d(3)] by blast
  with channel_ok_pool [OF d(1) pool'(2) pool_agrees_forget [OF d(3) pool'(3)]] show ?thesis by blast
qed

lemma withdraw_claim:
  assumes ok: "channel_ok ca pool (add_mset r R)" and key: "keyed_pair ca (csr_pair r) = Ok (i, pair)"
    and c: "queue_cancel_send (pc_inbound pair (peer (csr_side r))) (csr_generation r) = (x, q)"
  shows "channel_ok (set_inbound ca i pair (peer (csr_side r)) q) pool R \<and>
    channel_messages (set_inbound ca i pair (peer (csr_side r)) q) = channel_messages ca \<and>
    mailbox (set_inbound ca i pair (peer (csr_side r)) q) pool = mailbox ca pool \<and>
    queue_wf (ca_depth ca) q \<and> queue_items q = queue_items (pc_inbound pair (peer (csr_side r))) \<and>
    send_claims q = send_claims (pc_inbound pair (peer (csr_side r))) - {csr_generation r} \<and>
    bq_receive_reservation q = bq_receive_reservation (pc_inbound pair (peer (csr_side r)))"
proof -
  let ?s = "peer (csr_side r)"
  note d = channel_ok_drop [OF ok] and wf = channel_ok_wf [OF ok]
  have i: "i < length (ca_pairs ca)" "cs_pair (ca_pairs ca ! i) = Some pair" using key by (auto simp: keyed_pair_Ok_iff)
  have qw: "queue_wf (ca_depth ca) (pc_inbound pair ?s)" using channel_wf_pair [OF wf i] by (simp add: pair_wf_def)
  have q: "queue_wf (ca_depth ca) q" "queue_items q = queue_items (pc_inbound pair ?s)"
    "send_claims q = send_claims (pc_inbound pair ?s) - {csr_generation r}"
    using queue_fifo.cancel_invar [OF qw c] by auto
  have "channel_ok (set_inbound ca i pair ?s q) pool R"
  proof (rule channel_ok_queue [OF d(1) i q(1)])
    fix r'
    assume "r' \<in># R" "keyed_pair ca (csr_pair r') = Ok (i, pair)" "peer (csr_side r') = ?s"
      "csr_generation r' \<in> send_claims (pc_inbound pair ?s)"
    moreover from this have "csr_generation r' \<noteq> csr_generation r"
      using d(2) [of r'] same_key_claim [OF key, of r'] by (auto simp: claim_key_def) (metis peer_peer)
    ultimately show "csr_generation r' \<in> send_claims q" using q(3) by simp
  qed (simp add: q(2))
  moreover have "mailbox (set_inbound ca i pair ?s q) pool = mailbox ca pool"
  proof (cases "pc_endpoints pair ?s")
    case (Some e)
    then have "lives_at ca (er_object e) i ?s" using i by (auto simp: lives_at_def)
    with mailbox_at [OF wf this i(2)] q(2) have "mailbox ca pool (er_object e) = Some (map (datagram_of pool) (queue_items q))" by simp
    with mailbox_set_inbound [OF wf i q(1)] Some show ?thesis by (simp add: fun_upd_idem)
  qed (use mailbox_set_inbound [OF wf i q(1)] in simp)
  ultimately show ?thesis using q channel_messages_same [OF i q(2)] queue_cancel_send_receive [OF c] by blast
qed

end
