(* ===== verification/Channel_Delivery.thy ===== *)
theory Channel_Delivery
  imports Channel_Transactions
begin

text \<open>
  Committing or abandoning a reserved send, and receiving. A committed send appends exactly one
  datagram to the mailbox of the peer; an abandoned one changes no mailbox and returns the
  payload; a receive removes the first datagram and copies its bytes out.
\<close>

section \<open>Abandoned sends\<close>

definition abandoned ::
  "channel_authority \<Rightarrow> channel_send_reservation \<Rightarrow> channel_authority \<Rightarrow> bool" where
  "abandoned ca r ca' \<longleftrightarrow>
    (case keyed_pair ca (csr_pair r) of
       Err e \<Rightarrow> e = StalePair \<and> ca' = ca
     | Ok (i, pair) \<Rightarrow> \<exists>q. ca' = set_inbound ca i pair (peer (csr_side r)) q \<and> queue_wf (ca_depth ca) q \<and>
         queue_items q = queue_items (pc_inbound pair (peer (csr_side r))) \<and>
         send_claims q = send_claims (pc_inbound pair (peer (csr_side r))) - {csr_generation r} \<and>
         bq_receive_reservation q = bq_receive_reservation (pc_inbound pair (peer (csr_side r))))"

lemma abort_send_effect:
  assumes ok: "channel_ok ca pool (add_mset r R)" and key: "keyed_pair ca (csr_pair r) = Ok (i, pair)"
  shows "\<exists>q pool'. abort_send ca pool r i pair = Some (set_inbound ca i pair (peer (csr_side r)) q, pool') \<and>
    channel_ok (set_inbound ca i pair (peer (csr_side r)) q) pool' R \<and>
    mailbox (set_inbound ca i pair (peer (csr_side r)) q) pool' = mailbox ca pool \<and>
    queue_wf (ca_depth ca) q \<and> queue_items q = queue_items (pc_inbound pair (peer (csr_side r))) \<and>
    send_claims q = send_claims (pc_inbound pair (peer (csr_side r))) - {csr_generation r} \<and>
    bq_receive_reservation q = bq_receive_reservation (pc_inbound pair (peer (csr_side r))) \<and>
    pool_view pool' = forget (set_option (csr_payload r)) pool"
proof -
  obtain x q where c: "queue_cancel_send (pc_inbound pair (peer (csr_side r))) (csr_generation r) = (x, q)" by fastforce
  let ?ca = "set_inbound ca i pair (peer (csr_side r)) q"
  have w: "channel_ok ?ca pool R" "channel_messages ?ca = channel_messages ca" "mailbox ?ca pool = mailbox ca pool"
    "queue_wf (ca_depth ca) q" "queue_items q = queue_items (pc_inbound pair (peer (csr_side r)))"
    "send_claims q = send_claims (pc_inbound pair (peer (csr_side r))) - {csr_generation r}"
    "bq_receive_reservation q = bq_receive_reservation (pc_inbound pair (peer (csr_side r)))"
    using withdraw_claim [OF ok key c] by blast+
  have owns: "pool_owns pool (payload_mset (csr_payload r) + (tokens_of (channel_messages ?ca) + reserved_tokens R))"
    using channel_ok_drop(3) [OF ok] w(2) by simp
  obtain pool' where pool': "release_payload pool (csr_payload r) = Some pool'"
    "pool_owns pool' (tokens_of (channel_messages ?ca) + reserved_tokens R)"
    "pool_view pool' = forget (set_option (csr_payload r)) pool"
    using pool_owns_release [OF owns] by blast
  have "channel_ok ?ca pool' R \<and> mailbox ?ca pool' = mailbox ?ca pool"
    by (rule channel_ok_pool [OF w(1) pool'(2) pool_agrees_forget [OF owns pool'(3)]])
  moreover have "abort_send ca pool r i pair = Some (?ca, pool')" using c pool'(1) by (simp add: abort_send_def)
  ultimately show ?thesis using w pool'(3) by auto
qed

lemma cancel_send_effect:
  assumes ok: "channel_ok ca pool (add_mset r R)"
  shows "\<exists>x ca' pool'. channel_cancel_send ca pool r = Some (x, ca', pool') \<and> channel_ok ca' pool' R \<and>
    mailbox ca' pool' = mailbox ca pool \<and> pool_view pool' = forget (set_option (csr_payload r)) pool \<and>
    abandoned ca r ca'"
proof (cases "keyed_pair ca (csr_pair r)")
  case (Err e)
  with release_reserved_payload [OF ok] keyed_pair_Err [OF Err] show ?thesis by (auto simp: channel_cancel_send_def abandoned_def)
next
  case (Ok y)
  obtain i pair where y: "y = (i, pair)" by fastforce
  note key = Ok [unfolded y]
  let ?q = "pc_inbound pair (peer (csr_side r))"
  have i: "i < length (ca_pairs ca)" "cs_pair (ca_pairs ca ! i) = Some pair" using key by (auto simp: keyed_pair_Ok_iff)
  have wf: "queue_wf (ca_depth ca) ?q" using channel_wf_pair [OF channel_ok_wf [OF ok] i] by (simp add: pair_wf_def)
  show ?thesis
  proof (cases "csr_generation r \<in> send_claims ?q")
    case True
    with wf obtain q where "queue_cancel_send ?q (csr_generation r) = (Ok (), q)" using queue_cancel_send_claimed by blast
    with abort_send_effect [OF ok key] key show ?thesis
      by (auto simp: channel_cancel_send_def abort_send_def bind_Some_iff abandoned_def)
  next
    case False
    with set_inbound_same [OF i] wf key have "abandoned ca r ca" by (auto simp: abandoned_def intro!: exI [of _ ?q])
    with False release_reserved_payload [OF ok] key show ?thesis
      by (auto simp: channel_cancel_send_def queue_cancel_send_unclaimed)
  qed
qed

section \<open>Committed sends\<close>

definition sent_message :: "channel_send_reservation \<Rightarrow> handle_transfer_batch \<Rightarrow> queued_message" where
  "sent_message r transfers = \<lparr>qm_byte_len = csr_byte_len r, qm_payload = csr_payload r, qm_transfers = transfers\<rparr>"

lemma commit_ok:
  assumes ok: "channel_ok ca pool (add_mset r R)" and key: "keyed_pair ca (csr_pair r) = Ok (i, pair)"
    and fits: "message_fits (sent_message r transfers)"
    and q: "queue_wf (ca_depth ca) q" "queue_items q = queue_items (pc_inbound pair (peer (csr_side r))) @ [sent_message r transfers]"
      "send_claims q = send_claims (pc_inbound pair (peer (csr_side r))) - {csr_generation r}"
  shows "channel_ok (set_inbound ca i pair (peer (csr_side r)) q) pool R" (is "channel_ok ?ca pool R")
proof -
  let ?s = "peer (csr_side r)" and ?m = "sent_message r transfers"
  note d = channel_ok_drop [OF ok] and wf = channel_ok_wf [OF ok]
  have i: "i < length (ca_pairs ca)" "cs_pair (ca_pairs ca ! i) = Some pair" using key by (auto simp: keyed_pair_Ok_iff)
  have msgs: "channel_messages ?ca = add_mset ?m (channel_messages ca)"
    using channel_messages_set_inbound [OF i, of ?s q] q(2) by simp
  have owns: "pool_owns pool (tokens_of (channel_messages ?ca) + reserved_tokens R)"
    using d(3) by (simp add: msgs sent_message_def ac_simps)
  have pend: "send_pending ?ca r'" if r': "r' \<in># R" for r'
    unfolding set_inbound_def
  proof (rule send_pending_set_pair [OF _ i])
    show "send_pending ca r'" using d(1) r' by (simp add: channel_ok_def)
    fix pair'
    assume p: "Some (pair\<lparr>pc_inbound := (pc_inbound pair)(?s := q)\<rparr>) = Some pair'"
      and k: "keyed_pair ca (csr_pair r') = Ok (i, pair)" and o: "pc_endpoints pair' (peer (csr_side r')) \<noteq> None"
    have "csr_generation r' \<noteq> csr_generation r" if "peer (csr_side r') = ?s"
      using d(2) [OF r'] same_key_claim [OF key k] that by (auto simp: claim_key_def) (metis peer_peer)
    moreover have "pair' = pair\<lparr>pc_inbound := (pc_inbound pair)(?s := q)\<rparr>" using p by simp
    ultimately show "pc_endpoints pair (peer (csr_side r')) \<noteq> None \<and>
      (csr_generation r' \<in> send_claims (pc_inbound pair (peer (csr_side r'))) \<longrightarrow>
       csr_generation r' \<in> send_claims (pc_inbound pair' (peer (csr_side r'))))"
      using o q(3) by (cases "peer (csr_side r') = ?s") simp_all
  qed
  have "message_fits m \<and> payload_ok pool (qm_payload m) (qm_byte_len m)" if "m \<in># channel_messages ?ca" for m
    using that fits d(1,5) by (auto simp: msgs channel_ok_def sent_message_def)
  with set_inbound_wf [OF wf i q(1)] owns pend d(1) show ?thesis by (auto simp: channel_ok_def)
qed

text \<open>
  \<open>commit_send\<close> never panics. Either it delivers: the peer's mailbox gains the datagram, the
  claim becomes the message, and no waiter of the pair stays ready; or it fails, with the reason,
  and gives the transfers back.
\<close>

definition delivered ::
  "channel_authority \<Rightarrow> channel_send_reservation \<Rightarrow> handle_transfer_batch \<Rightarrow> object_id \<Rightarrow>
   channel_authority \<Rightarrow> wait_registry \<Rightarrow> wait_registry \<Rightarrow> bool" where
  "delivered ca r transfers destination ca' waits waits' \<longleftrightarrow> (\<exists>i pair e q. keyed_pair ca (csr_pair r) = Ok (i, pair) \<and>
    pc_endpoints pair (csr_side r) \<noteq> None \<and> pc_endpoints pair (peer (csr_side r)) = Some e \<and>
    er_object e = destination \<and>
    transfer_closes_queue_cycle ca destination (transfer_objects_of_type transfers DW_OBJECT_TYPE_CHANNEL) = Ok False \<and>
    queue_wf (ca_depth ca) q \<and>
    queue_items q = queue_items (pc_inbound pair (peer (csr_side r))) @ [sent_message r transfers] \<and>
    send_claims q = send_claims (pc_inbound pair (peer (csr_side r))) - {csr_generation r} \<and>
    bq_receive_reservation q = bq_receive_reservation (pc_inbound pair (peer (csr_side r))) \<and>
    ca' = set_inbound ca i pair (peer (csr_side r)) q \<and> waiters waits' \<subseteq># waiters waits \<and>
    (\<forall>side. side_quiet (pair\<lparr>pc_inbound := (pc_inbound pair)(peer (csr_side r) := q)\<rparr>) (waiters waits') side))"

lemma commit_send_open:
  assumes ok: "channel_ok ca pool (add_mset r R)" and key: "keyed_pair ca (csr_pair r) = Ok (i, pair)"
    and open_: "pc_endpoints pair (csr_side r) \<noteq> None" "pc_endpoints pair (peer (csr_side r)) = Some e"
    and cycle: "transfer_closes_queue_cycle ca (er_object e) (transfer_objects_of_type transfers DW_OBJECT_TYPE_CHANNEL) = Ok False"
    and fits: "message_fits (sent_message r transfers)"
  shows "\<exists>wakes ca' waits'. channel_commit_send ca pool r transfers waits = Some (Ok wakes, ca', pool, waits') \<and>
    channel_ok ca' pool R \<and> delivered ca r transfers (er_object e) ca' waits waits'"
proof -
  let ?s = "peer (csr_side r)"
  have i: "i < length (ca_pairs ca)" "cs_pair (ca_pairs ca ! i) = Some pair" using key by (auto simp: keyed_pair_Ok_iff)
  have qw: "queue_wf (ca_depth ca) (pc_inbound pair ?s)"
    using channel_wf_pair [OF channel_ok_wf [OF ok] i] by (simp add: pair_wf_def)
  have "csr_generation r \<in> send_claims (pc_inbound pair ?s)"
    using channel_ok_drop(4) [OF ok] key open_(2) by (simp add: send_pending_def)
  then obtain q where q: "queue_commit_send (pc_inbound pair ?s) (csr_generation r) (sent_message r transfers) = Some q"
    "queue_wf (ca_depth ca) q" "queue_items q = queue_items (pc_inbound pair ?s) @ [sent_message r transfers]"
    "send_claims q = send_claims (pc_inbound pair ?s) - {csr_generation r}"
    "bq_receive_reservation q = bq_receive_reservation (pc_inbound pair ?s)"
    using queue_commit_send_spec [OF qw] by blast
  let ?pair = "pair\<lparr>pc_inbound := (pc_inbound pair)(?s := q)\<rparr>"
  obtain wakes waits' where c: "collect_changed ?pair waits ?s (csr_side r) = Some (Ok wakes, waits')"
    "waiters waits' \<subseteq># waiters waits" "\<forall>side. side_quiet ?pair (waiters waits') side"
    using collect_changed_peer [of ?pair waits "csr_side r"] by blast
  have "channel_commit_send ca pool r transfers waits = Some (Ok wakes, set_inbound ca i pair ?s q, pool, waits')"
    using key open_ cycle q(1) c(1) by (auto simp: channel_commit_send_def Let_def sent_message_def set_inbound_def)
  moreover have "channel_ok (set_inbound ca i pair ?s q) pool R" by (rule commit_ok [OF ok key fits q(2-4)])
  moreover have "delivered ca r transfers (er_object e) (set_inbound ca i pair ?s q) waits waits'"
    unfolding delivered_def using key open_ cycle q(2-5) c(2,3) by blast
  ultimately show ?thesis by blast
qed

lemma commit_send_effect:
  assumes ok: "channel_ok ca pool (add_mset r R)" and fits: "tb_len transfers < 2 ^ 32"
  shows "\<exists>res ca' pool' waits'. channel_commit_send ca pool r transfers waits = Some (res, ca', pool', waits') \<and> channel_ok ca' pool' R \<and>
    (case res of
       Ok wakes \<Rightarrow> pool' = pool \<and> (\<exists>destination. delivered ca r transfers destination ca' waits waits')
     | Err (e, t) \<Rightarrow> t = transfers \<and> waits' = waits \<and> abandoned ca r ca' \<and> mailbox ca' pool' = mailbox ca pool \<and>
         pool_view pool' = forget (set_option (csr_payload r)) pool)"
proof (cases "keyed_pair ca (csr_pair r)")
  case (Err e)
  with release_reserved_payload [OF ok] keyed_pair_Err [OF Err] show ?thesis
    by (auto simp: channel_commit_send_def abandoned_def)
next
  case (Ok y)
  obtain i pair where y: "y = (i, pair)" by fastforce
  note key = Ok [unfolded y]
  obtain q pool' where a: "abort_send ca pool r i pair = Some (set_inbound ca i pair (peer (csr_side r)) q, pool')"
    "channel_ok (set_inbound ca i pair (peer (csr_side r)) q) pool' R"
    "mailbox (set_inbound ca i pair (peer (csr_side r)) q) pool' = mailbox ca pool"
    "abandoned ca r (set_inbound ca i pair (peer (csr_side r)) q)"
    "pool_view pool' = forget (set_option (csr_payload r)) pool"
    using abort_send_effect [OF ok key] key by (auto simp: abandoned_def)
  have abort: ?thesis if "channel_commit_send ca pool r transfers waits =
      do { (ca', pool') \<leftarrow> abort_send ca pool r i pair; Some (Err (e, transfers), ca', pool', waits) }" for e
    using that a by simp
  show ?thesis
  proof (cases "pc_endpoints pair (csr_side r)")
    case None
    with key show ?thesis by (intro abort [of InvalidEndpoint]) (simp add: channel_commit_send_def)
  next
    case here: (Some e0)
    show ?thesis
    proof (cases "pc_endpoints pair (peer (csr_side r))")
      case None
      with key here show ?thesis by (intro abort [of PeerClosed]) (simp add: channel_commit_send_def)
    next
      case (Some e)
      let ?c = "transfer_closes_queue_cycle ca (er_object e) (transfer_objects_of_type transfers DW_OBJECT_TYPE_CHANNEL)"
      consider (err) x where "?c = Err x" | (cycle) "?c = Ok True" | (free) "?c = Ok False" by (metis (full_types) result.exhaust)
      then show ?thesis
      proof cases
        case (err x)
        with key here Some show ?thesis by (intro abort [of x]) (simp add: channel_commit_send_def)
      next
        case cycle
        with key here Some show ?thesis by (intro abort [of InvalidArgument]) (simp add: channel_commit_send_def)
      next
        case free
        from commit_send_open [OF ok key _ Some free, of waits] here fits show ?thesis
          by (auto simp: message_fits_def sent_message_def)
      qed
    qed
  qed
qed

lemma delivered_mailbox:
  assumes "channel_wf ca" and "delivered ca r transfers destination ca' waits waits'"
  shows "\<exists>mail. mailbox ca pool destination = Some mail \<and>
    mailbox ca' pool = (mailbox ca pool)(destination \<mapsto> mail @ [(payload_bytes pool (csr_payload r) (csr_byte_len r), transfers)])"
proof -
  from assms(2) obtain i pair e q where d: "keyed_pair ca (csr_pair r) = Ok (i, pair)" "pc_endpoints pair (peer (csr_side r)) = Some e"
      "er_object e = destination"
    and q: "queue_wf (ca_depth ca) q" "queue_items q = queue_items (pc_inbound pair (peer (csr_side r))) @ [sent_message r transfers]"
    and ca': "ca' = set_inbound ca i pair (peer (csr_side r)) q"
    unfolding delivered_def by blast
  have i: "i < length (ca_pairs ca)" "cs_pair (ca_pairs ca ! i) = Some pair" using d(1) by (auto simp: keyed_pair_Ok_iff)
  have "lives_at ca destination i (peer (csr_side r))" using i d(2,3) by (auto simp: lives_at_def)
  with mailbox_at [OF assms(1) this i(2), of pool] mailbox_set_inbound [OF assms(1) i q(1)] d(2,3) q(2) ca' show ?thesis
    by (simp add: datagram_of_def sent_message_def)
qed

lemma delivered_quiet:
  assumes "channel_wf ca" and "delivered ca r transfers destination ca' waits waits'"
    and "quiet (channel_signals ca) (waiters waits)"
  shows "quiet (channel_signals ca') (waiters waits')"
proof -
  from assms(2) obtain i pair q where d: "keyed_pair ca (csr_pair r) = Ok (i, pair)" "queue_wf (ca_depth ca) q"
    "ca' = set_inbound ca i pair (peer (csr_side r)) q" "waiters waits' \<subseteq># waiters waits"
    "\<forall>side. side_quiet (pair\<lparr>pc_inbound := (pc_inbound pair)(peer (csr_side r) := q)\<rparr>) (waiters waits') side"
    unfolding delivered_def by blast
  have i: "i < length (ca_pairs ca)" "cs_pair (ca_pairs ca ! i) = Some pair" using d(1) by (auto simp: keyed_pair_Ok_iff)
  have "channel_wf ca'" unfolding d(3) using set_inbound_wf [OF assms(1) i d(2)] by blast
  then show ?thesis unfolding d(3) set_inbound_def
    by (rule quiet_set_pair [OF assms(1) _ i(1) assms(3) d(4)]) (use d(5) in auto)
qed

lemma queue_holds_set_inbound:
  assumes "channel_wf ca" and "i < length (ca_pairs ca)" and "cs_pair (ca_pairs ca ! i) = Some pair" and "queue_wf (ca_depth ca) q"
    and "queue_holds (set_inbound ca i pair side q) a b"
  shows "queue_holds ca a b \<or> (lives_at ca a i side \<and> b \<in> set (queued_channels q))"
proof -
  have lives: "lives_at (set_inbound ca i pair side q) a j t \<longleftrightarrow> lives_at ca a j t" for j t
    using set_inbound_wf [OF assms(1-4)] by blast
  from assms(5) obtain j t p where h: "lives_at ca a j t" "cs_pair (ca_pairs (set_inbound ca i pair side q) ! j) = Some p"
    "b \<in> set (queued_channels (pc_inbound p t))" unfolding queue_holds_def lives by blast
  have p: "(if j = i then Some (pair\<lparr>pc_inbound := (pc_inbound pair)(side := q)\<rparr>) else cs_pair (ca_pairs ca ! j)) = Some p"
    using h(1,2) by (simp add: set_inbound_def cs_pair_set_pair lives_at_def)
  show ?thesis
  proof (cases "j = i \<and> t = side")
    case True
    with h p show ?thesis by auto
  next
    case False
    with p assms(3) obtain p' where "cs_pair (ca_pairs ca ! j) = Some p'" "pc_inbound p t = pc_inbound p' t"
      by (cases "j = i") auto
    with h(1,3) show ?thesis unfolding queue_holds_def by metis
  qed
qed

lemma delivered_acyclic:
  assumes "channel_wf ca" and "delivered ca r transfers destination ca' waits waits'" and "queues_acyclic ca"
  shows "queues_acyclic ca'"
proof -
  from assms(2) obtain i pair e q where d: "keyed_pair ca (csr_pair r) = Ok (i, pair)" "pc_endpoints pair (peer (csr_side r)) = Some e"
      "er_object e = destination" "transfer_closes_queue_cycle ca destination (transfer_objects_of_type transfers DW_OBJECT_TYPE_CHANNEL) = Ok False"
    and q: "queue_wf (ca_depth ca) q" "queue_items q = queue_items (pc_inbound pair (peer (csr_side r))) @ [sent_message r transfers]"
    and ca': "ca' = set_inbound ca i pair (peer (csr_side r)) q"
    unfolding delivered_def by blast
  let ?T = "set (transfer_objects_of_type transfers DW_OBJECT_TYPE_CHANNEL)" and ?s = "peer (csr_side r)"
  have i: "i < length (ca_pairs ca)" "cs_pair (ca_pairs ca ! i) = Some pair" using d(1) by (auto simp: keyed_pair_Ok_iff)
  have l: "lives_at ca destination i ?s" using i d(2,3) by (auto simp: lives_at_def)
  have qw: "queue_wf (ca_depth ca) (pc_inbound pair ?s)" using channel_wf_pair [OF assms(1) i] by (simp add: pair_wf_def)
  have edge: "queue_holds ca a b \<or> a = destination \<and> b \<in> ?T" if "queue_holds ca' a b" for a b
  proof (rule disjE [OF queue_holds_set_inbound [OF assms(1) i q(1) that [unfolded ca']]])
    assume h: "lives_at ca a i ?s \<and> b \<in> set (queued_channels q)"
    then have "a = destination" using l by (auto simp: lives_at_def)
    moreover have "set (queued_channels q) = set (queued_channels (pc_inbound pair ?s)) \<union> ?T"
      using queued_channels_items [OF q(1)] queued_channels_items [OF qw] q(2) by (auto simp: message_channels_def sent_message_def)
    ultimately show ?thesis using h queue_holds_at [OF assms(1) l i(2)] by blast
  qed simp
  have "\<not> (queue_holds ca)\<^sup>*\<^sup>* t destination" if "t \<in> ?T" for t
    using transfer_closes_queue_cycle_spec [OF assms(1), of "transfer_objects_of_type transfers DW_OBJECT_TYPE_CHANNEL" destination] d(4) that
    by auto
  from new_edges_acyclic [OF assms(3) [unfolded queues_acyclic_def, rule_format] edge this] show ?thesis
    unfolding queues_acyclic_def by blast
qed

end
