(* ===== verification/Channel_Receipt.thy ===== *)
theory Channel_Receipt
  imports Channel_Delivery
begin

text \<open>
  Receiving. A receive reservation pins the first datagram of a mailbox; cancelling it changes
  nothing; completing it removes the datagram, copies its bytes to the front of the output and
  hands its transfers over.
\<close>

section \<open>Reserving and cancelling\<close>

definition receive_granted ::
  "channel_authority \<Rightarrow> object_id \<Rightarrow> channel_receive_reservation \<Rightarrow> channel_authority \<Rightarrow> queued_message \<Rightarrow> bool" where
  "receive_granted ca endpoint rr ca' m \<longleftrightarrow> (\<exists>i side pair q ms. lives_at ca endpoint i side \<and> i < 2 ^ 16 \<and>
    cs_pair (ca_pairs ca ! i) = Some pair \<and> queue_items (pc_inbound pair side) = m # ms \<and>
    bq_receive_reservation (pc_inbound pair side) = None \<and>
    queue_wf (ca_depth ca) q \<and> queue_items q = m # ms \<and> send_claims q = send_claims (pc_inbound pair side) \<and>
    bq_receive_reservation q = Some (crr_generation rr) \<and> ca' = set_inbound ca i pair side q \<and>
    crr_side rr = side \<and> crr_info rr = info_of m \<and>
    crr_pair rr = \<lparr>pk_domain = ca_domain ca, pk_slot = of_nat i, pk_generation = cs_generation (ca_pairs ca ! i)\<rparr>)"

definition receive_refused :: "channel_authority \<Rightarrow> object_id \<Rightarrow> channel_error \<Rightarrow> bool" where
  "receive_refused ca endpoint e \<longleftrightarrow>
    (if \<not> live_object ca endpoint then e = InvalidEndpoint
     else \<exists>i side pair. lives_at ca endpoint i side \<and> cs_pair (ca_pairs ca ! i) = Some pair \<and>
       (if queue_items (pc_inbound pair side) = []
        then e = (if pc_endpoints pair (peer side) = None then PeerClosed else WouldBlock)
        else e = WouldBlock \<and> bq_receive_reservation (pc_inbound pair side) \<noteq> None \<or> e = ChannelCapacity))"

lemma reserve_receive_effect:
  assumes ok: "channel_ok ca pool R"
  shows "\<exists>res ca'. reserve_receive ca endpoint = Some (res, ca') \<and>
    (case res of Ok rr \<Rightarrow> \<exists>m. receive_granted ca endpoint rr ca' m | Err e \<Rightarrow> ca' = ca \<and> receive_refused ca endpoint e)"
proof (cases "located_pair ca endpoint")
  case (Err e)
  with located_pair_Err [OF channel_ok_wf [OF ok] Err] show ?thesis
    by (auto simp: reserve_receive_def receive_refused_def live_object_def)
next
  case (Ok x)
  note wf = channel_ok_wf [OF ok]
  obtain i side pair where x: "x = (i, side, pair)" by (metis prod.collapse)
  with Ok located_pair_Ok_iff [OF wf] have l: "lives_at ca endpoint i side" "cs_pair (ca_pairs ca ! i) = Some pair" by auto
  obtain i16: "i < 2 ^ 16" and i: "i < length (ca_pairs ca)" and pw: "pair_wf ca i pair"
    using lives_at_pair [OF wf l(1)] l(2) by (metis option.inject)
  let ?q = "pc_inbound pair side"
  have qw: "queue_wf (ca_depth ca) ?q" using pw by (simp add: pair_wf_def)
  have live: "live_object ca endpoint" using l(1) unfolding live_object_def by blast
  have refuse: "receive_refused ca endpoint e" if "if queue_items ?q = []
        then e = (if pc_endpoints pair (peer side) = None then PeerClosed else WouldBlock)
        else e = WouldBlock \<and> bq_receive_reservation ?q \<noteq> None \<or> e = ChannelCapacity" for e
    unfolding receive_refused_def using live l that by metis
  show ?thesis
  proof (cases "queue_items ?q")
    case Nil
    with Ok x refuse show ?thesis by (auto simp: reserve_receive_def queue_is_empty_items)
  next
    case (Cons m ms)
    have "m \<in># channel_messages ca" using queue_items_messages [OF i l(2), of side] Cons by (auto dest: mset_subset_eqD)
    then have fits: "message_fits m" using ok by (simp add: channel_ok_def)
    obtain r q where r: "reserve_head ?q = Some (r, q)" "queue_wf (ca_depth ca) q" "queue_items q = m # ms"
      "send_claims q = send_claims ?q"
      "case r of Ok (g, info) \<Rightarrow> bq_receive_reservation ?q = None \<and> bq_receive_reservation q = Some g \<and> info = info_of m
       | Err e \<Rightarrow> q = ?q \<and> (e = WouldBlock \<and> bq_receive_reservation ?q \<noteq> None \<or> e = ChannelCapacity)"
      using reserve_head_spec [OF qw Cons fits] Cons by auto
    show ?thesis
    proof (cases r)
      case (Err e)
      with r(1,5) Ok x Cons refuse [of e] show ?thesis by (auto simp: reserve_receive_def queue_is_empty_items)
    next
      case g: (Ok y)
      then obtain gen where y: "r = Ok (gen, info_of m)" "bq_receive_reservation ?q = None" "bq_receive_reservation q = Some gen"
        using r(5) by (cases y) auto
      let ?rr = "\<lparr>crr_pair = \<lparr>pk_domain = ca_domain ca, pk_slot = of_nat i, pk_generation = cs_generation (ca_pairs ca ! i)\<rparr>,
        crr_side = side, crr_generation = gen, crr_info = info_of m\<rparr>"
      have "reserve_receive ca endpoint = Some (Ok ?rr, set_inbound ca i pair side q)"
        using Ok x Cons r(1) y i16 by (simp add: reserve_receive_def queue_is_empty_items u16_try_from_usize_def)
      moreover have "receive_granted ca endpoint ?rr (set_inbound ca i pair side q) m"
        unfolding receive_granted_def using l i16 Cons r(2-4) y(2,3)
        by (intro exI [of _ i] exI [of _ side] exI [of _ pair] exI [of _ q] exI [of _ ms]) simp
      ultimately show ?thesis by auto
    qed
  qed
qed

lemma receive_granted_similar:
  assumes "receive_granted ca endpoint rr ca' m"
  shows "similar ca ca'"
proof -
  from assms obtain i side pair q ms where "lives_at ca endpoint i side" "cs_pair (ca_pairs ca ! i) = Some pair"
    "queue_items (pc_inbound pair side) = m # ms" "queue_wf (ca_depth ca) q" "queue_items q = m # ms"
    "send_claims q = send_claims (pc_inbound pair side)" "ca' = set_inbound ca i pair side q"
    unfolding receive_granted_def by blast
  then show ?thesis unfolding similar_def by (metis lives_at_less)
qed

text \<open>The state between a granted reservation and its completion.\<close>

definition receive_pending :: "channel_authority \<Rightarrow> channel_receive_reservation \<Rightarrow> object_id \<Rightarrow> queued_message \<Rightarrow> bool" where
  "receive_pending ca rr endpoint m \<longleftrightarrow> (\<exists>i pair ms. keyed_pair ca (crr_pair rr) = Ok (i, pair) \<and>
    lives_at ca endpoint i (crr_side rr) \<and> queue_items (pc_inbound pair (crr_side rr)) = m # ms \<and>
    bq_receive_reservation (pc_inbound pair (crr_side rr)) = Some (crr_generation rr) \<and> crr_info rr = info_of m)"

lemma receive_granted_pending:
  assumes "channel_wf ca" and "receive_granted ca endpoint rr ca' m"
  shows "receive_pending ca' rr endpoint m"
proof -
  from assms(2) obtain i side pair q ms where g: "lives_at ca endpoint i side" "i < 2 ^ 16" "cs_pair (ca_pairs ca ! i) = Some pair"
    "queue_wf (ca_depth ca) q" "queue_items q = m # ms" "bq_receive_reservation q = Some (crr_generation rr)"
    "ca' = set_inbound ca i pair side q" "crr_side rr = side" "crr_info rr = info_of m"
    "crr_pair rr = \<lparr>pk_domain = ca_domain ca, pk_slot = of_nat i, pk_generation = cs_generation (ca_pairs ca ! i)\<rparr>"
    unfolding receive_granted_def by blast
  note i = lives_at_less [OF g(1)]
  have "keyed_pair ca (crr_pair rr) = Ok (i, pair)" unfolding g(10) by (rule key_of_slot [OF i g(2,3)])
  then have "keyed_pair ca' (crr_pair rr) = Ok (i, pair\<lparr>pc_inbound := (pc_inbound pair)(side := q)\<rparr>)"
    unfolding g(7) by (rule keyed_set_inbound)
  moreover have "lives_at ca' endpoint i side" using set_inbound_wf [OF assms(1) i g(3,4)] g(1,7) by blast
  ultimately show ?thesis using g by (auto simp: receive_pending_def)
qed

lemma cancel_receive_effect:
  assumes ok: "channel_ok ca pool R" and "receive_pending ca rr endpoint m"
  shows "\<exists>ca'. channel_cancel_receive ca rr = (Ok (), ca') \<and> similar ca ca'"
proof -
  from assms(2) obtain i pair where r: "keyed_pair ca (crr_pair rr) = Ok (i, pair)"
    "bq_receive_reservation (pc_inbound pair (crr_side rr)) = Some (crr_generation rr)"
    unfolding receive_pending_def by blast
  have i: "i < length (ca_pairs ca)" "cs_pair (ca_pairs ca ! i) = Some pair" using r(1) by (auto simp: keyed_pair_Ok_iff)
  have "queue_wf (ca_depth ca) (pc_inbound pair (crr_side rr))"
    using channel_wf_pair [OF channel_ok_wf [OF ok] i] by (simp add: pair_wf_def)
  note c = queue_cancel_receive_spec [OF this, of "crr_generation rr"]
  then have "similar ca (set_inbound ca i pair (crr_side rr) ((pc_inbound pair (crr_side rr))\<lparr>bq_receive_reservation := None\<rparr>))"
    unfolding similar_def using i by auto
  with r c show ?thesis by (auto simp: channel_cancel_receive_def)
qed

section \<open>Completing a receive\<close>

lemma copy_payload_effect:
  assumes "payload_ok pool payload len" and "pool_owns pool (payload_mset payload + X)" and "unat len \<le> length output"
  shows "\<exists>pool'. copy_payload pool payload (unat len) output = Some (payload_bytes pool payload len @ drop (unat len) output, pool') \<and>
    pool_owns pool' X \<and> pool_view pool' = forget (set_option payload) pool"
proof (cases payload)
  case None
  with assms show ?thesis by (auto simp: copy_payload_def payload_ok_def payload_bytes_def forget_def)
next
  case (Some t)
  with assms(1) obtain bytes where b: "pool_view pool t = Some bytes" "unat len \<le> length bytes" by (auto simp: payload_ok_def)
  have wf: "pool_wf pool" using assms(2) by (simp add: pool_owns_def)
  obtain pool' where pool': "copy_and_release pool t (unat len) output = Some (take (unat len) bytes @ drop (unat len) output, pool')"
    "pool_wf pool'" "pool_view pool' = (pool_view pool)(t := None)"
    using copy_and_release_spec [OF b(1) wf b(2) assms(3)] by blast
  have view: "pool_view pool' = forget (set_option payload) pool" using pool'(3) Some by (auto simp: forget_def fun_eq_iff)
  with pool_owns_forget [OF assms(2) pool'(2) view] pool'(1) b(1) Some show ?thesis
    by (simp add: copy_payload_def payload_bytes_def)
qed

definition received ::
  "channel_authority \<Rightarrow> object_id \<Rightarrow> queued_message \<Rightarrow> channel_authority \<Rightarrow> wait_registry \<Rightarrow> wait_registry \<Rightarrow> bool" where
  "received ca endpoint m ca' waits waits' \<longleftrightarrow> (\<exists>i side pair q ms. lives_at ca endpoint i side \<and>
    cs_pair (ca_pairs ca ! i) = Some pair \<and> queue_items (pc_inbound pair side) = m # ms \<and>
    queue_wf (ca_depth ca) q \<and> queue_items q = ms \<and> send_claims q = send_claims (pc_inbound pair side) \<and>
    bq_receive_reservation q = None \<and> ca' = set_inbound ca i pair side q \<and> waiters waits' \<subseteq># waiters waits \<and>
    (\<forall>s. side_quiet (pair\<lparr>pc_inbound := (pc_inbound pair)(side := q)\<rparr>) (waiters waits') s))"

lemma received_removes:
  assumes ok: "channel_ok ca pool R" and "received ca endpoint m ca' waits waits'"
  shows "channel_ok ca' pool R" and "channel_messages ca = add_mset m (channel_messages ca')"
    and "\<exists>mail. mailbox ca pool endpoint = Some (datagram_of pool m # mail) \<and> mailbox ca' pool = (mailbox ca pool)(endpoint \<mapsto> mail)"
proof -
  note wf = channel_ok_wf [OF ok]
  from assms(2) obtain i side pair q ms where r: "lives_at ca endpoint i side" "cs_pair (ca_pairs ca ! i) = Some pair"
    "queue_items (pc_inbound pair side) = m # ms" "queue_wf (ca_depth ca) q" "queue_items q = ms"
    "send_claims q = send_claims (pc_inbound pair side)" "ca' = set_inbound ca i pair side q"
    unfolding received_def by blast
  note i = lives_at_less [OF r(1)]
  show "channel_ok ca' pool R" unfolding r(7) by (rule channel_ok_queue [OF ok i r(2,4)]) (use r(3,5,6) in auto)
  show "channel_messages ca = add_mset m (channel_messages ca')"
    using channel_messages_set_inbound [OF i r(2), of side q] r(3,5,7) by simp
  obtain e where "pc_endpoints pair side = Some e" "er_object e = endpoint" using r(1,2) by (auto simp: lives_at_def)
  with mailbox_set_inbound [OF wf i r(2,4)] mailbox_at [OF wf r(1,2)] r(3,5,7)
  show "\<exists>mail. mailbox ca pool endpoint = Some (datagram_of pool m # mail) \<and> mailbox ca' pool = (mailbox ca pool)(endpoint \<mapsto> mail)"
    by simp
qed

lemma receive_reserved_effect:
  assumes ok: "channel_ok ca pool R" and pending: "receive_pending ca rr endpoint m"
  shows "\<exists>res output' ca' pool' waits'. receive_reserved ca pool rr output waits = Some (res, output', ca', pool', waits') \<and>
    channel_ok ca' pool' R \<and>
    (if length output < unat (qm_byte_len m)
     then res = Err BufferTooSmall \<and> output' = output \<and> pool' = pool \<and> waits' = waits \<and> similar ca ca'
     else (\<exists>wakes. res = Ok \<lparr>rm_byte_len = unat (qm_byte_len m), rm_transfers = qm_transfers m, rm_wakes = wakes\<rparr>) \<and>
       output' = payload_bytes pool (qm_payload m) (qm_byte_len m) @ drop (unat (qm_byte_len m)) output \<and>
       received ca endpoint m ca' waits waits' \<and> mailbox ca' pool' = mailbox ca' pool \<and>
       pool_view pool' = forget (set_option (qm_payload m)) pool)"
proof -
  let ?s = "crr_side rr" and ?n = "unat (qm_byte_len m)"
  from pending obtain i pair ms where r: "keyed_pair ca (crr_pair rr) = Ok (i, pair)" "lives_at ca endpoint i ?s"
    "queue_items (pc_inbound pair ?s) = m # ms" "bq_receive_reservation (pc_inbound pair ?s) = Some (crr_generation rr)"
    "crr_info rr = info_of m" unfolding receive_pending_def by blast
  note wf = channel_ok_wf [OF ok]
  have i: "i < length (ca_pairs ca)" "cs_pair (ca_pairs ca ! i) = Some pair" using r(1) by (auto simp: keyed_pair_Ok_iff)
  have qw: "queue_wf (ca_depth ca) (pc_inbound pair ?s)" using channel_wf_pair [OF wf i] by (simp add: pair_wf_def)
  have e: "pc_endpoints pair ?s \<noteq> None" using r(2) i(2) by (auto simp: lives_at_def)
  have n: "unat (mi_required_bytes (crr_info rr)) = ?n" by (simp add: r(5) info_of_def)
  show ?thesis
  proof (cases "length output < ?n")
    case True
    obtain ca' where c: "channel_cancel_receive ca rr = (Ok (), ca')" "similar ca ca'" using cancel_receive_effect [OF ok pending] by blast
    then have "receive_reserved ca pool rr output waits = Some (Err BufferTooSmall, output, ca', pool, waits)"
      using r(1) e n True by (auto simp: receive_reserved_def channel_cancel_receive_def Let_def split: result.splits prod.splits)
    with c(2) channel_ok_similar [OF ok c(2)] True show ?thesis by auto
  next
    case False
    obtain q where q: "pop_reserved (pc_inbound pair ?s) (crr_generation rr) = Some (Ok m, q)" "queue_wf (ca_depth ca) q"
      "queue_items q = ms" "send_claims q = send_claims (pc_inbound pair ?s)" "bq_receive_reservation q = None"
      using pop_reserved_spec [OF qw r(4,3)] by blast
    let ?pair = "pair\<lparr>pc_inbound := (pc_inbound pair)(?s := q)\<rparr>" and ?ca = "set_inbound ca i pair ?s q"
    obtain wakes waits' where w: "collect_changed ?pair waits (peer ?s) ?s = Some (Ok wakes, waits')"
      "waiters waits' \<subseteq># waiters waits" "\<forall>side. side_quiet ?pair (waiters waits') side"
      using collect_changed_peer [of ?pair waits ?s] by blast
    have rec: "received ca endpoint m ?ca waits waits'"
      unfolding received_def using r(2,3) i(2) q(2-5) w(2,3) by blast
    note rem = received_removes [OF ok rec]
    let ?X = "tokens_of (channel_messages ?ca) + reserved_tokens R"
    have owns: "pool_owns pool (payload_mset (qm_payload m) + ?X)" using ok rem(2) by (simp add: channel_ok_def ac_simps)
    have "payload_ok pool (qm_payload m) (qm_byte_len m)" using ok rem(2) by (simp add: channel_ok_def)
    then obtain pool' where pool': "copy_payload pool (qm_payload m) ?n output =
        Some (payload_bytes pool (qm_payload m) (qm_byte_len m) @ drop ?n output, pool')"
      "pool_owns pool' ?X" "pool_view pool' = forget (set_option (qm_payload m)) pool"
      using copy_payload_effect [OF _ owns, of "qm_byte_len m" "output"] False by auto
    have "channel_ok ?ca pool' R \<and> mailbox ?ca pool' = mailbox ?ca pool"
      by (rule channel_ok_pool [OF rem(1) pool'(2) pool_agrees_forget [OF owns pool'(3)]])
    moreover have "receive_reserved ca pool rr output waits =
        Some (Ok \<lparr>rm_byte_len = ?n, rm_transfers = qm_transfers m, rm_wakes = wakes\<rparr>,
          payload_bytes pool (qm_payload m) (qm_byte_len m) @ drop ?n output, ?ca, pool', waits')"
      using r(1) e n False q(1) pool'(1) w(1) by (simp add: receive_reserved_def Let_def set_inbound_def)
    ultimately show ?thesis using rec False pool'(3) by auto
  qed
qed

end
