(* ===== verification/Channel_Creation.thy ===== *)
theory Channel_Creation
  imports Channel_Receipt Object_Lifetime
begin

text \<open>
  Creating channel pairs: the slot of a pair is reserved, two registry objects are created and
  bound to its sides, or everything is taken back.
\<close>

section \<open>Replacing a vacant slot\<close>

definition set_slot :: "channel_authority \<Rightarrow> nat \<Rightarrow> pair_slot \<Rightarrow> channel_authority" where
  "set_slot ca i slot = ca\<lparr>ca_pairs := (ca_pairs ca)[i := slot]\<rparr>"

lemma set_slot_simps [simp]:
  "ca_domain (set_slot ca i slot) = ca_domain ca" "ca_depth (set_slot ca i slot) = ca_depth ca"
  "length (ca_pairs (set_slot ca i slot)) = length (ca_pairs ca)"
  "j < length (ca_pairs ca) \<Longrightarrow> ca_pairs (set_slot ca i slot) ! j = (if j = i then slot else ca_pairs ca ! j)"
  by (auto simp: set_slot_def nth_update_if)

lemma set_slot_set_slot [simp]: "set_slot (set_slot ca i s) i s' = set_slot ca i s'"
  by (simp add: set_slot_def)

lemma lives_at_set_slot:
  assumes "i < length (ca_pairs ca)"
  shows "lives_at (set_slot ca i slot) object j side \<longleftrightarrow>
    (if j = i then \<exists>pair e. cs_pair slot = Some pair \<and> pc_endpoints pair side = Some e \<and> er_object e = object
     else lives_at ca object j side)"
  using assms by (auto simp: lives_at_def)

lemma channel_wf_set_slot:
  assumes wf: "channel_wf ca" and i: "i < length (ca_pairs ca)"
    and pair: "\<And>pair side. cs_pair slot = Some pair \<Longrightarrow> queue_wf (ca_depth ca) (pc_inbound pair side) \<and>
      (\<forall>e. pc_endpoints pair side = Some e \<longrightarrow> lease_valid (ca_domain ca) i slot side (er_lease e) \<and>
        (\<forall>j s. j \<noteq> i \<longrightarrow> \<not> lives_at ca (er_object e) j s) \<and>
        (\<forall>s e'. pc_endpoints pair s = Some e' \<longrightarrow> er_object e' = er_object e \<longrightarrow> s = side))"
  shows "channel_wf (set_slot ca i slot)"
  unfolding channel_wf_def
proof (intro conjI allI impI)
  fix j p
  assume j: "j < length (ca_pairs (set_slot ca i slot))" "cs_pair (ca_pairs (set_slot ca i slot) ! j) = Some p"
  show "pair_wf (set_slot ca i slot) j p"
  proof (cases "j = i")
    case True
    with j pair i show ?thesis by (simp add: pair_wf_def)
  next
    case False
    with j channel_wf_pair [OF wf, of j p] show ?thesis by (simp add: pair_wf_def)
  qed
next
  fix object j s k s'
  assume l: "lives_at (set_slot ca i slot) object j s" "lives_at (set_slot ca i slot) object k s'"
  have "j = k \<and> s = s'"
  proof (cases "j = i"; cases "k = i")
    assume "j = i" "k = i"
    with l pair show ?thesis by (auto simp: lives_at_set_slot [OF i])
  next
    assume "j \<noteq> i" "k \<noteq> i"
    with l have "lives_at ca object j s" "lives_at ca object k s'" by (simp_all add: lives_at_set_slot [OF i])
    from lives_at_unique [OF wf this] show ?thesis .
  qed (use l pair in \<open>auto simp: lives_at_set_slot [OF i]\<close>)
  then show "j = k" "s = s'" by auto
qed

lemma mailbox_set_slot:
  assumes wf: "channel_wf ca" and wf': "channel_wf (set_slot ca i slot)" and i: "i < length (ca_pairs ca)"
    and vacant: "cs_pair (ca_pairs ca ! i) = None"
  shows "mailbox (set_slot ca i slot) pool object =
    (case cs_pair slot of
       None \<Rightarrow> mailbox ca pool object
     | Some pair \<Rightarrow>
        if \<exists>side. side_holds object pair side
        then Some (map (datagram_of pool) (queue_items (pc_inbound pair (if side_holds object pair Zero then Zero else One))))
        else mailbox ca pool object)"
proof (cases "\<exists>pair side. cs_pair slot = Some pair \<and> side_holds object pair side")
  case True
  then obtain pair side0 where p: "cs_pair slot = Some pair" "side_holds object pair side0" by blast
  let ?s = "if side_holds object pair Zero then Zero else One"
  have "side_holds object pair ?s" using p(2) by (cases side0) auto
  then have "lives_at (set_slot ca i slot) object i ?s" using p(1) by (simp add: lives_at_set_slot [OF i] side_holds_iff)
  from mailbox_at [OF wf' this] p i show ?thesis by auto
next
  case False
  have same: "lives_at (set_slot ca i slot) object j s \<longleftrightarrow> lives_at ca object j s" for j s
    using False vacant by (auto simp: lives_at_set_slot [OF i] side_holds_iff) (auto simp: lives_at_def)
  have "mailbox (set_slot ca i slot) pool object = mailbox ca pool object"
  proof (cases "\<exists>j s. lives_at ca object j s")
    case True
    then obtain j s where l: "lives_at ca object j s" by blast
    then obtain p where p: "j < length (ca_pairs ca)" "cs_pair (ca_pairs ca ! j) = Some p" by (auto simp: lives_at_def)
    with vacant have "cs_pair (ca_pairs (set_slot ca i slot) ! j) = Some p" by auto
    from mailbox_at [OF wf' _ this, of object s pool] mailbox_at [OF wf l p(2)] same l show ?thesis by simp
  next
    case none: False
    have "\<forall>j s. \<not> lives_at (set_slot ca i slot) object j s" using same none by blast
    with none mailbox_None_iff [OF wf, of pool object] mailbox_None_iff [OF wf', of pool object] show ?thesis by simp
  qed
  with False show ?thesis by (auto split: option.split)
qed

section \<open>Reserving a pair\<close>

lemma reserve_pair_scan_spec:
  "reserve_pair_scan domain depth k slots = (r, slots') \<Longrightarrow>
    (case r of
       Err e \<Rightarrow> e = ChannelCapacity \<and> slots' = slots
     | Ok key \<Rightarrow> \<exists>j g. j < length slots \<and> cs_pair (slots ! j) = None \<and> k + j < 2 ^ 16 \<and>
         unat g = unat (cs_generation (slots ! j)) + 1 \<and>
         key = \<lparr>pk_domain = domain, pk_slot = of_nat (k + j), pk_generation = g\<rparr> \<and>
         slots' = slots[j := \<lparr>cs_generation = g, cs_pair = Some (pair_record_new depth)\<rparr>])"
proof (induction slots arbitrary: k r slots')
  case (Cons s slots)
  obtain r1 slots1 where rest: "reserve_pair_scan domain depth (Suc k) slots = (r1, slots1)" by fastforce
  show ?case
  proof (cases "cs_pair s = None \<and> checked_next (cs_generation s) \<noteq> None")
    case True
    then obtain g where g: "checked_next (cs_generation s) = Some g" "cs_pair s = None" by blast
    have "unat g = unat (cs_generation s) + 1" using checked_next_unat [OF g(1)] by simp
    show ?thesis
    proof (cases "k < 65536")
      case True
      with g Cons.prems have "r = Ok \<lparr>pk_domain = domain, pk_slot = of_nat k, pk_generation = g\<rparr>"
        "slots' = \<lparr>cs_generation = g, cs_pair = Some (pair_record_new depth)\<rparr> # slots"
        by (simp_all add: u16_try_from_usize_def)
      with True g(2) \<open>unat g = unat (cs_generation s) + 1\<close> show ?thesis by (auto intro!: exI [of _ 0] exI [of _ g])
    next
      case False
      with g Cons.prems have "r = Err ChannelCapacity" "slots' = s # slots" by (simp_all add: u16_try_from_usize_def)
      then show ?thesis by simp
    qed
  next
    case False
    then have eq: "reserve_pair_scan domain depth k (s # slots) = (r1, s # slots1)"
      using rest by (cases "cs_pair s"; cases "checked_next (cs_generation s)") auto
    from trans [OF eq [symmetric] Cons.prems] have res: "r = r1" "slots' = s # slots1" by simp_all
    show ?thesis
    proof (cases r1)
      case (Err e)
      with Cons.IH [OF rest] res show ?thesis by simp
    next
      case (Ok key)
      with Cons.IH [OF rest] obtain j g where j: "j < length slots" "cs_pair (slots ! j) = None" "Suc k + j < 2 ^ 16"
        "unat g = unat (cs_generation (slots ! j)) + 1" "key = \<lparr>pk_domain = domain, pk_slot = of_nat (Suc k + j), pk_generation = g\<rparr>"
        "slots1 = slots[j := \<lparr>cs_generation = g, cs_pair = Some (pair_record_new depth)\<rparr>]" by auto
      from Ok res j show ?thesis by (auto intro!: exI [of _ "Suc j"] exI [of _ g])
    qed
  qed
qed simp

definition pair_reserved :: "channel_authority \<Rightarrow> channel_pair_key \<Rightarrow> nat \<Rightarrow> u32 \<Rightarrow> bool" where
  "pair_reserved ca key i g \<longleftrightarrow> i < length (ca_pairs ca) \<and> cs_pair (ca_pairs ca ! i) = None \<and> i < 2 ^ 16 \<and>
    unat g = unat (cs_generation (ca_pairs ca ! i)) + 1 \<and>
    key = \<lparr>pk_domain = ca_domain ca, pk_slot = of_nat i, pk_generation = g\<rparr>"

lemma channel_reserve_pair_spec:
  "case channel_reserve_pair ca of
     (Ok key, ca') \<Rightarrow> \<exists>i g. pair_reserved ca key i g \<and>
       ca' = set_slot ca i \<lparr>cs_generation = g, cs_pair = Some (pair_record_new (ca_depth ca))\<rparr>
   | (Err e, ca') \<Rightarrow> e = ChannelCapacity \<and> ca' = ca"
  using reserve_pair_scan_spec [of "ca_domain ca" "ca_depth ca" 0 "ca_pairs ca"]
  by (cases "reserve_pair_scan (ca_domain ca) (ca_depth ca) 0 (ca_pairs ca)")
    (fastforce simp: channel_reserve_pair_def pair_reserved_def set_slot_def split: result.splits)

text \<open>The bound pair, and the slot a reservation turns into.\<close>

definition bound_pair :: "nat \<Rightarrow> channel_pair_key \<Rightarrow> object_id \<Rightarrow> object_id \<Rightarrow> pair_record" where
  "bound_pair depth key first second = (pair_record_new depth)\<lparr>pc_endpoints := (\<lambda>side.
    Some \<lparr>er_object = (case side of Zero \<Rightarrow> first | One \<Rightarrow> second), er_lease = \<lparr>sl_pair = key, sl_side = side\<rparr>\<rparr>)\<rparr>"

lemma bound_pair_simps [simp]:
  "pc_inbound (bound_pair depth key first second) side = byte_queue_new depth"
  "pc_endpoints (bound_pair depth key first second) side =
    Some \<lparr>er_object = (case side of Zero \<Rightarrow> first | One \<Rightarrow> second), er_lease = \<lparr>sl_pair = key, sl_side = side\<rparr>\<rparr>"
  by (simp_all add: bound_pair_def pair_record_new_def)

lemma reserved_slot:
  assumes "pair_reserved ca key i g"
  shows "unat (pk_slot key) = i" "i < length (ca_pairs ca)" "pk_domain key = ca_domain ca" "pk_generation key = g"
  using assms by (auto simp: pair_reserved_def unat_of_nat take_bit_nat_eq_self)

lemma set_pair_set_slot:
  "i < length (ca_pairs ca) \<Longrightarrow> set_pair (set_slot ca i slot) i r = set_slot ca i (slot\<lparr>cs_pair := r\<rparr>)"
  by (simp add: set_pair_def) (simp add: set_slot_def)

lemma cancel_empty_pair_effect:
  assumes "pair_reserved ca key i g"
  shows "cancel_empty_pair (set_slot ca i \<lparr>cs_generation = g, cs_pair = Some (pair_record_new (ca_depth ca))\<rparr>) key =
    Some (set_slot ca i \<lparr>cs_generation = g, cs_pair = None\<rparr>)"
  using reserved_slot [OF assms]
  by (simp add: cancel_empty_pair_def slice_get_def pair_record_new_def queue_is_empty_items set_pair_set_slot)

lemma bind_pair_effect:
  assumes "pair_reserved ca key i g" and "cr_object_type first = DW_OBJECT_TYPE_CHANNEL" and "cr_object_type second = DW_OBJECT_TYPE_CHANNEL"
  shows "bind_pair (set_slot ca i \<lparr>cs_generation = g, cs_pair = Some (pair_record_new (ca_depth ca))\<rparr>) key first second =
    (Ok (first, second), set_slot ca i \<lparr>cs_generation = g, cs_pair = Some (bound_pair (ca_depth ca) key (cr_id first) (cr_id second))\<rparr>)"
  using reserved_slot [OF assms(1)] assms(2,3)
  by (simp add: bind_pair_def slice_get_def set_pair_set_slot bound_pair_def) (simp add: pair_record_new_def)

lemma channel_ok_set_slot:
  assumes ok: "channel_ok ca pool R" and res: "pair_reserved ca key i g" and depth: "0 < ca_depth ca"
    and x: "x = None \<or> x = Some (bound_pair (ca_depth ca) key first second) \<and> first \<noteq> second \<and>
      \<not> live_object ca first \<and> \<not> live_object ca second"
  defines "slot \<equiv> \<lparr>cs_generation = g, cs_pair = x\<rparr>"
  shows "channel_ok (set_slot ca i slot) pool R" and "channel_messages (set_slot ca i slot) = channel_messages ca"
proof -
  note r = reserved_slot [OF res] and wf = channel_ok_wf [OF ok]
  have g: "unat g = unat (cs_generation (ca_pairs ca ! i)) + 1" and vacant: "cs_pair (ca_pairs ca ! i) = None"
    using res by (auto simp: pair_reserved_def)
  have wf': "channel_wf (set_slot ca i slot)"
  proof (rule channel_wf_set_slot [OF wf r(2)])
    fix pair side
    assume "cs_pair slot = Some pair"
    with x slot_def have "pair = bound_pair (ca_depth ca) key first second" "first \<noteq> second" "\<not> live_object ca first" "\<not> live_object ca second"
      by auto
    then show "queue_wf (ca_depth ca) (pc_inbound pair side) \<and>
      (\<forall>e. pc_endpoints pair side = Some e \<longrightarrow> lease_valid (ca_domain ca) i slot side (er_lease e) \<and>
        (\<forall>j s. j \<noteq> i \<longrightarrow> \<not> lives_at ca (er_object e) j s) \<and>
        (\<forall>s e'. pc_endpoints pair s = Some e' \<longrightarrow> er_object e' = er_object e \<longrightarrow> s = side))"
      using queue_wf_new [OF depth] r
      by (auto simp: lease_valid_def slot_def live_object_def split: channel_side.splits)
  qed
  have "pair_messages x = {#}" using x by (auto simp: pair_messages_def)
  then show msgs: "channel_messages (set_slot ca i slot) = channel_messages ca"
    using sum_list_update_mset [OF r(2), of "\<lambda>s. pair_messages (cs_pair s)" slot] vacant
    by (simp add: channel_messages_def set_slot_def slot_def pair_messages_def)
  have "send_pending (set_slot ca i slot) rv" if "rv \<in># R" for rv
  proof -
    have p: "send_pending ca rv" using ok that by (simp add: channel_ok_def)
    then have "unat (pk_generation (csr_pair rv)) < unat g" if "unat (pk_slot (csr_pair rv)) = i"
      using g r(2) that by (simp add: send_pending_def key_issued_def)
    with p r(2) show ?thesis
      by (auto simp: send_pending_def key_issued_def keyed_pair_Ok_iff slot_def split: if_splits)
  qed
  with wf' msgs ok show "channel_ok (set_slot ca i slot) pool R" by (simp add: channel_ok_def)
qed

section \<open>Creating a pair\<close>

definition pair_created ::
  "channel_authority \<Rightarrow> object_id \<Rightarrow> object_id \<Rightarrow> channel_authority \<Rightarrow> bool" where
  "pair_created ca first second ca' \<longleftrightarrow> (\<exists>key i g. pair_reserved ca key i g \<and>
    ca' = set_slot ca i \<lparr>cs_generation = g, cs_pair = Some (bound_pair (ca_depth ca) key first second)\<rparr>)"

definition pair_not_created :: "channel_authority \<Rightarrow> channel_authority \<Rightarrow> bool" where
  "pair_not_created ca ca' \<longleftrightarrow> ca' = ca \<or> (\<exists>key i g. pair_reserved ca key i g \<and> ca' = set_slot ca i \<lparr>cs_generation = g, cs_pair = None\<rparr>)"

lemma create_pair_effect:
  assumes acc: "accounts reg L"
  shows "\<exists>r ca' reg'. create_pair ca reg = Some (r, ca', reg') \<and>
    (case r of
       Ok ((first, second), (h1, h2)) \<Rightarrow> first \<noteq> second \<and> phase_at reg first = None \<and> phase_at reg second = None \<and>
         handle_token h1 = (first, DW_OBJECT_TYPE_CHANNEL) \<and> handle_token h2 = (second, DW_OBJECT_TYPE_CHANNEL) \<and>
         accounts reg' (ledger_add Handle (handle_token h1) (ledger_add Handle (handle_token h2) L)) \<and>
         pair_created ca first second ca'
     | Err e \<Rightarrow> pair_not_created ca ca' \<and> accounts reg' L \<and> phase_at reg' = phase_at reg)"
proof -
  let ?T = DW_OBJECT_TYPE_CHANNEL
  obtain k ca1 where k: "channel_reserve_pair ca = (k, ca1)" by fastforce
  show ?thesis
  proof (cases k)
    case (Err e)
    with channel_reserve_pair_spec [of ca] k acc show ?thesis by (simp add: create_pair_def pair_not_created_def)
  next
    case (Ok key)
    with channel_reserve_pair_spec [of ca] k obtain i g where res: "pair_reserved ca key i g"
      and ca1: "ca1 = set_slot ca i \<lparr>cs_generation = g, cs_pair = Some (pair_record_new (ca_depth ca))\<rparr>" by auto
    note undo = cancel_empty_pair_effect [OF res, folded ca1]
    have nc: "pair_not_created ca (set_slot ca i \<lparr>cs_generation = g, cs_pair = None\<rparr>)"
      using res unfolding pair_not_created_def by blast
    obtain a reg1 where a: "create reg ?T = (a, reg1)" by fastforce
    show ?thesis
    proof (cases a)
      case (Err e)
      with k Ok a undo nc accounts_create_Err [OF acc] create_Err(1) show ?thesis
        by (fastforce simp: create_pair_def)
    next
      case f: (Ok first)
      note cf = a [unfolded f] and acc1 = accounts_create [OF acc a [unfolded f]]
      obtain b reg2 where b: "create reg1 ?T = (b, reg2)" by fastforce
      show ?thesis
      proof (cases b)
        case (Err e)
        have "phase_at reg2 = phase_at reg1" "accounts reg2 (ledger_add Internal (cr_id first, ?T) L)"
          using create_Err(1) accounts_create_Err [OF acc1] b Err by auto
        then obtain reg3 where "cancel_creation reg2 first = Some (Ok (), reg3)" "accounts reg3 L" "phase_at reg3 = phase_at reg"
          using cancel_fresh [OF acc cf] by blast
        with k Ok a f b Err undo nc show ?thesis by (simp add: create_pair_def)
      next
        case s: (Ok second)
        from two_fresh_handles [OF acc cf b [unfolded s]] k Ok a f b s bind_pair_effect [OF res, of first second, folded ca1] res
        show ?thesis
          by (fastforce simp: create_pair_def seal_handle_def handle_token_def pair_created_def)
      qed
    qed
  qed
qed

lemma pair_created_effect:
  assumes ok: "channel_ok ca pool R" and depth: "0 < ca_depth ca" and created: "pair_created ca first second ca'"
    and fresh: "first \<noteq> second" "\<not> live_object ca first" "\<not> live_object ca second"
  shows "channel_ok ca' pool R" and "channel_messages ca' = channel_messages ca"
    and "mailbox ca' pool = (mailbox ca pool)(first \<mapsto> [], second \<mapsto> [])"
    and "queue_holds ca' a b \<Longrightarrow> queue_holds ca a b"
    and "channel_signals ca' object = Some s \<Longrightarrow> object = first \<or> object = second \<or> channel_signals ca object = Some s"
proof -
  from created obtain key i g where res: "pair_reserved ca key i g"
    and ca': "ca' = set_slot ca i \<lparr>cs_generation = g, cs_pair = Some (bound_pair (ca_depth ca) key first second)\<rparr>"
    unfolding pair_created_def by blast
  note i = reserved_slot(2) [OF res] and wf = channel_ok_wf [OF ok]
  have vacant: "cs_pair (ca_pairs ca ! i) = None" using res by (simp add: pair_reserved_def)
  show ok': "channel_ok ca' pool R" and "channel_messages ca' = channel_messages ca"
    unfolding ca' using channel_ok_set_slot [OF ok res depth] fresh by blast+
  note wf' = channel_ok_wf [OF ok']
  have "mailbox ca' pool object = ((mailbox ca pool)(first \<mapsto> [], second \<mapsto> [])) object" for object
    using mailbox_set_slot [OF wf wf' [unfolded ca'] i vacant, of pool object] fresh(1)
    by (cases "object = first"; cases "object = second") (auto simp: ca' side_holds_def split: channel_side.splits)
  then show "mailbox ca' pool = (mailbox ca pool)(first \<mapsto> [], second \<mapsto> [])" by (rule ext)
  have new: "object = first \<or> object = second" if "lives_at ca' object i s" for object s
    using that by (cases s) (auto simp: ca' lives_at_set_slot [OF i])
  have old: "lives_at ca object j s" "cs_pair (ca_pairs ca' ! j) = cs_pair (ca_pairs ca ! j)" if "lives_at ca' object j s" "j \<noteq> i" for object j s
    using that i by (auto simp: ca' lives_at_set_slot [OF i] lives_at_less dest: lives_at_less)
  show "queue_holds ca a b" if h: "queue_holds ca' a b"
  proof -
    from h obtain j s p where l: "lives_at ca' a j s" "cs_pair (ca_pairs ca' ! j) = Some p" "b \<in> set (queued_channels (pc_inbound p s))"
      unfolding queue_holds_def by blast
    have "j \<noteq> i"
    proof
      assume "j = i"
      with l(2) i ca' have "p = bound_pair (ca_depth ca) key first second" by simp
      with l(3) queued_channels_items [OF queue_wf_new [OF depth]] show False by simp
    qed
    with old [OF l(1)] l(2,3) show ?thesis unfolding queue_holds_def by metis
  qed
  show "object = first \<or> object = second \<or> channel_signals ca object = Some s" if h: "channel_signals ca' object = Some s"
  proof -
    from h obtain j t p where l: "lives_at ca' object j t" "cs_pair (ca_pairs ca' ! j) = Some p" "signals_for_pair p t = Ok s"
      using channel_signals_Some_iff [OF wf'] by blast
    show ?thesis
    proof (cases "j = i")
      case True
      with new l(1) show ?thesis by blast
    next
      case False
      with old [OF l(1)] l(2,3) channel_signals_Some_iff [OF wf] show ?thesis by metis
    qed
  qed
qed

lemma pair_not_created_effect:
  assumes ok: "channel_ok ca pool R" and depth: "0 < ca_depth ca" and "pair_not_created ca ca'"
  shows "channel_ok ca' pool R" and "channel_messages ca' = channel_messages ca" and "mailbox ca' pool = mailbox ca pool"
    and "queue_holds ca' a b \<Longrightarrow> queue_holds ca a b" and "channel_signals ca' object = Some s \<Longrightarrow> channel_signals ca object = Some s"
proof -
  have "channel_ok ca' pool R \<and> channel_messages ca' = channel_messages ca \<and> mailbox ca' pool = mailbox ca pool \<and>
    (queue_holds ca' a b \<longrightarrow> queue_holds ca a b) \<and> (channel_signals ca' object = Some s \<longrightarrow> channel_signals ca object = Some s)"
  proof (cases "ca' = ca")
    case False
    with assms(3) obtain key i g where res: "pair_reserved ca key i g" and ca': "ca' = set_slot ca i \<lparr>cs_generation = g, cs_pair = None\<rparr>"
      unfolding pair_not_created_def by blast
    note i = reserved_slot(2) [OF res] and wf = channel_ok_wf [OF ok]
    have vacant: "cs_pair (ca_pairs ca ! i) = None" using res by (simp add: pair_reserved_def)
    have ok': "channel_ok ca' pool R" "channel_messages ca' = channel_messages ca"
      unfolding ca' using channel_ok_set_slot [OF ok res depth, of None] by blast+
    have "mailbox ca' pool = mailbox ca pool"
      using mailbox_set_slot [OF wf channel_ok_wf [OF ok'(1), unfolded ca'] i vacant] by (auto simp: ca')
    moreover have old: "lives_at ca o' j t" "cs_pair (ca_pairs ca' ! j) = cs_pair (ca_pairs ca ! j)" if "lives_at ca' o' j t" for o' j t
      using that i by (auto simp: ca' lives_at_set_slot [OF i] split: if_splits dest: lives_at_less)
    moreover have "queue_holds ca a b" if "queue_holds ca' a b" using that old unfolding queue_holds_def by metis
    moreover have "channel_signals ca object = Some s" if "channel_signals ca' object = Some s"
      using that old channel_signals_Some_iff [OF wf] channel_signals_Some_iff [OF channel_ok_wf [OF ok'(1)]] by metis
    ultimately show ?thesis using ok' by blast
  qed (use ok in simp)
  then show "channel_ok ca' pool R" "channel_messages ca' = channel_messages ca" "mailbox ca' pool = mailbox ca pool"
    "queue_holds ca' a b \<Longrightarrow> queue_holds ca a b" "channel_signals ca' object = Some s \<Longrightarrow> channel_signals ca object = Some s"
    by blast+
qed

end
