(* ===== verification/Channel_Closing.thy ===== *)
theory Channel_Closing
  imports Channel_Creation
begin

text \<open>
  Finalizing an endpoint: its mailbox is drained, the payloads of the drained datagrams go back
  to the pool, their transfers are handed to the caller, and the waiters of the surviving peer
  are woken. The pair disappears with its second endpoint.
\<close>

section \<open>Draining\<close>

lemma pool_owns_forget_many:
  assumes "pool_owns pool (mset ts + X)" and "pool_wf pool'" and "pool_view pool' = forget (set ts) pool"
  shows "pool_owns pool' X" and "pool_agrees X pool pool'"
proof -
  have bound: "count (mset ts) t + count X t \<le> (if pool_view pool t = None then 0 else 1)" for t
    using assms(1) by (simp add: pool_owns_def)
  have out: "t \<notin># X" if "t \<in> set ts" for t
  proof -
    have "0 < count (mset ts) t" using that by simp
    moreover have "count (mset ts) t + count X t \<le> 1" by (rule le_trans [OF bound]) simp
    ultimately have "count X t = 0" by linarith
    then show ?thesis by (simp add: not_in_iff)
  qed
  have "count X t \<le> (if pool_view pool' t = None then 0 else 1)" for t
  proof (cases "t \<in> set ts")
    case True
    with out show ?thesis by (simp add: not_in_iff)
  next
    case False
    with bound [of t] assms(3) show ?thesis by (auto simp: forget_def split: if_splits)
  qed
  with assms(2) show "pool_owns pool' X" by (simp add: pool_owns_def)
  show "pool_agrees X pool pool'" using out assms(3) by (auto simp: pool_agrees_def forget_def)
qed

lemma pool_owns_distinct:
  assumes "pool_owns pool (mset ts + X)"
  shows "distinct ts" and "\<forall>t\<in>set ts. pool_view pool t \<noteq> None"
proof -
  have bound: "count (mset ts) t \<le> (if pool_view pool t = None then 0 else 1)" for t
  proof -
    have "count (mset ts) t + count X t \<le> (if pool_view pool t = None then 0 else 1)" using assms by (simp add: pool_owns_def)
    then show ?thesis by (rule add_leD1)
  qed
  have "count (mset ts) t \<le> 1" for t by (rule le_trans [OF bound]) simp
  then show "distinct ts"
    by (metis One_nat_def count_mset_0_iff distinct_count_atmost_1 le_Suc_eq le_zero_eq)
  show "\<forall>t\<in>set ts. pool_view pool t \<noteq> None"
    using bound by (metis count_greater_zero_iff le_zero_eq less_numeral_extra(3) set_mset_mset)
qed

section \<open>Closing one side\<close>

text \<open>The pair after the endpoint at \<open>side\<close> was closed and its queue replaced.\<close>

definition closed_pair :: "pair_record \<Rightarrow> channel_side \<Rightarrow> byte_queue \<Rightarrow> pair_record" where
  "closed_pair pair side q =
    pair\<lparr>pc_endpoints := (pc_endpoints pair)(side := None), pc_inbound := (pc_inbound pair)(side := q)\<rparr>"

definition remaining_pair :: "pair_record \<Rightarrow> channel_side \<Rightarrow> byte_queue \<Rightarrow> pair_record option" where
  "remaining_pair pair side q = (if pc_endpoints pair (peer side) = None then None else Some (closed_pair pair side q))"

lemma remaining_refits:
  assumes "channel_wf ca" and "i < length (ca_pairs ca)" and "cs_pair (ca_pairs ca ! i) = Some pair" and "queue_wf (ca_depth ca) q"
  shows "pair_refits ca pair (remaining_pair pair side q)"
  using channel_wf_pair [OF assms(1-3)] assms(4)
  by (auto simp: pair_refits_def remaining_pair_def closed_pair_def pair_wf_def)

lemma lives_at_closed:
  assumes wf: "channel_wf ca" and l: "lives_at ca object i side" and pair: "cs_pair (ca_pairs ca ! i) = Some pair"
  shows "lives_at (set_pair ca i (remaining_pair pair side q)) o' j s \<longleftrightarrow> lives_at ca o' j s \<and> o' \<noteq> object"
proof (cases "j = i")
  case True
  have here: "o' = object" if "lives_at ca o' i side" for o' using that l by (auto simp: lives_at_def)
  have other: "o' \<noteq> object" if "lives_at ca o' i (peer side)" for o'
    using lives_at_unique [OF wf l] that by (metis peer_neq(1))
  have s: "s = side \<or> s = peer side" by (cases s; cases side) auto
  have "lives_at ca o' i s \<longleftrightarrow> (\<exists>e. pc_endpoints pair s = Some e \<and> er_object e = o')"
    using lives_at_less [OF l] pair by (auto simp: lives_at_def)
  with True s here other show ?thesis
    unfolding lives_at_set_pair [OF lives_at_less [OF l]]
    by (auto simp: remaining_pair_def closed_pair_def split: if_splits)
next
  case False
  with lives_at_unique [OF wf l] show ?thesis
    unfolding lives_at_set_pair [OF lives_at_less [OF l]] by auto
qed

lemma mailbox_closed:
  assumes wf: "channel_wf ca" and l: "lives_at ca object i side" and pair: "cs_pair (ca_pairs ca ! i) = Some pair"
    and q: "queue_wf (ca_depth ca) q"
  shows "mailbox (set_pair ca i (remaining_pair pair side q)) pool = (mailbox ca pool)(object := None)" (is "mailbox ?ca pool = _")
proof
  fix o'
  note i = lives_at_less [OF l] and lives = lives_at_closed [OF wf l pair]
  have wf': "channel_wf ?ca" by (rule channel_wf_set_pair [OF wf i pair remaining_refits [OF wf i pair q]])
  show "mailbox ?ca pool o' = ((mailbox ca pool)(object := None)) o'"
  proof (cases "\<exists>j s. lives_at ca o' j s \<and> o' \<noteq> object")
    case True
    then obtain j s where l': "lives_at ca o' j s" "o' \<noteq> object" by blast
    then obtain p where p: "j < length (ca_pairs ca)" "cs_pair (ca_pairs ca ! j) = Some p" by (auto simp: lives_at_def)
    have live': "lives_at ?ca o' j s" using l' lives by blast
    obtain p' where p': "cs_pair (ca_pairs ?ca ! j) = Some p'" using live' by (auto simp: lives_at_def)
    have "pc_inbound p' s = pc_inbound p s"
    proof (cases "j = i")
      case True
      moreover have "s \<noteq> side" using l l' True by (auto simp: lives_at_def)
      ultimately show ?thesis using p p' pair by (auto simp: cs_pair_set_pair remaining_pair_def closed_pair_def split: if_splits)
    qed (use p p' in \<open>simp add: cs_pair_set_pair\<close>)
    with mailbox_at [OF wf' live' p'] mailbox_at [OF wf l'(1) p(2)] l'(2) show ?thesis by simp
  next
    case False
    then have "\<forall>j s. \<not> lives_at ?ca o' j s" unfolding lives by blast
    moreover have "\<forall>j s. \<not> lives_at ca o' j s" if "o' \<noteq> object" using False that by blast
    ultimately show ?thesis using mailbox_None_iff [OF wf', of pool o'] mailbox_None_iff [OF wf, of pool o'] by auto
  qed
qed

lemma queue_holds_closed:
  assumes wf: "channel_wf ca" and l: "lives_at ca object i side" and pair: "cs_pair (ca_pairs ca ! i) = Some pair"
    and h: "queue_holds (set_pair ca i (remaining_pair pair side q)) a b"
  shows "queue_holds ca a b \<and> a \<noteq> object"
proof -
  from h obtain j s p where l': "lives_at (set_pair ca i (remaining_pair pair side q)) a j s"
    "cs_pair (ca_pairs (set_pair ca i (remaining_pair pair side q)) ! j) = Some p" "b \<in> set (queued_channels (pc_inbound p s))"
    unfolding queue_holds_def by blast
  then have a: "lives_at ca a j s" "a \<noteq> object" using lives_at_closed [OF wf l pair] by blast+
  note j = lives_at_less [OF a(1)]
  have "\<exists>p'. cs_pair (ca_pairs ca ! j) = Some p' \<and> pc_inbound p s = pc_inbound p' s"
  proof (cases "j = i")
    case True
    moreover have "s \<noteq> side" using l a True by (auto simp: lives_at_def)
    ultimately show ?thesis using l'(2) pair j by (auto simp: cs_pair_set_pair remaining_pair_def closed_pair_def split: if_splits)
  qed (use l'(2) j in \<open>simp add: cs_pair_set_pair\<close>)
  with a l'(3) show ?thesis unfolding queue_holds_def by metis
qed

section \<open>The invariant\<close>

lemma channel_messages_closed:
  assumes "i < length (ca_pairs ca)" and "cs_pair (ca_pairs ca ! i) = Some pair" and "queue_items q = []"
  shows "channel_messages (set_pair ca i (remaining_pair pair side q)) + mset (queue_items (pc_inbound pair side)) +
      (if pc_endpoints pair (peer side) = None then mset (queue_items (pc_inbound pair (peer side))) else {#}) = channel_messages ca"
proof -
  let ?m = "\<lambda>s. mset (queue_items (pc_inbound pair s))"
  have all: "pair_messages (Some pair) = ?m side + ?m (peer side)"
    by (cases side) (simp_all add: pair_messages_def ac_simps)
  have rest: "pair_messages (remaining_pair pair side q) =
      (if pc_endpoints pair (peer side) = None then {#} else ?m (peer side))"
    using assms(3) by (cases side) (simp_all add: pair_messages_def remaining_pair_def closed_pair_def)
  have "channel_messages (set_pair ca i (remaining_pair pair side q)) + pair_messages (Some pair) =
      channel_messages ca + pair_messages (remaining_pair pair side q)"
    using channel_messages_set_pair [OF assms(1), of "remaining_pair pair side q"] assms(2) by simp
  then show ?thesis unfolding all rest by (cases "pc_endpoints pair (peer side)") (simp_all add: ac_simps)
qed

lemma channel_ok_closed:
  assumes ok: "channel_ok ca pool R" and i: "i < length (ca_pairs ca)" "cs_pair (ca_pairs ca ! i) = Some pair"
    and q: "queue_wf (ca_depth ca) q" "queue_items q = []"
  shows "channel_ok (set_pair ca i (remaining_pair pair side q)) pool R"
    and "tokens_of (channel_messages (set_pair ca i (remaining_pair pair side q))) + mset (payload_tokens (queue_items (pc_inbound pair side))) \<subseteq># tokens_of (channel_messages ca)"
proof -
  let ?ca = "set_pair ca i (remaining_pair pair side q)"
  note wf = channel_ok_wf [OF ok] and msgs = channel_messages_closed [OF i q(2), of side]
  have sub: "channel_messages ?ca + mset (queue_items (pc_inbound pair side)) \<subseteq># channel_messages ca"
    unfolding msgs [symmetric] by simp
  then obtain Z where Z: "channel_messages ca = channel_messages ?ca + mset (queue_items (pc_inbound pair side)) + Z"
    by (metis subset_mset.le_iff_add)
  then show "tokens_of (channel_messages ?ca) + mset (payload_tokens (queue_items (pc_inbound pair side))) \<subseteq># tokens_of (channel_messages ca)"
    by (simp add: tokens_of_mset [symmetric])
  then have "tokens_of (channel_messages ?ca) \<subseteq># tokens_of (channel_messages ca)"
    by (metis mset_subset_eq_add_left subset_mset.trans)
  then have owns: "pool_owns pool (tokens_of (channel_messages ?ca) + reserved_tokens R)"
    using ok pool_owns_subset unfolding channel_ok_def by (metis subset_mset.add_right_mono)
  have pend: "send_pending ?ca r" if r: "r \<in># R" for r
  proof (rule send_pending_set_pair [OF _ i])
    show "send_pending ca r" using ok r by (simp add: channel_ok_def)
  qed (auto simp: remaining_pair_def closed_pair_def split: if_splits)
  have "channel_wf ?ca" by (rule channel_wf_set_pair [OF wf i remaining_refits [OF wf i q(1)]])
  moreover have "m \<in># channel_messages ca" if "m \<in># channel_messages ?ca" for m using Z that by simp
  ultimately show "channel_ok ?ca pool R" using ok owns pend by (auto simp: channel_ok_def)
qed

section \<open>Finalization\<close>

definition endpoint_closed ::
  "channel_authority \<Rightarrow> object_id \<Rightarrow> queued_message list \<Rightarrow> channel_authority \<Rightarrow> wait_registry \<Rightarrow> wait_registry \<Rightarrow> bool" where
  "endpoint_closed ca object ms ca' waits waits' \<longleftrightarrow> (\<exists>i side pair q. lives_at ca object i side \<and>
    cs_pair (ca_pairs ca ! i) = Some pair \<and> queue_items (pc_inbound pair side) = ms \<and>
    queue_wf (ca_depth ca) q \<and> queue_items q = [] \<and> bq_receive_reservation q = None \<and> ca' = set_pair ca i (remaining_pair pair side q) \<and>
    waiters waits' \<subseteq># waiters waits \<and>
    (pc_endpoints pair (peer side) \<noteq> None \<longrightarrow> side_quiet (closed_pair pair side q) (waiters waits') (peer side)))"

lemma wake_survivor:
  "\<exists>wakes waits'.
    (case pc_endpoints pair side of
       None \<Rightarrow> Some (wake_batch_empty (length (wg_slots waits)), waits)
     | Some peer_endpoint \<Rightarrow>
        do { observed \<leftarrow> expect_ok (signals_for_pair pair side);
             (ready, waits') \<leftarrow> take_ready waits (er_object peer_endpoint) observed;
             wakes \<leftarrow> wake_batch_append (wake_batch_empty (length (wg_slots waits))) ready;
             Some (wakes, waits') }) = Some (wakes, waits') \<and>
    waiters waits' \<subseteq># waiters waits \<and> side_quiet pair (waiters waits') side"
proof (cases "pc_endpoints pair side")
  case None
  then show ?thesis by (simp add: side_quiet_def)
next
  case (Some e)
  then obtain s where s: "signals_for_pair pair side = Ok s" using signals_for_pair_open by blast
  obtain ready w1 wakes1 where r: "take_ready waits (er_object e) s = Some (ready, w1)"
    "wake_batch_append (wake_batch_empty (length (wg_slots waits))) ready = Some wakes1"
    using append_ready [OF batch_room_empty] by blast
  with wait_registry_service.consume_subset [OF r(1)] wait_registry_service.consume_unready [OF r(1)] Some s show ?thesis
    by (auto simp: side_quiet_def)
qed

lemma take_finalization_effect:
  assumes ok: "channel_ok ca pool R" and f: "fr_object_type f = DW_OBJECT_TYPE_CHANNEL" "lives_at ca (fr_id f) i side"
    and pair: "cs_pair (ca_pairs ca ! i) = Some pair" and idle: "bq_receive_reservation (pc_inbound pair side) = None"
  defines "ms \<equiv> queue_items (pc_inbound pair side)"
  shows "\<exists>fin ca' pool' waits'. channel_take_finalization ca pool f waits = Some (Ok fin, ca', pool', waits') \<and>
    cf_final_release fin = f \<and>
    cf_drained_transfers fin = map Some (drained_batches ms) @ replicate (ca_depth ca - length (drained_batches ms)) None \<and>
    channel_ok ca' pool' R \<and> mailbox ca' pool' = (mailbox ca pool)(fr_id f := None) \<and>
    pool_view pool' = forget (set (payload_tokens ms)) pool \<and> endpoint_closed ca (fr_id f) ms ca' waits waits'"
proof -
  note wf = channel_ok_wf [OF ok] and i = lives_at_less [OF f(2)]
  have pw: "pair_wf ca i pair" using channel_wf_pair [OF wf i pair] .
  obtain e where e: "pc_endpoints pair side = Some e" using f(2) pair by (auto simp: lives_at_def)
  have lease: "lease_valid (ca_domain ca) i (ca_pairs ca ! i) side (er_lease e)"
    and qw: "queue_wf (ca_depth ca) (pc_inbound pair side)" using pw e by (auto simp: pair_wf_def)
  let ?ts = "payload_tokens ms"
  have sub: "mset ?ts \<subseteq># tokens_of (channel_messages ca) + reserved_tokens R"
    using channel_ok_closed(2) [OF ok i pair queue_wf_new, of side] qw
    by (metis (no_types, lifting) add.commute ms_def mset_subset_eq_add_left mset_subset_eq_add_right queue_items_new
        queue_wf_def subset_mset.trans)
  have owned: "pool_owns pool (tokens_of (channel_messages ca) + reserved_tokens R)" using ok by (simp add: channel_ok_def)
  have held: "distinct ?ts" "\<forall>t\<in>set ?ts. pool_view pool t \<noteq> None" "pool_wf pool"
    using pool_owns_distinct [of pool ?ts "{#}"] pool_owns_subset [OF owned sub] owned unfolding add_0_right pool_owns_def by blast+
  obtain transfers q pool' where q: "drain_transfers (pc_inbound pair side) pool = Some (transfers, q, pool')"
    "transfers = map Some (drained_batches ms) @ replicate (ca_depth ca - length (drained_batches ms)) None"
    "queue_wf (ca_depth ca) q" "queue_items q = []" "pool_wf pool'" "pool_view pool' = forget (set ?ts) pool"
    "bq_receive_reservation q = None"
    using drain_transfers_spec [OF qw idle held(3) held(1,2) [unfolded ms_def]] unfolding ms_def by blast
  let ?ca = "set_pair ca i (remaining_pair pair side q)"
  note closed = channel_ok_closed [OF ok i pair q(3,4), of side, folded ms_def]
  have all: "pool_owns pool (mset ?ts + (tokens_of (channel_messages ?ca) + reserved_tokens R))"
    using pool_owns_subset [OF owned] closed(2) by (metis (no_types, lifting) add.assoc add.commute subset_mset.add_right_mono)
  have ok': "channel_ok ?ca pool' R \<and> mailbox ?ca pool' = mailbox ?ca pool"
    by (rule channel_ok_pool [OF closed(1) pool_owns_forget_many [OF all q(5,6)]])
  obtain wakes waits' where w: "(case pc_endpoints (closed_pair pair side q) (peer side) of
       None \<Rightarrow> Some (wake_batch_empty (length (wg_slots waits)), waits)
     | Some peer_endpoint \<Rightarrow>
        do { observed \<leftarrow> expect_ok (signals_for_pair (closed_pair pair side q) (peer side));
             (ready, waits') \<leftarrow> take_ready waits (er_object peer_endpoint) observed;
             wakes \<leftarrow> wake_batch_append (wake_batch_empty (length (wg_slots waits))) ready;
             Some (wakes, waits') }) = Some (wakes, waits')"
    "waiters waits' \<subseteq># waiters waits" "side_quiet (closed_pair pair side q) (waiters waits') (peer side)"
    using wake_survivor by blast
  have loc: "located_pair ca (fr_id f) = Ok (i, side, pair)" using located_pair_Ok_iff [OF wf] f(2) pair by blast
  have "(if pc_endpoints (closed_pair pair side q) Zero = None \<and> pc_endpoints (closed_pair pair side q) One = None then None
      else Some (closed_pair pair side q)) = remaining_pair pair side q"
    by (cases side) (simp_all add: remaining_pair_def closed_pair_def)
  then have "channel_take_finalization ca pool f waits =
      Some (Ok \<lparr>cf_final_release = f, cf_wakes = wakes, cf_drained_transfers = transfers\<rparr>, ?ca, pool', waits')"
    using f(1) loc e lease q(1) w(1) by (simp add: channel_take_finalization_def Let_def flip: closed_pair_def)
  moreover have "endpoint_closed ca (fr_id f) ms ?ca waits waits'"
    unfolding endpoint_closed_def ms_def using f(2) pair q(3,4,7) w(2,3) by blast
  ultimately show ?thesis using ok' q(2,6) mailbox_closed [OF wf f(2) pair q(3)] by auto
qed

lemma endpoint_closed_quiet:
  assumes wf: "channel_wf ca" and closed: "endpoint_closed ca object ms ca' waits waits'"
    and quiet: "quiet (channel_signals ca) (waiters waits)"
  shows "quiet (channel_signals ca') (waiters waits')"
proof -
  from closed obtain i side pair q where c: "lives_at ca object i side" "cs_pair (ca_pairs ca ! i) = Some pair"
    "queue_wf (ca_depth ca) q" "ca' = set_pair ca i (remaining_pair pair side q)" "waiters waits' \<subseteq># waiters waits"
    "pc_endpoints pair (peer side) \<noteq> None \<longrightarrow> side_quiet (closed_pair pair side q) (waiters waits') (peer side)"
    unfolding endpoint_closed_def by blast
  note i = lives_at_less [OF c(1)]
  have wf': "channel_wf ca'" unfolding c(4) by (rule channel_wf_set_pair [OF wf i c(2) remaining_refits [OF wf i c(2,3)]])
  show "quiet (channel_signals ca') (waiters waits')"
    unfolding c(4)
  proof (rule quiet_set_pair [OF wf wf' [unfolded c(4)] i quiet c(5)])
    fix p s
    assume "remaining_pair pair side q = Some p"
    then have p: "p = closed_pair pair side q" "pc_endpoints pair (peer side) \<noteq> None" by (auto simp: remaining_pair_def split: if_splits)
    show "side_quiet p (waiters waits') s"
    proof (cases "s = side")
      case True
      then show ?thesis by (simp add: p side_quiet_def closed_pair_def)
    next
      case False
      then have "s = peer side" by (cases s; cases side) auto
      with p c(6) show ?thesis by simp
    qed
  qed
qed

lemma endpoint_closed_acyclic:
  assumes wf: "channel_wf ca" and closed: "endpoint_closed ca object ms ca' waits waits'" and "queues_acyclic ca"
  shows "queues_acyclic ca'"
proof -
  from closed obtain i side pair q where c: "lives_at ca object i side" "cs_pair (ca_pairs ca ! i) = Some pair"
    "ca' = set_pair ca i (remaining_pair pair side q)"
    unfolding endpoint_closed_def by blast
  show ?thesis using queues_acyclic_mono [OF assms(3)] queue_holds_closed [OF wf c(1,2)] c(3) by blast
qed

end
