(* ===== verification/Channel_Machine.thy ===== *)
theory Channel_Machine
  imports Channel_Closing
begin

text \<open>
  The transition system of the channel authority. A state is the authority, the payload pool, the
  send reservations that are outstanding and the wait registry; any interleaving of pair creation,
  reservation, commit, cancellation, receipt, waiting and finalization is a run. \<open>channel_inv\<close> is
  the invariant of the runs: beside \<open>channel_ok\<close> no payload slot is leaked, the queues of closed
  endpoints are empty, and the graph of channels queued inside channels has no cycle.
\<close>

section \<open>The invariant\<close>

type_synonym channel_state = "channel_authority \<times> payload_pool \<times> channel_send_reservation multiset \<times> wait_registry"

definition pair_settled :: "pair_record \<Rightarrow> bool" where
  "pair_settled pair \<longleftrightarrow> (\<forall>side. bq_receive_reservation (pc_inbound pair side) = None \<and>
    (pc_endpoints pair side = None \<longrightarrow> queue_items (pc_inbound pair side) = []))"

definition settled :: "channel_authority \<Rightarrow> bool" where
  "settled ca \<longleftrightarrow> (\<forall>i<length (ca_pairs ca). \<forall>pair. cs_pair (ca_pairs ca ! i) = Some pair \<longrightarrow> pair_settled pair)"

definition channel_tight :: "channel_authority \<Rightarrow> payload_pool \<Rightarrow> channel_send_reservation multiset \<Rightarrow> bool" where
  "channel_tight ca pool R \<longleftrightarrow>
    (\<forall>t. pool_view pool t \<noteq> None \<longrightarrow> t \<in># tokens_of (channel_messages ca) + reserved_tokens R)"

definition channel_inv :: "channel_authority \<Rightarrow> payload_pool \<Rightarrow> channel_send_reservation multiset \<Rightarrow> bool" where
  "channel_inv ca pool R \<longleftrightarrow> channel_ok ca pool R \<and> 0 < ca_depth ca \<and> settled ca \<and> channel_tight ca pool R \<and> queues_acyclic ca"

lemma settledD: "settled ca \<Longrightarrow> i < length (ca_pairs ca) \<Longrightarrow> cs_pair (ca_pairs ca ! i) = Some pair \<Longrightarrow> pair_settled pair"
  by (simp add: settled_def)

lemma settled_set_pair:
  "settled ca \<Longrightarrow> i < length (ca_pairs ca) \<Longrightarrow> (\<And>pair. r = Some pair \<Longrightarrow> pair_settled pair) \<Longrightarrow> settled (set_pair ca i r)"
  by (auto simp: settled_def cs_pair_set_pair)

lemma settled_set_inbound:
  assumes "settled ca" and "i < length (ca_pairs ca)" and "cs_pair (ca_pairs ca ! i) = Some pair"
    and "bq_receive_reservation q = None" and "pc_endpoints pair side = None \<Longrightarrow> queue_items q = []"
  shows "settled (set_inbound ca i pair side q)"
  unfolding set_inbound_def using settledD [OF assms(1-3)] assms
  by (intro settled_set_pair) (auto simp: pair_settled_def)

lemma settled_set_slot:
  "settled ca \<Longrightarrow> i < length (ca_pairs ca) \<Longrightarrow> (\<And>pair. cs_pair slot = Some pair \<Longrightarrow> pair_settled pair) \<Longrightarrow> settled (set_slot ca i slot)"
  by (auto simp: settled_def)

lemma pair_settled_bound: "pair_settled (bound_pair depth key first second)"
  by (simp add: pair_settled_def byte_queue_new_def)

section \<open>Tightness\<close>

lemma tight_messages:
  "channel_tight ca pool R \<Longrightarrow> channel_messages ca' = channel_messages ca \<Longrightarrow> channel_tight ca' pool R"
  by (simp add: channel_tight_def)

lemma tight_forget:
  assumes "channel_tight ca pool R" and "pool_view pool' = forget T pool"
    and "\<And>t. t \<in># tokens_of (channel_messages ca) + reserved_tokens R \<Longrightarrow> t \<notin> T \<Longrightarrow>
      t \<in># tokens_of (channel_messages ca') + reserved_tokens R'"
  shows "channel_tight ca' pool' R'"
  using assms by (auto simp: channel_tight_def forget_def)

lemma set_payload_mset [simp]: "t \<in># payload_mset payload \<longleftrightarrow> payload = Some t"
  by (cases payload) auto

lemma tokens_of_add: "tokens_of (M + N) = tokens_of M + tokens_of N"
  by (simp add: tokens_of_def)

section \<open>Effects on the invariant\<close>

lemma alike_inv:
  assumes "channel_inv ca pool R" and "alike ca ca'"
  shows "channel_inv ca' pool R"
proof (cases "ca' = ca")
  case False
  with assms(2) obtain i pair side q where c: "i < length (ca_pairs ca)" "cs_pair (ca_pairs ca ! i) = Some pair"
    "ca' = set_inbound ca i pair side q" "queue_items q = queue_items (pc_inbound pair side)"
    "bq_receive_reservation q = bq_receive_reservation (pc_inbound pair side)"
    unfolding alike_def by blast
  have i: "channel_ok ca pool R" "0 < ca_depth ca" "settled ca" "channel_tight ca pool R" "queues_acyclic ca"
    using assms(1) by (simp_all add: channel_inv_def)
  have p: "pair_settled pair" using settledD [OF i(3) c(1,2)] .
  note sim = alike_similar [OF assms(2)]
  have "channel_ok ca' pool R" by (rule channel_ok_similar [OF i(1) sim])
  moreover have "settled ca'" unfolding c(3) using p c by (intro settled_set_inbound [OF i(3)]) (auto simp: pair_settled_def)
  moreover have "channel_tight ca' pool R" using tight_messages [OF i(4)] channel_messages_same [OF c(1,2,4)] c(3) by simp
  moreover have "queues_acyclic ca'" using queues_acyclic_mono [OF i(5)] similar_same(5) [OF channel_ok_wf [OF i(1)] sim] by blast
  ultimately show ?thesis using i(2) similar_same(7) [OF channel_ok_wf [OF i(1)] sim] by (simp add: channel_inv_def)
qed (use assms in simp)

lemma set_inbound_acyclic:
  assumes wf: "channel_wf ca" and i: "i < length (ca_pairs ca)" "cs_pair (ca_pairs ca ! i) = Some pair"
    and q: "queue_wf (ca_depth ca) q" "set (queue_items q) \<subseteq> set (queue_items (pc_inbound pair side))"
    and "queues_acyclic ca"
  shows "queues_acyclic (set_inbound ca i pair side q)"
proof (rule queues_acyclic_mono [OF assms(6)])
  fix a b assume h: "queue_holds (set_inbound ca i pair side q) a b"
  have "queue_wf (ca_depth ca) (pc_inbound pair side)" using channel_wf_pair [OF wf i] by (simp add: pair_wf_def)
  then have "set (queued_channels q) \<subseteq> set (queued_channels (pc_inbound pair side))"
    using queued_channels_items [OF q(1)] queued_channels_items q(2) by blast
  with queue_holds_set_inbound [OF wf i q(1) h] i show "queue_holds ca a b" unfolding queue_holds_def by blast
qed

lemma keyed_slot: "keyed_pair ca key = Ok (i, pair) \<Longrightarrow> i < length (ca_pairs ca) \<and> cs_pair (ca_pairs ca ! i) = Some pair"
  by (auto simp: keyed_pair_Ok_iff)

lemma send_granted_inv:
  assumes inv: "channel_inv ca pool R" and granted: "send_granted ca pool endpoint payload r ca' pool'"
  shows "channel_inv ca' pool' (add_mset r R)"
proof -
  have i: "channel_ok ca pool R" "0 < ca_depth ca" "settled ca" "channel_tight ca pool R" "queues_acyclic ca"
    using inv by (simp_all add: channel_inv_def)
  from granted obtain i side pair e q where c: "lives_at ca endpoint i side" "cs_pair (ca_pairs ca ! i) = Some pair"
    "pc_endpoints pair (peer side) = Some e" "queue_wf (ca_depth ca) q" "queue_items q = queue_items (pc_inbound pair (peer side))"
    "bq_receive_reservation q = bq_receive_reservation (pc_inbound pair (peer side))" "ca' = set_inbound ca i pair (peer side) q"
    and alloc: "allocated pool payload (csr_payload r) pool'"
    unfolding send_granted_def by blast
  note l = lives_at_less [OF c(1)]
  have "settled ca'" unfolding c(7) using settledD [OF i(3) l c(2)] c
    by (intro settled_set_inbound [OF i(3) l c(2)]) (auto simp: pair_settled_def)
  moreover have "channel_tight ca' pool' (add_mset r R)"
    using i(4) alloc channel_messages_same [OF l c(2,5)] c(7)
    by (cases "csr_payload r") (fastforce simp: channel_tight_def allocated_def split: if_splits)+
  moreover have "queues_acyclic ca'" unfolding c(7)
    using set_inbound_acyclic [OF channel_ok_wf [OF i(1)] l c(2,4)] c(5) i(5) by simp
  ultimately show ?thesis using send_granted_ok(1) [OF i(1) granted] i(2) c(7) by (simp add: channel_inv_def set_inbound_def)
qed

lemma abandoned_inv:
  assumes inv: "channel_inv ca pool (add_mset r R)" and ok: "channel_ok ca' pool' R"
    and "abandoned ca r ca'" and pool: "pool_view pool' = forget (set_option (csr_payload r)) pool"
  shows "channel_inv ca' pool' R"
proof -
  have i: "channel_ok ca pool (add_mset r R)" "0 < ca_depth ca" "settled ca" "channel_tight ca pool (add_mset r R)" "queues_acyclic ca"
    using inv by (simp_all add: channel_inv_def)
  have "settled ca' \<and> channel_messages ca' = channel_messages ca \<and> queues_acyclic ca' \<and> ca_depth ca' = ca_depth ca"
  proof (cases "ca' = ca")
    case False
    with assms(3) obtain i pair q where key: "keyed_pair ca (csr_pair r) = Ok (i, pair)"
      and c: "ca' = set_inbound ca i pair (peer (csr_side r)) q" "queue_wf (ca_depth ca) q"
      "queue_items q = queue_items (pc_inbound pair (peer (csr_side r)))"
      "bq_receive_reservation q = bq_receive_reservation (pc_inbound pair (peer (csr_side r)))"
      by (auto simp: abandoned_def split: result.splits)
    note k = keyed_slot [OF key]
    have "settled ca'" unfolding c(1) using settledD [OF i(3)] k c
      by (intro settled_set_inbound [OF i(3)]) (auto simp: pair_settled_def)
    moreover have "channel_messages ca' = channel_messages ca" using channel_messages_same k c by blast
    moreover have "queues_acyclic ca'" unfolding c(1)
      using set_inbound_acyclic [OF channel_ok_wf [OF i(1)] _ _ c(2)] k c(3) i(5) by simp
    ultimately show ?thesis using c(1) by (simp add: set_inbound_def)
  qed (use i in simp)
  moreover from this have "channel_tight ca' pool' R" by (intro tight_forget [OF i(4) pool]) auto
  ultimately show ?thesis using ok i(2) by (simp add: channel_inv_def)
qed

lemma delivered_inv:
  assumes inv: "channel_inv ca pool (add_mset r R)" and ok: "channel_ok ca' pool R"
    and delivered: "delivered ca r transfers destination ca' waits waits'"
  shows "channel_inv ca' pool R"
proof -
  have i: "channel_ok ca pool (add_mset r R)" "0 < ca_depth ca" "settled ca" "channel_tight ca pool (add_mset r R)" "queues_acyclic ca"
    using inv by (simp_all add: channel_inv_def)
  from delivered obtain i pair q where key: "keyed_pair ca (csr_pair r) = Ok (i, pair)"
    and c: "ca' = set_inbound ca i pair (peer (csr_side r)) q" "pc_endpoints pair (peer (csr_side r)) \<noteq> None"
    "queue_items q = queue_items (pc_inbound pair (peer (csr_side r))) @ [sent_message r transfers]"
    "bq_receive_reservation q = bq_receive_reservation (pc_inbound pair (peer (csr_side r)))"
    unfolding delivered_def by blast
  note k = keyed_slot [OF key]
  have "settled ca'" unfolding c(1) using settledD [OF i(3)] k c
    by (intro settled_set_inbound [OF i(3)]) (auto simp: pair_settled_def)
  moreover have "channel_messages ca' = add_mset (sent_message r transfers) (channel_messages ca)"
    using channel_messages_set_inbound [of i ca pair "peer (csr_side r)" q] k c by simp
  then have "channel_tight ca' pool R" using i(4) by (simp add: channel_tight_def sent_message_def) blast
  ultimately show ?thesis
    using ok i(2) c(1) delivered_acyclic [OF channel_ok_wf [OF i(1)] delivered i(5)] by (simp add: channel_inv_def set_inbound_def)
qed

section \<open>Receiving in one step\<close>

lemma set_inbound_twice:
  "set_inbound (set_inbound ca i pair side q) i (pair\<lparr>pc_inbound := (pc_inbound pair)(side := q)\<rparr>) side q' = set_inbound ca i pair side q'"
  by (cases "i < length (ca_pairs ca)") (simp_all add: set_inbound_def set_pair_def list_update_beyond)

lemma receive_granted_at:
  assumes "channel_wf ca" and "receive_granted ca endpoint rr ca' m"
  obtains i side pair q ms where "lives_at ca endpoint i side" and "cs_pair (ca_pairs ca ! i) = Some pair"
    and "queue_items (pc_inbound pair side) = m # ms" and "bq_receive_reservation (pc_inbound pair side) = None"
    and "send_claims q = send_claims (pc_inbound pair side)" and "queue_items q = m # ms"
    and "ca' = set_inbound ca i pair side q" and "crr_side rr = side" and "crr_generation rr \<in> set_option (bq_receive_reservation q)"
    and "keyed_pair ca' (crr_pair rr) = Ok (i, pair\<lparr>pc_inbound := (pc_inbound pair)(side := q)\<rparr>)" and "queue_wf (ca_depth ca) q"
proof -
  from assms(2) obtain i side pair q ms where l: "lives_at ca endpoint i side" "i < 2 ^ 16" "cs_pair (ca_pairs ca ! i) = Some pair"
    and c: "queue_items (pc_inbound pair side) = m # ms" "bq_receive_reservation (pc_inbound pair side) = None"
    "send_claims q = send_claims (pc_inbound pair side)" "queue_items q = m # ms"
    "ca' = set_inbound ca i pair side q" "crr_side rr = side" "bq_receive_reservation q = Some (crr_generation rr)" "queue_wf (ca_depth ca) q"
    and key: "crr_pair rr = \<lparr>pk_domain = ca_domain ca, pk_slot = of_nat i, pk_generation = cs_generation (ca_pairs ca ! i)\<rparr>"
    unfolding receive_granted_def by blast
  have "keyed_pair ca' (crr_pair rr) = Ok (i, pair\<lparr>pc_inbound := (pc_inbound pair)(side := q)\<rparr>)"
    unfolding c(5) key by (intro keyed_set_inbound key_of_slot lives_at_less [OF l(1)] l)
  with that l c show thesis by auto
qed

lemma cancel_receive_alike:
  assumes ok: "channel_ok ca pool R" and granted: "receive_granted ca endpoint rr ca1 m"
    and cancel: "channel_cancel_receive ca1 rr = (x, ca2)"
  shows "alike ca ca2 \<and> x = Ok ()"
proof -
  from receive_granted_at [OF channel_ok_wf [OF ok] granted] obtain i side pair q ms where c: "lives_at ca endpoint i side"
    "cs_pair (ca_pairs ca ! i) = Some pair" "queue_items (pc_inbound pair side) = m # ms"
    "bq_receive_reservation (pc_inbound pair side) = None" "send_claims q = send_claims (pc_inbound pair side)" "queue_items q = m # ms"
    "ca1 = set_inbound ca i pair side q" "crr_side rr = side" "crr_generation rr \<in> set_option (bq_receive_reservation q)"
    "keyed_pair ca1 (crr_pair rr) = Ok (i, pair\<lparr>pc_inbound := (pc_inbound pair)(side := q)\<rparr>)" "queue_wf (ca_depth ca) q"
    by metis
  have q: "queue_cancel_receive q (crr_generation rr) = (Ok (), q\<lparr>bq_receive_reservation := None\<rparr>)"
    using c(9) by (auto simp: queue_cancel_receive_def)
  with cancel c(8,10) have x: "x = Ok ()" "ca2 = set_inbound ca i pair side (q\<lparr>bq_receive_reservation := None\<rparr>)"
    by (auto simp: channel_cancel_receive_def c(7) set_inbound_twice)
  have "queue_wf (ca_depth ca) (q\<lparr>bq_receive_reservation := None\<rparr>)"
    "queue_items (q\<lparr>bq_receive_reservation := None\<rparr>) = queue_items q" "send_claims (q\<lparr>bq_receive_reservation := None\<rparr>) = send_claims q"
    using queue_cancel_receive_spec [OF c(11)] by auto
  with x c lives_at_less [OF c(1)] show ?thesis unfolding alike_def by fastforce
qed

lemma received_composed:
  assumes wf: "channel_wf ca" and granted: "receive_granted ca endpoint rr ca1 m" and received: "received ca1 endpoint m ca2 waits waits'"
  shows "received ca endpoint m ca2 waits waits'"
proof -
  from receive_granted_at [OF wf granted] obtain i side pair q ms where c: "lives_at ca endpoint i side"
    "cs_pair (ca_pairs ca ! i) = Some pair" "queue_items (pc_inbound pair side) = m # ms"
    "send_claims q = send_claims (pc_inbound pair side)" "queue_items q = m # ms"
    "ca1 = set_inbound ca i pair side q" "queue_wf (ca_depth ca) q"
    by metis
  note l = lives_at_less [OF c(1)]
  let ?pair = "pair\<lparr>pc_inbound := (pc_inbound pair)(side := q)\<rparr>"
  have wf1: "channel_wf ca1" and l1: "lives_at ca1 endpoint i side"
    using set_inbound_wf [OF wf l c(2,7)] c(1,6) by blast+
  have p1: "cs_pair (ca_pairs ca1 ! i) = Some ?pair" using l by (simp add: c(6) set_inbound_def cs_pair_set_pair)
  from received obtain j s pair' q' ms' where d: "lives_at ca1 endpoint j s" "cs_pair (ca_pairs ca1 ! j) = Some pair'"
    "queue_items (pc_inbound pair' s) = m # ms'" "queue_wf (ca_depth ca1) q'" "queue_items q' = ms'"
    "send_claims q' = send_claims (pc_inbound pair' s)" "bq_receive_reservation q' = None" "ca2 = set_inbound ca1 j pair' s q'"
    "waiters waits' \<subseteq># waiters waits"
    "\<forall>t. side_quiet (pair'\<lparr>pc_inbound := (pc_inbound pair')(s := q')\<rparr>) (waiters waits') t"
    unfolding received_def by blast
  have "j = i" "s = side" using lives_at_unique [OF wf1 d(1) l1] by auto
  moreover from this have "pair' = ?pair" using p1 d(2) by simp
  ultimately have e: "queue_items q' = ms" "send_claims q' = send_claims (pc_inbound pair side)" "queue_wf (ca_depth ca) q'"
    "ca2 = set_inbound ca i pair side q'" "\<forall>t. side_quiet (pair\<lparr>pc_inbound := (pc_inbound pair)(side := q')\<rparr>) (waiters waits') t"
    using d c(4,5,6) by (simp_all add: set_inbound_twice) (simp_all add: set_inbound_def)
  show ?thesis unfolding received_def using c(1-3) d(7,9) e by blast
qed

lemma receive_reserved_short:
  assumes wf: "channel_wf ca" and granted: "receive_granted ca endpoint rr ca1 m" and short: "length output < unat (mi_required_bytes (crr_info rr))"
  shows "receive_reserved ca1 pool rr output waits = Some (Err BufferTooSmall, output, snd (channel_cancel_receive ca1 rr), pool, waits)"
proof -
  from receive_granted_at [OF wf granted] obtain i side pair q where c: "lives_at ca endpoint i side"
    "cs_pair (ca_pairs ca ! i) = Some pair" "crr_side rr = side" "crr_generation rr \<in> set_option (bq_receive_reservation q)"
    "keyed_pair ca1 (crr_pair rr) = Ok (i, pair\<lparr>pc_inbound := (pc_inbound pair)(side := q)\<rparr>)"
    by metis
  have "pc_endpoints pair side \<noteq> None" using c(1,2) by (auto simp: lives_at_def)
  moreover have "queue_cancel_receive q (crr_generation rr) = (Ok (), q\<lparr>bq_receive_reservation := None\<rparr>)"
    using c(4) by (auto simp: queue_cancel_receive_def)
  ultimately show ?thesis using c(3,5) short by (auto simp: receive_reserved_def channel_cancel_receive_def)
qed

lemma received_inv:
  assumes inv: "channel_inv ca pool R" and ok: "channel_ok ca' pool' R" and received: "received ca endpoint m ca' waits waits'"
    and pool: "pool_view pool' = forget (set_option (qm_payload m)) pool"
  shows "channel_inv ca' pool' R"
proof -
  have i: "channel_ok ca pool R" "0 < ca_depth ca" "settled ca" "channel_tight ca pool R" "queues_acyclic ca"
    using inv by (simp_all add: channel_inv_def)
  from received obtain i side pair q ms where c: "lives_at ca endpoint i side" "cs_pair (ca_pairs ca ! i) = Some pair"
    "queue_items (pc_inbound pair side) = m # ms" "queue_wf (ca_depth ca) q" "queue_items q = ms" "bq_receive_reservation q = None"
    "ca' = set_inbound ca i pair side q"
    unfolding received_def by blast
  note l = lives_at_less [OF c(1)]
  have "settled ca'" unfolding c(7) using settledD [OF i(3) l c(2)] c
    by (intro settled_set_inbound [OF i(3) l c(2)]) (auto simp: pair_settled_def)
  moreover have "channel_tight ca' pool' R"
    using received_removes(2) [OF i(1) received] by (intro tight_forget [OF i(4) pool]) auto
  moreover have "queues_acyclic ca'" unfolding c(7)
    using set_inbound_acyclic [OF channel_ok_wf [OF i(1)] l c(2,4) _ i(5), of side] c(3,5) by auto
  ultimately show ?thesis using ok i(2) c(7) by (simp add: channel_inv_def set_inbound_def)
qed

section \<open>Creating and closing\<close>

lemma pair_created_inv:
  assumes inv: "channel_inv ca pool R" and created: "pair_created ca first second ca'"
    and fresh: "first \<noteq> second" "\<not> live_object ca first" "\<not> live_object ca second"
  shows "channel_inv ca' pool R"
proof -
  have i: "channel_ok ca pool R" "0 < ca_depth ca" "settled ca" "channel_tight ca pool R" "queues_acyclic ca"
    using inv by (simp_all add: channel_inv_def)
  note e = pair_created_effect [OF i(1,2) created fresh]
  from created obtain key i g where c: "pair_reserved ca key i g"
    "ca' = set_slot ca i \<lparr>cs_generation = g, cs_pair = Some (bound_pair (ca_depth ca) key first second)\<rparr>"
    unfolding pair_created_def by blast
  have "settled ca'" unfolding c(2) using reserved_slot(2) [OF c(1)] pair_settled_bound
    by (intro settled_set_slot [OF i(3)]) auto
  with e(1,2) tight_messages [OF i(4)] queues_acyclic_mono [OF i(5) e(4)] i(2) c(2) show ?thesis by (simp add: channel_inv_def)
qed

lemma pair_not_created_inv:
  assumes inv: "channel_inv ca pool R" and "pair_not_created ca ca'"
  shows "channel_inv ca' pool R"
proof -
  have i: "channel_ok ca pool R" "0 < ca_depth ca" "settled ca" "channel_tight ca pool R" "queues_acyclic ca"
    using inv by (simp_all add: channel_inv_def)
  note e = pair_not_created_effect [OF i(1,2) assms(2)]
  have "settled ca' \<and> ca_depth ca' = ca_depth ca"
    using assms(2) i(3) reserved_slot(2) by (auto simp: pair_not_created_def intro!: settled_set_slot)
  with e(1,2) tight_messages [OF i(4)] queues_acyclic_mono [OF i(5) e(4)] i(2) show ?thesis by (simp add: channel_inv_def)
qed

lemma settled_closed:
  assumes "settled ca" and l: "lives_at ca object i side" "cs_pair (ca_pairs ca ! i) = Some pair"
    and q: "queue_items q = []" "bq_receive_reservation q = None"
  shows "settled (set_pair ca i (remaining_pair pair side q))"
  using settledD [OF assms(1) lives_at_less [OF l(1)] l(2)] q
  by (intro settled_set_pair [OF assms(1) lives_at_less [OF l(1)]])
    (auto simp: remaining_pair_def closed_pair_def pair_settled_def split: if_splits)

lemma tokens_of_payloads: "tokens_of (mset ms) = mset (payload_tokens ms)"
  by (induction ms) (auto simp: payload_tokens_def tokens_of_def split: option.splits)

text \<open>
  Finalizing an idle endpoint drains its queue and nothing else: when the other side is already
  closed its queue is empty, so removing the pair loses no message.
\<close>

lemma closed_messages:
  assumes "settled ca" and l: "lives_at ca object i side" "cs_pair (ca_pairs ca ! i) = Some pair" and q: "queue_items q = []"
  shows "channel_messages (set_pair ca i (remaining_pair pair side q)) + mset (queue_items (pc_inbound pair side)) = channel_messages ca"
  using channel_messages_closed [OF lives_at_less [OF l(1)] l(2) q, of side] settledD [OF assms(1) lives_at_less [OF l(1)] l(2)]
  by (cases "pc_endpoints pair (peer side)") (auto simp: pair_settled_def)

lemma endpoint_closed_inv:
  assumes inv: "channel_inv ca pool R" and ok: "channel_ok ca' pool' R" and closed: "endpoint_closed ca object ms ca' waits waits'"
    and pool: "pool_view pool' = forget (set (payload_tokens ms)) pool"
  shows "channel_inv ca' pool' R"
proof -
  have i: "channel_ok ca pool R" "0 < ca_depth ca" "settled ca" "channel_tight ca pool R" "queues_acyclic ca"
    using inv by (simp_all add: channel_inv_def)
  from closed obtain i side pair q where c: "lives_at ca object i side" "cs_pair (ca_pairs ca ! i) = Some pair"
    "queue_items (pc_inbound pair side) = ms" "queue_items q = []" "bq_receive_reservation q = None"
    "ca' = set_pair ca i (remaining_pair pair side q)"
    unfolding endpoint_closed_def by blast
  have "channel_messages ca = channel_messages ca' + mset ms" using closed_messages [OF i(3) c(1,2,4)] c(3,6) by simp
  then have "channel_tight ca' pool' R" by (intro tight_forget [OF i(4) pool]) (auto simp: tokens_of_add tokens_of_payloads)
  with ok i(2) c(6) settled_closed [OF i(3) c(1,2,4,5)] endpoint_closed_acyclic [OF channel_ok_wf [OF i(1)] closed i(5)]
  show ?thesis by (simp add: channel_inv_def)
qed

definition finalization_answered ::
  "channel_authority \<Rightarrow> payload_pool \<Rightarrow> wait_registry \<Rightarrow> final_release \<Rightarrow> (channel_finalization, channel_error \<times> final_release) result \<Rightarrow>
   channel_authority \<Rightarrow> payload_pool \<Rightarrow> wait_registry \<Rightarrow> bool" where
  "finalization_answered ca pool w f x ca' pool' w' \<longleftrightarrow> (case x of
      Err e \<Rightarrow> ca' = ca \<and> pool' = pool \<and> w' = w \<and> snd e = f \<and>
        \<not> (fr_object_type f = DW_OBJECT_TYPE_CHANNEL \<and> live_object ca (fr_id f))
    | Ok fin \<Rightarrow> fr_object_type f = DW_OBJECT_TYPE_CHANNEL \<and> live_object ca (fr_id f) \<and> cf_final_release fin = f \<and>
        mailbox ca' pool' = (mailbox ca pool)(fr_id f := None) \<and>
        (\<exists>ms. pool_view pool' = forget (set (payload_tokens ms)) pool \<and> endpoint_closed ca (fr_id f) ms ca' w w' \<and>
          mailbox ca pool (fr_id f) = Some (map (datagram_of pool) ms) \<and>
          cf_drained_transfers fin = map Some (drained_batches ms) @ replicate (ca_depth ca - length (drained_batches ms)) None))"

lemma take_finalization_cases:
  assumes inv: "channel_inv ca pool R"
  shows "\<exists>x ca' pool' w'. channel_take_finalization ca pool f w = Some (x, ca', pool', w') \<and> channel_ok ca' pool' R \<and>
    finalization_answered ca pool w f x ca' pool' w'"
proof (cases "fr_object_type f = DW_OBJECT_TYPE_CHANNEL \<and> live_object ca (fr_id f)")
  case True
  have i: "channel_ok ca pool R" "settled ca" using inv by (simp_all add: channel_inv_def)
  from True obtain i side where l: "lives_at ca (fr_id f) i side" by (auto simp: live_object_def)
  then obtain pair where pair: "cs_pair (ca_pairs ca ! i) = Some pair" by (auto simp: lives_at_def)
  have "bq_receive_reservation (pc_inbound pair side) = None"
    using settledD [OF i(2) lives_at_less [OF l] pair] by (simp add: pair_settled_def)
  from take_finalization_effect [OF i(1) _ l pair this, of w] True mailbox_at [OF channel_ok_wf [OF i(1)] l pair, of pool]
  show ?thesis unfolding finalization_answered_def by (auto simp del: fun_upd_apply)
next
  case False
  have ok: "channel_ok ca pool R" using inv by (simp add: channel_inv_def)
  then have "fr_object_type f = DW_OBJECT_TYPE_CHANNEL \<Longrightarrow> \<exists>e. located_pair ca (fr_id f) = Err e"
    using False located_pair_Ok_iff [OF channel_ok_wf] by (cases "located_pair ca (fr_id f)") (auto simp: live_object_def)
  with ok False show ?thesis
    by (cases "fr_object_type f = DW_OBJECT_TYPE_CHANNEL") (auto simp: channel_take_finalization_def finalization_answered_def)
qed

lemma take_finalization_inv:
  assumes inv: "channel_inv ca pool R"
  shows "\<exists>x ca' pool' w'. channel_take_finalization ca pool f w = Some (x, ca', pool', w') \<and> channel_inv ca' pool' R"
proof -
  from take_finalization_cases [OF inv, of f w] obtain x ca' pool' w' where
    t: "channel_take_finalization ca pool f w = Some (x, ca', pool', w')" "channel_ok ca' pool' R"
    "finalization_answered ca pool w f x ca' pool' w'" by blast
  then have "channel_inv ca' pool' R"
    using inv endpoint_closed_inv [OF inv t(2)] by (cases x) (auto simp: finalization_answered_def)
  with t(1) show ?thesis by blast
qed

section \<open>Runs\<close>

text \<open>
  Each step carries what it did to the mail. The creator of a pair draws the two identities from an
  object registry that knows the live endpoints. A receive reservation is completed or cancelled
  before the next operation, as the system calls do under the exclusive borrow of the authority;
  send reservations may stay outstanding.
\<close>

datatype channel_event = Silent | Opened object_id object_id | Sent object_id datagram | Received object_id datagram | Closed object_id

definition send_target :: "channel_authority \<Rightarrow> channel_send_reservation \<Rightarrow> object_id option" where
  "send_target ca r = (case keyed_pair ca (csr_pair r) of
      Ok (i, pair) \<Rightarrow> map_option er_object (pc_endpoints pair (peer (csr_side r)))
    | Err _ \<Rightarrow> None)"

definition create_event_of :: "(('k \<times> 'h), 'e) result \<Rightarrow> ('k \<Rightarrow> channel_event) \<Rightarrow> channel_event" where
  "create_event_of x f = (case x of Ok (k, h) \<Rightarrow> f k | Err _ \<Rightarrow> Silent)"

definition commit_event :: "channel_authority \<Rightarrow> payload_pool \<Rightarrow> channel_send_reservation \<Rightarrow> handle_transfer_batch \<Rightarrow>
    (wake_batch, 'e) result \<Rightarrow> channel_event" where
  "commit_event ca pool r transfers x = (case (x, send_target ca r) of
      (Ok _, Some destination) \<Rightarrow> Sent destination (payload_bytes pool (csr_payload r) (csr_byte_len r), transfers)
    | _ \<Rightarrow> Silent)"

definition receive_event :: "object_id \<Rightarrow> u8 list \<Rightarrow> (channel_received_message, channel_error) result \<Rightarrow> channel_event" where
  "receive_event endpoint out x = (case x of
      Ok m \<Rightarrow> Received endpoint (take (rm_byte_len m) out, rm_transfers m) | Err _ \<Rightarrow> Silent)"

definition close_event :: "final_release \<Rightarrow> (channel_finalization, 'e) result \<Rightarrow> channel_event" where
  "close_event f x = (case x of Ok _ \<Rightarrow> Closed (fr_id f) | Err _ \<Rightarrow> Silent)"

inductive channel_step :: "channel_state \<Rightarrow> channel_event \<Rightarrow> channel_state \<Rightarrow> bool" where
  step_create_pair: "accounts reg L \<Longrightarrow> \<forall>object. live_object ca object \<longrightarrow> phase_at reg object \<noteq> None \<Longrightarrow>
    create_pair ca reg = Some (x, ca', reg') \<Longrightarrow>
    channel_step (ca, pool, R, w) (create_event_of x (\<lambda>(first, second). Opened first second)) (ca', pool, R, w)"
| step_reserve_send: "channel_reserve_send ca pool endpoint payload = Some (res, ca', pool') \<Longrightarrow>
    channel_step (ca, pool, R, w) Silent (ca', pool', (case res of Ok r \<Rightarrow> add_mset r R | Err e \<Rightarrow> R), w)"
| step_commit_send: "tb_len transfers < 2 ^ 32 \<Longrightarrow>
    channel_commit_send ca pool r transfers w = Some (x, ca', pool', w') \<Longrightarrow>
    channel_step (ca, pool, add_mset r R, w) (commit_event ca pool r transfers x) (ca', pool', R, w')"
| step_cancel_send: "channel_cancel_send ca pool r = Some (x, ca', pool') \<Longrightarrow>
    channel_step (ca, pool, add_mset r R, w) Silent (ca', pool', R, w)"
| step_receive: "reserve_receive ca endpoint = Some (Ok rr, ca1) \<Longrightarrow>
    receive_reserved ca1 pool rr out w = Some (x, out', ca', pool', w') \<Longrightarrow>
    channel_step (ca, pool, R, w) (receive_event endpoint out' x) (ca', pool', R, w')"
| step_receive_cancelled: "reserve_receive ca endpoint = Some (Ok rr, ca1) \<Longrightarrow>
    channel_cancel_receive ca1 rr = (x, ca') \<Longrightarrow> channel_step (ca, pool, R, w) Silent (ca', pool, R, w)"
| step_receive_refused: "reserve_receive ca endpoint = Some (Err e, ca') \<Longrightarrow>
    channel_step (ca, pool, R, w) Silent (ca', pool, R, w)"
| step_register: "channel_register_wait ca w target desired k thread wake = (x, w') \<Longrightarrow>
    channel_step (ca, pool, R, w) Silent (ca, pool, R, w')"
| step_finalize: "channel_take_finalization ca pool f w = Some (x, ca', pool', w') \<Longrightarrow>
    channel_step (ca, pool, R, w) (close_event f x) (ca', pool', R, w')"
| step_wait: "wait_step w w' \<Longrightarrow> channel_step (ca, pool, R, w) Silent (ca, pool, R, w')"

inductive channel_run :: "channel_state \<Rightarrow> channel_event list \<Rightarrow> channel_state \<Rightarrow> bool" where
  run_start: "channel_run st [] st"
| run_step: "channel_run st ls st1 \<Longrightarrow> channel_step st1 l st2 \<Longrightarrow> channel_run st (ls @ [l]) st2"

definition state_inv :: "channel_state \<Rightarrow> bool" where
  "state_inv = (\<lambda>(ca, pool, R, w). channel_inv ca pool R)"

lemma state_inv_simp [simp]: "state_inv (ca, pool, R, w) \<longleftrightarrow> channel_inv ca pool R"
  by (simp add: state_inv_def)

lemma channel_inv_parts:
  "channel_inv ca pool R \<Longrightarrow> channel_ok ca pool R \<and> channel_wf ca \<and> pool_wf pool"
  by (auto simp: channel_inv_def channel_ok_def pool_owns_def)

lemma create_pair_inv:
  assumes inv: "channel_inv ca pool R" and acc: "accounts reg L" and known: "\<forall>object. live_object ca object \<longrightarrow> phase_at reg object \<noteq> None"
    and create: "create_pair ca reg = Some (x, ca', reg')"
  shows "channel_inv ca' pool R"
proof (cases x)
  case (Ok y)
  then obtain first second h1 h2 where y: "x = Ok ((first, second), (h1, h2))" by (metis prod.collapse)
  with create_pair_effect [OF acc, of ca] create
  have "first \<noteq> second" "phase_at reg first = None" "phase_at reg second = None" "pair_created ca first second ca'" by auto
  with known pair_created_inv [OF inv] show ?thesis by blast
next
  case (Err e)
  with create_pair_effect [OF acc, of ca] create have "pair_not_created ca ca'" by auto
  then show ?thesis by (rule pair_not_created_inv [OF inv])
qed

lemma receive_inv:
  assumes inv: "channel_inv ca pool R" and reserve: "reserve_receive ca endpoint = Some (Ok rr, ca1)"
    and receive: "receive_reserved ca1 pool rr out w = Some (x, out', ca', pool', w')"
  shows "channel_inv ca' pool' R"
proof -
  note parts = channel_inv_parts [OF inv]
  obtain m where granted: "receive_granted ca endpoint rr ca1 m"
    using reserve_receive_effect [of ca pool R endpoint] parts reserve by auto
  have ok1: "channel_ok ca1 pool R" using channel_ok_similar receive_granted_similar [OF granted] parts by blast
  have pending: "receive_pending ca1 rr endpoint m" using receive_granted_pending granted parts by blast
  have info: "unat (mi_required_bytes (crr_info rr)) = unat (qm_byte_len m)"
    using granted by (auto simp: receive_granted_def info_of_def)
  show ?thesis
  proof (cases "length out < unat (qm_byte_len m)")
    case True
    with receive_reserved_short [of ca endpoint rr ca1 m out pool w] granted parts receive info
    have "ca' = snd (channel_cancel_receive ca1 rr)" "pool' = pool" by auto
    with cancel_receive_alike [OF _ granted] parts alike_inv [OF inv] show ?thesis by (metis prod.collapse)
  next
    case False
    with receive_reserved_effect [OF ok1 pending, of out w] receive
    have "channel_ok ca' pool' R" "received ca1 endpoint m ca' w w'" "pool_view pool' = forget (set_option (qm_payload m)) pool"
      by auto
    with received_inv [OF inv] received_composed [OF _ granted] parts show ?thesis by blast
  qed
qed

lemma channel_step_inv: "channel_step st l st' \<Longrightarrow> state_inv st \<Longrightarrow> state_inv st'"
proof (induction rule: channel_step.induct)
  case (step_create_pair reg L ca x ca' reg' pool R w)
  then show ?case using create_pair_inv [of ca pool R reg L x ca' reg'] by simp
next
  case (step_reserve_send ca pool endpoint payload res ca' pool' R w)
  then have inv: "channel_inv ca pool R" by simp
  from reserve_send_effect [of ca pool endpoint payload] channel_inv_parts [OF inv] step_reserve_send(1)
  have "send_answered ca pool endpoint payload (res, ca', pool')" by auto
  with alike_inv [OF inv] send_granted_inv [OF inv] show ?case by (cases res) (auto simp: send_answered_def)
next
  case (step_commit_send transfers ca pool r w x ca' pool' w' R)
  then have inv: "channel_inv ca pool (add_mset r R)" by simp
  from commit_send_effect [of ca pool r R transfers w] channel_inv_parts [OF inv] step_commit_send(1,2)
  have "channel_ok ca' pool' R" "case x of
       Ok wakes \<Rightarrow> pool' = pool \<and> (\<exists>destination. delivered ca r transfers destination ca' w w')
     | Err (e, t) \<Rightarrow> abandoned ca r ca' \<and> pool_view pool' = forget (set_option (csr_payload r)) pool"
    by (auto split: result.splits)
  with delivered_inv [OF inv] abandoned_inv [OF inv] show ?case by (cases x) auto
next
  case (step_cancel_send ca pool r x ca' pool' R w)
  then have inv: "channel_inv ca pool (add_mset r R)" by simp
  from cancel_send_effect [of ca pool r R] channel_inv_parts [OF inv] step_cancel_send(1) abandoned_inv [OF inv]
  show ?case by auto
next
  case (step_receive ca endpoint rr ca1 pool out w x out' ca' pool' w' R)
  then show ?case using receive_inv by simp
next
  case (step_receive_cancelled ca endpoint rr ca1 x ca' pool R w)
  then have inv: "channel_inv ca pool R" by simp
  obtain m where "receive_granted ca endpoint rr ca1 m"
    using reserve_receive_effect [of ca pool R endpoint] channel_inv_parts [OF inv] step_receive_cancelled(1) by auto
  with cancel_receive_alike step_receive_cancelled(2) channel_inv_parts [OF inv] alike_inv [OF inv] show ?case by auto
next
  case (step_receive_refused ca endpoint e ca' pool R w)
  then have inv: "channel_inv ca pool R" by simp
  with reserve_receive_effect [of ca pool R endpoint] channel_inv_parts [OF inv] step_receive_refused(1) show ?case by auto
next
  case (step_finalize ca pool f w x ca' pool' w' R)
  then have inv: "channel_inv ca pool R" by simp
  from take_finalization_inv [OF this, of f w] step_finalize(1) show ?case by auto
qed auto

lemma channel_run_inv: "channel_run st ls st' \<Longrightarrow> state_inv st \<Longrightarrow> state_inv st'"
  by (induction rule: channel_run.induct) (auto intro: channel_step_inv)

lemma vacant_messages: "channel_messages \<lparr>ca_domain = d, ca_pairs = replicate k s, ca_depth = n\<rparr> = {#}" if "cs_pair s = None" for s
  by (induction k) (simp_all add: channel_messages_def pair_messages_def that)

lemma channel_inv_new:
  assumes "channel_authority_new pairs depth d = Some (ca, d')"
  shows "channel_inv ca payload_pool_new {#}"
proof -
  from assms have ca: "0 < depth" "ca = \<lparr>ca_domain = d, ca_pairs = replicate pairs \<lparr>cs_generation = 0, cs_pair = None\<rparr>, ca_depth = depth\<rparr>"
    by (auto simp: channel_authority_new_def mint_channel_domain_def bind_Some_iff split: option.splits if_splits)
  have "\<not> lives_at ca object i side" for object i side by (simp add: lives_at_def ca)
  moreover from this have "\<not> queue_holds ca a b" for a b by (simp add: queue_holds_def)
  then have "queues_acyclic ca" by (meson queues_acyclic_def tranclpD)
  ultimately show ?thesis
    by (auto simp: channel_inv_def channel_ok_def channel_wf_def settled_def channel_tight_def pool_owns_def pool_wf_new pool_view_new
        ca vacant_messages)
qed

end
