(* ===== verification/Channel_Mail.thy ===== *)
theory Channel_Mail
  imports Channel_Machine
begin

text \<open>
  The abstract system the channel authority implements: a map from endpoints to lists of
  datagrams. Every step of the channel machine is a step of this system with the same event,
  so what an endpoint receives is, byte for byte and in order, what was committed to it.
\<close>

section \<open>The abstract system\<close>

inductive mail_step :: "(object_id \<rightharpoonup> datagram list) \<Rightarrow> channel_event \<Rightarrow> (object_id \<rightharpoonup> datagram list) \<Rightarrow> bool" where
  mail_silent: "mail_step m Silent m"
| mail_open: "first \<noteq> second \<Longrightarrow> m first = None \<Longrightarrow> m second = None \<Longrightarrow>
    mail_step m (Opened first second) (m(first \<mapsto> [], second \<mapsto> []))"
| mail_send: "m object = Some ds \<Longrightarrow> mail_step m (Sent object d) (m(object \<mapsto> ds @ [d]))"
| mail_receive: "m object = Some (d # ds) \<Longrightarrow> mail_step m (Received object d) (m(object \<mapsto> ds))"
| mail_close: "m object = Some ds \<Longrightarrow> mail_step m (Closed object) (m(object := None))"

inductive_cases mail_step_cases: "mail_step m l m'"

fun sent_to :: "object_id \<Rightarrow> channel_event list \<Rightarrow> datagram list" where
  "sent_to object [] = []"
| "sent_to object (Sent o' d # ls) = (if o' = object then d # sent_to object ls else sent_to object ls)"
| "sent_to object (_ # ls) = sent_to object ls"

fun received_by :: "object_id \<Rightarrow> channel_event list \<Rightarrow> datagram list" where
  "received_by object [] = []"
| "received_by object (Received o' d # ls) = (if o' = object then d # received_by object ls else received_by object ls)"
| "received_by object (_ # ls) = received_by object ls"

lemma sent_to_append: "sent_to object (ls @ ls') = sent_to object ls @ sent_to object ls'"
  by (induction object ls rule: sent_to.induct) auto

lemma received_by_append: "received_by object (ls @ ls') = received_by object ls @ received_by object ls'"
  by (induction object ls rule: received_by.induct) auto

lemma mail_step_fifo:
  assumes "mail_step m l m'" and "m object = Some ds" and "l \<noteq> Closed object"
  shows "\<exists>ds'. m' object = Some ds' \<and> ds @ sent_to object [l] = received_by object [l] @ ds'"
  using assms by (cases rule: mail_step.cases) auto

section \<open>The simulation\<close>

definition mail_of :: "channel_state \<Rightarrow> (object_id \<rightharpoonup> datagram list)" where
  "mail_of = (\<lambda>(ca, pool, R, w). mailbox ca pool)"

lemma mail_of_simp [simp]: "mail_of (ca, pool, R, w) = mailbox ca pool"
  by (simp add: mail_of_def)

lemma create_pair_mail:
  assumes inv: "channel_inv ca pool R" and acc: "accounts reg L" and known: "\<forall>object. live_object ca object \<longrightarrow> phase_at reg object \<noteq> None"
    and create: "create_pair ca reg = Some (x, ca', reg')"
  shows "mail_step (mailbox ca pool) (create_event_of x (\<lambda>(first, second). Opened first second)) (mailbox ca' pool)"
proof -
  have ok: "channel_ok ca pool R" "0 < ca_depth ca" "channel_wf ca" using inv channel_ok_wf by (auto simp: channel_inv_def)
  show ?thesis
  proof (cases x)
    case (Ok y)
    then obtain first second h1 h2 where y: "x = Ok ((first, second), (h1, h2))" by (metis prod.collapse)
    with create_pair_effect [OF acc, of ca] create known
    have fresh: "first \<noteq> second" "\<not> live_object ca first" "\<not> live_object ca second" and created: "pair_created ca first second ca'" by auto
    have "mailbox ca pool first = None" "mailbox ca pool second = None"
      using fresh mailbox_None_iff [OF ok(3)] by (auto simp: live_object_def)
    with pair_created_effect(3) [OF ok(1,2) created fresh] fresh(1) y show ?thesis
      by (simp add: create_event_of_def mail_open)
  next
    case (Err e)
    with create_pair_effect [OF acc, of ca] create have "pair_not_created ca ca'" by auto
    with pair_not_created_effect(3) [OF ok(1,2)] Err show ?thesis by (simp add: create_event_of_def mail_silent)
  qed
qed

lemma commit_send_mail:
  assumes inv: "channel_inv ca pool (add_mset r R)" and "tb_len transfers < 2 ^ 32"
    and commit: "channel_commit_send ca pool r transfers w = Some (x, ca', pool', w')"
  shows "mail_step (mailbox ca pool) (commit_event ca pool r transfers x) (mailbox ca' pool')"
proof (cases x)
  case (Ok wakes)
  note parts = channel_inv_parts [OF inv]
  from commit_send_effect [of ca pool r R transfers w] parts assms(2) commit Ok
  obtain destination where d: "pool' = pool" "delivered ca r transfers destination ca' w w'" by auto
  then have "send_target ca r = Some destination" unfolding delivered_def send_target_def by auto
  with Ok d(1) delivered_mailbox [OF _ d(2), of pool] parts show ?thesis by (auto simp: commit_event_def intro: mail_send)
next
  case (Err e)
  with commit_send_effect [of ca pool r R transfers w] channel_inv_parts [OF inv] assms(2) commit
  have "mailbox ca' pool' = mailbox ca pool" by (auto split: prod.splits)
  with Err show ?thesis by (simp add: commit_event_def mail_silent)
qed

lemma receive_mail:
  assumes inv: "channel_inv ca pool R" and reserve: "reserve_receive ca endpoint = Some (Ok rr, ca1)"
    and receive: "receive_reserved ca1 pool rr out w = Some (x, out', ca', pool', w')"
  shows "mail_step (mailbox ca pool) (receive_event endpoint out' x) (mailbox ca' pool')"
proof -
  note parts = channel_inv_parts [OF inv]
  obtain m where granted: "receive_granted ca endpoint rr ca1 m"
    using reserve_receive_effect [of ca pool R endpoint] parts reserve by auto
  note sim = receive_granted_similar [OF granted]
  have ok1: "channel_ok ca1 pool R" using channel_ok_similar sim parts by blast
  have pending: "receive_pending ca1 rr endpoint m" using receive_granted_pending granted parts by blast
  note effect = receive_reserved_effect [OF ok1 pending, of out w]
  show ?thesis
  proof (cases "length out < unat (qm_byte_len m)")
    case True
    with effect receive have "x = Err BufferTooSmall" "pool' = pool" "similar ca1 ca'" by auto
    with similar_same(3) [OF channel_ok_wf [OF ok1]] similar_same(3) [OF _ sim] parts show ?thesis
      by (simp add: receive_event_def mail_silent)
  next
    case False
    with effect receive obtain wakes where
      x: "x = Ok \<lparr>rm_byte_len = unat (qm_byte_len m), rm_transfers = qm_transfers m, rm_wakes = wakes\<rparr>"
      and out: "out' = payload_bytes pool (qm_payload m) (qm_byte_len m) @ drop (unat (qm_byte_len m)) out"
      and r: "received ca1 endpoint m ca' w w'" and same: "mailbox ca' pool' = mailbox ca' pool"
      by auto
    note composed = received_composed [OF _ granted r]
    from received_removes(3) [OF _ composed] parts obtain mail where
      mail: "mailbox ca pool endpoint = Some (datagram_of pool m # mail)" "mailbox ca' pool = (mailbox ca pool)(endpoint \<mapsto> mail)" by blast
    have "m \<in># channel_messages ca" using received_removes(2) [OF _ composed] parts by auto
    then have "payload_ok pool (qm_payload m) (qm_byte_len m)" using parts by (auto simp: channel_ok_def)
    then have "length (payload_bytes pool (qm_payload m) (qm_byte_len m)) = unat (qm_byte_len m)"
      by (auto simp: payload_ok_def payload_bytes_def split: option.splits)
    then have "(take (unat (qm_byte_len m)) out', qm_transfers m) = datagram_of pool m" by (simp add: out datagram_of_def)
    with mail same x show ?thesis by (simp add: receive_event_def mail_receive)
  qed
qed

lemma finalize_mail:
  assumes inv: "channel_inv ca pool R" and final: "channel_take_finalization ca pool f w = Some (x, ca', pool', w')"
  shows "mail_step (mailbox ca pool) (close_event f x) (mailbox ca' pool')"
proof -
  have "finalization_answered ca pool w f x ca' pool' w'" using take_finalization_cases [OF inv, of f w] final by auto
  then show ?thesis by (cases x) (auto simp: finalization_answered_def close_event_def mail_silent intro: mail_close)
qed

lemma channel_step_mail: "channel_step st l st' \<Longrightarrow> state_inv st \<Longrightarrow> mail_step (mail_of st) l (mail_of st')"
proof (induction rule: channel_step.induct)
  case (step_reserve_send ca pool endpoint payload res ca' pool' R w)
  then have parts: "channel_ok ca pool R" "channel_wf ca" "pool_wf pool" using channel_inv_parts [of ca pool R] by simp_all
  from reserve_send_effect [OF parts(2,3), of endpoint payload] step_reserve_send(1)
  have "send_answered ca pool endpoint payload (res, ca', pool')" by auto
  then have "mailbox ca' pool' = mailbox ca pool"
    using send_granted_ok(2) [OF parts(1)] similar_same(3) [OF parts(2) alike_similar, of ca' pool]
    by (cases res) (auto simp: send_answered_def)
  then show ?case by (simp add: mail_silent)
next
  case (step_cancel_send ca pool r x ca' pool' R w)
  then have "channel_ok ca pool (add_mset r R)" using channel_inv_parts [of ca pool "add_mset r R"] by simp
  from cancel_send_effect [OF this] step_cancel_send(1) have "mailbox ca' pool' = mailbox ca pool" by auto
  then show ?case by (simp add: mail_silent)
next
  case (step_receive_cancelled ca endpoint rr ca1 x ca' pool R w)
  then have parts: "channel_ok ca pool R" "channel_wf ca" using channel_inv_parts [of ca pool R] by simp_all
  obtain m where "receive_granted ca endpoint rr ca1 m"
    using reserve_receive_effect [OF parts(1), of endpoint] step_receive_cancelled(1) by auto
  from cancel_receive_alike [OF parts(1) this step_receive_cancelled(2)] similar_same(3) [OF parts(2) alike_similar, of ca' pool]
  show ?case by (simp add: mail_silent)
next
  case (step_receive_refused ca endpoint e ca' pool R w)
  then have "channel_ok ca pool R" using channel_inv_parts [of ca pool R] by simp_all
  from reserve_receive_effect [OF this, of endpoint] step_receive_refused(1) show ?case by (auto simp: mail_silent)
next
  case (step_create_pair reg L ca x ca' reg' pool R w)
  then show ?case using create_pair_mail [of ca pool R reg L x ca' reg'] by simp
next
  case (step_commit_send transfers ca pool r w x ca' pool' w' R)
  then show ?case using commit_send_mail [of ca pool r R transfers w x ca' pool' w'] by simp
next
  case (step_receive ca endpoint rr ca1 pool out w x out' ca' pool' w' R)
  then show ?case using receive_mail [of ca pool R endpoint rr ca1 out w x out' ca' pool' w'] by simp
next
  case (step_finalize ca pool f w x ca' pool' w' R)
  then show ?case using finalize_mail [of ca pool R f w x ca' pool' w'] by simp
qed (simp_all add: mail_silent)

lemma channel_run_fifo:
  assumes "channel_run st ls st'" and "state_inv st" and "mail_of st object = Some ds" and "Closed object \<notin> set ls"
  shows "\<exists>ds'. mail_of st' object = Some ds' \<and> ds @ sent_to object ls = received_by object ls @ ds'"
  using assms
proof (induction rule: channel_run.induct)
  case (run_step st ls st1 l st2)
  from run_step obtain ds1 where ds1: "mail_of st1 object = Some ds1" "ds @ sent_to object ls = received_by object ls @ ds1" by auto
  have "mail_step (mail_of st1) l (mail_of st2)"
    using channel_step_mail [OF run_step(2)] channel_run_inv [OF run_step(1)] run_step.prems(1) by blast
  from mail_step_fifo [OF this ds1(1)] run_step.prems(3)
  obtain ds2 where ds2: "mail_of st2 object = Some ds2" "ds1 @ sent_to object [l] = received_by object [l] @ ds2" by auto
  have "ds @ sent_to object (ls @ [l]) = (received_by object ls @ ds1) @ sent_to object [l]"
    using ds1(2) by (simp only: sent_to_append flip: append_assoc)
  then have "ds @ sent_to object (ls @ [l]) = received_by object (ls @ [l]) @ ds2"
    by (simp only: append_assoc ds2(2) received_by_append)
  with ds2(1) show ?case by blast
qed simp

section \<open>Progress\<close>

lemma channel_progress:
  assumes inv: "channel_inv ca pool R"
  shows "channel_reserve_send ca pool endpoint payload \<noteq> None"
    and "r \<in># R \<Longrightarrow> channel_cancel_send ca pool r \<noteq> None"
    and "r \<in># R \<Longrightarrow> tb_len transfers < 2 ^ 32 \<Longrightarrow> channel_commit_send ca pool r transfers w \<noteq> None"
    and "reserve_receive ca endpoint \<noteq> None"
    and "reserve_receive ca endpoint = Some (Ok rr, ca1) \<Longrightarrow> receive_reserved ca1 pool rr out w \<noteq> None"
    and "channel_take_finalization ca pool f w \<noteq> None"
proof -
  note parts = channel_inv_parts [OF inv]
  show "channel_reserve_send ca pool endpoint payload \<noteq> None"
    using reserve_send_effect [of ca pool endpoint payload] parts by auto
  show "reserve_receive ca endpoint \<noteq> None" using reserve_receive_effect [of ca pool R endpoint] parts by auto
  show "channel_take_finalization ca pool f w \<noteq> None" using take_finalization_inv [OF inv, of f w] by auto
  show "channel_cancel_send ca pool r \<noteq> None" if "r \<in># R"
    using cancel_send_effect [of ca pool r "R - {#r#}"] parts that by auto
  show "channel_commit_send ca pool r transfers w \<noteq> None" if "r \<in># R" "tb_len transfers < 2 ^ 32"
    using commit_send_effect [of ca pool r "R - {#r#}" transfers w] parts that by auto
  show "receive_reserved ca1 pool rr out w \<noteq> None" if reserve: "reserve_receive ca endpoint = Some (Ok rr, ca1)"
  proof -
    obtain m where granted: "receive_granted ca endpoint rr ca1 m"
      using reserve_receive_effect [of ca pool R endpoint] parts reserve by auto
    have "channel_ok ca1 pool R" using channel_ok_similar receive_granted_similar [OF granted] parts by blast
    from receive_reserved_effect [OF this receive_granted_pending [OF _ granted], of out w] parts show ?thesis by auto
  qed
qed

end
