(* ===== verification/Channel_Calls.thy ===== *)
theory Channel_Calls
  imports Channel_Mail
begin

text \<open>
  Complete calls: a send reserves and then commits or gives up, a receive reserves and then
  completes or cancels. Between calls no send reservation is outstanding, and then no thread is
  left waiting for a signal its endpoint already shows.
\<close>

section \<open>A whole send\<close>

lemma send_granted_at:
  assumes "channel_wf ca" and "send_granted ca pool endpoint payload r ca' pool'"
  obtains i pair e q where "lives_at ca endpoint i (csr_side r)" and "cs_pair (ca_pairs ca ! i) = Some pair"
    and "pc_endpoints pair (peer (csr_side r)) = Some e" and "queue_wf (ca_depth ca) q"
    and "queue_items q = queue_items (pc_inbound pair (peer (csr_side r)))"
    and "csr_generation r \<notin> send_claims (pc_inbound pair (peer (csr_side r)))"
    and "send_claims q = insert (csr_generation r) (send_claims (pc_inbound pair (peer (csr_side r))))"
    and "bq_receive_reservation q = bq_receive_reservation (pc_inbound pair (peer (csr_side r)))"
    and "ca' = set_inbound ca i pair (peer (csr_side r)) q"
    and "keyed_pair ca' (csr_pair r) = Ok (i, pair\<lparr>pc_inbound := (pc_inbound pair)(peer (csr_side r) := q)\<rparr>)"
proof -
  from assms(2) obtain i pair e q where l: "lives_at ca endpoint i (csr_side r)" "i < 2 ^ 16" "cs_pair (ca_pairs ca ! i) = Some pair"
    and c: "pc_endpoints pair (peer (csr_side r)) = Some e" "queue_wf (ca_depth ca) q"
    "queue_items q = queue_items (pc_inbound pair (peer (csr_side r)))"
    "csr_generation r \<notin> send_claims (pc_inbound pair (peer (csr_side r)))"
    "send_claims q = insert (csr_generation r) (send_claims (pc_inbound pair (peer (csr_side r))))"
    "bq_receive_reservation q = bq_receive_reservation (pc_inbound pair (peer (csr_side r)))"
    "ca' = set_inbound ca i pair (peer (csr_side r)) q"
    and key: "csr_pair r = \<lparr>pk_domain = ca_domain ca, pk_slot = of_nat i, pk_generation = cs_generation (ca_pairs ca ! i)\<rparr>"
    unfolding send_granted_def by blast
  have "keyed_pair ca' (csr_pair r) = Ok (i, pair\<lparr>pc_inbound := (pc_inbound pair)(peer (csr_side r) := q)\<rparr>)"
    unfolding c(7) key by (intro keyed_set_inbound key_of_slot lives_at_less [OF l(1)] l)
  with that l c show thesis by blast
qed

lemma send_given_up_alike:
  assumes wf: "channel_wf ca" and granted: "send_granted ca pool endpoint payload r ca1 pool1" and "abandoned ca1 r ca2"
  shows "alike ca ca2"
proof -
  from send_granted_at [OF wf granted] obtain i pair q where c: "lives_at ca endpoint i (csr_side r)"
    "cs_pair (ca_pairs ca ! i) = Some pair" "queue_items q = queue_items (pc_inbound pair (peer (csr_side r)))"
    "csr_generation r \<notin> send_claims (pc_inbound pair (peer (csr_side r)))"
    "send_claims q = insert (csr_generation r) (send_claims (pc_inbound pair (peer (csr_side r))))"
    "bq_receive_reservation q = bq_receive_reservation (pc_inbound pair (peer (csr_side r)))"
    "ca1 = set_inbound ca i pair (peer (csr_side r)) q"
    "keyed_pair ca1 (csr_pair r) = Ok (i, pair\<lparr>pc_inbound := (pc_inbound pair)(peer (csr_side r) := q)\<rparr>)"
    by metis
  from assms(3) c(8) obtain q' where "queue_wf (ca_depth ca) q'" "queue_items q' = queue_items q"
    "send_claims q' = send_claims q - {csr_generation r}" "bq_receive_reservation q' = bq_receive_reservation q"
    "ca2 = set_inbound ca i pair (peer (csr_side r)) q'"
    by (auto simp: abandoned_def c(7) set_inbound_twice) (simp add: set_inbound_def)
  with c show ?thesis unfolding alike_def using lives_at_less [OF c(1)] by fastforce
qed

lemma send_delivered_quiet:
  assumes wf: "channel_wf ca" and granted: "send_granted ca pool endpoint payload r ca1 pool1"
    and delivered: "delivered ca1 r transfers destination ca2 waits waits'"
    and quiet: "quiet (channel_signals ca) (waiters waits)"
  shows "quiet (channel_signals ca2) (waiters waits')"
proof -
  from send_granted_at [OF wf granted] obtain i pair q where c: "lives_at ca endpoint i (csr_side r)"
    "cs_pair (ca_pairs ca ! i) = Some pair" "queue_wf (ca_depth ca) q"
    "ca1 = set_inbound ca i pair (peer (csr_side r)) q"
    "keyed_pair ca1 (csr_pair r) = Ok (i, pair\<lparr>pc_inbound := (pc_inbound pair)(peer (csr_side r) := q)\<rparr>)"
    by metis
  note l = lives_at_less [OF c(1)]
  from delivered c(5) obtain q' where d: "ca2 = set_inbound ca i pair (peer (csr_side r)) q'" "queue_wf (ca_depth ca) q'"
    "waiters waits' \<subseteq># waiters waits"
    "\<forall>side. side_quiet (pair\<lparr>pc_inbound := (pc_inbound pair)(peer (csr_side r) := q')\<rparr>) (waiters waits') side"
    by (auto simp: delivered_def c(4) set_inbound_twice) (auto simp: set_inbound_def)
  have "channel_wf ca2" using set_inbound_wf [OF wf l c(2) d(2)] d(1) by blast
  then show ?thesis unfolding d(1) set_inbound_def using d(4) by (intro quiet_set_pair [OF wf _ l quiet d(3)]) auto
qed

section \<open>Waiting\<close>

lemma channel_register_wait_quiet:
  assumes wf: "channel_wf ca" and quiet: "quiet (channel_signals ca) (waiters w)"
    and reg: "channel_register_wait ca w target desired k thread wake = (x, w')"
  shows "quiet (channel_signals ca) (waiters w')"
proof (cases "w' = w")
  case False
  let ?pin = "rh_reference target"
  from reg False obtain i side pair observed y where l: "located_pair ca (ir_id ?pin) = Ok (i, side, pair)"
    "signals_for_pair pair side = Ok observed" "observed AND desired = 0"
    and y: "wait_register w ?pin desired k thread wake = (y, w')"
    by (auto simp: channel_register_wait_def Let_def split: if_splits result.splits prod.splits)
  from y False obtain r where "wait_register w ?pin desired k thread wake = (Ok r, w')"
    by (cases y) (auto dest: wait_register_Err)
  moreover have "channel_signals ca (ir_id ?pin) = Some observed"
    using l(1,2) channel_signals_Some_iff [OF wf] located_pair_Ok_iff [OF wf] by blast
  moreover have "desired AND observed = 0" using l(3) by (simp add: and.commute)
  ultimately show ?thesis using wait_registry_service.register_quiet [OF quiet] by blast
qed (use quiet in simp)

lemma received_quiet:
  assumes wf: "channel_wf ca" and received: "received ca endpoint m ca' waits waits'"
    and quiet: "quiet (channel_signals ca) (waiters waits)"
  shows "quiet (channel_signals ca') (waiters waits')"
proof -
  from received obtain i side pair q where c: "lives_at ca endpoint i side" "cs_pair (ca_pairs ca ! i) = Some pair"
    "queue_wf (ca_depth ca) q" "ca' = set_inbound ca i pair side q" "waiters waits' \<subseteq># waiters waits"
    "\<forall>s. side_quiet (pair\<lparr>pc_inbound := (pc_inbound pair)(side := q)\<rparr>) (waiters waits') s"
    unfolding received_def by blast
  note l = lives_at_less [OF c(1)]
  have "channel_wf ca'" using set_inbound_wf [OF wf l c(2,3)] c(4) by blast
  then show ?thesis unfolding c(4) set_inbound_def using c(6) by (intro quiet_set_pair [OF wf _ l quiet c(5)]) auto
qed

section \<open>Calls\<close>

type_synonym call_state = "channel_authority \<times> payload_pool \<times> wait_registry"

text \<open>
  The wait registry also serves other sources: they register waiters on objects that are no
  channel endpoints and consume waiters of any object. A waiter pins its object, so the registry
  that creates a pair knows it.
\<close>

inductive channel_call :: "call_state \<Rightarrow> call_state \<Rightarrow> bool" where
  call_create_pair: "accounts reg L \<Longrightarrow> \<forall>object. live_object ca object \<longrightarrow> phase_at reg object \<noteq> None \<Longrightarrow>
    \<forall>e\<in>#waiters w. phase_at reg (wi_object (we_identity e)) \<noteq> None \<Longrightarrow>
    create_pair ca reg = Some (x, ca', reg') \<Longrightarrow> channel_call (ca, pool, w) (ca', pool, w)"
| call_send_refused: "channel_reserve_send ca pool endpoint payload = Some (Err e, ca', pool') \<Longrightarrow>
    channel_call (ca, pool, w) (ca', pool', w)"
| call_send: "channel_reserve_send ca pool endpoint payload = Some (Ok r, ca1, pool1) \<Longrightarrow> tb_len transfers < 2 ^ 32 \<Longrightarrow>
    channel_commit_send ca1 pool1 r transfers w = Some (x, ca', pool', w') \<Longrightarrow> channel_call (ca, pool, w) (ca', pool', w')"
| call_send_cancelled: "channel_reserve_send ca pool endpoint payload = Some (Ok r, ca1, pool1) \<Longrightarrow>
    channel_cancel_send ca1 pool1 r = Some (x, ca', pool') \<Longrightarrow> channel_call (ca, pool, w) (ca', pool', w)"
| call_receive: "reserve_receive ca endpoint = Some (Ok rr, ca1) \<Longrightarrow>
    receive_reserved ca1 pool rr out w = Some (x, out', ca', pool', w') \<Longrightarrow> channel_call (ca, pool, w) (ca', pool', w')"
| call_receive_cancelled: "reserve_receive ca endpoint = Some (Ok rr, ca1) \<Longrightarrow>
    channel_cancel_receive ca1 rr = (x, ca') \<Longrightarrow> channel_call (ca, pool, w) (ca', pool, w)"
| call_receive_refused: "reserve_receive ca endpoint = Some (Err e, ca') \<Longrightarrow> channel_call (ca, pool, w) (ca', pool, w)"
| call_register: "channel_register_wait ca w target desired k thread wake = (x, w') \<Longrightarrow> channel_call (ca, pool, w) (ca, pool, w')"
| call_finalize: "channel_take_finalization ca pool f w = Some (x, ca', pool', w') \<Longrightarrow> channel_call (ca, pool, w) (ca', pool', w')"
| call_wait_cancelled: "wait_cancel w r = (x, w') \<Longrightarrow> channel_call (ca, pool, w) (ca, pool, w')"
| call_generation_cancelled: "cancel_generation w wake = Some (b, w') \<Longrightarrow> channel_call (ca, pool, w) (ca, pool, w')"
| call_other_wake: "take_ready w object observed = Some (b, w') \<Longrightarrow> channel_call (ca, pool, w) (ca, pool, w')"
| call_other_wait: "\<not> live_object ca (ir_id pin) \<Longrightarrow> wait_register w pin desired k thread wake = (x, w') \<Longrightarrow>
    channel_call (ca, pool, w) (ca, pool, w')"

definition call_inv :: "call_state \<Rightarrow> bool" where
  "call_inv = (\<lambda>(ca, pool, w). channel_inv ca pool {#} \<and> quiet (channel_signals ca) (waiters w))"

lemma call_inv_simp: "call_inv (ca, pool, w) \<longleftrightarrow> channel_inv ca pool {#} \<and> quiet (channel_signals ca) (waiters w)"
  by (simp add: call_inv_def)

lemma quiet_alike: "channel_wf ca \<Longrightarrow> alike ca ca' \<Longrightarrow> quiet (channel_signals ca) M \<Longrightarrow> quiet (channel_signals ca') M"
  using similar_same(4) [OF _ alike_similar] by metis

lemma create_pair_quiet:
  assumes inv: "channel_inv ca pool R" and quiet: "quiet (channel_signals ca) (waiters w)" and acc: "accounts reg L"
    and known: "\<forall>object. live_object ca object \<longrightarrow> phase_at reg object \<noteq> None"
    and pinned: "\<forall>e\<in>#waiters w. phase_at reg (wi_object (we_identity e)) \<noteq> None"
    and create: "create_pair ca reg = Some (x, ca', reg')"
  shows "quiet (channel_signals ca') (waiters w)"
proof -
  have ok: "channel_ok ca pool R" "0 < ca_depth ca" using inv by (auto simp: channel_inv_def)
  show ?thesis
  proof (cases x)
    case (Ok y)
    then obtain first second h1 h2 where y: "x = Ok ((first, second), (h1, h2))" by (metis prod.collapse)
    with create_pair_effect [OF acc, of ca] create known have fresh: "first \<noteq> second" "\<not> live_object ca first" "\<not> live_object ca second"
      and new: "phase_at reg first = None" "phase_at reg second = None" and created: "pair_created ca first second ca'" by auto
    from pair_created_effect(5) [OF ok created fresh] new pinned quiet show ?thesis unfolding quiet_def by metis
  next
    case (Err e)
    with create_pair_effect [OF acc, of ca] create have "pair_not_created ca ca'" by auto
    from pair_not_created_effect(5) [OF ok this] quiet show ?thesis unfolding quiet_def by metis
  qed
qed

lemma other_wait_quiet:
  assumes wf: "channel_wf ca" and quiet: "quiet (channel_signals ca) (waiters w)"
    and "\<not> live_object ca (ir_id pin)" and reg: "wait_register w pin desired k thread wake = (x, w')"
  shows "quiet (channel_signals ca) (waiters w')"
proof (cases x)
  case (Ok r)
  with reg have "waiters w' = add_mset (new_entry pin desired k thread wake) (waiters w)" by (simp add: wait_register_waiters)
  moreover have "channel_signals ca (ir_id pin) = None"
    using assms(3) channel_signals_Some_iff [OF wf, of "ir_id pin"] by (cases "channel_signals ca (ir_id pin)") (auto simp: live_object_def)
  ultimately show ?thesis using quiet by (auto simp: quiet_def)
qed (use assms wait_register_Err in blast)

lemma receive_quiet:
  assumes ok: "channel_ok ca pool R" and quiet: "quiet (channel_signals ca) (waiters w)"
    and reserve: "reserve_receive ca endpoint = Some (Ok rr, ca1)"
    and receive: "receive_reserved ca1 pool rr out w = Some (x, out', ca', pool', w')"
  shows "quiet (channel_signals ca') (waiters w')"
proof -
  note wf = channel_ok_wf [OF ok]
  obtain m where granted: "receive_granted ca endpoint rr ca1 m" using reserve_receive_effect [OF ok, of endpoint] reserve by auto
  note sim = receive_granted_similar [OF granted]
  have ok1: "channel_ok ca1 pool R" using channel_ok_similar [OF ok sim] .
  note effect = receive_reserved_effect [OF ok1 receive_granted_pending [OF wf granted], of out w]
  show ?thesis
  proof (cases "length out < unat (qm_byte_len m)")
    case True
    with effect receive have "w' = w" "similar ca1 ca'" by auto
    with similar_same(4) [OF channel_ok_wf [OF ok1], of ca'] similar_same(4) [OF wf sim] quiet show ?thesis by simp
  next
    case False
    with effect receive have "received ca1 endpoint m ca' w w'" by auto
    from received_quiet [OF wf received_composed [OF wf granted this] quiet] show ?thesis .
  qed
qed

lemma finalize_quiet:
  assumes inv: "channel_inv ca pool R" and quiet: "quiet (channel_signals ca) (waiters w)"
    and final: "channel_take_finalization ca pool f w = Some (x, ca', pool', w')"
  shows "quiet (channel_signals ca') (waiters w')"
proof -
  have "finalization_answered ca pool w f x ca' pool' w'" using take_finalization_cases [OF inv, of f w] final by auto
  with endpoint_closed_quiet [OF _ _ quiet] channel_inv_parts [OF inv] quiet show ?thesis
    by (cases x) (auto simp: finalization_answered_def)
qed

lemma run_one: "channel_step st l st' \<Longrightarrow> channel_run st [l] st'"
  using run_step [OF run_start] by fastforce

lemma run_two: "channel_step st l st1 \<Longrightarrow> channel_step st1 l' st2 \<Longrightarrow> channel_run st [l, l'] st2"
  using run_step [OF run_one] by fastforce

lemma channel_call_run:
  assumes "channel_call (ca, pool, w) (ca', pool', w')"
  shows "\<exists>ls. channel_run (ca, pool, {#}, w) ls (ca', pool', {#}, w')"
  using assms
proof (cases rule: channel_call.cases)
  case (call_send_refused endpoint payload e)
  from step_reserve_send [OF this(2), of "{#}" w] call_send_refused(1) show ?thesis by (auto dest: run_one)
next
  case (call_send endpoint payload r ca1 pool1 transfers x)
  show ?thesis using run_two [OF step_reserve_send [OF call_send(1), of "{#}" w]] step_commit_send [OF call_send(2,3), of "{#}"] by simp blast
next
  case (call_send_cancelled endpoint payload r ca1 pool1 x)
  show ?thesis
    using run_two [OF step_reserve_send [OF call_send_cancelled(2), of "{#}" w]] step_cancel_send [OF call_send_cancelled(3), of "{#}" w]
      call_send_cancelled(1) by simp blast
qed (blast intro: run_one channel_step.intros wait_step.intros)+

lemma channel_call_inv: "channel_call (ca, pool, w) (ca', pool', w') \<Longrightarrow> channel_inv ca pool {#} \<Longrightarrow> channel_inv ca' pool' {#}"
  using channel_call_run channel_run_inv by fastforce

lemma channel_call_quiet:
  assumes "channel_call (ca, pool, w) (ca', pool', w')" and inv: "channel_inv ca pool {#}"
    and quiet: "quiet (channel_signals ca) (waiters w)"
  shows "quiet (channel_signals ca') (waiters w')"
proof -
  have parts: "channel_ok ca pool {#}" "channel_wf ca" "pool_wf pool" "settled ca"
    using channel_inv_parts [OF inv] inv by (simp_all add: channel_inv_def)
  note answered = reserve_send_effect [OF parts(2,3)]
  from assms(1) show ?thesis
  proof (cases rule: channel_call.cases)
    case (call_create_pair reg L x reg')
    then show ?thesis using create_pair_quiet [OF inv quiet] by blast
  next
    case (call_send_refused endpoint payload e)
    with answered [of endpoint payload] have "alike ca ca'" by (auto simp: send_answered_def)
    with quiet_alike [OF parts(2) _ quiet] call_send_refused(1) show ?thesis by blast
  next
    case (call_send endpoint payload r ca1 pool1 transfers x)
    with answered [of endpoint payload] have g: "send_granted ca pool endpoint payload r ca1 pool1" by (auto simp: send_answered_def)
    from commit_send_effect [OF send_granted_ok(1) [OF parts(1) g] call_send(2), of w] call_send(3)
    have "case x of Ok wakes \<Rightarrow> \<exists>destination. delivered ca1 r transfers destination ca' w w'
      | Err (e, t) \<Rightarrow> w' = w \<and> abandoned ca1 r ca'" by (auto split: result.splits)
    with send_delivered_quiet [OF parts(2) g _ quiet] quiet_alike [OF parts(2) send_given_up_alike [OF parts(2) g] quiet]
    show ?thesis by (cases x) auto
  next
    case (call_send_cancelled endpoint payload r ca1 pool1 x)
    with answered [of endpoint payload] have g: "send_granted ca pool endpoint payload r ca1 pool1" by (auto simp: send_answered_def)
    from cancel_send_effect [OF send_granted_ok(1) [OF parts(1) g]] call_send_cancelled(3) have "abandoned ca1 r ca'" by auto
    with quiet_alike [OF parts(2) send_given_up_alike [OF parts(2) g] quiet] call_send_cancelled(1) show ?thesis by blast
  next
    case (call_register target desired k thread wake x)
    then show ?thesis using channel_register_wait_quiet [OF parts(2) quiet] by blast
  next
    case (call_wait_cancelled r x)
    then show ?thesis using quiet_subset [OF quiet wait_cancel_subset] by blast
  next
    case (call_generation_cancelled wake b)
    then show ?thesis using quiet_subset [OF quiet cancel_generation_subset] by blast
  next
    case (call_other_wake object observed b)
    then show ?thesis using quiet_subset [OF quiet wait_registry_service.consume_subset] by blast
  next
    case (call_other_wait pin desired k thread wake x)
    then show ?thesis using other_wait_quiet [OF parts(2) quiet] by blast
  next
    case (call_receive endpoint rr ca1 out x out')
    then show ?thesis using receive_quiet [OF parts(1) quiet] by blast
  next
    case (call_receive_cancelled endpoint rr ca1 x)
    then obtain m where "receive_granted ca endpoint rr ca1 m" using reserve_receive_effect [OF parts(1), of endpoint] by auto
    with cancel_receive_alike [OF parts(1)] call_receive_cancelled quiet_alike [OF parts(2) _ quiet] show ?thesis by blast
  next
    case (call_receive_refused endpoint e)
    with reserve_receive_effect [OF parts(1), of endpoint] quiet show ?thesis by auto
  next
    case (call_finalize f x)
    then show ?thesis using finalize_quiet [OF inv quiet] by blast
  qed
qed

section \<open>Messages of bytes\<close>

definition bytes_message :: "u8 list \<Rightarrow> payload_pool \<Rightarrow> queued_message \<Rightarrow> bool" where
  "bytes_message payload pool m \<longleftrightarrow> qm_transfers m = transfer_batch_empty \<and> unat (qm_byte_len m) = length payload \<and>
    payload_bytes pool (qm_payload m) (qm_byte_len m) = payload"

lemma drop_transfers_Ok: "(case a of Ok w \<Rightarrow> Ok w | Err (e, t) \<Rightarrow> Err e) = Ok x \<longleftrightarrow> a = Ok x"
  by (auto split: result.split prod.split)

lemma channel_send_Ok:
  assumes "channel_send ca pool sender payload w = Some (Ok wakes, ca1, pool1, w1)"
  shows "\<exists>r ca0 pool0. channel_reserve_send ca pool sender payload = Some (Ok r, ca0, pool0) \<and>
    channel_commit_send ca0 pool0 r transfer_batch_empty w = Some (Ok wakes, ca1, pool1, w1)"
proof (cases "channel_reserve_send ca pool sender payload")
  case (Some a)
  obtain res ca0 pool0 where a: "a = (res, ca0, pool0)" by (metis prod.collapse)
  with Some assms show ?thesis by (cases res) (auto simp: channel_send_def bind_Some_iff drop_transfers_Ok)
qed (use assms in \<open>simp add: channel_send_def\<close>)

lemma channel_send_effect:
  assumes inv: "channel_inv ca pool R" and send: "channel_send ca pool sender payload w = Some (Ok wakes, ca1, pool1, w1)"
  obtains i side pair e q m where "lives_at ca sender i side" and "cs_pair (ca_pairs ca ! i) = Some pair"
    and "pc_endpoints pair (peer side) = Some e" and "ca1 = set_inbound ca i pair (peer side) q" and "queue_wf (ca_depth ca) q"
    and "queue_items q = queue_items (pc_inbound pair (peer side)) @ [m]"
    and "bq_receive_reservation q = None" and "bytes_message payload pool1 m" and "allocated pool payload (qm_payload m) pool1"
    and "mailbox ca1 pool1 = (mailbox ca pool)(er_object e := map_option (\<lambda>ds. ds @ [(payload, transfer_batch_empty)]) (mailbox ca pool (er_object e)))"
    and "channel_inv ca1 pool1 R"
proof -
  have parts: "channel_ok ca pool R" "channel_wf ca" "pool_wf pool" "settled ca"
    using channel_inv_parts [OF inv] inv by (simp_all add: channel_inv_def)
  from send obtain r ca0 pool0 where r: "channel_reserve_send ca pool sender payload = Some (Ok r, ca0, pool0)"
    and c: "channel_commit_send ca0 pool0 r transfer_batch_empty w = Some (Ok wakes, ca1, pool1, w1)"
    using channel_send_Ok by blast
  have g: "send_granted ca pool sender payload r ca0 pool0"
    using reserve_send_effect [OF parts(2,3), of sender payload] r by (auto simp: send_answered_def)
  have inv0: "channel_inv ca0 pool0 (add_mset r R)" by (rule send_granted_inv [OF inv g])
  have fits: "tb_len transfer_batch_empty < 2 ^ 32" by (simp add: transfer_batch_empty_def)
  from commit_send_effect [of ca0 pool0 r R, OF _ fits, of w] channel_inv_parts [OF inv0] c
  obtain destination where d: "pool1 = pool0" "delivered ca0 r transfer_batch_empty destination ca1 w w1" "channel_ok ca1 pool1 R" by auto
  have inv1: "channel_inv ca1 pool1 R" using delivered_inv [OF inv0 _ d(2)] d(1,3) by simp
  from send_granted_at [OF parts(2) g] obtain i pair e q0 where l: "lives_at ca sender i (csr_side r)"
    "cs_pair (ca_pairs ca ! i) = Some pair" "pc_endpoints pair (peer (csr_side r)) = Some e" "queue_wf (ca_depth ca) q0"
    "queue_items q0 = queue_items (pc_inbound pair (peer (csr_side r)))"
    "bq_receive_reservation q0 = bq_receive_reservation (pc_inbound pair (peer (csr_side r)))"
    "ca0 = set_inbound ca i pair (peer (csr_side r)) q0"
    "keyed_pair ca0 (csr_pair r) = Ok (i, pair\<lparr>pc_inbound := (pc_inbound pair)(peer (csr_side r) := q0)\<rparr>)"
    by metis
  from d(2) l obtain q where q: "ca1 = set_inbound ca i pair (peer (csr_side r)) q" "queue_wf (ca_depth ca) q"
    "queue_items q = queue_items (pc_inbound pair (peer (csr_side r))) @ [sent_message r transfer_batch_empty]"
    "bq_receive_reservation q = bq_receive_reservation (pc_inbound pair (peer (csr_side r)))" "destination = er_object e"
    by (auto simp: delivered_def set_inbound_twice) (simp add: set_inbound_def)
  have free: "bq_receive_reservation q = None"
    using settledD [OF parts(4) lives_at_less [OF l(1)] l(2)] q(4) by (simp add: pair_settled_def)
  have bytes: "payload_bytes pool1 (csr_payload r) (csr_byte_len r) = payload" "mailbox ca0 pool0 = mailbox ca pool"
    using send_granted_ok(2,3) [OF parts(1) g] d(1) by simp_all
  moreover have len: "unat (csr_byte_len r) = length payload" "allocated pool payload (csr_payload r) pool1"
    using g d(1) by (auto simp: send_granted_def)
  ultimately have "bytes_message payload pool1 (sent_message r transfer_batch_empty)"
    by (simp add: bytes_message_def sent_message_def)
  moreover have "mailbox ca1 pool1 = (mailbox ca pool)(er_object e := map_option (\<lambda>ds. ds @ [(payload, transfer_batch_empty)]) (mailbox ca pool (er_object e)))"
    using delivered_mailbox [OF _ d(2), of pool0] channel_inv_parts [OF inv0] bytes d(1) q(5) by auto
  ultimately show thesis using that [OF l(1-3) q(1-3) free] len(2) inv1 by (simp add: sent_message_def)
qed

lemma receive_into_effect:
  assumes ok: "channel_ok ca pool R" and l: "lives_at ca endpoint i side" "cs_pair (ca_pairs ca ! i) = Some pair"
    and head: "queue_items (pc_inbound pair side) = m # ms" "bytes_message payload pool m"
    and free: "bq_receive_reservation (pc_inbound pair side) = None" and room: "length payload \<le> length buffer"
  shows "receive_into ca pool endpoint buffer w = Some (Err ChannelCapacity, buffer, ca, pool, w) \<or>
    (\<exists>wakes ca' pool' w'. receive_into ca pool endpoint buffer w =
        Some (Ok (length payload, wakes), payload @ drop (length payload) buffer, ca', pool', w') \<and>
      received ca endpoint m ca' w w' \<and> mailbox ca' pool' = mailbox ca' pool \<and> pool_view pool' = forget (set_option (qm_payload m)) pool)"
proof -
  note wf = channel_ok_wf [OF ok]
  from reserve_receive_effect [OF ok, of endpoint] obtain res ca1 where
    r: "reserve_receive ca endpoint = Some (res, ca1)"
    and c: "case res of Ok rr \<Rightarrow> \<exists>m. receive_granted ca endpoint rr ca1 m | Err e \<Rightarrow> ca1 = ca \<and> receive_refused ca endpoint e" by blast
  have at: "j = i \<and> s = side" if "lives_at ca endpoint j s" for j s using lives_at_unique [OF wf that l(1)] .
  show ?thesis
  proof (cases res)
    case (Err e)
    have "live_object ca endpoint" using l(1) by (auto simp: live_object_def)
    with c Err obtain j s pair' where "ca1 = ca" "lives_at ca endpoint j s" "cs_pair (ca_pairs ca ! j) = Some pair'"
      "if queue_items (pc_inbound pair' s) = [] then e = (if pc_endpoints pair' (peer s) = None then PeerClosed else WouldBlock)
        else e = WouldBlock \<and> bq_receive_reservation (pc_inbound pair' s) \<noteq> None \<or> e = ChannelCapacity"
      by (auto simp: receive_refused_def)
    with at [OF this(2)] l(2) head(1) free have "ca1 = ca" "e = ChannelCapacity" by simp_all
    with r Err show ?thesis by (simp add: receive_into_def)
  next
    case (Ok rr)
    with c obtain m' where g: "receive_granted ca endpoint rr ca1 m'" by auto
    then have m': "m' = m" "crr_info rr = info_of m" using at l(2) head(1) by (auto simp: receive_granted_def)
    have ok1: "channel_ok ca1 pool R" using channel_ok_similar [OF ok receive_granted_similar [OF g]] .
    have b: "qm_transfers m = transfer_batch_empty" "unat (qm_byte_len m) = length payload"
      "payload_bytes pool (qm_payload m) (qm_byte_len m) = payload" using head(2) by (simp_all add: bytes_message_def)
    from receive_reserved_effect [OF ok1 receive_granted_pending [OF wf g], of buffer w] m'(1) b room
    obtain wakes ca' pool' w' where e: "receive_reserved ca1 pool rr buffer w =
        Some (Ok \<lparr>rm_byte_len = length payload, rm_transfers = transfer_batch_empty, rm_wakes = wakes\<rparr>, payload @ drop (length payload) buffer, ca', pool', w')"
      "received ca1 endpoint m ca' w w'" "mailbox ca' pool' = mailbox ca' pool" "pool_view pool' = forget (set_option (qm_payload m)) pool"
      by auto
    have "receive_into ca pool endpoint buffer w = Some (Ok (length payload, wakes), payload @ drop (length payload) buffer, ca', pool', w')"
      using r Ok e(1) m'(2) b room by (simp add: receive_into_def info_of_def transfer_batch_empty_def)
    with e(3,4) received_composed [OF wf g] e(2) m'(1) show ?thesis by blast
  qed
qed

end
