(* ===== verification/Slot_Map.thy ===== *)
theory Slot_Map
  imports Kernel_Prelude
begin

text \<open>
  Fixed arrays of optional records that are searched by a key, the shape in which the typed
  payload authorities keep their records (events, timers, ...). \<open>slot_find\<close> is the index that
  \<open>iter().flatten().find(|r| key(r) == k)\<close> reaches, \<open>slot_vacant\<close> the first free slot, and
  \<open>slot_map\<close> reads the array as a partial map; storing, updating and clearing a slot are the
  map updates, as long as no key occurs twice.
\<close>

definition slot_has :: "('r \<Rightarrow> 'k) \<Rightarrow> 'k \<Rightarrow> 'r option \<Rightarrow> bool" where
  "slot_has key k s = (case s of None \<Rightarrow> False | Some r \<Rightarrow> key r = k)"

definition slot_find :: "('r \<Rightarrow> 'k) \<Rightarrow> 'k \<Rightarrow> 'r option list \<Rightarrow> nat option" where
  "slot_find key k slots = position (slot_has key k) slots"

definition slot_vacant :: "'r option list \<Rightarrow> nat option" where
  "slot_vacant slots = position (\<lambda>s. s = None) slots"

definition slot_map :: "('r \<Rightarrow> 'k) \<Rightarrow> 'r option list \<Rightarrow> 'k \<rightharpoonup> 'r" where
  "slot_map key slots k = Option.bind (slot_find key k slots) (\<lambda>i. slots ! i)"

definition slot_distinct :: "('r \<Rightarrow> 'k) \<Rightarrow> 'r option list \<Rightarrow> bool" where
  "slot_distinct key slots \<longleftrightarrow> (\<forall>i<length slots. \<forall>j<length slots. \<forall>r r'.
    slots ! i = Some r \<longrightarrow> slots ! j = Some r' \<longrightarrow> key r = key r' \<longrightarrow> i = j)"

lemma slot_has_iff [simp]: "slot_has key k s \<longleftrightarrow> (\<exists>r. s = Some r \<and> key r = k)"
  by (auto simp: slot_has_def split: option.split)

lemma slot_find_Some:
  assumes "slot_find key k slots = Some i"
  obtains r where "i < length slots" and "slots ! i = Some r" and "key r = k" and "slot_map key slots k = Some r"
  using assms by (force simp: slot_find_def slot_map_def dest: position_SomeD)

lemma slot_find_None_iff: "slot_find key k slots = None \<longleftrightarrow> (\<forall>r. Some r \<in> set slots \<longrightarrow> key r \<noteq> k)"
  by (auto simp: slot_find_def position_None_iff)

lemma slot_map_None_iff: "slot_map key slots k = None \<longleftrightarrow> slot_find key k slots = None"
  by (cases "slot_find key k slots") (auto simp: slot_map_def elim: slot_find_Some)

lemma slot_map_Some_iff:
  assumes "slot_distinct key slots"
  shows "slot_map key slots k = Some r \<longleftrightarrow> Some r \<in> set slots \<and> key r = k"
proof
  assume r: "slot_map key slots k = Some r"
  then obtain i where "slot_find key k slots = Some i" by (auto simp: slot_map_def bind_Some_iff)
  then show "Some r \<in> set slots \<and> key r = k" by (rule slot_find_Some) (use r in \<open>metis nth_mem option.inject\<close>)
next
  assume r: "Some r \<in> set slots \<and> key r = k"
  then obtain j where j: "j < length slots" "slots ! j = Some r" by (auto simp: in_set_conv_nth)
  obtain i where i: "slot_find key k slots = Some i"
    using r slot_find_None_iff [of key k slots] by (cases "slot_find key k slots") auto
  then show "slot_map key slots k = Some r"
    by (rule slot_find_Some) (use assms j r in \<open>auto simp: slot_distinct_def\<close>)
qed

lemma slot_distinct_update:
  assumes "slot_distinct key slots" and "\<And>r i. s = Some r \<Longrightarrow> slot_find key (key r) slots = Some i \<Longrightarrow> i = n"
  shows "slot_distinct key (slots[n := s])"
proof -
  have uniq: "i = n" if "i < length slots" "slots ! i = Some r'" "s = Some r" "key r' = key r" for i r r'
  proof -
    have "slot_find key (key r) slots \<noteq> None"
      using that by (auto simp: slot_find_None_iff in_set_conv_nth)
    then obtain j where j: "slot_find key (key r) slots = Some j" by blast
    then have "j = n" using assms(2) that by blast
    moreover have "i = j" using j
      by (rule slot_find_Some) (use assms(1) that in \<open>auto simp: slot_distinct_def\<close>)
    ultimately show ?thesis by simp
  qed
  show ?thesis
    unfolding slot_distinct_def length_list_update
    using uniq assms(1) by (simp add: nth_update_if slot_distinct_def split: if_splits) metis
qed

lemma slot_map_eqI:
  assumes "slot_distinct key slots" and "\<And>k r. m k = Some r \<longleftrightarrow> Some r \<in> set slots \<and> key r = k"
  shows "slot_map key slots = m"
proof
  show "slot_map key slots k = m k" for k
    using slot_map_Some_iff [OF assms(1)] assms(2) by (metis not_Some_eq)
qed

text \<open>Storing a record whose key is new, in a vacant slot.\<close>

lemma slot_store:
  assumes "slot_distinct key slots" and "slot_vacant slots = Some n" and "slot_find key (key r) slots = None"
  shows "slot_distinct key (slots[n := Some r]) \<and> slot_map key (slots[n := Some r]) = (slot_map key slots)(key r \<mapsto> r)"
proof -
  have n: "n < length slots" "slots ! n = None"
    using assms(2) by (auto simp: slot_vacant_def dest: position_SomeD)
  have d: "slot_distinct key (slots[n := Some r])"
    using assms(1,3) by (intro slot_distinct_update) auto
  have mem: "Some x \<in> set (slots[n := Some r]) \<longleftrightarrow> x = r \<or> Some x \<in> set slots" for x
    using n unfolding in_set_update [OF n(1)] unfolding in_set_conv_nth by auto
  show ?thesis
    using d assms(3) slot_map_Some_iff [OF assms(1)]
    by (auto intro!: slot_map_eqI simp: mem slot_find_None_iff split: if_splits)
qed

text \<open>Replacing the record of a key, and clearing it.\<close>

lemma slot_replace:
  assumes "slot_distinct key slots" and "slot_find key (key r) slots = Some n"
  shows "slot_distinct key (slots[n := Some r]) \<and> slot_map key (slots[n := Some r]) = (slot_map key slots)(key r \<mapsto> r)"
proof -
  obtain r0 where n: "n < length slots" "slots ! n = Some r0" "key r0 = key r"
    using assms(2) by (auto elim: slot_find_Some)
  have d: "slot_distinct key (slots[n := Some r])"
    using assms by (intro slot_distinct_update) auto
  have mem: "Some x \<in> set (slots[n := Some r]) \<longleftrightarrow> x = r \<or> Some x \<in> set slots \<and> key x \<noteq> key r" for x
    using n assms(1) unfolding in_set_update [OF n(1)] unfolding in_set_conv_nth slot_distinct_def by (safe; metis option.inject option.distinct(1))
  show ?thesis
    using d slot_map_Some_iff [OF assms(1)] by (auto intro!: slot_map_eqI simp: mem split: if_splits)
qed

lemma slot_clear:
  assumes "slot_distinct key slots" and "slot_find key k slots = Some n"
  shows "slot_distinct key (slots[n := None]) \<and> slot_map key (slots[n := None]) = (slot_map key slots)(k := None)"
proof -
  obtain r0 where n: "n < length slots" "slots ! n = Some r0" "key r0 = k"
    using assms(2) by (auto elim: slot_find_Some)
  have d: "slot_distinct key (slots[n := None])"
    using assms by (intro slot_distinct_update) auto
  have mem: "Some x \<in> set (slots[n := None]) \<longleftrightarrow> Some x \<in> set slots \<and> key x \<noteq> k" for x
    using n assms(1) unfolding in_set_update [OF n(1)] unfolding in_set_conv_nth slot_distinct_def by (safe; metis option.inject option.distinct(1))
  show ?thesis
    using d slot_map_Some_iff [OF assms(1)] by (auto intro!: slot_map_eqI simp: mem split: if_splits)
qed

lemma slot_map_empty [simp]: "slot_map key (replicate n None) = Map.empty" "slot_distinct key (replicate n None)"
proof -
  show "slot_distinct key (replicate n None)" by (simp add: slot_distinct_def)
  then show "slot_map key (replicate n None) = Map.empty" by (rule slot_map_eqI) auto
qed

lemmas slot_eval [eval_simps] = slot_has_def slot_find_def slot_vacant_def slot_map_def

end
