(* ===== verification/Event_Authority.thy ===== *)
theory Event_Authority
  imports Slot_Map Wait_Service Handle_Table Object_Lifetime
begin

text \<open>
  The manual-reset event authority of \<^verbatim>\<open>kernel/src/wait/mod.rs\<close>: one record per live event,
  created together with its registry object, signalled, waited for and finalized. The record
  array and the wait registry have their own locks in the code; \<open>signal\<close> and \<open>register_wait\<close>
  hold the event lock across their access to the wait registry, so each is one step.
\<close>

section \<open>Data and operations\<close>

record event_record =
  ev_object :: object_id
  ev_signaled :: bool

record event_authority =
  ea_events :: "event_record option list"

type_synonym event_key = object_id

datatype event_create_error = EventCreateRegistry object_registry_error | EventCreateWait wait_error

record event_payload_binding =
  eb_creation :: creation_ref
  eb_key :: event_key

record event_finalization =
  ef_final_release :: final_release

datatype event_wait_outcome = EventReady dw_signals internal_ref | EventRegistered wait_registration

record event_wait_failure =
  ew_error :: wait_error
  ew_pin :: internal_ref

definition event_authority_new :: "nat \<Rightarrow> event_authority" where
  "event_authority_new capacity = \<lparr>ea_events = replicate capacity None\<rparr>"

definition bind_event ::
  "event_authority \<Rightarrow> creation_ref \<Rightarrow>
   (event_payload_binding, wait_error \<times> creation_ref) result \<times> event_authority" where
  "bind_event ea creation =
    (if cr_object_type creation \<noteq> DW_OBJECT_TYPE_EVENT then (Err (InvalidObject, creation), ea)
     else if slot_find ev_object (cr_id creation) (ea_events ea) \<noteq> None then (Err (EventReference, creation), ea)
     else (case slot_vacant (ea_events ea) of
        None \<Rightarrow> (Err (WaitCapacity, creation), ea)
      | Some slot \<Rightarrow>
         (Ok \<lparr>eb_creation = creation, eb_key = cr_id creation\<rparr>,
          ea\<lparr>ea_events := (ea_events ea)[slot := Some \<lparr>ev_object = cr_id creation, ev_signaled = False\<rparr>]\<rparr>)))"

definition create_event ::
  "event_authority \<Rightarrow> object_registry \<Rightarrow>
   ((event_key \<times> handle_ref, event_create_error) result \<times> event_authority \<times> object_registry) option" where
  "create_event ea reg =
    (case create reg DW_OBJECT_TYPE_EVENT of
      (Err e, reg1) \<Rightarrow> Some (Err (EventCreateRegistry e), ea, reg1)
    | (Ok creation, reg1) \<Rightarrow>
       (case bind_event ea creation of
         (Err (error, creation), ea1) \<Rightarrow>
           do { (r, reg2) \<leftarrow> cancel_creation reg1 creation;
                _ \<leftarrow> expect_ok r;
                Some (Err (EventCreateWait error), ea1, reg2) }
       | (Ok binding, ea1) \<Rightarrow>
           do { bound \<leftarrow> expect_ok (finish_payload_binding reg1 (eb_creation binding));
                (handle, reg2) \<leftarrow> (case bound_into_handle reg1 bound of (r, reg2) \<Rightarrow>
                  do { h \<leftarrow> expect_ok r; Some (h, reg2) });
                Some (Ok (eb_key binding, handle), ea1, reg2) }))"

definition event_current_signals :: "event_authority \<Rightarrow> event_key \<Rightarrow> (dw_signals, wait_error) result" where
  "event_current_signals ea key =
    and_then (ok_or InvalidObject (slot_map ev_object (ea_events ea) key))
      (\<lambda>event. Ok (if ev_signaled event then DW_SIGNAL_SIGNALED else 0))"

definition validate_event_signal_masks :: "dw_signals \<Rightarrow> dw_signals \<Rightarrow> (unit, wait_error) result" where
  "validate_event_signal_masks clear_mask set_mask =
    (if clear_mask AND NOT DW_SIGNAL_SIGNALED \<noteq> 0 \<or> set_mask AND NOT DW_SIGNAL_SIGNALED \<noteq> 0 \<or>
        clear_mask AND set_mask \<noteq> 0 \<or> clear_mask = 0 \<and> set_mask = 0
     then Err InvalidSignals
     else if clear_mask = DW_SIGNAL_SIGNALED \<and> set_mask = 0 \<or> clear_mask = 0 \<and> set_mask = DW_SIGNAL_SIGNALED
     then Ok () else Err InvalidSignals)"

definition event_signal ::
  "event_authority \<Rightarrow> event_key \<Rightarrow> dw_signals \<Rightarrow> dw_signals \<Rightarrow> wait_registry \<Rightarrow>
   ((wake_batch, wait_error) result \<times> event_authority \<times> wait_registry) option" where
  "event_signal ea key clear_mask set_mask waits =
    (case validate_event_signal_masks clear_mask set_mask of
      Err e \<Rightarrow> Some (Err e, ea, waits)
    | Ok _ \<Rightarrow> (case slot_find ev_object key (ea_events ea) of
        None \<Rightarrow> Some (Err InvalidObject, ea, waits)
      | Some i \<Rightarrow>
         do { event \<leftarrow> ea_events ea ! i;
              let signaled = (set_mask = DW_SIGNAL_SIGNALED);
              let ea' = ea\<lparr>ea_events := (ea_events ea)[i := Some (event\<lparr>ev_signaled := signaled\<rparr>)]\<rparr>;
              if signaled
              then do { (wakes, waits') \<leftarrow> take_ready waits key DW_SIGNAL_SIGNALED;
                        Some (Ok wakes, ea', waits') }
              else Some (Ok (wake_batch_empty (length (wg_slots waits))), ea', waits) }))"

definition event_register_wait ::
  "event_authority \<Rightarrow> wait_registry \<Rightarrow> resolved_handle \<Rightarrow> dw_signals \<Rightarrow> u32 \<Rightarrow> thread_key \<Rightarrow> block_wake_key \<Rightarrow>
   (event_wait_outcome, event_wait_failure) result \<times> wait_registry" where
  "event_register_wait ea waits target desired item_index thread wake =
    (let pin = rh_reference target; fail = (\<lambda>e. (Err \<lparr>ew_error = e, ew_pin = pin\<rparr>, waits)) in
     if ir_object_type pin \<noteq> DW_OBJECT_TYPE_EVENT then fail InvalidObject
     else if rh_rights target AND DW_RIGHT_WAIT \<noteq> DW_RIGHT_WAIT then fail WaitAccessDenied
     else (case validate_wait_signals (ir_object_type pin) desired of
        Err error \<Rightarrow> fail error
      | Ok _ \<Rightarrow> (case slot_map ev_object (ea_events ea) (ir_id pin) of
          None \<Rightarrow> fail InvalidObject
        | Some event \<Rightarrow>
           if ev_signaled event then (Ok (EventReady DW_SIGNAL_SIGNALED pin), waits)
           else (case wait_register waits pin desired item_index thread wake of
              (Ok registration, waits') \<Rightarrow> (Ok (EventRegistered registration), waits')
            | (Err failure, waits') \<Rightarrow>
                (Err \<lparr>ew_error = wf_error failure, ew_pin = wf_pin failure\<rparr>, waits')))))"

definition event_take_finalization ::
  "event_authority \<Rightarrow> final_release \<Rightarrow>
   (event_finalization, wait_error \<times> final_release) result \<times> event_authority" where
  "event_take_finalization ea final_release =
    (if fr_object_type final_release \<noteq> DW_OBJECT_TYPE_EVENT
     then (Err (EventFinalizationMismatch, final_release), ea)
     else (case slot_find ev_object (fr_id final_release) (ea_events ea) of
        None \<Rightarrow> (Err (EventFinalizationMismatch, final_release), ea)
      | Some slot \<Rightarrow> (Ok \<lparr>ef_final_release = final_release\<rparr>, ea\<lparr>ea_events := (ea_events ea)[slot := None]\<rparr>)))"

definition complete_event_finalization :: "object_registry \<Rightarrow> event_finalization \<Rightarrow> object_registry option" where
  "complete_event_finalization reg finalization =
    do { (r, reg') \<leftarrow> complete_payload_finalization reg (ef_final_release finalization);
         _ \<leftarrow> expect_ok r;
         Some reg' }"

lemmas event_eval [eval_simps] =
  event_authority_new_def bind_event_def create_event_def event_current_signals_def
  validate_event_signal_masks_def event_signal_def event_register_wait_def event_take_finalization_def
  complete_event_finalization_def

section \<open>The abstract map of signalled flags\<close>

definition event_at :: "event_authority \<Rightarrow> object_id \<Rightarrow> bool option" where
  "event_at ea i = map_option ev_signaled (slot_map ev_object (ea_events ea) i)"

definition events_wf :: "event_authority \<Rightarrow> bool" where
  "events_wf ea \<longleftrightarrow> slot_distinct ev_object (ea_events ea)"

definition event_signals :: "event_authority \<Rightarrow> object_id \<Rightarrow> dw_signals option" where
  "event_signals ea i = map_option (\<lambda>b. if b then DW_SIGNAL_SIGNALED else 0) (event_at ea i)"

lemma event_at_upd:
  "slot_map ev_object (ea_events ea') = (slot_map ev_object (ea_events ea))(i \<mapsto> r) \<Longrightarrow>
    event_at ea' = (event_at ea)(i \<mapsto> ev_signaled r)"
  by (auto simp: event_at_def)

lemma event_current_signals_eq: "event_current_signals ea i = ok_or InvalidObject (event_signals ea i)"
  by (cases "slot_map ev_object (ea_events ea) i") (auto simp: event_current_signals_def event_signals_def event_at_def)

lemma bind_event_Ok:
  assumes "bind_event ea c = (Ok binding, ea')" and "events_wf ea"
  shows "events_wf ea' \<and> event_at ea (cr_id c) = None \<and> event_at ea' = (event_at ea)(cr_id c \<mapsto> False) \<and>
    binding = \<lparr>eb_creation = c, eb_key = cr_id c\<rparr> \<and> cr_object_type c = DW_OBJECT_TYPE_EVENT"
proof -
  let ?r = "\<lparr>ev_object = cr_id c, ev_signaled = False\<rparr>"
  obtain n where n: "slot_vacant (ea_events ea) = Some n" "slot_find ev_object (ev_object ?r) (ea_events ea) = None"
    and ea': "ea' = ea\<lparr>ea_events := (ea_events ea)[n := Some ?r]\<rparr>"
    and rest: "binding = \<lparr>eb_creation = c, eb_key = cr_id c\<rparr>" "cr_object_type c = DW_OBJECT_TYPE_EVENT"
    using assms(1) by (auto simp: bind_event_def split: if_splits option.splits)
  from slot_store [OF _ n] assms(2) ea' have "events_wf ea' \<and> event_at ea' = (event_at ea)(cr_id c \<mapsto> False)"
    using event_at_upd [of ea' ea "cr_id c" ?r] by (simp add: events_wf_def)
  with rest n(2) show ?thesis by (simp add: event_at_def slot_map_None_iff)
qed

lemma bind_event_Err: "bind_event ea c = (Err x, ea') \<Longrightarrow> ea' = ea \<and> snd x = c"
  by (auto simp: bind_event_def split: if_splits option.splits)

lemma masks_Ok_iff:
  "validate_event_signal_masks c s = Ok u \<longleftrightarrow> c = DW_SIGNAL_SIGNALED \<and> s = 0 \<or> c = 0 \<and> s = DW_SIGNAL_SIGNALED"
  by (auto simp: validate_event_signal_masks_def)

lemma event_signal_spec:
  assumes "events_wf ea" and "validate_event_signal_masks c s = Ok ()" and "event_at ea key = Some b"
  shows "\<exists>wakes ea' waits'. event_signal ea key c s waits = Some (Ok wakes, ea', waits') \<and> events_wf ea' \<and>
    event_at ea' = (event_at ea)(key \<mapsto> s = DW_SIGNAL_SIGNALED) \<and>
    (if s = DW_SIGNAL_SIGNALED then take_ready waits key DW_SIGNAL_SIGNALED = Some (wakes, waits')
     else waits' = waits \<and> wakes = wake_batch_empty (length (wg_slots waits)))"
proof -
  obtain i where i: "slot_find ev_object key (ea_events ea) = Some i"
    using assms(3) by (auto simp: event_at_def slot_map_def bind_Some_iff)
  then obtain r where r: "ea_events ea ! i = Some r" "ev_object r = key" by (auto elim: slot_find_Some)
  let ?r = "r\<lparr>ev_signaled := (s = DW_SIGNAL_SIGNALED)\<rparr>"
  let ?ea = "ea\<lparr>ea_events := (ea_events ea)[i := Some ?r]\<rparr>"
  have "events_wf ?ea \<and> event_at ?ea = (event_at ea)(key \<mapsto> s = DW_SIGNAL_SIGNALED)"
    using slot_replace [of ev_object "ea_events ea" ?r i] assms(1) i r(2) event_at_upd [of ?ea ea key ?r]
    by (simp add: events_wf_def)
  moreover obtain wakes waits' where "take_ready waits key DW_SIGNAL_SIGNALED = Some (wakes, waits')"
    using wait_registry_service.consume_total by blast
  ultimately show ?thesis using assms(2) i r(1) by (cases "s = DW_SIGNAL_SIGNALED") (auto simp: event_signal_def)
qed

lemma event_signal_Err:
  assumes "event_signal ea key c s waits = Some (Err e, ea', waits')"
  shows "ea' = ea \<and> waits' = waits \<and> (e = InvalidSignals \<or> e = InvalidObject \<and> event_at ea key = None)"
proof -
  have "e = InvalidSignals" if "validate_event_signal_masks c s = Err e" for e
    using that by (auto simp: validate_event_signal_masks_def split: if_splits)
  with assms show ?thesis
    by (auto simp: event_signal_def event_at_def slot_map_None_iff bind_Some_iff Let_def split: result.splits option.splits if_splits prod.splits)
qed

lemma event_take_finalization_Ok:
  assumes "event_take_finalization ea f = (Ok g, ea')" and "events_wf ea"
  shows "events_wf ea' \<and> event_at ea (fr_id f) \<noteq> None \<and> event_at ea' = (event_at ea)(fr_id f := None) \<and>
    ef_final_release g = f \<and> fr_object_type f = DW_OBJECT_TYPE_EVENT"
proof -
  obtain n where n: "slot_find ev_object (fr_id f) (ea_events ea) = Some n"
    and ea': "ea' = ea\<lparr>ea_events := (ea_events ea)[n := None]\<rparr>"
    and rest: "g = \<lparr>ef_final_release = f\<rparr>" "fr_object_type f = DW_OBJECT_TYPE_EVENT"
    using assms(1) by (auto simp: event_take_finalization_def split: if_splits option.splits)
  from slot_clear [OF _ n] assms(2) ea' have "events_wf ea' \<and> event_at ea' = (event_at ea)(fr_id f := None)"
    by (auto simp: events_wf_def event_at_def)
  moreover have "event_at ea (fr_id f) \<noteq> None" using n slot_map_None_iff [of ev_object "ea_events ea" "fr_id f"]
    by (simp add: event_at_def)
  ultimately show ?thesis using rest by simp
qed

lemma event_take_finalization_Err: "event_take_finalization ea f = (Err x, ea') \<Longrightarrow> ea' = ea \<and> snd x = f"
  by (auto simp: event_take_finalization_def split: if_splits option.splits)

end
