(* ===== verification/Wait_Claims.thy ===== *)
theory Wait_Claims
  imports Event_Authority
begin

text \<open>
  The properties of the wait registry and of the event authority: readiness is claimed once
  per block generation and every pin is returned, the read-only scan agrees with the consuming
  one, a registration is good for one cancellation, and no thread stays registered on a
  signalled event.
\<close>

section \<open>Samples\<close>

definition sample_wake :: block_wake_key where
  "sample_wake = \<lparr>bw_domain = 1, bw_token = 7, bw_thread = \<lparr>id_domain = 1, id_raw = 4294967299\<rparr>, bw_cpu = 0,
    bw_execution_generation = 1\<rparr>"

definition sample_event_pin :: internal_ref where
  "sample_event_pin = \<lparr>ir_id = sample_id, ir_object_type = DW_OBJECT_TYPE_EVENT\<rparr>"

definition sample_waits :: wait_registry where
  "sample_waits = \<lparr>wg_domain = 1, wg_slots =
    [\<lparr>ws_generation = 1, ws_entry = Some (new_entry sample_event_pin 16 3 (bw_thread sample_wake) sample_wake)\<rparr>,
     \<lparr>ws_generation = 1, ws_entry = Some (new_entry sample_event_pin 16 1 (bw_thread sample_wake) sample_wake)\<rparr>]\<rparr>"

definition sample_no_waits :: wait_registry where
  "sample_no_waits = \<lparr>wg_domain = 1, wg_slots = [VACANT_WAIT_SLOT]\<rparr>"

definition sample_events :: "bool \<Rightarrow> event_authority" where
  "sample_events b = \<lparr>ea_events = [Some \<lparr>ev_object = sample_id, ev_signaled = b\<rparr>, None]\<rparr>"

lemmas wait_sample_defs = sample_wake_def sample_event_pin_def sample_waits_def sample_no_waits_def
  sample_events_def sample_id_def new_entry_def

section \<open>Readiness\<close>

text \<open>
  C19: claiming the waiters of an object never panics. Every block generation with a ready
  registration gets exactly one intent, carrying the lowest item index among its ready
  registrations; all registrations of these generations and no others leave the table, and
  every pin that leaves the table is in the batch.
\<close>

theorem take_ready_claims_generations:
  "\<exists>b w' ws ps. take_ready w object observed = Some (b, w') \<and>
    wb_wakes b = map Some ws @ replicate (length (wg_slots w) - length ws) None \<and> wb_wake_len b = length ws \<and>
    wb_pins b = map Some ps @ replicate (length (wg_slots w) - length ps) None \<and> wb_pin_len b = length ps \<and>
    distinct (map wk_wake ws) \<and>
    wk_wake ` set ws = ready_generations object observed (set_mset (waiters w)) \<and>
    (\<forall>i\<in>set ws. wk_observed i = observed \<and> wk_item_index i =
      Min (we_item_index ` {e. e \<in># waiters w \<and> entry_wake e = wk_wake i \<and> entry_ready object observed e})) \<and>
    waiters w' = {#e \<in># waiters w. entry_wake e \<notin> wk_wake ` set ws#} \<and>
    image_mset we_pin (waiters w) = mset ps + image_mset we_pin (waiters w')"
proof -
  obtain b w' ps where tr: "take_ready w object observed = Some (b, w')"
    and rest: "waiters w' = {#e \<in># waiters w. entry_wake e \<notin> ready_generations object observed (set_mset (waiters w))#}"
      "image_mset we_pin (waiters w) = mset ps + image_mset we_pin (waiters w')"
    and b: "holds_batch (length (wg_slots w)) b (intents object observed (wait_entries (wg_slots w))) ps"
    using take_ready_waiters by blast
  let ?ws = "intents object observed (wait_entries (wg_slots w))"
  have map: "map wk_wake ?ws = firsts (ready_keys object observed (wait_entries (wg_slots w)))"
    by (simp add: intents_def intent_of_def comp_def)
  have keys: "wk_wake ` set ?ws = ready_generations object observed (set_mset (waiters w))"
    unfolding set_map [symmetric] map by (simp add: set_ready_keys waiters_def)
  have "\<forall>i\<in>set ?ws. wk_observed i = observed \<and> wk_item_index i =
      Min (we_item_index ` {e. e \<in># waiters w \<and> entry_wake e = wk_wake i \<and> entry_ready object observed e})"
    by (auto simp: intents_def intent_of_def lowest_index_def waiters_def)
  with tr rest b keys show ?thesis
    by (intro exI [of _ b] exI [of _ w'] exI [of _ ?ws] exI [of _ ps]) (simp add: holds_batch_def map)
qed

theorem take_ready_claims_generations_witness:
  "\<exists>b w'. take_ready sample_waits sample_id 16 = Some (b, w') \<and> wb_wake_len b = 1 \<and>
    wb_wakes b ! 0 = Some \<lparr>wk_wake = sample_wake, wk_observed = 16, wk_item_index = 1\<rparr> \<and> wb_pin_len b = 2"
  using take_ready_claims_generations [of sample_waits sample_id 16]
  by (simp add: eval_simps wait_sample_defs)

text \<open>
  C20: the read-only scan used from interrupt context announces exactly the intents that the
  consuming scan would announce, and takes no pin.
\<close>

theorem ready_wakes_agrees_with_take_ready:
  "\<exists>b b' w'. ready_wakes w object observed = Some b \<and> take_ready w object observed = Some (b', w') \<and>
    wb_wakes b = wb_wakes b' \<and> wb_wake_len b = wb_wake_len b' \<and> wb_pin_len b = 0"
  using ready_wakes_spec [of w object observed] take_ready_waiters [of w object observed]
  by (auto simp: holds_batch_def)

section \<open>Registrations\<close>

text \<open>
  C21: a registration can be cancelled at most once and always gives back the pin it was made
  with. At any later time it is either still published, and cancelling it returns that pin, or
  it was consumed, and then it stays stale for ever.
\<close>

theorem registration_consumed_once:
  assumes "wait_register w pin desired k thread wake = (Ok r, w1)" and "wait_step\<^sup>*\<^sup>* w1 w2"
  shows "(\<exists>w3. wait_cancel w2 r = (Ok pin, w3) \<and>
      (\<forall>w4. wait_step\<^sup>*\<^sup>* w3 w4 \<longrightarrow> wait_cancel w4 r = (Err StaleRegistration, w4))) \<or>
    (\<forall>w3. wait_step\<^sup>*\<^sup>* w2 w3 \<longrightarrow> wait_cancel w3 r = (Err StaleRegistration, w3))"
proof -
  have later: "wait_cancel w' r = (Err StaleRegistration, w')" if "spent w r" "wait_step\<^sup>*\<^sup>* w w'" for w w'
    using spent_cancel spent_evolves [OF that(1) wait_steps_evolve [OF that(2)]] by blast
  from registered_evolves [OF wait_register_registered [OF assms(1)] wait_steps_evolve [OF assms(2)]]
  show ?thesis
  proof
    assume reg: "registered w2 r (new_entry pin desired k thread wake)"
    obtain x w3 where x: "wait_cancel w2 r = (x, w3)" by fastforce
    with wait_cancel_waiters [OF reg x] have "wait_cancel w2 r = (Ok pin, w3)" by simp
    with cancel_spent later show ?thesis by blast
  qed (use later in blast)
qed

theorem registration_consumed_once_witness:
  "\<exists>r w1. wait_register sample_no_waits sample_event_pin 16 0 (bw_thread sample_wake) sample_wake = (Ok r, w1) \<and>
    (\<exists>w3. wait_cancel w1 r = (Ok sample_event_pin, w3) \<and> wait_cancel w3 r = (Err StaleRegistration, w3))"
proof -
  let ?e = "new_entry sample_event_pin 16 0 (bw_thread sample_wake) sample_wake"
  obtain r w1 where r: "wait_register sample_no_waits sample_event_pin 16 0 (bw_thread sample_wake) sample_wake = (Ok r, w1)"
    by (simp add: eval_simps wait_sample_defs)
  have "wait_cancel w1 r \<noteq> (Err StaleRegistration, w1)"
    using r by (auto simp: eval_simps wait_sample_defs)
  with registration_consumed_once [OF r rtranclp.rtrancl_refl] r show ?thesis by blast
qed

section \<open>Events\<close>

text \<open>
  The steps of events and waits together. The wait registry also serves other sources: they
  register waiters on objects that are not events and consume waiters of any object.
\<close>

inductive event_step :: "event_authority \<times> wait_registry \<Rightarrow> event_authority \<times> wait_registry \<Rightarrow> bool" where
  event_bind: "bind_event ea c = (x, ea') \<Longrightarrow> event_step (ea, w) (ea', w)"
| event_set: "event_signal ea key c s w = Some (x, ea', w') \<Longrightarrow> event_step (ea, w) (ea', w')"
| event_wait: "event_register_wait ea w target desired k thread wake = (x, w') \<Longrightarrow> event_step (ea, w) (ea, w')"
| event_final: "event_take_finalization ea f = (x, ea') \<Longrightarrow> event_step (ea, w) (ea', w)"
| wait_cancelled: "wait_cancel w r = (x, w') \<Longrightarrow> event_step (ea, w) (ea, w')"
| wait_generation_cancelled: "cancel_generation w wake = Some (b, w') \<Longrightarrow> event_step (ea, w) (ea, w')"
| other_source_wait: "event_at ea (ir_id pin) = None \<Longrightarrow>
    wait_register w pin desired k thread wake = (x, w') \<Longrightarrow> event_step (ea, w) (ea, w')"
| other_source_wake: "take_ready w object observed = Some (b, w') \<Longrightarrow> event_step (ea, w) (ea, w')"

lemma event_signals_upd:
  "event_at ea' = (event_at ea)(i := v) \<Longrightarrow>
    event_signals ea' = (event_signals ea)(i := map_option (\<lambda>b. if b then DW_SIGNAL_SIGNALED else 0) v)"
  by (auto simp: event_signals_def)

lemma quiet_upd_0: "quiet sg M \<Longrightarrow> quiet (sg(i \<mapsto> 0)) M"
  by (auto simp: quiet_def)

lemma quiet_upd_None: "quiet sg M \<Longrightarrow> quiet (sg(i := None)) M"
  by (auto simp: quiet_def)

definition no_lost_wakeup :: "event_authority \<times> wait_registry \<Rightarrow> bool" where
  "no_lost_wakeup st \<longleftrightarrow> events_wf (fst st) \<and> quiet (event_signals (fst st)) (waiters (snd st))"

lemma event_signal_no_lost_wakeup:
  assumes "no_lost_wakeup (ea, w)" and "event_signal ea key c s w = Some (x, ea', w')"
  shows "no_lost_wakeup (ea', w')"
proof (cases x)
  case (Err e)
  with event_signal_Err assms show ?thesis by blast
next
  case (Ok wakes)
  have masks: "validate_event_signal_masks c s = Ok ()"
    using assms(2) Ok by (cases "validate_event_signal_masks c s") (auto simp: event_signal_def)
  have "slot_find ev_object key (ea_events ea) \<noteq> None"
    using assms(2) Ok masks by (auto simp: event_signal_def split: option.splits)
  then obtain b where "event_at ea key = Some b"
    using slot_map_None_iff [of ev_object "ea_events ea" key] by (auto simp: event_at_def)
  with event_signal_spec [OF _ masks this, of w] assms Ok have
    ea': "events_wf ea'" "event_at ea' = (event_at ea)(key \<mapsto> s = DW_SIGNAL_SIGNALED)"
    and w': "if s = DW_SIGNAL_SIGNALED then take_ready w key DW_SIGNAL_SIGNALED = Some (wakes, w') else w' = w"
    by (auto simp: no_lost_wakeup_def split: if_splits)
  have q: "quiet (event_signals ea) (waiters w)" using assms(1) by (simp add: no_lost_wakeup_def)
  have "quiet (event_signals ea') (waiters w')"
  proof (cases "s = DW_SIGNAL_SIGNALED")
    case True
    with w' have "take_ready w key DW_SIGNAL_SIGNALED = Some (wakes, w')" by simp
    with q show ?thesis
      by (rule wait_registry_service.consume_quiet) (simp_all add: event_signals_upd [OF ea'(2)] True)
  next
    case False
    with w' q show ?thesis by (simp add: event_signals_upd [OF ea'(2)] quiet_upd_0)
  qed
  with ea'(1) show ?thesis by (simp add: no_lost_wakeup_def)
qed

lemma event_register_wait_no_lost_wakeup:
  assumes "no_lost_wakeup (ea, w)" and "event_register_wait ea w target desired k thread wake = (x, w')"
  shows "no_lost_wakeup (ea, w')"
proof (cases "w' = w")
  case False
  let ?pin = "rh_reference target"
  from assms(2) False obtain e where e: "slot_map ev_object (ea_events ea) (ir_id ?pin) = Some e" "\<not> ev_signaled e"
    and "\<exists>y. wait_register w ?pin desired k thread wake = (y, w')"
    by (auto simp: event_register_wait_def Let_def split: if_splits result.splits option.splits prod.splits)
  then obtain y where y: "wait_register w ?pin desired k thread wake = (y, w')" by blast
  then obtain r where "wait_register w ?pin desired k thread wake = (Ok r, w')"
    using False by (cases y) (auto dest: wait_register_Err)
  moreover have "event_signals ea (ir_id ?pin) = Some 0" using e by (simp add: event_signals_def event_at_def)
  ultimately show ?thesis
    using assms(1) wait_registry_service.register_quiet by (fastforce simp: no_lost_wakeup_def)
qed (use assms in simp)

lemma wait_register_no_lost_wakeup:
  assumes "no_lost_wakeup (ea, w)" and "event_at ea (ir_id pin) = None"
    and "wait_register w pin desired k thread wake = (x, w')"
  shows "no_lost_wakeup (ea, w')"
proof (cases x)
  case (Ok r)
  with assms(3) have "waiters w' = add_mset (new_entry pin desired k thread wake) (waiters w)"
    by (simp add: wait_register_waiters)
  moreover have "event_signals ea (ir_id pin) = None" by (simp add: event_signals_def assms(2))
  ultimately show ?thesis using assms(1) by (auto simp: no_lost_wakeup_def quiet_def)
qed (use assms wait_register_Err in blast)

lemma event_step_no_lost_wakeup: "event_step st st' \<Longrightarrow> no_lost_wakeup st \<Longrightarrow> no_lost_wakeup st'"
proof (induction rule: event_step.induct)
  case (event_bind ea c x ea' w)
  then show ?case
    by (cases x) (auto simp: no_lost_wakeup_def event_signals_upd quiet_upd_0 dest: bind_event_Ok bind_event_Err)
next
  case (event_final ea f x ea' w)
  then show ?case
    by (cases x) (auto simp: no_lost_wakeup_def event_signals_upd quiet_upd_None
        dest: event_take_finalization_Ok event_take_finalization_Err)
next
  case (wait_cancelled w r x w' ea)
  then show ?case using quiet_subset [OF _ wait_cancel_subset] by (auto simp: no_lost_wakeup_def)
next
  case (wait_generation_cancelled w wake b w' ea)
  then show ?case using quiet_subset [OF _ cancel_generation_subset] by (auto simp: no_lost_wakeup_def)
next
  case (other_source_wake w object observed b w' ea)
  then show ?case using quiet_subset [OF _ wait_registry_service.consume_subset] by (auto simp: no_lost_wakeup_def)
qed (auto intro: event_signal_no_lost_wakeup event_register_wait_no_lost_wakeup wait_register_no_lost_wakeup)

text \<open>
  C22: no lost wakeup. In every state reachable from new authorities, by any interleaving of
  binding, signalling, waiting, cancelling and finalizing, no thread is registered on an event
  that is signalled.
\<close>

theorem no_waiter_on_signalled_event:
  assumes "wait_registry_new waiters_capacity d = Some (w0, d')"
    and "event_step\<^sup>*\<^sup>* (event_authority_new events_capacity, w0) (ea, w)"
  shows "\<forall>e\<in>#waiters w. event_current_signals ea (wi_object (we_identity e)) = Ok s \<longrightarrow> we_desired e AND s = 0"
proof -
  have "no_lost_wakeup (event_authority_new events_capacity, w0)"
    using no_waiters_new [OF assms(1)] by (auto simp: no_lost_wakeup_def event_authority_new_def events_wf_def quiet_def)
  with assms(2) have "no_lost_wakeup (ea, w)"
    by (induction rule: rtranclp_induct) (auto intro: event_step_no_lost_wakeup)
  then show ?thesis by (auto simp: no_lost_wakeup_def quiet_def event_current_signals_eq)
qed

definition sample_event_target :: resolved_handle where
  "sample_event_target = \<lparr>rh_reference = sample_event_pin, rh_rights = DW_RIGHT_WAIT\<rparr>"

theorem no_waiter_on_signalled_event_witness:
  "\<exists>ea w1. event_step\<^sup>*\<^sup>* (event_authority_new (Suc (Suc 0)), sample_no_waits) (ea, w1) \<and> size (waiters w1) = 1 \<and>
    (\<forall>e\<in>#waiters w1. event_current_signals ea (wi_object (we_identity e)) = Ok 0 \<longrightarrow> we_desired e AND 0 = 0)"
proof -
  let ?c = "\<lparr>cr_id = sample_id, cr_object_type = DW_OBJECT_TYPE_EVENT\<rparr>"
  have w: "wait_registry_new 1 1 = Some (sample_no_waits, 2)"
    by (simp add: eval_simps sample_no_waits_def)
  have "bind_event (event_authority_new (Suc (Suc 0))) ?c = (Ok \<lparr>eb_creation = ?c, eb_key = sample_id\<rparr>, sample_events False)"
    by (simp add: eval_simps sample_events_def)
  then have s1: "event_step (event_authority_new (Suc (Suc 0)), sample_no_waits) (sample_events False, sample_no_waits)"
    by (rule event_bind)
  obtain x w1 where x: "event_register_wait (sample_events False) sample_no_waits sample_event_target 16 0
      (bw_thread sample_wake) sample_wake = (x, w1)" by fastforce
  then have s2: "event_step (sample_events False, sample_no_waits) (sample_events False, w1)" by (rule event_wait)
  have "size (waiters w1) = 1"
    using x by (auto simp: eval_simps wait_sample_defs sample_event_target_def waiters_def)
  moreover have steps: "event_step\<^sup>*\<^sup>* (event_authority_new (Suc (Suc 0)), sample_no_waits) (sample_events False, w1)"
    using s1 s2 by (meson rtranclp.rtrancl_into_rtrancl rtranclp.rtrancl_refl)
  ultimately show ?thesis using no_waiter_on_signalled_event [OF w steps, of 0] by blast
qed

text \<open>
  C23: creating an event never panics on consistent state. It either adds exactly one
  unsignalled event under an identity that was unused, together with one handle reference to
  it, or fails and leaves the events and the objects as they were.
\<close>

theorem create_event_total:
  assumes "accounts reg L" and "events_wf ea"
  shows "\<exists>r ea' reg'. create_event ea reg = Some (r, ea', reg') \<and> events_wf ea' \<and>
    (case r of
      Ok (key, h) \<Rightarrow> handle_token h = (key, DW_OBJECT_TYPE_EVENT) \<and> event_at ea key = None \<and> phase_at reg key = None \<and>
        event_at ea' = (event_at ea)(key \<mapsto> False) \<and> accounts reg' (ledger_add Handle (handle_token h) L)
    | Err e \<Rightarrow> ea' = ea \<and> accounts reg' L \<and> phase_at reg' = phase_at reg)"
proof (cases "create reg DW_OBJECT_TYPE_EVENT")
  case (Pair r reg1)
  show ?thesis
  proof (cases r)
    case (Err e)
    with Pair assms accounts_create_Err [OF assms(1)] create_Err show ?thesis by (fastforce simp: create_event_def)
  next
    case (Ok c)
    with Pair have c: "create reg DW_OBJECT_TYPE_EVENT = (Ok c, reg1)" by simp
    obtain b ea1 where b: "bind_event ea c = (b, ea1)" by fastforce
    show ?thesis
    proof (cases b)
      case (Ok binding)
      with create_bound_handle [OF assms(1) c] bind_event_Ok [of ea c binding ea1] b c assms(2) show ?thesis
        by (fastforce simp: create_event_def handle_token_def)
    next
      case (Err x)
      with bind_event_Err [of ea c x ea1] b have "bind_event ea c = (Err (fst x, c), ea)" by (cases x) auto
      with cancel_creation_undoes [OF assms(1) c] c assms(2) show ?thesis by (auto simp: create_event_def)
    qed
  qed
qed

theorem create_event_total_witness:
  "\<exists>key h ea' reg'. create_event (event_authority_new (Suc 0)) sample_registry = Some (Ok (key, h), ea', reg') \<and>
    event_at ea' key = Some False \<and> accounts reg' (ledger_add Handle (handle_token h) empty_ledger)"
proof -
  have acc: "accounts sample_registry empty_ledger"
    by (rule accounts_new [of "Suc (Suc 0)" 1 _ 2]) (simp add: eval_simps sample_registry_def)
  have wf: "events_wf (event_authority_new (Suc 0))" by (simp add: events_wf_def event_authority_new_def slot_distinct_def)
  obtain key h ea' reg' where r: "create_event (event_authority_new (Suc 0)) sample_registry = Some (Ok (key, h), ea', reg')"
    by (simp add: eval_simps sample_registry_def)
  with create_event_total [OF acc wf] show ?thesis by auto
qed

end
