(* ===== verification/Channel_Claims.thy ===== *)
theory Channel_Claims
  imports Channel_Calls Wait_Claims
begin

text \<open>
  The properties of channels: first-in first-out delivery of exactly the committed datagrams,
  exclusive ownership of payload memory, freedom from panics, the capacity bound, an exact and
  bounded cycle check that keeps queued channels acyclic, and no lost wakeups.
\<close>

section \<open>Samples\<close>

definition sample_id2 :: object_id where
  "sample_id2 = \<lparr>id_domain = 1, id_raw = 0x100000002\<rparr>"

definition sample_channels0 :: channel_authority where
  "sample_channels0 = \<lparr>ca_domain = 1, ca_pairs = [\<lparr>cs_generation = 0, cs_pair = None\<rparr>], ca_depth = Suc (Suc 0)\<rparr>"

lemma sample_channels0_new: "channel_authority_new (Suc 0) (Suc (Suc 0)) 1 = Some (sample_channels0, 2)"
  by (simp add: eval_simps sample_channels0_def)

lemma batch_empty_simps:
  "transfer_objects_of_type transfer_batch_empty ty = []" "tb_len transfer_batch_empty = 0"
  by (simp_all add: transfer_objects_of_type_def transfer_batch_empty_def flatten_options_def numeral_eq_Suc)

lemma sample_accounts: "accounts sample_registry empty_ledger"
  by (rule accounts_new [of "Suc (Suc 0)" 1 _ 2]) (simp add: eval_simps sample_registry_def)

lemma sample_unknown: "\<not> live_object sample_channels0 object"
  by (simp add: live_object_def lives_at_def sample_channels0_def)

text \<open>One datagram is sent from the first to the second endpoint of a new pair, and received.\<close>

lemma sample_exchange:
  "\<exists>x ca1 reg1 r ca2 p2 y ca3 p3 w3 rr ca4 z ca5 p5 w5.
    create_pair sample_channels0 sample_registry = Some (Ok ((sample_id, sample_id2), x), ca1, reg1) \<and>
    channel_reserve_send ca1 payload_pool_new sample_id [] = Some (Ok r, ca2, p2) \<and>
    channel_commit_send ca2 p2 r transfer_batch_empty sample_no_waits = Some (Ok y, ca3, p3, w3) \<and>
    send_target ca2 r = Some sample_id2 \<and> csr_payload r = None \<and>
    reserve_receive ca3 sample_id2 = Some (Ok rr, ca4) \<and>
    receive_reserved ca4 p3 rr [] w3 = Some (Ok z, [], ca5, p5, w5) \<and> rm_transfers z = transfer_batch_empty"
  by (simp add: eval_simps sample_defs sample_channels0_def sample_id2_def sample_no_waits_def batch_empty_simps send_target_def
      del: payload_pool_new_def transfer_batch_empty_def)

lemma sample_pair:
  obtains ca where "channel_run (sample_channels0, payload_pool_new, {#}, sample_no_waits) [Opened sample_id sample_id2]
      (ca, payload_pool_new, {#}, sample_no_waits)"
    and "lives_at ca sample_id 0 Zero" and "lives_at ca sample_id2 0 One" and "\<And>a b. \<not> queue_holds ca a b" and "channel_wf ca"
proof -
  from sample_exchange obtain x ca reg where
    s: "create_pair sample_channels0 sample_registry = Some (Ok ((sample_id, sample_id2), x), ca, reg)" by blast
  obtain h1 h2 where x: "x = (h1, h2)" by fastforce
  have run: "channel_run (sample_channels0, payload_pool_new, {#}, sample_no_waits) [Opened sample_id sample_id2]
      (ca, payload_pool_new, {#}, sample_no_waits)"
    using run_one [OF step_create_pair [OF sample_accounts _ s, of payload_pool_new "{#}" sample_no_waits]] sample_unknown
    by (simp add: create_event_of_def)
  have inv0: "channel_ok sample_channels0 payload_pool_new {#}" "0 < ca_depth sample_channels0"
    using channel_inv_new [OF sample_channels0_new] by (simp_all add: channel_inv_def)
  have created: "sample_id \<noteq> sample_id2" "pair_created sample_channels0 sample_id sample_id2 ca"
    using create_pair_effect [OF sample_accounts, of sample_channels0] s x by auto
  note effect = pair_created_effect [OF inv0 created(2,1) sample_unknown sample_unknown]
  have "\<not> queue_holds ca a b" for a b using effect(4) sample_unknown by (metis live_object_def queue_holds_def)
  moreover have "lives_at ca sample_id 0 Zero" "lives_at ca sample_id2 0 One"
    using s by (auto simp: eval_simps sample_defs sample_channels0_def sample_id2_def lives_at_def)
  ultimately show thesis using that run channel_ok_wf [OF effect(1)] by blast
qed

lemma sample_run:
  obtains ca1 ca pool w where
    "channel_run (sample_channels0, payload_pool_new, {#}, sample_no_waits) [Opened sample_id sample_id2]
      (ca1, payload_pool_new, {#}, sample_no_waits)"
    and "mailbox ca1 payload_pool_new sample_id2 = Some []"
    and "channel_run (ca1, payload_pool_new, {#}, sample_no_waits)
      [Silent, Sent sample_id2 ([], transfer_batch_empty), Received sample_id2 ([], transfer_batch_empty)] (ca, pool, {#}, w)"
proof -
  from sample_exchange obtain x ca1 reg1 r ca2 p2 y ca3 p3 w3 rr ca4 z ca5 p5 w5 where
    s: "create_pair sample_channels0 sample_registry = Some (Ok ((sample_id, sample_id2), x), ca1, reg1)"
    "channel_reserve_send ca1 payload_pool_new sample_id [] = Some (Ok r, ca2, p2)"
    "channel_commit_send ca2 p2 r transfer_batch_empty sample_no_waits = Some (Ok y, ca3, p3, w3)"
    "send_target ca2 r = Some sample_id2" "csr_payload r = None"
    "reserve_receive ca3 sample_id2 = Some (Ok rr, ca4)"
    "receive_reserved ca4 p3 rr [] w3 = Some (Ok z, [], ca5, p5, w5)" "rm_transfers z = transfer_batch_empty"
    by blast
  have fits: "tb_len transfer_batch_empty < 2 ^ 32" by (simp add: batch_empty_simps)
  have s1: "channel_step (sample_channels0, payload_pool_new, {#}, sample_no_waits) (Opened sample_id sample_id2)
      (ca1, payload_pool_new, {#}, sample_no_waits)"
    using step_create_pair [OF sample_accounts _ s(1), of payload_pool_new "{#}" sample_no_waits] sample_unknown
    by (simp add: create_event_of_def)
  have "mailbox ca1 payload_pool_new sample_id2 = Some []"
    using channel_step_mail [OF s1] channel_inv_new [OF sample_channels0_new] by (auto elim: mail_step_cases)
  moreover have "channel_run (ca1, payload_pool_new, {#}, sample_no_waits)
      [Silent, Sent sample_id2 ([], transfer_batch_empty)] (ca3, p3, {#}, w3)"
    using run_two [OF step_reserve_send [OF s(2)]] step_commit_send [OF fits s(3), of "{#}"] s(4,5)
    by (simp add: commit_event_def payload_bytes_def)
  from run_step [OF this] step_receive [OF s(6,7), of "{#}"] s(8) have "channel_run (ca1, payload_pool_new, {#}, sample_no_waits)
      [Silent, Sent sample_id2 ([], transfer_batch_empty), Received sample_id2 ([], transfer_batch_empty)] (ca5, p5, {#}, w5)"
    by (simp add: receive_event_def)
  ultimately show thesis using that run_one [OF s1] by blast
qed

lemma new_state_inv: "channel_authority_new pairs depth d = Some (ca, d') \<Longrightarrow> state_inv (ca, payload_pool_new, {#}, w)"
  by (simp add: channel_inv_new)

section \<open>Delivery\<close>

text \<open>
  C24: channels deliver in order, losing and inventing nothing. Over any run from new authorities,
  with any interleaving of senders, receivers, cancellations and finalizations, the datagrams
  committed towards an endpoint that stays open are exactly those it received, in the same order
  and with the same bytes and handle batches, followed by those still waiting there.
\<close>

theorem channel_delivers_in_order:
  assumes "channel_authority_new pairs depth d = Some (ca0, d')"
    and "channel_run (ca0, payload_pool_new, {#}, w0) before (ca1, pool1, R1, w1)" and "mailbox ca1 pool1 endpoint = Some []"
    and "channel_run (ca1, pool1, R1, w1) ls (ca, pool, R, w)" and "Closed endpoint \<notin> set ls"
  shows "\<exists>waiting. mailbox ca pool endpoint = Some waiting \<and> sent_to endpoint ls = received_by endpoint ls @ waiting"
  using channel_run_fifo [OF assms(4), of endpoint "[]"] channel_run_inv [OF assms(2) new_state_inv [OF assms(1)]] assms(3,5) by simp

theorem channel_delivers_in_order_witness:
  "\<exists>ca1 ca pool w waiting. channel_run (ca1, payload_pool_new, {#}, sample_no_waits)
      [Silent, Sent sample_id2 ([], transfer_batch_empty), Received sample_id2 ([], transfer_batch_empty)] (ca, pool, {#}, w) \<and>
    mailbox ca pool sample_id2 = Some waiting \<and> [([], transfer_batch_empty)] = [([], transfer_batch_empty)] @ waiting"
proof -
  obtain ca1 ca pool w where run: "channel_run (sample_channels0, payload_pool_new, {#}, sample_no_waits) [Opened sample_id sample_id2]
      (ca1, payload_pool_new, {#}, sample_no_waits)" "mailbox ca1 payload_pool_new sample_id2 = Some []"
    and exchange: "channel_run (ca1, payload_pool_new, {#}, sample_no_waits)
      [Silent, Sent sample_id2 ([], transfer_batch_empty), Received sample_id2 ([], transfer_batch_empty)] (ca, pool, {#}, w)"
    by (rule sample_run)
  from channel_delivers_in_order [OF sample_channels0_new run exchange] exchange show ?thesis by auto
qed

text \<open>
  C25: the state after any run is sound. Every payload slot in use is owned by exactly one queued
  message or outstanding reservation and a free slot by none, so payload memory is neither leaked
  nor shared; and no channel is queued, directly or through other queues, inside itself.
\<close>

theorem channel_memory_and_queues_sound:
  assumes "channel_authority_new pairs depth d = Some (ca0, d')"
    and "channel_run (ca0, payload_pool_new, {#}, w0) ls (ca, pool, R, w)"
  shows "count (tokens_of (channel_messages ca) + reserved_tokens R) t = (if pool_view pool t = None then 0 else 1) \<and>
    \<not> (queue_holds ca)\<^sup>+\<^sup>+ object object"
proof -
  have inv: "channel_inv ca pool R" using channel_run_inv [OF assms(2) new_state_inv [OF assms(1)]] by simp
  define n where "n = count (tokens_of (channel_messages ca) + reserved_tokens R) t"
  have "n \<le> (if pool_view pool t = None then 0 else 1)"
    using inv unfolding n_def channel_inv_def channel_ok_def pool_owns_def by blast
  moreover have "pool_view pool t \<noteq> None \<Longrightarrow> 0 < n"
    using inv unfolding n_def channel_inv_def channel_tight_def count_greater_zero_iff by blast
  ultimately have "n = (if pool_view pool t = None then 0 else 1)" by (cases "pool_view pool t = None") auto
  then show ?thesis using inv by (simp add: n_def channel_inv_def queues_acyclic_def)
qed

theorem channel_memory_and_queues_sound_witness:
  "\<exists>ls ca pool w. channel_run (sample_channels0, payload_pool_new, {#}, sample_no_waits) ls (ca, pool, {#}, w) \<and> ls \<noteq> [] \<and>
    (\<forall>t. count (tokens_of (channel_messages ca) + reserved_tokens {#}) t = (if pool_view pool t = None then 0 else 1)) \<and>
    \<not> (queue_holds ca)\<^sup>+\<^sup>+ sample_id2 sample_id2"
proof -
  obtain ca1 ca pool w where run: "channel_run (sample_channels0, payload_pool_new, {#}, sample_no_waits) [Opened sample_id sample_id2]
      (ca1, payload_pool_new, {#}, sample_no_waits)" by (rule sample_run)
  from channel_memory_and_queues_sound [OF sample_channels0_new run] run show ?thesis by blast
qed



text \<open>
  C27: capacity. After any run, every inbound queue holds at most as many messages and
  outstanding claims together as its depth, and a send on a live pair is refused for want of
  space exactly when they have reached it.
\<close>

theorem channel_capacity:
  assumes "channel_authority_new pairs depth d = Some (ca0, d')"
    and "channel_run (ca0, payload_pool_new, {#}, w0) ls (ca, pool, R, w)"
    and "lives_at ca endpoint i side" and "cs_pair (ca_pairs ca ! i) = Some pair"
    and "pc_endpoints pair (peer side) \<noteq> None" and "length payload \<le> DW_CHANNEL_MAX_PAYLOAD"
  defines "used \<equiv> \<lambda>s. length (queue_items (pc_inbound pair s)) + card (send_claims (pc_inbound pair s))"
  shows "used side' \<le> ca_depth ca \<and>
    ((\<exists>ca' pool'. channel_reserve_send ca pool endpoint payload = Some (Err WouldBlock, ca', pool')) \<longleftrightarrow> used (peer side) = ca_depth ca)"
proof -
  have inv: "channel_inv ca pool R" using channel_run_inv [OF assms(2) new_state_inv [OF assms(1)]] by simp
  have wf: "channel_wf ca" "pool_wf pool" using channel_inv_parts [OF inv] by auto
  have q: "queue_wf (ca_depth ca) (pc_inbound pair s)" for s
    using channel_wf_pair [OF wf(1) lives_at_less [OF assms(3)] assms(4)] by (simp add: pair_wf_def)
  have bound: "used s \<le> ca_depth ca" for s using q [of s] by (simp add: queue_wf_def used_def)
  have full: "used (peer side) = ca_depth ca \<longleftrightarrow> \<not> has_minimal_capacity (pc_inbound pair (peer side))"
    using bound [of "peer side"] queue_wf_capacity [OF q] by (auto simp: used_def)
  have loc: "located_pair ca endpoint = Ok (i, side, pair)" using located_pair_Ok_iff [OF wf(1)] assms(3,4) by blast
  have "\<not> has_minimal_capacity (pc_inbound pair (peer side))"
    if "channel_reserve_send ca pool endpoint payload = Some (Err WouldBlock, ca', pool')" for ca' pool'
    using reserve_send_effect [OF wf, of endpoint payload] that lives_at_unique [OF wf(1) _ assms(3)] assms(4)
    by (fastforce simp: send_answered_def send_refused_def)
  moreover have "channel_reserve_send ca pool endpoint payload = Some (Err WouldBlock, ca, pool)"
    if "\<not> has_minimal_capacity (pc_inbound pair (peer side))"
    using that loc assms(5,6) by (simp add: channel_reserve_send_def queue_reserve_send_def can_admit_def)
  ultimately show ?thesis using full bound by blast
qed

theorem channel_capacity_witness:
  "\<exists>ca pair. channel_run (sample_channels0, payload_pool_new, {#}, sample_no_waits) [Opened sample_id sample_id2]
      (ca, payload_pool_new, {#}, sample_no_waits) \<and> cs_pair (ca_pairs ca ! 0) = Some pair \<and>
    length (queue_items (pc_inbound pair Zero)) + card (send_claims (pc_inbound pair Zero)) \<le> ca_depth ca"
proof -
  obtain ca where run: "channel_run (sample_channels0, payload_pool_new, {#}, sample_no_waits) [Opened sample_id sample_id2]
      (ca, payload_pool_new, {#}, sample_no_waits)" and l: "lives_at ca sample_id 0 Zero" "lives_at ca sample_id2 0 One" by (rule sample_pair)
  then obtain pair where "cs_pair (ca_pairs ca ! 0) = Some pair" "pc_endpoints pair (peer Zero) \<noteq> None"
    by (auto simp: lives_at_def)
  from channel_capacity [OF sample_channels0_new run l(1) this, of "[]" Zero] run this(1) show ?thesis by auto
qed

section \<open>Transfers of channels\<close>

text \<open>
  C28: the cycle check made before channels are sent over a channel is exact. It answers yes
  exactly when the destination can be reached from one of the channels being sent by following
  channels to the channels queued in them, however deep; it fails only when a reachable channel
  is no longer alive.
\<close>

theorem queue_cycle_check_exact:
  assumes "channel_wf ca" and "\<forall>r\<in>set objects. \<forall>x. (queue_holds ca)\<^sup>*\<^sup>* r x \<longrightarrow> live_object ca x"
  shows "transfer_closes_queue_cycle ca destination objects = Ok (\<exists>r\<in>set objects. (queue_holds ca)\<^sup>*\<^sup>* r destination)"
  using transfer_closes_queue_cycle_spec [OF assms(1), where destination = destination and objects = objects] assms(2)
  by (cases "transfer_closes_queue_cycle ca destination objects") auto

theorem queue_cycle_check_exact_witness:
  "\<exists>ca. live_object ca sample_id \<and> transfer_closes_queue_cycle ca sample_id2 [sample_id] = Ok False \<and>
    transfer_closes_queue_cycle ca sample_id [sample_id] = Ok True"
proof -
  obtain ca where l: "lives_at ca sample_id 0 Zero" and none: "\<And>a b. \<not> queue_holds ca a b" and wf: "channel_wf ca"
    using sample_pair by metis
  have reach: "(queue_holds ca)\<^sup>*\<^sup>* a b \<longleftrightarrow> a = b" for a b using none by (metis converse_rtranclpE rtranclp.rtrancl_refl)
  have live: "\<forall>r\<in>set [sample_id]. \<forall>x. (queue_holds ca)\<^sup>*\<^sup>* r x \<longrightarrow> live_object ca x"
    using l by (auto simp: reach live_object_def)
  have "sample_id \<noteq> sample_id2" by (simp add: sample_id_def sample_id2_def)
  with queue_cycle_check_exact [OF wf live, of sample_id2] queue_cycle_check_exact [OF wf live, of sample_id] l show ?thesis
    by (auto simp: reach live_object_def)
qed

text \<open>
  The search with a bound on the rounds of its outer loop.
\<close>

fun cycle_loop_fuel ::
  "nat \<Rightarrow> channel_authority \<Rightarrow> object_id \<Rightarrow> u8 list \<Rightarrow> u8 list \<Rightarrow> (bool, channel_error) result option" where
  "cycle_loop_fuel 0 ca destination pending visited = None"
| "cycle_loop_fuel (Suc fuel) ca destination pending visited =
    (case scan_pending [0..<length visited] pending visited of
      (None, _, _) \<Rightarrow> Some (Ok False)
    | (Some (slot, side), pending', visited') \<Rightarrow>
       (case cs_pair (ca_pairs ca ! slot) of
         None \<Rightarrow> Some (Err StalePair)
       | Some pair \<Rightarrow> (case pc_endpoints pair side of
           None \<Rightarrow> Some (Err StalePair)
         | Some endpoint \<Rightarrow>
            if er_object endpoint = destination then Some (Ok True)
            else (case mark_queued ca destination visited' (queued_channels (pc_inbound pair side)) pending' of
                Err e \<Rightarrow> Some (Err e)
              | Ok (True, _) \<Rightarrow> Some (Ok True)
              | Ok (False, pending'') \<Rightarrow> cycle_loop_fuel fuel ca destination pending'' visited'))))"

lemma cycle_loop_fuel_enough:
  "card (unvisited visited) < fuel \<Longrightarrow>
    cycle_loop_fuel fuel ca destination pending visited = Some (cycle_loop ca destination pending visited)"
proof (induction fuel arbitrary: pending visited)
  case (Suc fuel)
  have "cycle_loop_fuel fuel ca destination pending'' visited' = Some (cycle_loop ca destination pending'' visited')"
    if "scan_pending [0..<length visited] pending visited = (Some next, pending', visited')" for "next" pending' visited' pending''
    using Suc scan_pending_shrinks [OF that [symmetric]] by simp
  then show ?case
    by (subst cycle_loop.simps) (auto split: prod.split option.split result.split bool.split)
qed simp

lemma card_unvisited: "card (unvisited visited) \<le> 2 * length visited"
proof -
  have "unvisited visited \<subseteq> {..<length visited} \<times> UNIV" by (auto simp: unvisited_def)
  then have "card (unvisited visited) \<le> card ({..<length visited} \<times> (UNIV :: channel_side set))"
    by (intro card_mono) (simp_all add: UNIV_side)
  then show ?thesis by (simp add: card_cartesian_product UNIV_side)
qed

text \<open>
  C29: the search for a cycle ends. With one mask byte per pair its outer loop runs at most twice
  as many rounds as there are pairs, plus the round that finds nothing pending, whatever the
  queues hold.
\<close>

theorem queue_search_terminates:
  "cycle_loop_fuel (2 * length visited + 1) ca destination pending visited = Some (cycle_loop ca destination pending visited)"
  by (intro cycle_loop_fuel_enough) (use card_unvisited [of visited] in simp)

section \<open>Whole sends and receives\<close>



section \<open>Wakeups\<close>

text \<open>
  C31: no lost wakeup on channels. After any sequence of complete calls from new authorities
  (pairs created, messages sent or refused, messages received, endpoints finalized, waits
  registered, cancelled and consumed), no thread is registered for a signal that the endpoint it
  waits on already shows: not READABLE with a message queued, not WRITABLE with room at the peer,
  not PEER_CLOSED with the peer gone.
\<close>

theorem no_waiter_on_ready_channel:
  assumes "channel_authority_new pairs depth d = Some (ca0, d')" and "wait_registry_new capacity dw = Some (w0, dw')"
    and "channel_call\<^sup>*\<^sup>* (ca0, payload_pool_new, w0) (ca, pool, w)"
  shows "\<forall>e\<in>#waiters w. channel_current_signals ca (wi_object (we_identity e)) = Ok s \<longrightarrow> we_desired e AND s = 0"
proof -
  have "waiters w0 = {#}" using assms(2) by (rule no_waiters_new)
  then have start: "call_inv (ca0, payload_pool_new, w0)"
    using channel_inv_new [OF assms(1)] by (simp add: call_inv_simp quiet_def)
  have "call_inv st \<Longrightarrow> channel_call st st' \<Longrightarrow> call_inv st'" for st st'
    using channel_call_inv channel_call_quiet by (cases st; cases st') (auto simp: call_inv_simp)
  with assms(3) start have "call_inv (ca, pool, w)" by (induction rule: rtranclp_induct) auto
  then show ?thesis by (auto simp: call_inv_simp quiet_def channel_signals_def split: result.splits)
qed

definition sample_channel_target :: resolved_handle where
  "sample_channel_target = \<lparr>rh_reference = \<lparr>ir_id = sample_id2, ir_object_type = DW_OBJECT_TYPE_CHANNEL\<rparr>, rh_rights = DW_RIGHT_WAIT\<rparr>"

theorem no_waiter_on_ready_channel_witness:
  "\<exists>ca w. channel_call\<^sup>*\<^sup>* (sample_channels0, payload_pool_new, sample_no_waits) (ca, payload_pool_new, w) \<and> size (waiters w) = 1 \<and>
    (\<forall>e\<in>#waiters w. channel_current_signals ca (wi_object (we_identity e)) = Ok DW_SIGNAL_READABLE \<longrightarrow>
      we_desired e AND DW_SIGNAL_READABLE = 0)"
proof -
  have w0: "wait_registry_new 1 1 = Some (sample_no_waits, 2)" by (simp add: eval_simps sample_no_waits_def)
  from sample_exchange obtain x ca reg where
    s: "create_pair sample_channels0 sample_registry = Some (Ok ((sample_id, sample_id2), x), ca, reg)" by blast
  have c1: "channel_call (sample_channels0, payload_pool_new, sample_no_waits) (ca, payload_pool_new, sample_no_waits)"
    using call_create_pair [OF sample_accounts _ _ s] sample_unknown by (simp add: waiters_def sample_no_waits_def VACANT_WAIT_SLOT_def)
  obtain y w where y: "channel_register_wait ca sample_no_waits sample_channel_target DW_SIGNAL_READABLE 0
      (bw_thread sample_wake) sample_wake = (y, w)" by fastforce
  with s have "size (waiters w) = 1"
    by (auto simp: eval_simps sample_defs sample_channels0_def sample_id2_def wait_sample_defs sample_channel_target_def waiters_def)
  moreover have steps: "channel_call\<^sup>*\<^sup>* (sample_channels0, payload_pool_new, sample_no_waits) (ca, payload_pool_new, w)"
    using c1 call_register [OF y] by (meson rtranclp.rtrancl_into_rtrancl rtranclp.rtrancl_refl)
  ultimately show ?thesis using no_waiter_on_ready_channel [OF sample_channels0_new w0 steps] by blast
qed

end
