(* ===== verification/Deadline_Queue.thy ===== *)
theory Deadline_Queue
  imports Abi
begin

text \<open>
  The deadline queue (\<^verbatim>\<open>kernel/src/time/deadline.rs\<close>): a fixed array of slots with a
  generation each, from which registrations are drawn; and the conversion of a delay into a
  one-shot count of the local timer. The payload type is a parameter, as in the code. The view
  of a queue is the map from live registrations to their deadlines and payloads.
\<close>

abbreviation (input) DW_DEADLINE_NOW :: u64 where "DW_DEADLINE_NOW \<equiv> 0"
abbreviation (input) DW_DEADLINE_INFINITE :: u64 where "DW_DEADLINE_INFINITE \<equiv> - 1"
abbreviation (input) NANOS_PER_SECOND :: nat where "NANOS_PER_SECOND \<equiv> 1000000000"

section \<open>Data and operations\<close>

datatype deadline_class = ClassNow | ClassFinite u64 | ClassInfinite

definition classify_deadline :: "u64 \<Rightarrow> deadline_class" where
  "classify_deadline deadline =
    (if deadline = DW_DEADLINE_NOW then ClassNow
     else if deadline = DW_DEADLINE_INFINITE then ClassInfinite
     else ClassFinite deadline)"

record apic_one_shot =
  os_initial_count :: u32
  os_reaches_deadline :: bool

datatype deadline_queue_error =
  DqCapacity | DqInvalidDeadline | DqForeignRegistration | DqStaleRegistration | DqGenerationExhausted |
  DqInvalidTimerRate | DqArithmeticOverflow

text \<open>The arithmetic is that of \<open>u128\<close>.\<close>

definition checked_mul_u128 :: "nat \<Rightarrow> nat \<Rightarrow> nat option" where
  "checked_mul_u128 a b = (if a * b < 2 ^ 128 then Some (a * b) else None)"

definition checked_add_u128 :: "nat \<Rightarrow> nat \<Rightarrow> nat option" where
  "checked_add_u128 a b = (if a + b < 2 ^ 128 then Some (a + b) else None)"

definition apic_one_shot_for_delta :: "u64 \<Rightarrow> u64 \<Rightarrow> (apic_one_shot, deadline_queue_error) result" where
  "apic_one_shot_for_delta delta_ns timer_hz =
    (if timer_hz = 0 then Err DqInvalidTimerRate
     else and_then (ok_or DqArithmeticOverflow (checked_mul_u128 (unat delta_ns) (unat timer_hz))) (\<lambda>numerator.
       and_then (ok_or DqArithmeticOverflow (checked_add_u128 numerator (NANOS_PER_SECOND - 1))) (\<lambda>sum.
         let taken = max (sum div NANOS_PER_SECOND) 1 in
         if unat (- 1 :: u32) < taken then Ok \<lparr>os_initial_count = - 1, os_reaches_deadline = False\<rparr>
         else Ok \<lparr>os_initial_count = of_nat taken, os_reaches_deadline = True\<rparr>)))"

record 'p deadline_entry =
  de_deadline_ns :: u64
  de_payload :: 'p

record 'p deadline_slot =
  ds_generation :: u32
  ds_entry :: "'p deadline_entry option"

record deadline_registration =
  dr_domain :: u64
  dr_slot :: u16
  dr_generation :: u32

record 'p deadline_queue =
  dq_domain :: u64
  dq_slots :: "'p deadline_slot list"

definition mint_deadline_domain :: "u64 \<Rightarrow> (u64 \<times> u64) option" where
  "mint_deadline_domain next_domain =
    (case checked_next next_domain of None \<Rightarrow> None | Some n \<Rightarrow> Some (next_domain, n))"

definition deadline_queue_new :: "nat \<Rightarrow> u64 \<Rightarrow> ('p deadline_queue \<times> u64) option" where
  "deadline_queue_new capacity next_domain =
    do { (domain, next') \<leftarrow> mint_deadline_domain next_domain;
         Some (\<lparr>dq_domain = domain, dq_slots = replicate capacity \<lparr>ds_generation = 0, ds_entry = None\<rparr>\<rparr>, next') }"

fun find_deadline_slot :: "nat \<Rightarrow> 'p deadline_slot list \<Rightarrow> (nat \<times> u32) option" where
  "find_deadline_slot index [] = None"
| "find_deadline_slot index (s # rest) =
    (if ds_entry s \<noteq> None then find_deadline_slot (index + 1) rest
     else (case checked_next (ds_generation s) of
        None \<Rightarrow> find_deadline_slot (index + 1) rest
      | Some generation \<Rightarrow> Some (index, generation)))"

definition dq_register ::
  "'p deadline_queue \<Rightarrow> u64 \<Rightarrow> 'p \<Rightarrow> (deadline_registration, deadline_queue_error) result \<times> 'p deadline_queue" where
  "dq_register q deadline_ns payload =
    (if deadline_ns = DW_DEADLINE_NOW \<or> deadline_ns = DW_DEADLINE_INFINITE then (Err DqInvalidDeadline, q)
     else (case find_deadline_slot 0 (dq_slots q) of
        None \<Rightarrow> (Err (if \<exists>s\<in>set (dq_slots q). ds_entry s = None then DqGenerationExhausted else DqCapacity), q)
      | Some (index, generation) \<Rightarrow> (case u16_try_from_usize index of
          None \<Rightarrow> (Err DqCapacity, q)
        | Some slot \<Rightarrow>
           (Ok \<lparr>dr_domain = dq_domain q, dr_slot = slot, dr_generation = generation\<rparr>,
            q\<lparr>dq_slots := (dq_slots q)[unat slot :=
              \<lparr>ds_generation = generation, ds_entry = Some \<lparr>de_deadline_ns = deadline_ns, de_payload = payload\<rparr>\<rparr>]\<rparr>))))"

definition dq_cancel ::
  "'p deadline_queue \<Rightarrow> deadline_registration \<Rightarrow> ('p, deadline_queue_error) result \<times> 'p deadline_queue" where
  "dq_cancel q registration =
    (if dr_domain registration \<noteq> dq_domain q then (Err DqForeignRegistration, q)
     else (case slice_get (dq_slots q) (unat (dr_slot registration)) of
        None \<Rightarrow> (Err DqStaleRegistration, q)
      | Some slot \<Rightarrow>
         if ds_generation slot \<noteq> dr_generation registration then (Err DqStaleRegistration, q)
         else (ok_or DqStaleRegistration (map_option de_payload (ds_entry slot)),
               q\<lparr>dq_slots := (dq_slots q)[unat (dr_slot registration) := slot\<lparr>ds_entry := None\<rparr>]\<rparr>)))"

definition replace_if_live ::
  "'p deadline_queue \<Rightarrow> deadline_registration \<Rightarrow> u64 \<Rightarrow> 'p \<Rightarrow>
   (deadline_registration option, deadline_queue_error) result \<times> 'p deadline_queue" where
  "replace_if_live q registration deadline_ns payload =
    (if deadline_ns = DW_DEADLINE_NOW \<or> deadline_ns = DW_DEADLINE_INFINITE then (Err DqInvalidDeadline, q)
     else if dr_domain registration \<noteq> dq_domain q then (Err DqForeignRegistration, q)
     else (case slice_get (dq_slots q) (unat (dr_slot registration)) of
        None \<Rightarrow> (Err DqStaleRegistration, q)
      | Some slot \<Rightarrow>
         if ds_generation slot < dr_generation registration then (Err DqStaleRegistration, q)
         else if dr_generation registration < ds_generation slot \<or> ds_entry slot = None then (Ok None, q)
         else (case checked_next (ds_generation slot) of
            None \<Rightarrow> (Err DqGenerationExhausted, q)
          | Some generation \<Rightarrow>
             (Ok (Some \<lparr>dr_domain = dq_domain q, dr_slot = dr_slot registration, dr_generation = generation\<rparr>),
              q\<lparr>dq_slots := (dq_slots q)[unat (dr_slot registration) :=
                \<lparr>ds_generation = generation, ds_entry = Some \<lparr>de_deadline_ns = deadline_ns, de_payload = payload\<rparr>\<rparr>]\<rparr>))))"

definition cancel_if_live_ref ::
  "'p deadline_queue \<Rightarrow> deadline_registration \<Rightarrow> ('p option, deadline_queue_error) result \<times> 'p deadline_queue" where
  "cancel_if_live_ref q registration =
    (if dr_domain registration \<noteq> dq_domain q then (Err DqForeignRegistration, q)
     else (case slice_get (dq_slots q) (unat (dr_slot registration)) of
        None \<Rightarrow> (Err DqStaleRegistration, q)
      | Some slot \<Rightarrow>
         if ds_generation slot < dr_generation registration then (Err DqStaleRegistration, q)
         else if dr_generation registration < ds_generation slot then (Ok None, q)
         else (Ok (map_option de_payload (ds_entry slot)),
               q\<lparr>dq_slots := (dq_slots q)[unat (dr_slot registration) := slot\<lparr>ds_entry := None\<rparr>]\<rparr>)))"

definition cancel_if_live ::
  "'p deadline_queue \<Rightarrow> deadline_registration \<Rightarrow> ('p option, deadline_queue_error) result \<times> 'p deadline_queue" where
  "cancel_if_live q registration = cancel_if_live_ref q registration"

definition dq_deadlines :: "'p deadline_queue \<Rightarrow> u64 list" where
  "dq_deadlines q = List.map_filter (\<lambda>s. map_option de_deadline_ns (ds_entry s)) (dq_slots q)"

definition dq_earliest :: "'p deadline_queue \<Rightarrow> u64 option" where
  "dq_earliest q = (case dq_deadlines q of [] \<Rightarrow> None | d # ds \<Rightarrow> Some (fold min ds d))"

text \<open>The loop of \<open>expire\<close> over the slots; \<open>output[count]\<close> panics out of range.\<close>

fun expire_slots ::
  "u64 \<Rightarrow> 'p deadline_slot list \<Rightarrow> 'p option list \<Rightarrow> nat \<Rightarrow> (nat \<times> 'p option list \<times> 'p deadline_slot list) option" where
  "expire_slots now_ns [] out taken = Some (taken, out, [])"
| "expire_slots now_ns (s # rest) out taken =
    (case ds_entry s of
      Some entry \<Rightarrow>
        if de_deadline_ns entry \<le> now_ns
        then do { _ \<leftarrow> assert_panic (taken < length out);
                  (n, out', rest') \<leftarrow> expire_slots now_ns rest (out[taken := Some (de_payload entry)]) (taken + 1);
                  Some (n, out', s\<lparr>ds_entry := None\<rparr> # rest') }
        else do { (n, out', rest') \<leftarrow> expire_slots now_ns rest out taken; Some (n, out', s # rest') }
    | None \<Rightarrow> do { (n, out', rest') \<leftarrow> expire_slots now_ns rest out taken; Some (n, out', s # rest') })"

definition dq_expire :: "'p deadline_queue \<Rightarrow> u64 \<Rightarrow> (nat \<times> 'p option list \<times> 'p deadline_queue) option" where
  "dq_expire q now_ns =
    do { (n, out, slots) \<leftarrow> expire_slots now_ns (dq_slots q) (replicate (length (dq_slots q)) None) 0;
         Some (n, out, q\<lparr>dq_slots := slots\<rparr>) }"

lemmas deadline_eval [eval_simps] =
  classify_deadline_def checked_mul_u128_def checked_add_u128_def apic_one_shot_for_delta_def mint_deadline_domain_def
  deadline_queue_new_def dq_register_def dq_cancel_def replace_if_live_def cancel_if_live_ref_def cancel_if_live_def
  dq_deadlines_def dq_earliest_def dq_expire_def

section \<open>The one-shot count\<close>

lemma unat_u64_less: "unat (w :: u64) < 18446744073709551616"
  using unsigned_less [of w] by simp

lemma one_shot_cases:
  assumes "timer_hz \<noteq> 0"
  shows "\<exists>shot. apic_one_shot_for_delta delta_ns timer_hz = Ok shot \<and> 1 \<le> unat (os_initial_count shot) \<and>
    (let taken = max ((unat delta_ns * unat timer_hz + (NANOS_PER_SECOND - 1)) div NANOS_PER_SECOND) 1 in
     if os_reaches_deadline shot then unat (os_initial_count shot) = taken
     else unat (os_initial_count shot) = 4294967295 \<and> 4294967295 < taken)"
proof -
  have "unat delta_ns * unat timer_hz \<le> 18446744073709551615 * 18446744073709551615"
    using unat_u64_less [of delta_ns] unat_u64_less [of timer_hz] by (intro mult_le_mono) simp_all
  then have b: "unat delta_ns * unat timer_hz < 2 ^ 128" "unat delta_ns * unat timer_hz + 999999999 < 2 ^ 128" by simp_all
  define taken where "taken = max ((unat delta_ns * unat timer_hz + (NANOS_PER_SECOND - 1)) div NANOS_PER_SECOND) 1"
  have max32: "unat (- 1 :: u32) = 4294967295" by (simp add: unsigned_minus_1_eq_mask mask_eq_exp_minus_1)
  have eq: "apic_one_shot_for_delta delta_ns timer_hz =
    (if 4294967295 < taken then Ok \<lparr>os_initial_count = - 1, os_reaches_deadline = False\<rparr>
     else Ok \<lparr>os_initial_count = of_nat taken, os_reaches_deadline = True\<rparr>)"
    using assms b by (simp add: apic_one_shot_for_delta_def checked_mul_u128_def checked_add_u128_def Let_def taken_def max32
        less_max_iff_disj)
  have small: "\<not> 4294967295 < taken \<Longrightarrow> unat (of_nat taken :: u32) = taken"
    by (subst unat_of_nat) (simp add: not_less le_less_trans)
  have "1 \<le> taken" by (simp add: taken_def)
  then show ?thesis unfolding Let_def taken_def [symmetric] eq using small max32 by simp
qed

section \<open>The queue as a map\<close>

definition dq_view :: "'p deadline_queue \<Rightarrow> deadline_registration \<rightharpoonup> 'p deadline_entry" where
  "dq_view q r =
    (if dr_domain r = dq_domain q \<and> unat (dr_slot r) < length (dq_slots q) \<and>
        ds_generation (dq_slots q ! unat (dr_slot r)) = dr_generation r
     then ds_entry (dq_slots q ! unat (dr_slot r)) else None)"

text \<open>A registration that was ever issued is not ahead of the generation of its slot.\<close>

definition dq_issued :: "'p deadline_queue \<Rightarrow> deadline_registration \<Rightarrow> bool" where
  "dq_issued q r \<longleftrightarrow> dr_domain r = dq_domain q \<and> unat (dr_slot r) < length (dq_slots q) \<and>
    dr_generation r \<le> ds_generation (dq_slots q ! unat (dr_slot r))"

lemma dq_view_issued: "dq_view q r = Some e \<Longrightarrow> dq_issued q r"
  by (auto simp: dq_view_def dq_issued_def split: if_splits)

text \<open>Writing one slot: its registrations are forgotten and the one of the new generation has the new entry.\<close>

lemma dq_view_update:
  assumes "i < length (dq_slots q)"
  shows "dq_view (q\<lparr>dq_slots := (dq_slots q)[i := s]\<rparr>) r =
    (if unat (dr_slot r) = i then if dr_domain r = dq_domain q \<and> ds_generation s = dr_generation r then ds_entry s else None
     else dq_view q r)"
  using assms by (auto simp: dq_view_def nth_update_if)

lemma registration_eqI:
  "dr_domain r = dr_domain r' \<Longrightarrow> unat (dr_slot r) = unat (dr_slot r') \<Longrightarrow> dr_generation r = dr_generation r' \<Longrightarrow> r = (r' :: deadline_registration)"
  by (rule deadline_registration.equality) (simp_all add: unsigned_word_eqI)

definition dq_current :: "'p deadline_queue \<Rightarrow> u16 \<Rightarrow> deadline_registration" where
  "dq_current q slot = \<lparr>dr_domain = dq_domain q, dr_slot = slot, dr_generation = ds_generation (dq_slots q ! unat slot)\<rparr>"

text \<open>At most the current registration of a slot is live.\<close>

lemma dq_view_slot:
  "dq_view q r = Some e \<Longrightarrow> dq_view q r' = Some e' \<Longrightarrow> unat (dr_slot r) = unat (dr_slot r') \<Longrightarrow> r = r'"
  by (rule registration_eqI) (auto simp: dq_view_def split: if_splits)

lemma find_deadline_slot_Some:
  "find_deadline_slot k slots = Some (i, g) \<Longrightarrow>
    \<exists>j<length slots. i = k + j \<and> ds_entry (slots ! j) = None \<and> checked_next (ds_generation (slots ! j)) = Some g"
proof (induction slots arbitrary: k)
  case (Cons s slots)
  show ?case
  proof (cases "ds_entry s = None \<and> checked_next (ds_generation s) \<noteq> None")
    case True
    with Cons.prems show ?thesis by (auto intro!: exI [of _ 0])
  next
    case False
    with Cons.prems have "find_deadline_slot (k + 1) slots = Some (i, g)" by (auto split: if_splits option.splits)
    from Cons.IH [OF this] obtain j where "j < length slots" "i = k + 1 + j" "ds_entry (slots ! j) = None"
      "checked_next (ds_generation (slots ! j)) = Some g" by blast
    then show ?thesis by (auto intro!: exI [of _ "Suc j"])
  qed
qed simp

lemma find_deadline_slot_None:
  "find_deadline_slot k slots = None \<longleftrightarrow> (\<forall>s\<in>set slots. ds_entry s = None \<longrightarrow> checked_next (ds_generation s) = None)"
  by (induction slots arbitrary: k) (auto split: option.splits)

lemma dq_register_Ok:
  assumes "dq_register q d p = (Ok r, q')"
  shows "dq_view q' = (dq_view q)(r \<mapsto> \<lparr>de_deadline_ns = d, de_payload = p\<rparr>) \<and> \<not> dq_issued q r \<and> dq_issued q' r \<and>
    (\<forall>r'. dq_issued q r' \<longrightarrow> dq_issued q' r') \<and> dq_domain q' = dq_domain q \<and> length (dq_slots q') = length (dq_slots q)"
proof -
  from assms obtain i g where f: "find_deadline_slot 0 (dq_slots q) = Some (i, g)" and small: "i < 2 ^ 16"
    and r: "r = \<lparr>dr_domain = dq_domain q, dr_slot = of_nat i, dr_generation = g\<rparr>"
    and q': "q' = q\<lparr>dq_slots := (dq_slots q)[unat (of_nat i :: u16) := \<lparr>ds_generation = g, ds_entry = Some \<lparr>de_deadline_ns = d, de_payload = p\<rparr>\<rparr>]\<rparr>"
    by (auto simp: dq_register_def u16_try_from_usize_def split: if_splits option.splits)
  have i: "unat (of_nat i :: u16) = i" using small by (simp add: unat_of_nat take_bit_nat_eq_self)
  from find_deadline_slot_Some [OF f] have free: "i < length (dq_slots q)" "ds_entry (dq_slots q ! i) = None"
    and g: "checked_next (ds_generation (dq_slots q ! i)) = Some g" by auto
  have less: "ds_generation (dq_slots q ! i) < g" using checked_next_unat [OF g] by (simp add: word_less_nat_alt)
  have ri: "unat (dr_slot r) = i" "dr_domain r = dq_domain q" "dr_generation r = g" by (simp_all add: r i)
  have "dq_view q' r' = ((dq_view q)(r \<mapsto> \<lparr>de_deadline_ns = d, de_payload = p\<rparr>)) r'" for r'
  proof (cases "unat (dr_slot r') = i")
    case True
    then have "dq_view q r' = None" using free(2) by (simp add: dq_view_def)
    moreover have "dr_domain r' = dq_domain q \<and> g = dr_generation r' \<longleftrightarrow> r' = r"
      using registration_eqI [of r' r] True ri by metis
    ultimately show ?thesis using True by (simp add: q' i dq_view_update [OF free(1)])
  next
    case False
    then have "r' \<noteq> r" using ri by auto
    with False show ?thesis by (simp add: q' i dq_view_update [OF free(1)])
  qed
  moreover have "dq_issued q r' \<longrightarrow> dq_issued q' r'" for r' using less by (auto simp: dq_issued_def q' i nth_update_if)
  moreover have "\<not> dq_issued q r" "dq_issued q' r" using less free(1) ri by (simp_all add: dq_issued_def q' i)
  ultimately show ?thesis by (auto simp: q')
qed

lemma dq_register_Err: "dq_register q d p = (Err e, q') \<Longrightarrow> q' = q"
  by (auto simp: dq_register_def split: if_splits option.splits)

text \<open>The shape the operations on a registration have in common.\<close>

lemma dq_issued_view:
  "dq_issued q r \<Longrightarrow> dq_view q r =
    (if ds_generation (dq_slots q ! unat (dr_slot r)) = dr_generation r then ds_entry (dq_slots q ! unat (dr_slot r)) else None)"
  by (simp add: dq_issued_def dq_view_def)

lemma dq_view_clear:
  assumes "dq_issued q r" and "ds_generation (dq_slots q ! unat (dr_slot r)) = dr_generation r"
  shows "dq_view (q\<lparr>dq_slots := (dq_slots q)[unat (dr_slot r) := (dq_slots q ! unat (dr_slot r))\<lparr>ds_entry := None\<rparr>]\<rparr>) = (dq_view q)(r := None)"
proof
  fix r'
  have i: "unat (dr_slot r) < length (dq_slots q)" using assms(1) by (simp add: dq_issued_def)
  show "dq_view (q\<lparr>dq_slots := (dq_slots q)[unat (dr_slot r) := (dq_slots q ! unat (dr_slot r))\<lparr>ds_entry := None\<rparr>]\<rparr>) r' = ((dq_view q)(r := None)) r'"
  proof (cases "unat (dr_slot r') = unat (dr_slot r)")
    case True
    then have "r' \<noteq> r \<Longrightarrow> dq_view q r' = None" using assms registration_eqI [of r' r] by (auto simp: dq_view_def dq_issued_def)
    with True show ?thesis by (simp add: dq_view_update [OF i])
  qed (auto simp: dq_view_update [OF i])
qed

definition dq_same :: "'p deadline_queue \<Rightarrow> 'p deadline_queue \<Rightarrow> bool" where
  "dq_same q q' \<longleftrightarrow> (\<forall>r. dq_issued q' r = dq_issued q r) \<and> dq_domain q' = dq_domain q \<and> length (dq_slots q') = length (dq_slots q)"

lemma dq_same_refl [simp]: "dq_same q q"
  by (simp add: dq_same_def)

lemma dq_same_clear: "dq_same q (q\<lparr>dq_slots := (dq_slots q)[i := (dq_slots q ! i)\<lparr>ds_entry := x\<rparr>]\<rparr>)"
  by (cases "i < length (dq_slots q)") (auto simp: dq_same_def dq_issued_def nth_update_if list_update_beyond split: if_splits)

lemma cancel_if_live_ref_cases:
  assumes "cancel_if_live_ref q r = (x, q')"
  shows "dq_same q q' \<and> (case x of
      Ok p \<Rightarrow> dq_issued q r \<and> p = map_option de_payload (dq_view q r) \<and> dq_view q' = (dq_view q)(r := None)
    | Err e \<Rightarrow> \<not> dq_issued q r \<and> q' = q)"
proof (cases "dq_issued q r")
  case True
  let ?i = "unat (dr_slot r)"
  from True have i: "?i < length (dq_slots q)" "dr_domain r = dq_domain q" "dr_generation r \<le> ds_generation (dq_slots q ! ?i)"
    by (simp_all add: dq_issued_def)
  then have n: "\<not> ds_generation (dq_slots q ! ?i) < dr_generation r" by (simp add: not_less)
  show ?thesis
  proof (cases "ds_generation (dq_slots q ! ?i) = dr_generation r")
    case current: True
    with assms i have "x = Ok (map_option de_payload (dq_view q r))" "q' = q\<lparr>dq_slots := (dq_slots q)[?i := (dq_slots q ! ?i)\<lparr>ds_entry := None\<rparr>]\<rparr>"
      by (auto simp: cancel_if_live_ref_def dq_issued_view [OF True])
    with True dq_view_clear [OF True current] dq_same_clear show ?thesis by simp
  next
    case False
    with i have "dr_generation r < ds_generation (dq_slots q ! ?i)" by simp
    with assms i n True have "x = Ok None" "q' = q" by (auto simp: cancel_if_live_ref_def)
    with True False show ?thesis by (auto simp: dq_issued_view [OF True])
  qed
next
  case False
  with assms have "(\<exists>e. x = Err e) \<and> q' = q"
    by (auto simp: cancel_if_live_ref_def dq_issued_def slice_get_def not_le split: if_splits)
  with False show ?thesis by auto
qed

lemma dq_cancel_cases:
  assumes "dq_cancel q r = (x, q')"
  shows "dq_same q q' \<and> (case x of
      Ok p \<Rightarrow> \<exists>e. dq_view q r = Some e \<and> p = de_payload e \<and> dq_view q' = (dq_view q)(r := None)
    | Err e \<Rightarrow> dq_view q r = None \<and> dq_view q' = dq_view q)"
proof (cases "dr_domain r = dq_domain q \<and> unat (dr_slot r) < length (dq_slots q) \<and>
    ds_generation (dq_slots q ! unat (dr_slot r)) = dr_generation r")
  case True
  then have issued: "dq_issued q r" by (simp add: dq_issued_def)
  from True assms have q': "q' = q\<lparr>dq_slots := (dq_slots q)[unat (dr_slot r) := (dq_slots q ! unat (dr_slot r))\<lparr>ds_entry := None\<rparr>]\<rparr>"
    and x: "x = ok_or DqStaleRegistration (map_option de_payload (dq_view q r))" by (auto simp: dq_cancel_def dq_view_def)
  then have "dq_view q' = (dq_view q)(r := None)" using dq_view_clear [OF issued] True by simp
  with x q' dq_same_clear show ?thesis by (cases "dq_view q r") (auto simp: fun_upd_idem)
next
  case False
  with assms show ?thesis by (auto simp: dq_cancel_def dq_view_def slice_get_def split: if_splits)
qed

lemma replace_if_live_cases:
  assumes "replace_if_live q r d p = (x, q')"
  shows "dq_domain q' = dq_domain q \<and> length (dq_slots q') = length (dq_slots q) \<and> (\<forall>r'. dq_issued q r' \<longrightarrow> dq_issued q' r') \<and>
    (case x of
      Ok (Some r') \<Rightarrow> dq_view q r \<noteq> None \<and> \<not> dq_issued q r' \<and> dq_issued q' r' \<and>
        dq_view q' = (dq_view q)(r := None, r' \<mapsto> \<lparr>de_deadline_ns = d, de_payload = p\<rparr>)
    | Ok None \<Rightarrow> dq_issued q r \<and> dq_view q r = None \<and> q' = q
    | Err e \<Rightarrow> q' = q)"
proof (cases "\<exists>r'. x = Ok (Some r')")
  case False
  with assms show ?thesis
    by (auto simp: replace_if_live_def dq_issued_def dq_view_def slice_get_def not_less split: if_splits option.splits)
next
  case True
  let ?i = "unat (dr_slot r)"
  from assms True obtain g where r: "dr_domain r = dq_domain q" "?i < length (dq_slots q)" "ds_generation (dq_slots q ! ?i) = dr_generation r"
    "ds_entry (dq_slots q ! ?i) \<noteq> None" and g: "checked_next (ds_generation (dq_slots q ! ?i)) = Some g"
    and x: "x = Ok (Some \<lparr>dr_domain = dq_domain q, dr_slot = dr_slot r, dr_generation = g\<rparr>)"
    and q': "q' = q\<lparr>dq_slots := (dq_slots q)[?i := \<lparr>ds_generation = g, ds_entry = Some \<lparr>de_deadline_ns = d, de_payload = p\<rparr>\<rparr>]\<rparr>"
    by (auto simp: replace_if_live_def slice_get_def not_less split: if_splits option.splits)
  let ?r = "\<lparr>dr_domain = dq_domain q, dr_slot = dr_slot r, dr_generation = g\<rparr>"
  have less: "ds_generation (dq_slots q ! ?i) < g" using checked_next_unat [OF g] by (simp add: word_less_nat_alt)
  have "dq_view q' r' = ((dq_view q)(r := None, ?r \<mapsto> \<lparr>de_deadline_ns = d, de_payload = p\<rparr>)) r'" for r'
  proof (cases "unat (dr_slot r') = ?i")
    case True
    then have "r' \<noteq> r \<Longrightarrow> dq_view q r' = None" using r registration_eqI [of r' r] by (auto simp: dq_view_def)
    moreover have "dr_domain r' = dq_domain q \<and> g = dr_generation r' \<longleftrightarrow> r' = ?r"
      using registration_eqI [of r' ?r] True by auto
    ultimately show ?thesis using True by (simp add: q' dq_view_update [OF r(2)])
  next
    case False
    then have "r' \<noteq> r" "r' \<noteq> ?r" by auto
    with False show ?thesis by (simp add: q' dq_view_update [OF r(2)])
  qed
  moreover have "dq_issued q r' \<longrightarrow> dq_issued q' r'" for r' using less by (auto simp: dq_issued_def q' nth_update_if)
  moreover have "\<not> dq_issued q ?r" "dq_issued q' ?r" using less r(2) by (auto simp: dq_issued_def q')
  ultimately show ?thesis using r by (auto simp: x dq_view_def q')
qed

section \<open>Expiry\<close>

definition dq_entries :: "'p deadline_queue \<Rightarrow> 'p deadline_entry list" where
  "dq_entries q = List.map_filter ds_entry (dq_slots q)"

lemma dq_deadlines_entries: "dq_deadlines q = map de_deadline_ns (dq_entries q)"
proof -
  have "List.map_filter (\<lambda>s. map_option de_deadline_ns (ds_entry s)) slots = map de_deadline_ns (List.map_filter ds_entry slots)"
    for slots :: "'p deadline_slot list" by (induction slots) (auto split: option.split)
  then show ?thesis by (simp add: dq_deadlines_def dq_entries_def)
qed

lemma fold_min_Min: "fold min ds d = Min (insert d (set ds))" for d :: "'a::linorder"
proof (induction ds arbitrary: d)
  case (Cons a ds)
  have "fold min (a # ds) d = Min (insert (min a d) (set ds))" using Cons.IH by simp
  also have "\<dots> = Min (insert d (set (a # ds)))"
    by (cases "set ds = {}") (auto simp: min.commute min.left_commute)
  finally show ?case .
qed simp

lemma dq_earliest_Min:
  "dq_earliest q = (if dq_entries q = [] then None else Some (Min (de_deadline_ns ` set (dq_entries q))))"
  by (cases "dq_entries q") (simp_all add: dq_earliest_def dq_deadlines_entries fold_min_Min)

definition entry_due :: "u64 \<Rightarrow> 'p deadline_entry \<Rightarrow> bool" where
  "entry_due now e \<longleftrightarrow> de_deadline_ns e \<le> now"

definition keep_entry :: "u64 \<Rightarrow> 'p deadline_entry option \<Rightarrow> 'p deadline_entry option" where
  "keep_entry now x = (case x of None \<Rightarrow> None | Some e \<Rightarrow> if entry_due now e then None else Some e)"

lemma expire_slots_spec:
  assumes "length ps + length slots \<le> n"
  shows "\<exists>taken. taken = map de_payload (filter (entry_due now) (List.map_filter ds_entry slots)) \<and>
    expire_slots now slots (map Some ps @ replicate (n - length ps) None) (length ps) =
      Some (length (ps @ taken), map Some (ps @ taken) @ replicate (n - length (ps @ taken)) None,
        map (\<lambda>s. s\<lparr>ds_entry := keep_entry now (ds_entry s)\<rparr>) slots)"
  using assms
proof (induction slots arbitrary: ps)
  case (Cons s slots)
  show ?case
  proof (cases "ds_entry s")
    case None
    with Cons.IH [of ps] Cons.prems show ?thesis by (simp add: keep_entry_def)
  next
    case (Some e)
    show ?thesis
    proof (cases "entry_due now e")
      case True
      have "(map Some ps @ replicate (n - length ps) None)[length ps := Some (de_payload e)] =
          map Some (ps @ [de_payload e]) @ replicate (n - length (ps @ [de_payload e])) None"
        using Cons.prems by (intro padded_update) simp
      with Cons.IH [of "ps @ [de_payload e]"] Cons.prems Some True show ?thesis
        by (simp add: keep_entry_def entry_due_def)
    next
      case False
      with Cons.IH [of ps] Cons.prems Some show ?thesis by (simp add: keep_entry_def entry_due_def)
    qed
  qed
qed (simp add: keep_entry_def)

lemma dq_expire_spec:
  "\<exists>q'. dq_expire q now = Some (length (filter (entry_due now) (dq_entries q)),
      map Some (map de_payload (filter (entry_due now) (dq_entries q))) @
        replicate (length (dq_slots q) - length (filter (entry_due now) (dq_entries q))) None, q') \<and>
    dq_view q' = (\<lambda>r. keep_entry now (dq_view q r)) \<and> dq_entries q' = filter (\<lambda>e. \<not> entry_due now e) (dq_entries q) \<and> dq_same q q'"
proof -
  let ?q = "q\<lparr>dq_slots := map (\<lambda>s. s\<lparr>ds_entry := keep_entry now (ds_entry s)\<rparr>) (dq_slots q)\<rparr>"
  have "dq_expire q now = Some (length (filter (entry_due now) (dq_entries q)),
      map Some (map de_payload (filter (entry_due now) (dq_entries q))) @
        replicate (length (dq_slots q) - length (filter (entry_due now) (dq_entries q))) None, ?q)"
    using expire_slots_spec [of "[]" "dq_slots q" "length (dq_slots q)" now] by (auto simp: dq_expire_def dq_entries_def)
  moreover have "dq_view ?q = (\<lambda>r. keep_entry now (dq_view q r))"
  proof
    fix r
    have "keep_entry now None = (None :: 'a deadline_entry option)" by (simp add: keep_entry_def)
    then show "dq_view ?q r = keep_entry now (dq_view q r)" by (auto simp: dq_view_def)
  qed
  moreover have "List.map_filter ds_entry (map (\<lambda>s. s\<lparr>ds_entry := keep_entry now (ds_entry s)\<rparr>) slots) =
      filter (\<lambda>e. \<not> entry_due now e) (List.map_filter ds_entry slots)" for slots :: "'a deadline_slot list"
    by (induction slots) (auto simp: keep_entry_def split: option.split)
  then have "dq_entries ?q = filter (\<lambda>e. \<not> entry_due now e) (dq_entries q)" by (simp add: dq_entries_def)
  moreover have "dq_same q ?q" by (auto simp: dq_same_def dq_issued_def)
  ultimately show ?thesis by blast
qed

end
