(* ===== verification/Monotonic_Clock.thy ===== *)
theory Monotonic_Clock
  imports Deadline_Queue
begin

text \<open>
  The monotonic clock (\<^verbatim>\<open>kernel/src/time/pm_timer.rs\<close>): a free-running hardware counter of 24
  or 32 bits is extended to 64 bits of ticks and converted to nanoseconds. Also the coalesced
  service request and the initialization state (\<^verbatim>\<open>time/service.rs\<close>, \<^verbatim>\<open>time/init_state.rs\<close>).
\<close>

section \<open>Data and operations\<close>

abbreviation (input) ACPI_PM_TIMER_HZ :: u64 where "ACPI_PM_TIMER_HZ \<equiv> 3579545"

datatype pm_timer_width = Bits24 | Bits32

definition pm_mask :: "pm_timer_width \<Rightarrow> u32" where
  "pm_mask width = (case width of Bits24 \<Rightarrow> push_bit 24 1 - 1 | Bits32 \<Rightarrow> - 1)"

definition pm_modulus :: "pm_timer_width \<Rightarrow> u64" where
  "pm_modulus width = ucast (pm_mask width) + 1"

definition maximum_unambiguous_gap_ticks :: "pm_timer_width \<Rightarrow> u64" where
  "maximum_unambiguous_gap_ticks width = pm_modulus width div 2"

definition maintenance_arm_ticks :: "pm_timer_width \<Rightarrow> u64" where
  "maintenance_arm_ticks width = pm_modulus width div 4"

record pm_timer_descriptor =
  pd_port :: u16
  pd_width :: pm_timer_width

datatype pm_timer_error = InvalidPort | SampleGapTooLarge | TickOverflow | NanosecondOverflow | MaintenanceOverflow

definition pm_descriptor_new :: "u16 \<Rightarrow> pm_timer_width \<Rightarrow> (pm_timer_descriptor, pm_timer_error) result" where
  "pm_descriptor_new port width = (if port = 0 then Err InvalidPort else Ok \<lparr>pd_port = port, pd_width = width\<rparr>)"

text \<open>\<open>u64::try_from\<close> of a \<open>u128\<close>.\<close>

definition u64_try_from_u128 :: "nat \<Rightarrow> u64 option" where
  "u64_try_from_u128 n = (if n < 2 ^ 64 then Some (of_nat n) else None)"

definition ticks_to_nanoseconds :: "u64 \<Rightarrow> (u64, pm_timer_error) result" where
  "ticks_to_nanoseconds ticks =
    and_then (ok_or NanosecondOverflow (checked_mul_u128 (unat ticks) NANOS_PER_SECOND)) (\<lambda>product.
      ok_or NanosecondOverflow (do {
        ns \<leftarrow> u64_try_from_u128 (product div unat ACPI_PM_TIMER_HZ);
        if ns < DW_DEADLINE_INFINITE then Some ns else None }))"

definition maximum_unambiguous_gap_nanoseconds :: "pm_timer_descriptor \<Rightarrow> (u64, pm_timer_error) result" where
  "maximum_unambiguous_gap_nanoseconds d = ticks_to_nanoseconds (maximum_unambiguous_gap_ticks (pd_width d))"

definition maintenance_arm_nanoseconds :: "pm_timer_descriptor \<Rightarrow> (u64, pm_timer_error) result" where
  "maintenance_arm_nanoseconds d = ticks_to_nanoseconds (maintenance_arm_ticks (pd_width d))"

definition full_wrap_nanoseconds :: "pm_timer_descriptor \<Rightarrow> (u64, pm_timer_error) result" where
  "full_wrap_nanoseconds d = ticks_to_nanoseconds (pm_modulus (pd_width d))"

record monotonic_sample =
  ms_nanoseconds :: u64
  ms_maintenance_deadline :: u64

record pm_timer_state =
  pm_descriptor :: pm_timer_descriptor
  pm_last_raw :: u32
  pm_extended_ticks :: u64

definition pm_timer_state_new :: "pm_timer_descriptor \<Rightarrow> u32 \<Rightarrow> pm_timer_state" where
  "pm_timer_state_new descriptor initial_raw =
    \<lparr>pm_descriptor = descriptor, pm_last_raw = initial_raw AND pm_mask (pd_width descriptor), pm_extended_ticks = 0\<rparr>"

definition pm_sample :: "pm_timer_state \<Rightarrow> u32 \<Rightarrow> (monotonic_sample, pm_timer_error) result \<times> pm_timer_state" where
  "pm_sample st raw =
    (let width = pd_width (pm_descriptor st); current = raw AND pm_mask width;
         delta = ucast ((current - pm_last_raw st) AND pm_mask width) :: u64;
         r = (if maximum_unambiguous_gap_ticks width < delta then Err SampleGapTooLarge
              else and_then (ok_or TickOverflow (checked_add (pm_extended_ticks st) delta)) (\<lambda>extended.
                and_then (ticks_to_nanoseconds extended) (\<lambda>ns.
                and_then (maintenance_arm_nanoseconds (pm_descriptor st)) (\<lambda>maintenance.
                and_then (ok_or MaintenanceOverflow (do {
                    value \<leftarrow> checked_add ns maintenance;
                    if value < DW_DEADLINE_INFINITE then Some value else None })) (\<lambda>deadline.
                  Ok (extended, \<lparr>ms_nanoseconds = ns, ms_maintenance_deadline = deadline\<rparr>))))))
     in case r of
          Err e \<Rightarrow> (Err e, st)
        | Ok (extended, sample) \<Rightarrow> (Ok sample, st\<lparr>pm_extended_ticks := extended, pm_last_raw := current\<rparr>))"

record timer_service_signal =
  tss_pending :: bool
  tss_faulted :: bool

definition timer_service_signal_new :: timer_service_signal where
  "timer_service_signal_new = \<lparr>tss_pending = False, tss_faulted = False\<rparr>"

definition service_ensure_healthy :: "timer_service_signal \<Rightarrow> (unit, unit) result" where
  "service_ensure_healthy s = (if tss_faulted s then Err () else Ok ())"

definition service_publish :: "timer_service_signal \<Rightarrow> (unit, unit) result \<times> timer_service_signal" where
  "service_publish s = (case service_ensure_healthy s of Err e \<Rightarrow> (Err e, s) | Ok _ \<Rightarrow> (Ok (), s\<lparr>tss_pending := True\<rparr>))"

definition service_fail_transport :: "timer_service_signal \<Rightarrow> timer_service_signal" where
  "service_fail_transport s = s\<lparr>tss_faulted := True\<rparr>"

text \<open>Another processor may publish the fault between the swap and the second check.\<close>

definition service_take ::
  "timer_service_signal \<Rightarrow> bool \<Rightarrow> (bool, unit) result \<times> timer_service_signal" where
  "service_take s faults_between =
    (case service_ensure_healthy s of
       Err e \<Rightarrow> (Err e, s)
     | Ok _ \<Rightarrow>
        (let s1 = s\<lparr>tss_pending := False\<rparr>; s2 = (if faults_between then service_fail_transport s1 else s1) in
         (case service_ensure_healthy s2 of Err e \<Rightarrow> (Err e, s2) | Ok _ \<Rightarrow> (Ok (tss_pending s), s2))))"

datatype time_init_state = Uninitialized | Preparing | Faulted | Initialized

definition time_init_from_u8 :: "u8 \<Rightarrow> time_init_state option" where
  "time_init_from_u8 b =
    (if b = 0 then Some Uninitialized else if b = 1 then Some Preparing else if b = 2 then Some Faulted
     else if b = 3 then Some Initialized else None)"

definition time_init_byte :: "time_init_state \<Rightarrow> u8" where
  "time_init_byte s = (case s of Uninitialized \<Rightarrow> 0 | Preparing \<Rightarrow> 1 | Faulted \<Rightarrow> 2 | Initialized \<Rightarrow> 3)"

lemmas clock_eval [eval_simps] =
  pm_mask_def pm_modulus_def maximum_unambiguous_gap_ticks_def maintenance_arm_ticks_def pm_descriptor_new_def u64_try_from_u128_def
  ticks_to_nanoseconds_def maximum_unambiguous_gap_nanoseconds_def maintenance_arm_nanoseconds_def full_wrap_nanoseconds_def
  pm_timer_state_new_def pm_sample_def timer_service_signal_new_def service_ensure_healthy_def service_publish_def
  service_fail_transport_def service_take_def time_init_from_u8_def time_init_byte_def

lemma time_init_roundtrip: "time_init_from_u8 (time_init_byte s) = Some s"
  by (cases s) (simp_all add: time_init_from_u8_def time_init_byte_def)

lemma service_fault_is_permanent:
  "tss_faulted s \<Longrightarrow> tss_faulted (snd (service_publish s)) \<and> tss_faulted (snd (service_take s b)) \<and> fst (service_take s b) = Err () \<and> fst (service_publish s) = Err ()"
  by (simp add: service_publish_def service_take_def service_ensure_healthy_def)

section \<open>The ideal counter\<close>

primrec pm_bits :: "pm_timer_width \<Rightarrow> nat" where
  "pm_bits Bits24 = 24"
| "pm_bits Bits32 = 32"

lemma pm_mask_bits: "x AND pm_mask width = take_bit (pm_bits width) x"
proof (cases width)
  case Bits24
  have "(push_bit 24 1 - 1 :: u32) = mask 24" by (simp add: mask_eq_exp_minus_1 push_bit_eq_mult)
  with Bits24 show ?thesis by (simp add: pm_mask_def take_bit_eq_mask)
next
  case Bits32
  have "(- 1 :: u32) = mask 32" by (simp add: mask_eq_exp_minus_1)
  with Bits32 show ?thesis by (simp add: pm_mask_def take_bit_eq_mask)
qed

lemma unat_pm_modulus: "unat (pm_modulus width) = 2 ^ pm_bits width"
proof (cases width)
  case Bits32
  have "(- 1 :: u32) = 4294967295" by simp
  then have "(ucast (- 1 :: u32) :: u64) = 4294967295" by (simp only:) simp
  with Bits32 show ?thesis by (simp add: pm_modulus_def pm_mask_def)
qed (simp add: pm_modulus_def pm_mask_def push_bit_eq_mult)

lemma gap_ticks: "unat (maximum_unambiguous_gap_ticks width) = 2 ^ pm_bits width div 2"
  by (simp add: maximum_unambiguous_gap_ticks_def unat_div_distrib unat_pm_modulus)

text \<open>The difference of two readings of a counter is the elapsed time modulo its period.\<close>

lemma counter_difference:
  fixes a b :: u32
  assumes "unat a = t' mod 2 ^ k" and "unat b = t mod 2 ^ k" and "t \<le> t'" and "t' - t < 2 ^ k" and "k \<le> 32"
  shows "unat (take_bit k (a - b)) = t' - t"
proof -
  have k: "(2 ^ k :: int) dvd 2 ^ 32" using assms(5) by (rule le_imp_power_dvd)
  have ab: "uint a = int t' mod 2 ^ k" "uint b = int t mod 2 ^ k"
    using arg_cong [OF assms(1), of int] arg_cong [OF assms(2), of int] by (simp_all add: zmod_int)
  have "uint (take_bit k (a - b)) = take_bit k (uint (a - b))" by (rule unsigned_take_bit_eq)
  also have "\<dots> = (uint a - uint b) mod 2 ^ 32 mod 2 ^ k" by (simp add: uint_word_ariths take_bit_eq_mod)
  also have "\<dots> = (uint a - uint b) mod 2 ^ k" by (rule mod_mod_cancel [OF k])
  also have "\<dots> = (int t' - int t) mod 2 ^ k" by (simp add: ab mod_diff_eq)
  also have "\<dots> = int (t' - t) mod int (2 ^ k)" using assms(3) by (simp add: of_nat_diff)
  also have "\<dots> = int (t' - t)" using assms(4) by (simp only: mod_less flip: zmod_int)
  finally show ?thesis by (metis nat_int unat_eq_nat_uint)
qed

text \<open>
  The state of the clock against an ideal counter that had counted \<open>start\<close> ticks when the clock
  was created and \<open>t\<close> ticks at its last sample.
\<close>

definition clock_follows :: "pm_timer_state \<Rightarrow> nat \<Rightarrow> nat \<Rightarrow> bool" where
  "clock_follows st start t \<longleftrightarrow> start \<le> t \<and> unat (pm_extended_ticks st) = t - start \<and>
    unat (pm_last_raw st) = t mod 2 ^ pm_bits (pd_width (pm_descriptor st))"

text \<open>A reading of the counter: the bits above its width are arbitrary.\<close>

definition reads_counter :: "pm_timer_state \<Rightarrow> u32 \<Rightarrow> nat \<Rightarrow> bool" where
  "reads_counter st raw t \<longleftrightarrow> unat (raw AND pm_mask (pd_width (pm_descriptor st))) = t mod 2 ^ pm_bits (pd_width (pm_descriptor st))"

lemma ticks_to_nanoseconds_eq:
  "ticks_to_nanoseconds ticks =
    (if unat ticks * NANOS_PER_SECOND div 3579545 < 2 ^ 64 - 1 then Ok (of_nat (unat ticks * NANOS_PER_SECOND div 3579545))
     else Err NanosecondOverflow)"
proof -
  let ?n = "unat ticks * NANOS_PER_SECOND div 3579545"
  have b: "unat ticks * NANOS_PER_SECOND < 2 ^ 128" using unat_u64_less [of ticks] by simp
  have max: "unat (- 1 :: u64) = 18446744073709551615" by (simp add: unsigned_minus_1_eq_mask mask_eq_exp_minus_1)
  have "?n < 2 ^ 64 \<Longrightarrow> unat (of_nat ?n :: u64) = ?n" by (simp add: unat_of_nat take_bit_nat_eq_self)
  then have "?n < 2 ^ 64 \<Longrightarrow> (of_nat ?n :: u64) < - 1 \<longleftrightarrow> ?n < 2 ^ 64 - 1" by (simp add: word_less_nat_alt max)
  with b show ?thesis by (auto simp: ticks_to_nanoseconds_def checked_mul_u128_def u64_try_from_u128_def)
qed

definition tick_ns :: "nat \<Rightarrow> nat" where
  "tick_ns ticks = ticks * NANOS_PER_SECOND div 3579545"

lemma tick_ns_mono: "a \<le> b \<Longrightarrow> tick_ns a \<le> tick_ns b"
  by (simp add: tick_ns_def div_le_mono)

lemma tick_ns_ge: "n \<le> tick_ns n"
proof -
  have "n * 3579545 \<le> n * NANOS_PER_SECOND" by simp
  then have "n * 3579545 div 3579545 \<le> tick_ns n" unfolding tick_ns_def by (rule div_le_mono)
  then show ?thesis by simp
qed

lemma unat_small_u64: "n < 2 ^ 64 \<Longrightarrow> unat (of_nat n :: u64) = n"
  by (simp add: unat_of_nat take_bit_nat_eq_self)

lemma maintenance_arm_Ok:
  "maintenance_arm_nanoseconds d = Ok (of_nat (tick_ns (2 ^ pm_bits (pd_width d) div 4)))"
  "tick_ns (2 ^ pm_bits (pd_width d) div 4) < 2 ^ 64"
proof -
  have "unat (maintenance_arm_ticks (pd_width d)) = 2 ^ pm_bits (pd_width d) div 4"
    by (simp add: maintenance_arm_ticks_def unat_div_distrib unat_pm_modulus)
  then show "maintenance_arm_nanoseconds d = Ok (of_nat (tick_ns (2 ^ pm_bits (pd_width d) div 4)))"
    by (cases "pd_width d") (simp_all add: maintenance_arm_nanoseconds_def ticks_to_nanoseconds_eq tick_ns_def)
  show "tick_ns (2 ^ pm_bits (pd_width d) div 4) < 2 ^ 64" by (cases "pd_width d") (simp_all add: tick_ns_def)
qed

lemma checked_deadline:
  assumes "a < 2 ^ 64 - 1" and "b < 2 ^ 64"
  shows "(do { value \<leftarrow> checked_add (of_nat a :: u64) (of_nat b); if value < DW_DEADLINE_INFINITE then Some value else None }) =
    (if a + b < 2 ^ 64 - 1 then Some (of_nat (a + b)) else None)"
proof -
  have ab: "unat (of_nat a :: u64) = a" "unat (of_nat b :: u64) = b" using assms unat_small_u64 by simp_all
  have max: "unat (- 1 :: u64) = 18446744073709551615" by (simp add: unsigned_minus_1_eq_mask mask_eq_exp_minus_1)
  have "a + b < 2 ^ 64 \<Longrightarrow> (of_nat a + of_nat b :: u64) < - 1 \<longleftrightarrow> a + b < 2 ^ 64 - 1"
    using unat_small_u64 [of "a + b"] by (simp add: word_less_nat_alt max)
  then show ?thesis by (auto simp: checked_add_def ab)
qed

lemma pm_delta:
  assumes "clock_follows st start t" and "reads_counter st raw t'" and "t \<le> t'"
    and "t' - t < 2 ^ pm_bits (pd_width (pm_descriptor st))"
  shows "unat (ucast (((raw AND pm_mask (pd_width (pm_descriptor st))) - pm_last_raw st) AND pm_mask (pd_width (pm_descriptor st))) :: u64) = t' - t"
proof -
  have "pm_bits (pd_width (pm_descriptor st)) \<le> 32" by (cases "pd_width (pm_descriptor st)") simp_all
  with counter_difference [of "raw AND pm_mask (pd_width (pm_descriptor st))" t' _ "pm_last_raw st" t] assms show ?thesis
    by (simp add: pm_mask_bits clock_follows_def reads_counter_def)
qed

lemma pm_sample_follows:
  fixes st start t t' raw
  defines "w \<equiv> pd_width (pm_descriptor st)"
  assumes follows: "clock_follows st start t" and reads: "reads_counter st raw t'" and t: "t \<le> t'" "t' - t < 2 ^ pm_bits w"
  shows "if 2 ^ pm_bits w div 2 < t' - t then pm_sample st raw = (Err SampleGapTooLarge, st)
    else if tick_ns (t' - start) + tick_ns (2 ^ pm_bits w div 4) < 2 ^ 64 - 1
    then \<exists>st'. pm_sample st raw = (Ok \<lparr>ms_nanoseconds = of_nat (tick_ns (t' - start)),
        ms_maintenance_deadline = of_nat (tick_ns (t' - start) + tick_ns (2 ^ pm_bits w div 4))\<rparr>, st') \<and>
      clock_follows st' start t' \<and> pm_descriptor st' = pm_descriptor st
    else \<exists>e. pm_sample st raw = (Err e, st)"
proof -
  define delta where "delta = (ucast (((raw AND pm_mask w) - pm_last_raw st) AND pm_mask w) :: u64)"
  have delta: "unat delta = t' - t" using pm_delta [OF follows reads t(1)] t(2) by (simp add: delta_def w_def)
  have gap: "maximum_unambiguous_gap_ticks w < delta \<longleftrightarrow> 2 ^ pm_bits w div 2 < t' - t"
    by (simp add: word_less_nat_alt gap_ticks delta)
  have sum: "unat (pm_extended_ticks st) + unat delta = t' - start" using follows t(1) delta by (simp add: clock_follows_def)
  have inner: "and_then (ticks_to_nanoseconds extended) (\<lambda>ns. and_then (maintenance_arm_nanoseconds (pm_descriptor st)) (\<lambda>maintenance.
      and_then (ok_or MaintenanceOverflow (do { value \<leftarrow> checked_add ns maintenance; if value < DW_DEADLINE_INFINITE then Some value else None }))
        (\<lambda>deadline. Ok (extended, \<lparr>ms_nanoseconds = ns, ms_maintenance_deadline = deadline\<rparr>)))) =
    (if tick_ns (unat extended) + tick_ns (2 ^ pm_bits w div 4) < 2 ^ 64 - 1
     then Ok (extended, \<lparr>ms_nanoseconds = of_nat (tick_ns (unat extended)),
        ms_maintenance_deadline = of_nat (tick_ns (unat extended) + tick_ns (2 ^ pm_bits w div 4))\<rparr>)
     else if tick_ns (unat extended) < 2 ^ 64 - 1 then Err MaintenanceOverflow else Err NanosecondOverflow)" for extended
    using checked_deadline [of "tick_ns (unat extended)" "tick_ns (2 ^ pm_bits w div 4)"] maintenance_arm_Ok [of "pm_descriptor st"]
    by (auto simp: ticks_to_nanoseconds_eq w_def simp flip: tick_ns_def)
  have eq: "pm_sample st raw =
    (case (if maximum_unambiguous_gap_ticks w < delta then Err SampleGapTooLarge
       else and_then (ok_or TickOverflow (checked_add (pm_extended_ticks st) delta)) (\<lambda>extended.
         if tick_ns (unat extended) + tick_ns (2 ^ pm_bits w div 4) < 2 ^ 64 - 1
         then Ok (extended, \<lparr>ms_nanoseconds = of_nat (tick_ns (unat extended)),
           ms_maintenance_deadline = of_nat (tick_ns (unat extended) + tick_ns (2 ^ pm_bits w div 4))\<rparr>)
         else if tick_ns (unat extended) < 2 ^ 64 - 1 then Err MaintenanceOverflow else Err NanosecondOverflow)) of
       Err e \<Rightarrow> (Err e, st)
     | Ok (extended, sample) \<Rightarrow> (Ok sample, st\<lparr>pm_extended_ticks := extended, pm_last_raw := raw AND pm_mask w\<rparr>))"
    unfolding pm_sample_def Let_def w_def [symmetric] delta_def [symmetric] inner by (rule refl)
  show ?thesis
  proof (cases "t' - start < 2 ^ 64")
    case True
    then have "unat (pm_extended_ticks st) + unat delta < 2 ^ LENGTH(64)" using sum by simp
    then have add: "checked_add (pm_extended_ticks st) delta = Some (pm_extended_ticks st + delta)" by (simp only: checked_add_def if_True)
    have extended: "unat (pm_extended_ticks st + delta) = t' - start" using checked_add_unat [OF add] sum by simp
    have "clock_follows (st\<lparr>pm_extended_ticks := pm_extended_ticks st + delta, pm_last_raw := raw AND pm_mask w\<rparr>) start t'"
      using follows reads t(1) extended by (simp add: clock_follows_def reads_counter_def w_def)
    then show ?thesis by (simp add: eq gap add extended)
  next
    case False
    then have "\<not> unat (pm_extended_ticks st) + unat delta < 2 ^ LENGTH(64)" using sum by simp
    then have "checked_add (pm_extended_ticks st) delta = None" by (simp only: checked_add_def if_False)
    moreover have "\<not> tick_ns (t' - start) + tick_ns (2 ^ pm_bits w div 4) < 2 ^ 64 - 1" using False tick_ns_ge [of "t' - start"] by simp
    ultimately show ?thesis by (simp only: eq gap) simp
  qed
qed

end
