(* ===== verification/Deadline_Arbiter.thy ===== *)
theory Deadline_Arbiter
  imports Monotonic_Clock
begin

text \<open>
  Deadline sources and the generations of the hardware arm (\<^verbatim>\<open>kernel/src/time/arbiter.rs\<close>).
  A local source holds one deadline; the arm sequence numbers every intent to program the timer
  and every change of a source, so that an intent prepared before a change is recognised.
\<close>

section \<open>Local sources\<close>

record 'p logical_deadline =
  ld_generation :: u64
  ld_deadline_ns :: u64
  ld_payload :: 'p

datatype deadline_source_error = SourceInvalidGeneration | SourceInvalidDeadline | SourceGenerationRegression

record 'p local_deadline_source =
  src_armed :: "'p logical_deadline option"
  src_last_generation :: u64

definition local_deadline_source_new :: "'p local_deadline_source" where
  "local_deadline_source_new = \<lparr>src_armed = None, src_last_generation = 0\<rparr>"

definition source_earliest :: "'p local_deadline_source \<Rightarrow> u64 option" where
  "source_earliest src = map_option ld_deadline_ns (src_armed src)"

definition source_replace ::
  "'p local_deadline_source \<Rightarrow> u64 \<Rightarrow> u64 \<Rightarrow> 'p \<Rightarrow> (unit, deadline_source_error) result \<times> 'p local_deadline_source" where
  "source_replace src generation deadline_ns payload =
    (if generation = 0 then (Err SourceInvalidGeneration, src)
     else if deadline_ns = 0 \<or> deadline_ns = - 1 then (Err SourceInvalidDeadline, src)
     else if generation \<le> src_last_generation src then (Err SourceGenerationRegression, src)
     else (Ok (), \<lparr>src_armed = Some \<lparr>ld_generation = generation, ld_deadline_ns = deadline_ns, ld_payload = payload\<rparr>,
                   src_last_generation = generation\<rparr>))"

definition source_cancel :: "'p local_deadline_source \<Rightarrow> u64 \<Rightarrow> 'p \<Rightarrow> bool \<times> 'p local_deadline_source" where
  "source_cancel src generation payload =
    (case src_armed src of
       Some armed \<Rightarrow>
         if ld_generation armed = generation \<and> ld_payload armed = payload then (True, src\<lparr>src_armed := None\<rparr>) else (False, src)
     | None \<Rightarrow> (False, src))"

definition source_take_due :: "'p local_deadline_source \<Rightarrow> u64 \<Rightarrow> 'p option \<times> 'p local_deadline_source" where
  "source_take_due src now_ns =
    (case src_armed src of
       Some armed \<Rightarrow>
         if ld_deadline_ns armed \<le> now_ns then (Some (ld_payload armed), src\<lparr>src_armed := None\<rparr>) else (None, src)
     | None \<Rightarrow> (None, src))"

section \<open>The earliest deadline\<close>

fun earliest_loop :: "u64 option list \<Rightarrow> u64 \<Rightarrow> u64" where
  "earliest_loop [] earliest = earliest"
| "earliest_loop (Some deadline # rest) earliest = earliest_loop rest (if deadline < earliest then deadline else earliest)"
| "earliest_loop (None # rest) earliest = earliest_loop rest earliest"

definition earliest_deadline :: "u64 option list \<Rightarrow> u64 \<Rightarrow> u64" where
  "earliest_deadline sources maintenance_deadline = earliest_loop sources maintenance_deadline"

section \<open>The arm sequence\<close>

record hardware_arm_intent =
  ha_generation :: u64
  ha_source_revision :: u64
  ha_deadline_ns :: u64
  ha_shot :: apic_one_shot

record hardware_stop_intent =
  hs_generation :: u64
  hs_source_revision :: u64

record physical_arm_sequence =
  pa_next_generation :: u64
  pa_desired_generation :: u64
  pa_source_revision :: u64

definition physical_arm_initialized :: physical_arm_sequence where
  "physical_arm_initialized = \<lparr>pa_next_generation = 2, pa_desired_generation = 1, pa_source_revision = 1\<rparr>"

definition source_mutated :: "physical_arm_sequence \<Rightarrow> (unit, deadline_queue_error) result \<times> physical_arm_sequence" where
  "source_mutated pa =
    (case checked_next (pa_source_revision pa) of
       None \<Rightarrow> (Err DqGenerationExhausted, pa)
     | Some revision \<Rightarrow> (Ok (), pa\<lparr>pa_source_revision := revision\<rparr>))"

definition saturating_sub :: "u64 \<Rightarrow> u64 \<Rightarrow> u64" where
  "saturating_sub a b = (if b \<le> a then a - b else 0)"

definition arm_prepare ::
  "physical_arm_sequence \<Rightarrow> u64 \<Rightarrow> u64 \<Rightarrow> u64 \<Rightarrow> (hardware_arm_intent, deadline_queue_error) result \<times> physical_arm_sequence" where
  "arm_prepare pa deadline_ns now_ns timer_hz =
    (case checked_next (pa_next_generation pa) of
       None \<Rightarrow> (Err DqGenerationExhausted, pa)
     | Some n \<Rightarrow>
        (let generation = pa_next_generation pa; pa1 = pa\<lparr>pa_next_generation := n\<rparr> in
         case apic_one_shot_for_delta (saturating_sub deadline_ns now_ns) timer_hz of
           Err e \<Rightarrow> (Err e, pa1)
         | Ok shot \<Rightarrow>
            (Ok \<lparr>ha_generation = generation, ha_source_revision = pa_source_revision pa, ha_deadline_ns = deadline_ns, ha_shot = shot\<rparr>,
             pa1\<lparr>pa_desired_generation := generation\<rparr>)))"

definition arm_prepare_stop ::
  "physical_arm_sequence \<Rightarrow> (hardware_stop_intent, deadline_queue_error) result \<times> physical_arm_sequence" where
  "arm_prepare_stop pa =
    (case checked_next (pa_next_generation pa) of
       None \<Rightarrow> (Err DqGenerationExhausted, pa)
     | Some n \<Rightarrow>
        (Ok \<lparr>hs_generation = pa_next_generation pa, hs_source_revision = pa_source_revision pa\<rparr>,
         pa\<lparr>pa_next_generation := n, pa_desired_generation := pa_next_generation pa\<rparr>))"

definition arm_is_current :: "physical_arm_sequence \<Rightarrow> hardware_arm_intent \<Rightarrow> bool" where
  "arm_is_current pa intent \<longleftrightarrow>
    pa_desired_generation pa = ha_generation intent \<and> pa_source_revision pa = ha_source_revision intent"

definition arm_is_stop_current :: "physical_arm_sequence \<Rightarrow> hardware_stop_intent \<Rightarrow> bool" where
  "arm_is_stop_current pa intent \<longleftrightarrow>
    pa_desired_generation pa = hs_generation intent \<and> pa_source_revision pa = hs_source_revision intent"

lemmas arbiter_eval [eval_simps] =
  local_deadline_source_new_def source_earliest_def source_replace_def source_cancel_def source_take_due_def
  earliest_deadline_def physical_arm_initialized_def source_mutated_def saturating_sub_def arm_prepare_def arm_prepare_stop_def
  arm_is_current_def arm_is_stop_current_def

section \<open>Properties of the sources\<close>

lemma earliest_loop_least:
  "earliest_loop sources d \<le> d \<and> (\<forall>x. Some x \<in> set sources \<longrightarrow> earliest_loop sources d \<le> x) \<and>
    (earliest_loop sources d = d \<or> Some (earliest_loop sources d) \<in> set sources)"
  by (induction sources d rule: earliest_loop.induct) (auto split: if_splits)

lemma source_mutated_unat: "source_mutated pa = (Ok u, pa') \<Longrightarrow> unat (pa_source_revision pa') = unat (pa_source_revision pa) + 1 \<and>
    pa_next_generation pa' = pa_next_generation pa \<and> pa_desired_generation pa' = pa_desired_generation pa"
  by (auto simp: source_mutated_def split: option.splits dest: checked_next_unat)

lemma unat_saturating_sub: "unat (saturating_sub a b) = unat a - unat b"
  by (simp add: saturating_sub_def unat_sub word_le_nat_alt)

lemma arm_prepare_Ok:
  assumes "arm_prepare pa deadline_ns now_ns timer_hz = (Ok intent, pa')"
  shows "pa_source_revision pa' = pa_source_revision pa \<and> ha_source_revision intent = pa_source_revision pa \<and>
    ha_generation intent = pa_next_generation pa \<and> pa_desired_generation pa' = pa_next_generation pa \<and>
    unat (pa_next_generation pa') = unat (pa_next_generation pa) + 1 \<and> ha_deadline_ns intent = deadline_ns \<and>
    apic_one_shot_for_delta (saturating_sub deadline_ns now_ns) timer_hz = Ok (ha_shot intent)"
  using assms by (auto simp: arm_prepare_def Let_def split: option.splits result.splits dest: checked_next_unat)

lemma arm_prepare_revision: "arm_prepare pa deadline_ns now_ns timer_hz = (r, pa') \<Longrightarrow> pa_source_revision pa' = pa_source_revision pa"
  by (auto simp: arm_prepare_def Let_def split: option.splits result.splits)

end
