(* ===== verification/Live_Time.thy ===== *)
theory Live_Time
  imports Deadline_Arbiter Wait_Registry
begin

text \<open>
  The time service (\<^verbatim>\<open>kernel/src/time/live.rs\<close>): the deadlines of blocked threads, the deadlines
  of timers and the scheduler quantum share one hardware one-shot on the boot processor; every
  other processor has a private one for its quantum. The reading of the clock, the outcome of
  programming the hardware and what other processors do while the lock is released are arguments.
\<close>

section \<open>Data\<close>

record scheduler_quantum_ticket =
  qt_domain :: u64
  qt_cpu :: u8
  qt_thread :: thread_key
  qt_execution_generation :: u64
  qt_source_arm_generation :: u64
  qt_deadline_ns :: u64

record timer_expiry_token =
  te_domain :: u64
  te_object :: object_id
  te_generation :: u32

datatype live_time_error =
  LtAlreadyInitialized | LtAcpiTimerDidNotAdvance | LtApicDiscovery | LtApicMode | LtApicMapping | LtApicAccess |
  LtCpuIdentity | LtCalibration | LtClock | LtDeadline | LtNoWakeRuntime | LtIpiTransport | LtFaulted

datatype timer_deadline_error = TdExpired | TdCapacity | TdFault

record deadline_registration_failure =
  rf_error :: live_time_error
  rf_wake :: block_wake_key

definition registration_failure :: "live_time_error \<Rightarrow> block_wake_key \<Rightarrow> deadline_registration_failure" where
  "registration_failure error wake = \<lparr>rf_error = error, rf_wake = wake\<rparr>"

abbreviation (input) BOOTSTRAP :: u8 where "BOOTSTRAP \<equiv> 0"
abbreviation (input) DEADLINE_QUEUE_CAPACITY :: nat where "DEADLINE_QUEUE_CAPACITY \<equiv> 64"

record live_time_state =
  lt_apic_timer_hz :: u64
  lt_deadlines :: "block_wake_key deadline_queue"
  lt_timer_deadlines :: "timer_expiry_token deadline_queue"
  lt_scheduler_quantum :: "scheduler_quantum_ticket local_deadline_source"
  lt_hardware_arms :: physical_arm_sequence

record interrupt_outcome =
  io_wakes :: "block_wake_key option list"
  io_wake_count :: nat
  io_timer_expiries :: "timer_expiry_token option list"
  io_timer_expiry_count :: nat
  io_scheduler_quantum :: "scheduler_quantum_ticket option"

type_synonym clock_sample = "(monotonic_sample, live_time_error) result"

section \<open>The clock\<close>

record live_clock_state =
  lc_pm :: pm_timer_state
  lc_last_sample :: monotonic_sample

definition sample_now :: "live_clock_state \<Rightarrow> u32 \<Rightarrow> clock_sample \<times> live_clock_state" where
  "sample_now clock raw =
    (case pm_sample (lc_pm clock) raw of
       (Err _, pm) \<Rightarrow> (Err LtClock, clock\<lparr>lc_pm := pm\<rparr>)
     | (Ok sample, pm) \<Rightarrow> (Ok sample, clock\<lparr>lc_pm := pm, lc_last_sample := sample\<rparr>))"

section \<open>The state of the boot processor\<close>

definition record_source_mutation :: "live_time_state \<Rightarrow> live_time_state option" where
  "record_source_mutation st =
    (case source_mutated (lt_hardware_arms st) of
       (Err _, _) \<Rightarrow> None
     | (Ok _, pa) \<Rightarrow> Some (st\<lparr>lt_hardware_arms := pa\<rparr>))"

definition next_deadline :: "live_time_state \<Rightarrow> monotonic_sample \<Rightarrow> u64" where
  "next_deadline st sample =
    earliest_deadline [dq_earliest (lt_deadlines st), dq_earliest (lt_timer_deadlines st), source_earliest (lt_scheduler_quantum st)]
      (ms_maintenance_deadline sample)"

definition prepare_hardware_arm ::
  "live_time_state \<Rightarrow> monotonic_sample \<Rightarrow> (hardware_arm_intent, live_time_error) result \<times> live_time_state" where
  "prepare_hardware_arm st sample =
    (case arm_prepare (lt_hardware_arms st) (next_deadline st sample) (ms_nanoseconds sample) (lt_apic_timer_hz st) of
       (r, pa) \<Rightarrow> (map_err (\<lambda>_. LtDeadline) r, st\<lparr>lt_hardware_arms := pa\<rparr>))"

definition mutated_if :: "bool \<Rightarrow> live_time_state \<Rightarrow> live_time_state option" where
  "mutated_if b st = (if b then record_source_mutation st else Some st)"

definition live_interrupt ::
  "live_time_state \<Rightarrow> clock_sample \<Rightarrow> ((interrupt_outcome, live_time_error) result \<times> live_time_state) option" where
  "live_interrupt st clock =
    (case clock of
       Err e \<Rightarrow> Some (Err e, st)
     | Ok sample \<Rightarrow>
        do { (wake_count, wakes, deadlines) \<leftarrow> dq_expire (lt_deadlines st) (ms_nanoseconds sample);
             (expiry_count, expiries, timer_deadlines) \<leftarrow> dq_expire (lt_timer_deadlines st) (ms_nanoseconds sample);
             let (quantum, source) = source_take_due (lt_scheduler_quantum st) (ms_nanoseconds sample);
             st' \<leftarrow> mutated_if (wake_count \<noteq> 0 \<or> expiry_count \<noteq> 0 \<or> quantum \<noteq> None)
               (st\<lparr>lt_deadlines := deadlines, lt_timer_deadlines := timer_deadlines, lt_scheduler_quantum := source\<rparr>);
             Some (Ok \<lparr>io_wakes = wakes, io_wake_count = wake_count, io_timer_expiries = expiries,
               io_timer_expiry_count = expiry_count, io_scheduler_quantum = quantum\<rparr>, st') })"

definition live_register_deadline ::
  "live_time_state \<Rightarrow> clock_sample \<Rightarrow> u64 \<Rightarrow> block_wake_key \<Rightarrow>
   ((deadline_registration, deadline_registration_failure) result \<times> live_time_state) option" where
  "live_register_deadline st clock deadline_ns wake =
    (case clock of
       Err e \<Rightarrow> Some (Err (registration_failure e wake), st)
     | Ok sample \<Rightarrow>
        if deadline_ns \<le> ms_nanoseconds sample then Some (Err (registration_failure LtDeadline wake), st)
        else (case dq_register (lt_deadlines st) deadline_ns wake of
           (Err _, deadlines) \<Rightarrow> Some (Err (registration_failure LtDeadline wake), st\<lparr>lt_deadlines := deadlines\<rparr>)
         | (Ok registration, deadlines) \<Rightarrow>
            do { st' \<leftarrow> record_source_mutation (st\<lparr>lt_deadlines := deadlines\<rparr>); Some (Ok registration, st') }))"

definition live_cancel_deadline ::
  "live_time_state \<Rightarrow> clock_sample \<Rightarrow> deadline_registration \<Rightarrow> ((unit, live_time_error) result \<times> live_time_state) option" where
  "live_cancel_deadline st clock registration =
    (case clock of
       Err e \<Rightarrow> Some (Err e, st)
     | Ok _ \<Rightarrow>
        (case cancel_if_live (lt_deadlines st) registration of
           (Err _, deadlines) \<Rightarrow> Some (Err LtDeadline, st\<lparr>lt_deadlines := deadlines\<rparr>)
         | (Ok cancelled, deadlines) \<Rightarrow>
            do { st' \<leftarrow> mutated_if (cancelled \<noteq> None) (st\<lparr>lt_deadlines := deadlines\<rparr>); Some (Ok (), st') }))"

definition map_timer_queue_error :: "deadline_queue_error \<Rightarrow> timer_deadline_error" where
  "map_timer_queue_error e = (case e of DqCapacity \<Rightarrow> TdCapacity | DqGenerationExhausted \<Rightarrow> TdCapacity | _ \<Rightarrow> TdFault)"

text \<open>Registering the new deadline, in the slot of the old one while that is live.\<close>

definition replace_or_register ::
  "timer_expiry_token deadline_queue \<Rightarrow> deadline_registration option \<Rightarrow> u64 \<Rightarrow> timer_expiry_token \<Rightarrow>
   (deadline_registration, deadline_queue_error) result \<times> timer_expiry_token deadline_queue" where
  "replace_or_register q old deadline_ns token =
    (case old of
       Some old \<Rightarrow>
         (case replace_if_live q old deadline_ns token of
            (Err e, q1) \<Rightarrow> (Err e, q1)
          | (Ok (Some registration), q1) \<Rightarrow> (Ok registration, q1)
          | (Ok None, q1) \<Rightarrow> dq_register q1 deadline_ns token)
     | None \<Rightarrow> dq_register q deadline_ns token)"

definition live_replace_timer_deadline ::
  "live_time_state \<Rightarrow> clock_sample \<Rightarrow> deadline_registration option \<Rightarrow> u64 \<Rightarrow> timer_expiry_token \<Rightarrow>
   ((deadline_registration option, timer_deadline_error) result \<times> live_time_state) option" where
  "live_replace_timer_deadline st clock old deadline_ns token =
    (case clock of
       Err _ \<Rightarrow> Some (Err TdFault, st)
     | Ok sample \<Rightarrow>
        if deadline_ns \<le> ms_nanoseconds sample
        then (case old of
            None \<Rightarrow> Some (Ok None, st)
          | Some old \<Rightarrow>
             (case cancel_if_live_ref (lt_timer_deadlines st) old of
                (Err _, q) \<Rightarrow> Some (Err TdFault, st\<lparr>lt_timer_deadlines := q\<rparr>)
              | (Ok cancelled, q) \<Rightarrow>
                 do { st' \<leftarrow> mutated_if (cancelled \<noteq> None) (st\<lparr>lt_timer_deadlines := q\<rparr>); Some (Ok None, st') }))
        else (case replace_or_register (lt_timer_deadlines st) old deadline_ns token of
            (Err e, q) \<Rightarrow> Some (Err (map_timer_queue_error e), st\<lparr>lt_timer_deadlines := q\<rparr>)
          | (Ok registration, q) \<Rightarrow>
             do { st' \<leftarrow> record_source_mutation (st\<lparr>lt_timer_deadlines := q\<rparr>); Some (Ok (Some registration), st') }))"

definition live_cancel_timer_deadline ::
  "live_time_state \<Rightarrow> clock_sample \<Rightarrow> deadline_registration \<Rightarrow> ((unit, timer_deadline_error) result \<times> live_time_state) option" where
  "live_cancel_timer_deadline st clock registration =
    (case clock of
       Err _ \<Rightarrow> Some (Err TdFault, st)
     | Ok _ \<Rightarrow>
        (case cancel_if_live_ref (lt_timer_deadlines st) registration of
           (Err _, q) \<Rightarrow> Some (Err TdFault, st\<lparr>lt_timer_deadlines := q\<rparr>)
         | (Ok cancelled, q) \<Rightarrow>
            do { st' \<leftarrow> mutated_if (cancelled \<noteq> None) (st\<lparr>lt_timer_deadlines := q\<rparr>); Some (Ok (), st') }))"

definition live_arm_scheduler_quantum ::
  "live_time_state \<Rightarrow> clock_sample \<Rightarrow> scheduler_quantum_ticket \<Rightarrow>
   ((scheduler_quantum_ticket option, live_time_error) result \<times> live_time_state) option" where
  "live_arm_scheduler_quantum st clock ticket =
    (if qt_cpu ticket \<noteq> BOOTSTRAP \<or> qt_source_arm_generation ticket = 0 \<or> qt_execution_generation ticket = 0
     then Some (Err LtDeadline, st)
     else (case clock of
        Err e \<Rightarrow> Some (Err e, st)
      | Ok sample \<Rightarrow>
         (case source_replace (lt_scheduler_quantum st) (qt_source_arm_generation ticket) (qt_deadline_ns ticket) ticket of
            (Err _, source) \<Rightarrow> Some (Err LtDeadline, st\<lparr>lt_scheduler_quantum := source\<rparr>)
          | (Ok _, source) \<Rightarrow>
             do { st1 \<leftarrow> record_source_mutation (st\<lparr>lt_scheduler_quantum := source\<rparr>);
                  let (due, source') = source_take_due (lt_scheduler_quantum st1) (ms_nanoseconds sample);
                  st2 \<leftarrow> mutated_if (due \<noteq> None) (st1\<lparr>lt_scheduler_quantum := source'\<rparr>);
                  Some (Ok due, st2) })))"

definition live_cancel_scheduler_quantum ::
  "live_time_state \<Rightarrow> scheduler_quantum_ticket \<Rightarrow> ((bool, live_time_error) result \<times> live_time_state) option" where
  "live_cancel_scheduler_quantum st ticket =
    (let (cancelled, source) = source_cancel (lt_scheduler_quantum st) (qt_source_arm_generation ticket) ticket in
     do { st' \<leftarrow> mutated_if cancelled (st\<lparr>lt_scheduler_quantum := source\<rparr>); Some (Ok cancelled, st') })"

definition take_due_scheduler_quantum ::
  "live_time_state \<Rightarrow> clock_sample \<Rightarrow> ((scheduler_quantum_ticket option, live_time_error) result \<times> live_time_state) option" where
  "take_due_scheduler_quantum st clock =
    (case clock of
       Err e \<Rightarrow> Some (Err e, st)
     | Ok sample \<Rightarrow>
        (let (due, source) = source_take_due (lt_scheduler_quantum st) (ms_nanoseconds sample) in
         do { st' \<leftarrow> mutated_if (due \<noteq> None) (st\<lparr>lt_scheduler_quantum := source\<rparr>); Some (Ok due, st') }))"

section \<open>Programming the hardware\<close>

text \<open>
  One round of \<open>reconcile_bsp_hardware_arm\<close>: the clock, what other processors do to the state before
  its lock is taken, what they do after it is released, and the result of programming the local APIC.
\<close>

record reconcile_round =
  rr_clock :: clock_sample
  rr_before :: "live_time_state \<Rightarrow> live_time_state"
  rr_after :: "live_time_state \<Rightarrow> live_time_state"
  rr_program :: "(unit, live_time_error) result"

text \<open>The last component of the result is the last intent that was programmed.\<close>

fun reconcile_rounds ::
  "nat \<Rightarrow> (nat \<Rightarrow> reconcile_round) \<Rightarrow> live_time_state \<Rightarrow> hardware_arm_intent option \<Rightarrow>
   (unit, live_time_error) result \<times> live_time_state \<times> hardware_arm_intent option" where
  "reconcile_rounds 0 env st programmed = (Err LtFaulted, st, programmed)"
| "reconcile_rounds (Suc rounds) env st programmed =
    (case rr_clock (env rounds) of
       Err e \<Rightarrow> (Err e, st, programmed)
     | Ok sample \<Rightarrow>
        (case prepare_hardware_arm (rr_before (env rounds) st) sample of
           (Err e, st1) \<Rightarrow> (Err e, st1, programmed)
         | (Ok intent, st1) \<Rightarrow>
            (let st2 = rr_after (env rounds) st1 in
             case rr_program (env rounds) of
               Err e \<Rightarrow> (Err e, st2, programmed)
             | Ok _ \<Rightarrow>
                if arm_is_current (lt_hardware_arms st2) intent then (Ok (), st2, Some intent)
                else reconcile_rounds rounds env st2 (Some intent))))"

text \<open>
  What a call reads from its surroundings: the processor it runs on, the clock under the state's lock,
  the rounds of the reconciliation, whether the wake or expiry target is bound, whether the boot
  processor's local APIC is online and whether the interrupt to it was sent.
\<close>

record live_env =
  le_cpu :: "(u8, live_time_error) result"
  le_clock :: clock_sample
  le_rounds :: "nat \<Rightarrow> reconcile_round"
  le_bound :: bool
  le_bsp_online :: bool
  le_ipi_sent :: bool

type_synonym hardware_outcome = "(unit, live_time_error) result \<times> live_time_state \<times> hardware_arm_intent option"

definition reconcile_bsp_hardware_arm :: "live_env \<Rightarrow> live_time_state \<Rightarrow> hardware_outcome" where
  "reconcile_bsp_hardware_arm env st =
    (case le_cpu env of
       Err e \<Rightarrow> (Err e, st, None)
     | Ok cpu \<Rightarrow> if cpu \<noteq> BOOTSTRAP then (Err LtCpuIdentity, st, None) else reconcile_rounds 8 (le_rounds env) st None)"

definition service_bsp_timer_request :: "live_env \<Rightarrow> timer_service_signal \<Rightarrow> live_time_state \<Rightarrow> hardware_outcome" where
  "service_bsp_timer_request env svc st =
    (case service_ensure_healthy svc of
       Err _ \<Rightarrow> (Err LtFaulted, st, None)
     | Ok _ \<Rightarrow> (case le_cpu env of
         Err e \<Rightarrow> (Err e, st, None)
       | Ok cpu \<Rightarrow> if cpu \<noteq> BOOTSTRAP then (Err LtCpuIdentity, st, None) else reconcile_bsp_hardware_arm env st))"

definition request_bsp_timer_service ::
  "live_env \<Rightarrow> timer_service_signal \<Rightarrow> live_time_state \<Rightarrow> (unit, live_time_error) result \<times> timer_service_signal \<times> live_time_state" where
  "request_bsp_timer_service env svc st =
    (case service_ensure_healthy svc of
       Err _ \<Rightarrow> (Err LtFaulted, svc, st)
     | Ok _ \<Rightarrow> (case le_cpu env of
         Err e \<Rightarrow> (Err e, service_fail_transport svc, st)
       | Ok cpu \<Rightarrow>
          if cpu = BOOTSTRAP then (case service_bsp_timer_request env svc st of (r, st', _) \<Rightarrow> (r, svc, st'))
          else if \<not> le_bsp_online env then (Err LtApicAccess, service_fail_transport svc, st)
          else (case service_publish svc of
             (Err _, svc1) \<Rightarrow> (Err LtFaulted, svc1, st)
           | (Ok _, svc1) \<Rightarrow>
              if \<not> le_ipi_sent env then (Err LtIpiTransport, service_fail_transport svc1, st) else (Ok (), svc1, st))))"

text \<open>After a change of the sources: the boot processor reprograms its timer, another one asks it to.\<close>

definition reach_hardware ::
  "live_env \<Rightarrow> timer_service_signal \<Rightarrow> live_time_state \<Rightarrow> (unit, live_time_error) result \<times> timer_service_signal \<times> live_time_state" where
  "reach_hardware env svc st =
    (if le_cpu env = Ok BOOTSTRAP then (case reconcile_bsp_hardware_arm env st of (r, st', _) \<Rightarrow> (r, svc, st'))
     else request_bsp_timer_service env svc st)"

section \<open>The calls\<close>

text \<open>The recovery of \<open>register_deadline\<close>: the wake key comes back out of the queue.\<close>

definition recover_deadline ::
  "live_time_state \<Rightarrow> deadline_registration \<Rightarrow> (block_wake_key \<times> live_time_state) option" where
  "recover_deadline st registration =
    (case dq_cancel (lt_deadlines st) registration of
       (Err _, _) \<Rightarrow> None
     | (Ok recovered, q) \<Rightarrow> do { st' \<leftarrow> record_source_mutation (st\<lparr>lt_deadlines := q\<rparr>); Some (recovered, st') })"

definition register_deadline ::
  "live_env \<Rightarrow> timer_service_signal \<Rightarrow> live_time_state \<Rightarrow> u64 \<Rightarrow> block_wake_key \<Rightarrow>
   ((deadline_registration, deadline_registration_failure) result \<times> timer_service_signal \<times> live_time_state) option" where
  "register_deadline env svc st deadline_ns wake =
    (case service_ensure_healthy svc of
       Err _ \<Rightarrow> Some (Err (registration_failure LtFaulted wake), svc, st)
     | Ok _ \<Rightarrow>
        if \<not> le_bound env then Some (Err (registration_failure LtNoWakeRuntime wake), svc, st)
        else (case le_cpu env of
          Err e \<Rightarrow> Some (Err (registration_failure e wake), svc, st)
        | Ok cpu \<Rightarrow>
           do { (r, st1) \<leftarrow> live_register_deadline st (le_clock env) deadline_ns wake;
                case r of
                  Err failure \<Rightarrow> Some (Err failure, svc, st1)
                | Ok registration \<Rightarrow>
                   (case reach_hardware env svc st1 of
                      (Ok _, svc1, st2) \<Rightarrow> Some (Ok registration, svc1, st2)
                    | (Err _, svc1, st2) \<Rightarrow>
                       do { (recovered, st3) \<leftarrow> recover_deadline st2 registration;
                            Some (Err (registration_failure (if cpu = BOOTSTRAP then LtApicAccess else LtIpiTransport) recovered),
                              svc1, st3) }) }))"

definition cancel_deadline ::
  "live_env \<Rightarrow> timer_service_signal \<Rightarrow> live_time_state \<Rightarrow> deadline_registration \<Rightarrow>
   ((unit, live_time_error) result \<times> timer_service_signal \<times> live_time_state) option" where
  "cancel_deadline env svc st registration =
    (case service_ensure_healthy svc of
       Err _ \<Rightarrow> Some (Err LtFaulted, svc, st)
     | Ok _ \<Rightarrow> (case le_cpu env of
         Err e \<Rightarrow> Some (Err e, svc, st)
       | Ok _ \<Rightarrow>
          do { (r, st1) \<leftarrow> live_cancel_deadline st (le_clock env) registration;
               case r of Err e \<Rightarrow> Some (Err e, svc, st1) | Ok _ \<Rightarrow> Some (reach_hardware env svc st1) }))"

text \<open>
  The two calls of \<open>LiveTimerDeadlineAuthority\<close>. On the boot processor a failure to reach the hardware
  is returned; elsewhere the processor halts, which is \<^const>\<open>None\<close>.
\<close>

definition timer_change_reaches ::
  "live_env \<Rightarrow> timer_service_signal \<Rightarrow> live_time_state \<Rightarrow> 'r \<Rightarrow>
   (('r, timer_deadline_error) result \<times> timer_service_signal \<times> live_time_state) option" where
  "timer_change_reaches env svc st r =
    (case reach_hardware env svc st of
       (Ok _, svc1, st1) \<Rightarrow> Some (Ok r, svc1, st1)
     | (Err _, svc1, st1) \<Rightarrow> if le_cpu env = Ok BOOTSTRAP then Some (Err TdFault, svc1, st1) else None)"

definition authority_replace_timer_deadline ::
  "live_env \<Rightarrow> timer_service_signal \<Rightarrow> live_time_state \<Rightarrow> deadline_registration option \<Rightarrow> u64 \<Rightarrow> timer_expiry_token \<Rightarrow>
   ((deadline_registration option, timer_deadline_error) result \<times> timer_service_signal \<times> live_time_state) option" where
  "authority_replace_timer_deadline env svc st old deadline_ns token =
    (case service_ensure_healthy svc of
       Err _ \<Rightarrow> Some (Err TdFault, svc, st)
     | Ok _ \<Rightarrow>
        if \<not> le_bound env then Some (Err TdFault, svc, st)
        else (case le_cpu env of
          Err _ \<Rightarrow> Some (Err TdFault, svc, st)
        | Ok _ \<Rightarrow>
           do { (r, st1) \<leftarrow> live_replace_timer_deadline st (le_clock env) old deadline_ns token;
                case r of Err e \<Rightarrow> Some (Err e, svc, st1) | Ok registration \<Rightarrow> timer_change_reaches env svc st1 registration }))"

definition authority_cancel_timer_deadline ::
  "live_env \<Rightarrow> timer_service_signal \<Rightarrow> live_time_state \<Rightarrow> deadline_registration \<Rightarrow>
   ((unit, timer_deadline_error) result \<times> timer_service_signal \<times> live_time_state) option" where
  "authority_cancel_timer_deadline env svc st registration =
    (case service_ensure_healthy svc of
       Err _ \<Rightarrow> Some (Err TdFault, svc, st)
     | Ok _ \<Rightarrow> (case le_cpu env of
         Err _ \<Rightarrow> Some (Err TdFault, svc, st)
       | Ok _ \<Rightarrow>
          do { (r, st1) \<leftarrow> live_cancel_timer_deadline st (le_clock env) registration;
               case r of Err e \<Rightarrow> Some (Err e, svc, st1) | Ok _ \<Rightarrow> timer_change_reaches env svc st1 () }))"

fun busy_wait_loop :: "nat \<Rightarrow> (nat \<Rightarrow> u32) \<Rightarrow> live_clock_state \<Rightarrow> u64 \<Rightarrow> (unit, live_time_error) result \<times> live_clock_state" where
  "busy_wait_loop 0 raws clock target = (Err LtClock, clock)"
| "busy_wait_loop (Suc n) raws clock target =
    (case sample_now clock (raws n) of
       (Err e, clock') \<Rightarrow> (Err e, clock')
     | (Ok sample, clock') \<Rightarrow>
        if target \<le> ms_nanoseconds sample then (Ok (), clock') else busy_wait_loop n raws clock' target)"

text \<open>The readings of the counter are \<open>raws\<close>, the first of them at index 20000000.\<close>

definition busy_wait_nanoseconds ::
  "timer_service_signal \<Rightarrow> (nat \<Rightarrow> u32) \<Rightarrow> live_clock_state \<Rightarrow> u64 \<Rightarrow> (unit, live_time_error) result \<times> live_clock_state" where
  "busy_wait_nanoseconds svc raws clock delay =
    (case service_ensure_healthy svc of
       Err _ \<Rightarrow> (Err LtFaulted, clock)
     | Ok _ \<Rightarrow> (case sample_now clock (raws 20000000) of
         (Err e, clock1) \<Rightarrow> (Err e, clock1)
       | (Ok start, clock1) \<Rightarrow> (case checked_add (ms_nanoseconds start) delay of
           None \<Rightarrow> (Err LtClock, clock1)
         | Some target \<Rightarrow> busy_wait_loop 20000000 raws clock1 target)))"

lemmas live_eval [eval_simps] =
  registration_failure_def sample_now_def record_source_mutation_def next_deadline_def prepare_hardware_arm_def mutated_if_def
  live_interrupt_def live_register_deadline_def live_cancel_deadline_def map_timer_queue_error_def replace_or_register_def
  live_replace_timer_deadline_def live_cancel_timer_deadline_def live_arm_scheduler_quantum_def live_cancel_scheduler_quantum_def
  take_due_scheduler_quantum_def reconcile_bsp_hardware_arm_def service_bsp_timer_request_def request_bsp_timer_service_def
  reach_hardware_def recover_deadline_def register_deadline_def cancel_deadline_def timer_change_reaches_def
  authority_replace_timer_deadline_def authority_cancel_timer_deadline_def

section \<open>Every change of a deadline changes the revision\<close>

definition time_progress :: "live_time_state \<Rightarrow> live_time_state \<Rightarrow> bool" where
  "time_progress st st' \<longleftrightarrow> lt_apic_timer_hz st' = lt_apic_timer_hz st \<and>
    (let r = unat (pa_source_revision (lt_hardware_arms st)); r' = unat (pa_source_revision (lt_hardware_arms st')) in
     r < r' \<or> r = r' \<and> next_deadline st' = next_deadline st)"

lemma time_progress_refl [simp]: "time_progress st st"
  by (simp add: time_progress_def)

lemma time_progress_trans: "time_progress st st' \<Longrightarrow> time_progress st' st'' \<Longrightarrow> time_progress st st''"
  by (auto simp: time_progress_def Let_def)

lemma record_source_mutation_Some:
  "record_source_mutation st = Some st' \<Longrightarrow>
    lt_apic_timer_hz st' = lt_apic_timer_hz st \<and> lt_deadlines st' = lt_deadlines st \<and> lt_timer_deadlines st' = lt_timer_deadlines st \<and>
    lt_scheduler_quantum st' = lt_scheduler_quantum st \<and>
    unat (pa_source_revision (lt_hardware_arms st')) = unat (pa_source_revision (lt_hardware_arms st)) + 1"
  by (auto simp: record_source_mutation_def split: prod.splits result.splits dest: source_mutated_unat)

lemma record_source_mutation_progress:
  "record_source_mutation st1 = Some st' \<Longrightarrow> lt_hardware_arms st1 = lt_hardware_arms st \<Longrightarrow> lt_apic_timer_hz st1 = lt_apic_timer_hz st \<Longrightarrow>
    time_progress st st'"
  by (auto simp: time_progress_def dest: record_source_mutation_Some)

lemma mutated_if_progress:
  assumes "mutated_if b st1 = Some st'" and "lt_hardware_arms st1 = lt_hardware_arms st" and "lt_apic_timer_hz st1 = lt_apic_timer_hz st"
    and "\<not> b \<Longrightarrow> next_deadline st1 = next_deadline st"
  shows "time_progress st st'"
  using assms by (auto simp: mutated_if_def time_progress_def dest: record_source_mutation_Some split: if_splits)

lemma next_deadline_cong:
  "dq_earliest (lt_deadlines st') = dq_earliest (lt_deadlines st) \<Longrightarrow> dq_earliest (lt_timer_deadlines st') = dq_earliest (lt_timer_deadlines st) \<Longrightarrow>
    source_earliest (lt_scheduler_quantum st') = source_earliest (lt_scheduler_quantum st) \<Longrightarrow> next_deadline st' = next_deadline st"
  by (simp add: next_deadline_def fun_eq_iff)

lemma cancel_if_live_ref_None:
  assumes "cancel_if_live_ref q r = (x, q')" and "\<forall>p. x \<noteq> Ok (Some p)"
  shows "q' = q"
proof -
  have id: "slots[i := (slots ! i)\<lparr>ds_entry := None\<rparr>] = slots" if "ds_entry (slots ! i) = None" for i and slots :: "'a deadline_slot list"
  proof -
    have "(slots ! i)\<lparr>ds_entry := None\<rparr> = slots ! i" using that by (cases "slots ! i") simp
    then show ?thesis by simp
  qed
  have "map_option de_payload y \<noteq> Some p \<Longrightarrow> y = Some z \<Longrightarrow> de_payload z \<noteq> p" for y and z :: "'a deadline_entry" and p by simp
  then show ?thesis
    using assms id [of "dq_slots q" "unat (dr_slot r)"]
    by (cases "ds_entry (dq_slots q ! unat (dr_slot r))")
      (auto simp: cancel_if_live_ref_def slice_get_def split: option.splits if_splits)
qed

lemma source_take_due_None: "source_take_due src now = (None, src') \<Longrightarrow> src' = src"
  by (auto simp: source_take_due_def split: option.splits if_splits)

lemma source_cancel_False: "source_cancel src g p = (False, src') \<Longrightarrow> src' = src"
  by (auto simp: source_cancel_def split: option.splits if_splits)

lemma source_replace_Err: "source_replace src g d p = (Err e, src') \<Longrightarrow> src' = src"
  by (auto simp: source_replace_def split: if_splits)

lemma dq_expire_zero:
  assumes "dq_expire q now = Some (0, out, q')"
  shows "dq_earliest q' = dq_earliest q"
proof -
  obtain q1 where q1: "dq_expire q now = Some (length (filter (entry_due now) (dq_entries q)),
      map Some (map de_payload (filter (entry_due now) (dq_entries q))) @
        replicate (length (dq_slots q) - length (filter (entry_due now) (dq_entries q))) None, q1)"
    and e: "dq_entries q1 = filter (\<lambda>e. \<not> entry_due now e) (dq_entries q)"
    using dq_expire_spec by metis
  have q: "q1 = q'" and z: "filter (entry_due now) (dq_entries q) = []" using q1 assms by auto
  have "filter (\<lambda>e. \<not> entry_due now e) (dq_entries q) = dq_entries q"
    using z by (auto simp: filter_empty_conv filter_id_conv)
  then show ?thesis using e q by (simp add: dq_earliest_Min)
qed

lemma live_interrupt_progress:
  assumes "live_interrupt st clock = Some (r, st')"
  shows "time_progress st st'"
proof (cases clock)
  case (Err e)
  then show ?thesis using assms by (simp add: live_interrupt_def)
next
  case (Ok sample)
  obtain n1 o1 q1 n2 o2 q2 quantum source where
    e1: "dq_expire (lt_deadlines st) (ms_nanoseconds sample) = Some (n1, o1, q1)"
    and e2: "dq_expire (lt_timer_deadlines st) (ms_nanoseconds sample) = Some (n2, o2, q2)"
    and e3: "source_take_due (lt_scheduler_quantum st) (ms_nanoseconds sample) = (quantum, source)"
    using dq_expire_spec by (metis surj_pair)
  have m: "mutated_if (n1 \<noteq> 0 \<or> n2 \<noteq> 0 \<or> quantum \<noteq> None)
      (st\<lparr>lt_deadlines := q1, lt_timer_deadlines := q2, lt_scheduler_quantum := source\<rparr>) = Some st'"
    using assms Ok by (auto simp: live_interrupt_def e1 e2 e3 split: Option.bind_splits)
  show ?thesis
    by (rule mutated_if_progress [OF m])
      (use e1 e2 e3 in \<open>auto intro!: next_deadline_cong dest: dq_expire_zero source_take_due_None\<close>)
qed


lemma live_register_deadline_progress:
  "live_register_deadline st clock d wake = Some (r, st') \<Longrightarrow> time_progress st st'"
  by (auto simp: live_register_deadline_def split: result.splits if_splits prod.splits Option.bind_splits
      dest: dq_register_Err intro: record_source_mutation_progress)

lemma live_cancel_deadline_progress:
  assumes "live_cancel_deadline st clock r = Some (x, st')"
  shows "time_progress st st'"
proof (cases clock)
  case (Ok sample)
  obtain y q where q: "cancel_if_live_ref (lt_deadlines st) r = (y, q)" by fastforce
  show ?thesis
    using assms Ok q by (cases y) (auto simp: live_cancel_deadline_def cancel_if_live_def split: Option.bind_splits
      dest: cancel_if_live_ref_None intro!: next_deadline_cong elim!: mutated_if_progress)
qed (use assms in \<open>simp add: live_cancel_deadline_def\<close>)

lemma live_cancel_timer_deadline_progress:
  assumes "live_cancel_timer_deadline st clock r = Some (x, st')"
  shows "time_progress st st'"
proof (cases clock)
  case (Ok sample)
  obtain y q where q: "cancel_if_live_ref (lt_timer_deadlines st) r = (y, q)" by fastforce
  show ?thesis
    using assms Ok q by (cases y) (auto simp: live_cancel_timer_deadline_def split: Option.bind_splits
      dest: cancel_if_live_ref_None intro!: next_deadline_cong elim!: mutated_if_progress)
qed (use assms in \<open>simp add: live_cancel_timer_deadline_def\<close>)

lemma replace_or_register_Err: "replace_or_register q old d token = (Err e, q') \<Longrightarrow> q' = q"
  by (auto simp: replace_or_register_def split: option.splits prod.splits result.splits
      dest!: dq_register_Err replace_if_live_cases)

lemma live_replace_timer_deadline_progress:
  assumes "live_replace_timer_deadline st clock old d token = Some (x, st')"
  shows "time_progress st st'"
proof (cases clock)
  case (Ok sample)
  show ?thesis
  proof (cases "d \<le> ms_nanoseconds sample")
    case True
    then show ?thesis
    proof (cases old)
      case (Some r)
      obtain y q where q: "cancel_if_live_ref (lt_timer_deadlines st) r = (y, q)" by fastforce
      show ?thesis
        using assms Ok True Some q by (cases y) (auto simp: live_replace_timer_deadline_def split: Option.bind_splits
          dest: cancel_if_live_ref_None intro!: next_deadline_cong elim!: mutated_if_progress)
    qed (use assms Ok True in \<open>simp add: live_replace_timer_deadline_def\<close>)
  next
    case False
    then show ?thesis
      using assms Ok by (auto simp: live_replace_timer_deadline_def split: prod.splits result.splits Option.bind_splits
        dest!: replace_or_register_Err intro: record_source_mutation_progress)
  qed
qed (use assms in \<open>simp add: live_replace_timer_deadline_def\<close>)

lemma take_due_progress:
  assumes "source_take_due (lt_scheduler_quantum st) now = (due, source)"
    and "mutated_if (due \<noteq> None) (st\<lparr>lt_scheduler_quantum := source\<rparr>) = Some st'"
  shows "time_progress st st'"
  by (rule mutated_if_progress [OF assms(2)]) (use assms(1) in \<open>auto dest!: source_take_due_None\<close>)

lemma take_due_scheduler_quantum_progress:
  "take_due_scheduler_quantum st clock = Some (r, st') \<Longrightarrow> time_progress st st'"
  by (auto simp: take_due_scheduler_quantum_def split: result.splits prod.splits Option.bind_splits elim: take_due_progress)

lemma live_cancel_scheduler_quantum_progress:
  "live_cancel_scheduler_quantum st ticket = Some (r, st') \<Longrightarrow> time_progress st st'"
  by (auto simp: live_cancel_scheduler_quantum_def split: prod.splits Option.bind_splits elim!: mutated_if_progress dest!: source_cancel_False)

lemma live_arm_scheduler_quantum_progress:
  assumes "live_arm_scheduler_quantum st clock ticket = Some (r, st')"
  shows "time_progress st st'"
proof -
  have "time_progress st st'" if "record_source_mutation (st\<lparr>lt_scheduler_quantum := source\<rparr>) = Some st1"
    and "source_take_due (lt_scheduler_quantum st1) now = (due, source')"
    and "mutated_if (due \<noteq> None) (st1\<lparr>lt_scheduler_quantum := source'\<rparr>) = Some st'" for source st1 now due source'
    using record_source_mutation_progress [OF that(1), of st] take_due_progress [OF that(2,3)] time_progress_trans by simp
  then show ?thesis
    using assms by (auto simp: live_arm_scheduler_quantum_def split: if_splits result.splits prod.splits Option.bind_splits dest!: source_replace_Err)
qed

lemma prepare_hardware_arm_progress: "prepare_hardware_arm st sample = (r, st') \<Longrightarrow> time_progress st st'"
  by (auto simp: prepare_hardware_arm_def time_progress_def next_deadline_def fun_eq_iff split: prod.splits dest: arm_prepare_revision)

text \<open>What one operation under the lock of the state does to it.\<close>

inductive time_op :: "live_time_state \<Rightarrow> live_time_state \<Rightarrow> bool" where
  "live_interrupt st clock = Some (ri, st') \<Longrightarrow> time_op st st'"
| "live_register_deadline st clock d wake = Some (rr, st') \<Longrightarrow> time_op st st'"
| "live_cancel_deadline st clock reg = Some (rc, st') \<Longrightarrow> time_op st st'"
| "live_replace_timer_deadline st clock old d token = Some (rt, st') \<Longrightarrow> time_op st st'"
| "live_cancel_timer_deadline st clock reg = Some (ru, st') \<Longrightarrow> time_op st st'"
| "live_arm_scheduler_quantum st clock ticket = Some (ra, st') \<Longrightarrow> time_op st st'"
| "live_cancel_scheduler_quantum st ticket = Some (rq, st') \<Longrightarrow> time_op st st'"
| "take_due_scheduler_quantum st clock = Some (rd, st') \<Longrightarrow> time_op st st'"
| "recover_deadline st reg = Some (key, st') \<Longrightarrow> time_op st st'"
| "prepare_hardware_arm st sample = (rp, st') \<Longrightarrow> time_op st st'"

lemma time_op_progress: "time_op st st' \<Longrightarrow> time_progress st st'"
proof (induction rule: time_op.induct)
  case (9 st reg key st')
  then show ?case
    by (auto simp: recover_deadline_def split: prod.splits result.splits Option.bind_splits intro: record_source_mutation_progress)
qed (auto intro: live_interrupt_progress live_register_deadline_progress live_cancel_deadline_progress live_replace_timer_deadline_progress
    live_cancel_timer_deadline_progress live_arm_scheduler_quantum_progress live_cancel_scheduler_quantum_progress
    take_due_scheduler_quantum_progress prepare_hardware_arm_progress)

lemma time_ops_progress: "time_op\<^sup>*\<^sup>* st st' \<Longrightarrow> time_progress st st'"
  by (induction rule: rtranclp_induct) (auto intro: time_progress_trans time_op_progress)

section \<open>The programmed deadline\<close>

lemma reconcile_rounds_programs:
  assumes "reconcile_rounds n env st programmed = (Ok u, st', intent)" and "\<And>n st. time_op\<^sup>*\<^sup>* st (rr_after (env n) st)"
    and "\<And>n st. time_op\<^sup>*\<^sup>* st (rr_before (env n) st)"
  shows "\<exists>i sample round. intent = Some i \<and> round < n \<and> rr_clock (env round) = Ok sample \<and> rr_program (env round) = Ok () \<and>
    ha_deadline_ns i = next_deadline st' sample \<and>
    apic_one_shot_for_delta (saturating_sub (ha_deadline_ns i) (ms_nanoseconds sample)) (lt_apic_timer_hz st') = Ok (ha_shot i)"
  using assms(1)
proof (induction n arbitrary: st programmed)
  case (Suc n)
  obtain sample where s: "rr_clock (env n) = Ok sample"
    using Suc.prems by (cases "rr_clock (env n)") auto
  obtain i st1 where i: "prepare_hardware_arm (rr_before (env n) st) sample = (Ok i, st1)"
    using Suc.prems s by (cases "prepare_hardware_arm (rr_before (env n) st) sample"; cases "fst (prepare_hardware_arm (rr_before (env n) st) sample)") auto
  have p: "rr_program (env n) = Ok ()" using Suc.prems s i by (cases "rr_program (env n)") auto
  let ?st2 = "rr_after (env n) st1"
  show ?case
  proof (cases "arm_is_current (lt_hardware_arms ?st2) i")
    case False
    then have "reconcile_rounds n env ?st2 (Some i) = (Ok u, st', intent)" using Suc.prems s i p by (simp add: Let_def)
    from Suc.IH [OF this] show ?thesis using less_SucI by blast
  next
    case True
    then have st': "st' = ?st2" "intent = Some i" using Suc.prems s i p by (auto simp: Let_def)
    have prep: "arm_prepare (lt_hardware_arms (rr_before (env n) st)) (next_deadline (rr_before (env n) st) sample) (ms_nanoseconds sample)
        (lt_apic_timer_hz (rr_before (env n) st)) = (Ok i, lt_hardware_arms st1)"
      and same: "lt_apic_timer_hz st1 = lt_apic_timer_hz (rr_before (env n) st)"
      using i by (auto simp: prepare_hardware_arm_def split: prod.splits)
    have "time_progress st1 ?st2" using time_ops_progress assms(2) by blast
    moreover have "pa_source_revision (lt_hardware_arms ?st2) = pa_source_revision (lt_hardware_arms st1)"
      using True arm_prepare_Ok [OF prep] by (simp add: arm_is_current_def)
    ultimately have "next_deadline ?st2 = next_deadline st1" "lt_apic_timer_hz ?st2 = lt_apic_timer_hz st1"
      by (auto simp: time_progress_def)
    moreover have "next_deadline st1 = next_deadline (rr_before (env n) st)"
      using i arm_prepare_Ok [OF prep] by (auto simp: prepare_hardware_arm_def next_deadline_def fun_eq_iff split: prod.splits)
    ultimately show ?thesis using arm_prepare_Ok [OF prep] s p st' same by auto
  qed
qed simp

end
