(* ===== verification/Timer_Authority.thy ===== *)
theory Timer_Authority
  imports Slot_Map Wait_Service Handle_Table Object_Lifetime Live_Time
begin

text \<open>
  The timer objects (\<^verbatim>\<open>kernel/src/time/timer.rs\<close>). An operation that needs the deadline authority first
  stages its transition under the lock of the timers, calls the authority with the lock released, and
  takes the lock again to commit or to restore. Each of these sections is a definition of its own;
  the operations compose them, and \<open>Timer_Machine\<close> interleaves them.
  The authority is the trait object the source passes, and so an argument here.
\<close>

section \<open>Data\<close>

datatype timer_error =
    TimerCapacity | TimerInvalidObject | TimerInvalidDeadline | TimerInvalidSignals | TimerAccessDenied
  | TimerGenerationExhausted | TimerTransitionInProgress | TimerForeignExpiry | TimerDeadline timer_deadline_error
  | TimerFinalizationMismatch | TimerReference

datatype timer_create_error = TimerCreateRegistry object_registry_error | TimerCreateTimer timer_error

type_synonym timer_key = object_id

record timer_payload_binding =
  tb_creation :: creation_ref
  tb_key :: timer_key

record timer_finalization =
  tf_final_release :: final_release

record timer_arm =
  ta_registration :: deadline_registration

datatype timer_transition = TransitionSet u32 | TransitionCancel | TransitionFinalize | TransitionExpire u32 | TransitionReadiness u32

record timer_record =
  tm_object :: object_id
  tm_arm_generation :: u32
  tm_arm :: "timer_arm option"
  tm_signaled :: bool
  tm_transition :: "timer_transition option"

record timer_authority =
  tau_domain :: u64
  tau_timers :: "timer_record option list"

datatype timer_wait_outcome = TimerReady dw_signals internal_ref | TimerRegistered wait_registration

record timer_wait_failure =
  tw_error :: timer_error
  tw_pin :: internal_ref

text \<open>The authority's two calls; \<^const>\<open>None\<close> is a call that does not return.\<close>

type_synonym 'd replace_call =
  "'d \<Rightarrow> deadline_registration option \<Rightarrow> u64 \<Rightarrow> timer_expiry_token \<Rightarrow> ((deadline_registration option, timer_deadline_error) result \<times> 'd) option"

type_synonym 'd cancel_call = "'d \<Rightarrow> deadline_registration \<Rightarrow> ((unit, timer_deadline_error) result \<times> 'd) option"

section \<open>Creation\<close>

definition timer_authority_new :: "nat \<Rightarrow> u64 \<Rightarrow> (timer_authority \<times> u64) option" where
  "timer_authority_new capacity next_domain =
    (case checked_next next_domain of
       None \<Rightarrow> None
     | Some n \<Rightarrow> Some (\<lparr>tau_domain = next_domain, tau_timers = replicate capacity None\<rparr>, n))"

definition bind_timer ::
  "timer_authority \<Rightarrow> creation_ref \<Rightarrow> (timer_payload_binding, timer_error \<times> creation_ref) result \<times> timer_authority" where
  "bind_timer ta creation =
    (if cr_object_type creation \<noteq> DW_OBJECT_TYPE_TIMER then (Err (TimerInvalidObject, creation), ta)
     else if slot_find tm_object (cr_id creation) (tau_timers ta) \<noteq> None then (Err (TimerReference, creation), ta)
     else (case slot_vacant (tau_timers ta) of
        None \<Rightarrow> (Err (TimerCapacity, creation), ta)
      | Some slot \<Rightarrow>
         (Ok \<lparr>tb_creation = creation, tb_key = cr_id creation\<rparr>,
          ta\<lparr>tau_timers := (tau_timers ta)[slot := Some \<lparr>tm_object = cr_id creation, tm_arm_generation = 0, tm_arm = None,
            tm_signaled = False, tm_transition = None\<rparr>]\<rparr>)))"

definition create_timer ::
  "timer_authority \<Rightarrow> object_registry \<Rightarrow>
   ((timer_key \<times> handle_ref, timer_create_error) result \<times> timer_authority \<times> object_registry) option" where
  "create_timer ta reg =
    (case create reg DW_OBJECT_TYPE_TIMER of
      (Err e, reg1) \<Rightarrow> Some (Err (TimerCreateRegistry e), ta, reg1)
    | (Ok creation, reg1) \<Rightarrow>
       (case bind_timer ta creation of
         (Err (error, creation), ta1) \<Rightarrow>
           do { (r, reg2) \<leftarrow> cancel_creation reg1 creation;
                _ \<leftarrow> expect_ok r;
                Some (Err (TimerCreateTimer error), ta1, reg2) }
       | (Ok binding, ta1) \<Rightarrow>
           do { bound \<leftarrow> expect_ok (finish_payload_binding reg1 (tb_creation binding));
                (handle, reg2) \<leftarrow> (case bound_into_handle reg1 bound of (r, reg2) \<Rightarrow>
                  do { h \<leftarrow> expect_ok r; Some (h, reg2) });
                Some (Ok (tb_key binding, handle), ta1, reg2) }))"

section \<open>Sections under the lock\<close>

definition put_timer :: "timer_authority \<Rightarrow> nat \<Rightarrow> timer_record \<Rightarrow> timer_authority" where
  "put_timer ta i timer = ta\<lparr>tau_timers := (tau_timers ta)[i := Some timer]\<rparr>"

text \<open>The timer an operation has staged, with the \<open>expect\<close> and the assertion of the source.\<close>

definition staged_timer :: "timer_authority \<Rightarrow> timer_key \<Rightarrow> timer_transition \<Rightarrow> (nat \<times> timer_record) option" where
  "staged_timer ta key transition =
    do { i \<leftarrow> slot_find tm_object key (tau_timers ta);
         timer \<leftarrow> tau_timers ta ! i;
         _ \<leftarrow> assert_panic (tm_transition timer = Some transition);
         Some (i, timer) }"

text \<open>The timer an operation is about to stage, or why it cannot.\<close>

definition idle_timer :: "timer_authority \<Rightarrow> timer_key \<Rightarrow> (nat \<times> timer_record, timer_error) result" where
  "idle_timer ta key =
    (case slot_find tm_object key (tau_timers ta) of
       None \<Rightarrow> Err TimerInvalidObject
     | Some i \<Rightarrow> (case tau_timers ta ! i of
         None \<Rightarrow> Err TimerInvalidObject
       | Some timer \<Rightarrow> if tm_transition timer \<noteq> None then Err TimerTransitionInProgress else Ok (i, timer)))"

definition timer_current_signals :: "timer_authority \<Rightarrow> timer_key \<Rightarrow> (dw_signals, timer_error) result" where
  "timer_current_signals ta key =
    and_then (idle_timer ta key) (\<lambda>(i, timer). Ok (if tm_signaled timer then DW_SIGNAL_SIGNALED else 0))"

record staged_set =
  sg_generation :: u32
  sg_old_arm :: "timer_arm option"
  sg_was_signaled :: bool

definition set_stage :: "timer_authority \<Rightarrow> timer_key \<Rightarrow> u64 \<Rightarrow> (staged_set, timer_error) result \<times> timer_authority" where
  "set_stage ta key deadline =
    (if deadline = DW_DEADLINE_INFINITE then (Err TimerInvalidDeadline, ta)
     else (case idle_timer ta key of
        Err e \<Rightarrow> (Err e, ta)
      | Ok (i, timer) \<Rightarrow> (case checked_next (tm_arm_generation timer) of
          None \<Rightarrow> (Err TimerGenerationExhausted, ta)
        | Some generation \<Rightarrow>
           (Ok \<lparr>sg_generation = generation, sg_old_arm = tm_arm timer, sg_was_signaled = tm_signaled timer\<rparr>,
            put_timer ta i (timer\<lparr>tm_arm := None, tm_transition := Some (TransitionSet generation)\<rparr>)))))"

definition set_token :: "timer_authority \<Rightarrow> timer_key \<Rightarrow> u32 \<Rightarrow> timer_expiry_token" where
  "set_token ta key generation = \<lparr>te_domain = tau_domain ta, te_object = key, te_generation = generation\<rparr>"

definition restore_set :: "timer_authority \<Rightarrow> timer_key \<Rightarrow> staged_set \<Rightarrow> timer_authority option" where
  "restore_set ta key sg =
    do { (i, timer) \<leftarrow> staged_timer ta key (TransitionSet (sg_generation sg));
         Some (put_timer ta i (timer\<lparr>tm_arm := sg_old_arm sg, tm_signaled := sg_was_signaled sg, tm_transition := None\<rparr>)) }"

definition set_commit :: "timer_authority \<Rightarrow> timer_key \<Rightarrow> u32 \<Rightarrow> deadline_registration option \<Rightarrow> timer_authority option" where
  "set_commit ta key generation registration =
    do { (i, timer) \<leftarrow> staged_timer ta key (TransitionSet generation);
         Some (put_timer ta i (timer\<lparr>tm_arm_generation := generation, tm_signaled := (registration = None),
           tm_arm := map_option (\<lambda>r. \<lparr>ta_registration = r\<rparr>) registration,
           tm_transition := (if registration = None then Some (TransitionReadiness generation) else None)\<rparr>)) }"

definition complete_readiness :: "timer_authority \<Rightarrow> timer_key \<Rightarrow> u32 \<Rightarrow> timer_authority option" where
  "complete_readiness ta key generation =
    do { (i, timer) \<leftarrow> staged_timer ta key (TransitionReadiness generation);
         Some (put_timer ta i (timer\<lparr>tm_transition := None\<rparr>)) }"

record staged_cancel =
  sc_old_arm :: "timer_arm option"
  sc_was_signaled :: bool
  sc_next_generation :: "u32 option"

definition cancel_stage :: "timer_authority \<Rightarrow> timer_key \<Rightarrow> (staged_cancel, timer_error) result \<times> timer_authority" where
  "cancel_stage ta key =
    (case idle_timer ta key of
       Err e \<Rightarrow> (Err e, ta)
     | Ok (i, timer) \<Rightarrow>
        (case (if tm_arm timer \<noteq> None then map_option Some (checked_next (tm_arm_generation timer)) else Some None) of
           None \<Rightarrow> (Err TimerGenerationExhausted, ta)
         | Some next_gen \<Rightarrow>
            (Ok \<lparr>sc_old_arm = tm_arm timer, sc_was_signaled = tm_signaled timer, sc_next_generation = next_gen\<rparr>,
             put_timer ta i (timer\<lparr>tm_arm := None, tm_transition := Some TransitionCancel\<rparr>))))"

definition restore_cancel :: "timer_authority \<Rightarrow> timer_key \<Rightarrow> timer_arm \<Rightarrow> bool \<Rightarrow> timer_authority option" where
  "restore_cancel ta key old_arm was_signaled =
    do { (i, timer) \<leftarrow> staged_timer ta key TransitionCancel;
         Some (put_timer ta i (timer\<lparr>tm_arm := Some old_arm, tm_signaled := was_signaled, tm_transition := None\<rparr>)) }"

definition cancel_commit :: "timer_authority \<Rightarrow> timer_key \<Rightarrow> u32 option \<Rightarrow> timer_authority option" where
  "cancel_commit ta key next_gen =
    do { (i, timer) \<leftarrow> staged_timer ta key TransitionCancel;
         Some (put_timer ta i (timer\<lparr>
           tm_arm_generation := (case next_gen of Some g \<Rightarrow> g | None \<Rightarrow> tm_arm_generation timer),
           tm_signaled := False, tm_transition := None\<rparr>)) }"

text \<open>The first section of \<open>expire\<close>: \<open>Ok False\<close> is an expiry that is stale and changes nothing.\<close>

definition expire_stage :: "timer_authority \<Rightarrow> timer_expiry_token \<Rightarrow> (bool, timer_error) result \<times> timer_authority" where
  "expire_stage ta token =
    (if te_domain token \<noteq> tau_domain ta then (Err TimerForeignExpiry, ta)
     else (case slot_find tm_object (te_object token) (tau_timers ta) of
        None \<Rightarrow> (Ok False, ta)
      | Some i \<Rightarrow> (case tau_timers ta ! i of
          None \<Rightarrow> (Ok False, ta)
        | Some timer \<Rightarrow>
           if tm_transition timer \<noteq> None then (Err TimerTransitionInProgress, ta)
           else if tm_arm_generation timer \<noteq> te_generation token \<or> tm_arm timer = None then (Ok False, ta)
           else (Ok True, put_timer ta i (timer\<lparr>tm_arm := None, tm_transition := Some (TransitionExpire (te_generation token))\<rparr>)))))"

definition expire_commit :: "timer_authority \<Rightarrow> timer_expiry_token \<Rightarrow> timer_authority option" where
  "expire_commit ta token =
    do { (i, timer) \<leftarrow> staged_timer ta (te_object token) (TransitionExpire (te_generation token));
         Some (put_timer ta i (timer\<lparr>tm_signaled := True, tm_transition := None\<rparr>)) }"

definition finalize_stage ::
  "timer_authority \<Rightarrow> final_release \<Rightarrow> (timer_arm option, timer_error \<times> final_release) result \<times> timer_authority" where
  "finalize_stage ta f =
    (if fr_object_type f \<noteq> DW_OBJECT_TYPE_TIMER then (Err (TimerFinalizationMismatch, f), ta)
     else (case idle_timer ta (fr_id f) of
        Err e \<Rightarrow> (Err (if e = TimerTransitionInProgress then (TimerTransitionInProgress, f) else (TimerFinalizationMismatch, f)), ta)
      | Ok (i, timer) \<Rightarrow> (Ok (tm_arm timer), put_timer ta i (timer\<lparr>tm_arm := None, tm_transition := Some TransitionFinalize\<rparr>))))"

definition restore_finalize :: "timer_authority \<Rightarrow> final_release \<Rightarrow> timer_arm \<Rightarrow> timer_authority option" where
  "restore_finalize ta f old_arm =
    do { (i, timer) \<leftarrow> staged_timer ta (fr_id f) TransitionFinalize;
         Some (put_timer ta i (timer\<lparr>tm_arm := Some old_arm, tm_transition := None\<rparr>)) }"

definition finalize_commit :: "timer_authority \<Rightarrow> final_release \<Rightarrow> timer_authority option" where
  "finalize_commit ta f =
    do { (i, timer) \<leftarrow> staged_timer ta (fr_id f) TransitionFinalize;
         Some (ta\<lparr>tau_timers := (tau_timers ta)[i := None]\<rparr>) }"

section \<open>Operations\<close>

definition timer_set ::
  "'d replace_call \<Rightarrow> timer_authority \<Rightarrow> timer_key \<Rightarrow> u64 \<Rightarrow> 'd \<Rightarrow> wait_registry \<Rightarrow>
   ((wake_batch, timer_error) result \<times> timer_authority \<times> 'd \<times> wait_registry) option" where
  "timer_set replace_timer_deadline ta key deadline deadlines waits =
    (case set_stage ta key deadline of
       (Err e, ta1) \<Rightarrow> Some (Err e, ta1, deadlines, waits)
     | (Ok sg, ta1) \<Rightarrow>
        do { (r, deadlines1) \<leftarrow> replace_timer_deadline deadlines (map_option ta_registration (sg_old_arm sg)) deadline
               (set_token ta key (sg_generation sg));
             case r of
               Err error \<Rightarrow> do { ta2 \<leftarrow> restore_set ta1 key sg; Some (Err (TimerDeadline error), ta2, deadlines1, waits) }
             | Ok registration \<Rightarrow>
                do { ta2 \<leftarrow> set_commit ta1 key (sg_generation sg) registration;
                     if registration \<noteq> None
                     then Some (Ok (wake_batch_empty (length (wg_slots waits))), ta2, deadlines1, waits)
                     else do { (wakes, waits1) \<leftarrow> take_ready waits key DW_SIGNAL_SIGNALED;
                               ta3 \<leftarrow> complete_readiness ta2 key (sg_generation sg);
                               Some (Ok wakes, ta3, deadlines1, waits1) } } })"

definition timer_cancel ::
  "'d cancel_call \<Rightarrow> timer_authority \<Rightarrow> timer_key \<Rightarrow> 'd \<Rightarrow> ((unit, timer_error) result \<times> timer_authority \<times> 'd) option" where
  "timer_cancel cancel_timer_deadline ta key deadlines =
    (case cancel_stage ta key of
       (Err e, ta1) \<Rightarrow> Some (Err e, ta1, deadlines)
     | (Ok sc, ta1) \<Rightarrow>
        (case sc_old_arm sc of
           None \<Rightarrow> do { ta2 \<leftarrow> cancel_commit ta1 key (sc_next_generation sc); Some (Ok (), ta2, deadlines) }
         | Some old_arm \<Rightarrow>
            do { (r, deadlines1) \<leftarrow> cancel_timer_deadline deadlines (ta_registration old_arm);
                 case r of
                   Err error \<Rightarrow> do { ta2 \<leftarrow> restore_cancel ta1 key old_arm (sc_was_signaled sc); Some (Err (TimerDeadline error), ta2, deadlines1) }
                 | Ok _ \<Rightarrow> do { ta2 \<leftarrow> cancel_commit ta1 key (sc_next_generation sc); Some (Ok (), ta2, deadlines1) } }))"

definition timer_expire ::
  "timer_authority \<Rightarrow> timer_expiry_token \<Rightarrow> wait_registry \<Rightarrow> ((wake_batch, timer_error) result \<times> timer_authority) option" where
  "timer_expire ta token waits =
    (case expire_stage ta token of
       (Err e, ta1) \<Rightarrow> Some (Err e, ta1)
     | (Ok False, ta1) \<Rightarrow> Some (Ok (wake_batch_empty (length (wg_slots waits))), ta1)
     | (Ok True, ta1) \<Rightarrow>
        do { wakes \<leftarrow> ready_wakes waits (te_object token) DW_SIGNAL_SIGNALED;
             ta2 \<leftarrow> expire_commit ta1 token;
             Some (Ok wakes, ta2) })"

definition map_wait_error :: "wait_error \<Rightarrow> timer_error" where
  "map_wait_error e =
    (case e of WaitCapacity \<Rightarrow> TimerCapacity | WaitAccessDenied \<Rightarrow> TimerAccessDenied | InvalidSignals \<Rightarrow> TimerInvalidSignals
     | _ \<Rightarrow> TimerInvalidObject)"

definition timer_register_wait ::
  "timer_authority \<Rightarrow> wait_registry \<Rightarrow> resolved_handle \<Rightarrow> dw_signals \<Rightarrow> u32 \<Rightarrow> thread_key \<Rightarrow> block_wake_key \<Rightarrow>
   (timer_wait_outcome, timer_wait_failure) result \<times> wait_registry" where
  "timer_register_wait ta waits target desired item_index thread wake =
    (let pin = rh_reference target; fail = (\<lambda>e. (Err \<lparr>tw_error = e, tw_pin = pin\<rparr>, waits)) in
     if ir_object_type pin \<noteq> DW_OBJECT_TYPE_TIMER then fail TimerInvalidObject
     else if rh_rights target AND DW_RIGHT_WAIT \<noteq> DW_RIGHT_WAIT then fail TimerAccessDenied
     else (case validate_wait_signals (ir_object_type pin) desired of
        Err error \<Rightarrow> fail (map_wait_error error)
      | Ok _ \<Rightarrow> (case idle_timer ta (ir_id pin) of
          Err error \<Rightarrow> fail error
        | Ok (i, timer) \<Rightarrow>
           if tm_signaled timer then (Ok (TimerReady DW_SIGNAL_SIGNALED pin), waits)
           else (case wait_register waits pin desired item_index thread wake of
              (Ok registration, waits') \<Rightarrow> (Ok (TimerRegistered registration), waits')
            | (Err failure, waits') \<Rightarrow>
                (Err \<lparr>tw_error = map_wait_error (wf_error failure), tw_pin = wf_pin failure\<rparr>, waits')))))"

definition timer_take_finalization ::
  "'d cancel_call \<Rightarrow> timer_authority \<Rightarrow> final_release \<Rightarrow> 'd \<Rightarrow>
   ((timer_finalization, timer_error \<times> final_release) result \<times> timer_authority \<times> 'd) option" where
  "timer_take_finalization cancel_timer_deadline ta f deadlines =
    (case finalize_stage ta f of
       (Err e, ta1) \<Rightarrow> Some (Err e, ta1, deadlines)
     | (Ok None, ta1) \<Rightarrow> do { ta2 \<leftarrow> finalize_commit ta1 f; Some (Ok \<lparr>tf_final_release = f\<rparr>, ta2, deadlines) }
     | (Ok (Some old_arm), ta1) \<Rightarrow>
        do { (r, deadlines1) \<leftarrow> cancel_timer_deadline deadlines (ta_registration old_arm);
             case r of
               Err error \<Rightarrow> do { ta2 \<leftarrow> restore_finalize ta1 f old_arm; Some (Err (TimerDeadline error, f), ta2, deadlines1) }
             | Ok _ \<Rightarrow> do { ta2 \<leftarrow> finalize_commit ta1 f; Some (Ok \<lparr>tf_final_release = f\<rparr>, ta2, deadlines1) } })"

definition complete_timer_finalization :: "object_registry \<Rightarrow> timer_finalization \<Rightarrow> object_registry option" where
  "complete_timer_finalization reg finalization =
    do { (r, reg') \<leftarrow> complete_payload_finalization reg (tf_final_release finalization);
         _ \<leftarrow> expect_ok r;
         Some reg' }"

lemmas timer_eval [eval_simps] =
  timer_authority_new_def bind_timer_def create_timer_def put_timer_def staged_timer_def idle_timer_def timer_current_signals_def
  set_stage_def set_token_def restore_set_def set_commit_def complete_readiness_def cancel_stage_def restore_cancel_def cancel_commit_def
  expire_stage_def expire_commit_def finalize_stage_def restore_finalize_def finalize_commit_def timer_set_def timer_cancel_def
  timer_expire_def map_wait_error_def timer_register_wait_def timer_take_finalization_def complete_timer_finalization_def

end
