(* ===== verification/Timer_Machine.thy ===== *)
theory Timer_Machine
  imports Timer_Authority
begin

text \<open>
  The timers with their operations in flight. Between two sections under the lock other operations
  run, so the state of the machine holds, beside the timers, the deadline authority and the waiters,
  the call that has staged each timer and the expiry tokens the deadline queue has handed out but
  the timers have not yet seen. The contract of the deadline authority is the locale of
  \<^verbatim>\<open>Timer_Contract\<close>.
\<close>

section \<open>The sections as updates of a map\<close>

definition timer_at :: "timer_authority \<Rightarrow> object_id \<rightharpoonup> timer_record" where
  "timer_at ta = slot_map tm_object (tau_timers ta)"

definition timers_wf :: "timer_authority \<Rightarrow> bool" where
  "timers_wf ta \<longleftrightarrow> slot_distinct tm_object (tau_timers ta)"

definition timer_updated :: "timer_authority \<Rightarrow> object_id \<Rightarrow> timer_record option \<Rightarrow> timer_authority \<Rightarrow> bool" where
  "timer_updated ta key x ta' \<longleftrightarrow> timers_wf ta' \<and> timer_at ta' = (timer_at ta)(key := x) \<and> tau_domain ta' = tau_domain ta"

lemma timer_updated_put:
  assumes "timers_wf ta" and "slot_find tm_object (tm_object timer) (tau_timers ta) = Some i"
  shows "timer_updated ta (tm_object timer) (Some timer) (put_timer ta i timer)"
  using slot_replace [of tm_object "tau_timers ta" timer i] assms by (simp add: timer_updated_def timers_wf_def timer_at_def put_timer_def)

lemma slot_found:
  assumes "slot_find tm_object key (tau_timers ta) = Some i"
  obtains timer where "tau_timers ta ! i = Some timer" and "timer_at ta key = Some timer" and "tm_object timer = key"
  using assms by (auto simp: timer_at_def elim: slot_find_Some)

lemma timer_found:
  assumes "timer_at ta key = Some timer"
  obtains i where "slot_find tm_object key (tau_timers ta) = Some i" and "tau_timers ta ! i = Some timer" and "tm_object timer = key"
proof -
  obtain i where i: "slot_find tm_object key (tau_timers ta) = Some i"
    using assms by (auto simp: timer_at_def slot_map_def split: Option.bind_splits)
  obtain timer' where "tau_timers ta ! i = Some timer'" and "timer_at ta key = Some timer'" and "tm_object timer' = key"
    using slot_found [OF i] .
  then show ?thesis using that [OF i] assms by simp
qed

lemma idle_timer_Ok_iff:
  "idle_timer ta key = Ok (i, timer) \<longleftrightarrow>
    slot_find tm_object key (tau_timers ta) = Some i \<and> timer_at ta key = Some timer \<and> tm_object timer = key \<and> tm_transition timer = None"
proof (cases "slot_find tm_object key (tau_timers ta)")
  case (Some j)
  obtain timer' where "tau_timers ta ! j = Some timer'" and "timer_at ta key = Some timer'" and "tm_object timer' = key"
    using slot_found [OF Some] .
  then show ?thesis using Some by (auto simp: idle_timer_def)
qed (simp add: idle_timer_def)

lemma idle_timer_Err_iff:
  "idle_timer ta key = Err e \<longleftrightarrow> timer_at ta key = None \<and> e = TimerInvalidObject \<or>
    (\<exists>timer. timer_at ta key = Some timer \<and> tm_transition timer \<noteq> None \<and> e = TimerTransitionInProgress)"
proof (cases "slot_find tm_object key (tau_timers ta)")
  case (Some j)
  from slot_found [OF Some] obtain timer where "tau_timers ta ! j = Some timer" "timer_at ta key = Some timer" .
  then show ?thesis using Some by (auto simp: idle_timer_def)
next
  case None
  then have "timer_at ta key = None" by (simp add: timer_at_def slot_map_None_iff)
  then show ?thesis using None by (auto simp: idle_timer_def)
qed

lemma staged_timer_eq:
  assumes "timer_at ta key = Some timer" and "tm_transition timer = Some transition"
  obtains i where "staged_timer ta key transition = Some (i, timer)" and "slot_find tm_object key (tau_timers ta) = Some i" and "tm_object timer = key"
proof -
  obtain i where "slot_find tm_object key (tau_timers ta) = Some i" and "tau_timers ta ! i = Some timer" and "tm_object timer = key"
    using timer_found [OF assms(1)] .
  then show ?thesis using that assms(2) by (simp add: staged_timer_def)
qed

lemmas section_defs = restore_set_def set_commit_def complete_readiness_def restore_cancel_def cancel_commit_def expire_commit_def
  restore_finalize_def

text \<open>A section that commits finds its timer and updates it.\<close>

lemma committed:
  assumes "timers_wf ta" and "timer_at ta key = Some timer" and "tm_transition timer = Some transition" and "tm_object (f timer) = tm_object timer"
  shows "\<exists>ta'. do { (i, timer) \<leftarrow> staged_timer ta key transition; Some (put_timer ta i (f timer)) } = Some ta' \<and>
    timer_updated ta key (Some (f timer)) ta'"
proof -
  obtain i where i: "staged_timer ta key transition = Some (i, timer)" "slot_find tm_object key (tau_timers ta) = Some i" "tm_object timer = key"
    using assms(2,3) by (rule staged_timer_eq)
  then show ?thesis using timer_updated_put [of ta "f timer" i] assms by simp
qed

lemma finalize_commit_removes:
  assumes "timers_wf ta" and "timer_at ta (fr_id f) = Some timer" and "tm_transition timer = Some TransitionFinalize"
  shows "\<exists>ta'. finalize_commit ta f = Some ta' \<and> timer_updated ta (fr_id f) None ta'"
proof -
  obtain i where i: "staged_timer ta (fr_id f) TransitionFinalize = Some (i, timer)" "slot_find tm_object (fr_id f) (tau_timers ta) = Some i"
    using assms(2,3) by (rule staged_timer_eq)
  then show ?thesis using slot_clear [of tm_object "tau_timers ta" "fr_id f" i] assms
    by (simp add: finalize_commit_def timer_updated_def timers_wf_def timer_at_def)
qed

lemma staged_update:
  assumes "timers_wf ta" and "idle_timer ta key = Ok (i, timer)" and "tm_object timer' = tm_object timer"
  shows "timer_updated ta key (Some timer') (put_timer ta i timer')"
  using timer_updated_put [of ta timer' i] assms by (auto simp: idle_timer_Ok_iff)

lemma set_stage_Ok:
  assumes "timers_wf ta" and "set_stage ta key deadline = (Ok sg, ta')"
  obtains timer where "timer_at ta key = Some timer" and "tm_transition timer = None" and "sg_old_arm sg = tm_arm timer"
    and "sg_was_signaled sg = tm_signaled timer" and "unat (sg_generation sg) = unat (tm_arm_generation timer) + 1"
    and "timer_updated ta key (Some (timer\<lparr>tm_arm := None, tm_transition := Some (TransitionSet (sg_generation sg))\<rparr>)) ta'"
proof -
  obtain i timer generation where idle: "idle_timer ta key = Ok (i, timer)" and g: "checked_next (tm_arm_generation timer) = Some generation"
    and sg: "sg = \<lparr>sg_generation = generation, sg_old_arm = tm_arm timer, sg_was_signaled = tm_signaled timer\<rparr>"
    and ta': "ta' = put_timer ta i (timer\<lparr>tm_arm := None, tm_transition := Some (TransitionSet generation)\<rparr>)"
    using assms(2) by (auto simp: set_stage_def split: if_splits result.splits option.splits)
  show ?thesis
    using that [of timer] staged_update [OF assms(1) idle, of "timer\<lparr>tm_arm := None, tm_transition := Some (TransitionSet generation)\<rparr>"]
      idle checked_next_unat [OF g] by (auto simp: sg ta' idle_timer_Ok_iff)
qed

lemma set_stage_Err: "set_stage ta key deadline = (Err e, ta') \<Longrightarrow> ta' = ta"
  by (auto simp: set_stage_def split: if_splits result.splits option.splits)

lemma cancel_stage_Ok:
  assumes "timers_wf ta" and "cancel_stage ta key = (Ok sc, ta')"
  obtains timer where "timer_at ta key = Some timer" and "tm_transition timer = None" and "sc_old_arm sc = tm_arm timer"
    and "timer_updated ta key (Some (timer\<lparr>tm_arm := None, tm_transition := Some TransitionCancel\<rparr>)) ta'"
proof -
  obtain i timer where idle: "idle_timer ta key = Ok (i, timer)" and sc: "sc_old_arm sc = tm_arm timer"
    and ta': "ta' = put_timer ta i (timer\<lparr>tm_arm := None, tm_transition := Some TransitionCancel\<rparr>)"
    using assms(2) by (auto simp: cancel_stage_def split: if_splits result.splits option.splits)
  show ?thesis
    using that [of timer] staged_update [OF assms(1) idle, of "timer\<lparr>tm_arm := None, tm_transition := Some TransitionCancel\<rparr>"] idle
    by (auto simp: sc ta' idle_timer_Ok_iff)
qed

lemma cancel_stage_Err: "cancel_stage ta key = (Err e, ta') \<Longrightarrow> ta' = ta"
  by (auto simp: cancel_stage_def split: if_splits result.splits option.splits)

lemma finalize_stage_Ok:
  assumes "timers_wf ta" and "finalize_stage ta f = (Ok arm, ta')"
  obtains timer where "timer_at ta (fr_id f) = Some timer" and "tm_transition timer = None" and "arm = tm_arm timer"
    and "timer_updated ta (fr_id f) (Some (timer\<lparr>tm_arm := None, tm_transition := Some TransitionFinalize\<rparr>)) ta'"
proof -
  obtain i timer where idle: "idle_timer ta (fr_id f) = Ok (i, timer)" and arm: "arm = tm_arm timer"
    and ta': "ta' = put_timer ta i (timer\<lparr>tm_arm := None, tm_transition := Some TransitionFinalize\<rparr>)"
    using assms(2) by (auto simp: finalize_stage_def split: if_splits result.splits)
  show ?thesis
    using that [of timer] staged_update [OF assms(1) idle, of "timer\<lparr>tm_arm := None, tm_transition := Some TransitionFinalize\<rparr>"] idle
    by (auto simp: arm ta' idle_timer_Ok_iff)
qed

lemma finalize_stage_Err: "finalize_stage ta f = (Err e, ta') \<Longrightarrow> ta' = ta"
  by (auto simp: finalize_stage_def split: if_splits result.splits)

text \<open>The three ways a token can be received.\<close>

lemma expire_stage_cases:
  assumes "timers_wf ta" and "expire_stage ta token = (r, ta')"
  shows "r = Err TimerForeignExpiry \<and> te_domain token \<noteq> tau_domain ta \<and> ta' = ta \<or>
    r = Err TimerTransitionInProgress \<and> ta' = ta \<and>
      (\<exists>timer. timer_at ta (te_object token) = Some timer \<and> tm_transition timer \<noteq> None) \<or>
    r = Ok False \<and> ta' = ta \<and>
      (\<forall>timer. timer_at ta (te_object token) = Some timer \<longrightarrow> tm_arm_generation timer \<noteq> te_generation token \<or> tm_arm timer = None) \<or>
    r = Ok True \<and> (\<exists>timer. timer_at ta (te_object token) = Some timer \<and> tm_transition timer = None \<and>
      timer_updated ta (te_object token) (Some (timer\<lparr>tm_arm := None, tm_transition := Some (TransitionExpire (te_generation token))\<rparr>)) ta')"
proof (cases "slot_find tm_object (te_object token) (tau_timers ta)")
  case None
  then have "timer_at ta (te_object token) = None" by (simp add: timer_at_def slot_map_None_iff)
  then show ?thesis using assms(2) None by (auto simp: expire_stage_def split: if_splits)
next
  case (Some i)
  obtain timer where t: "tau_timers ta ! i = Some timer" "timer_at ta (te_object token) = Some timer" "tm_object timer = te_object token"
    using slot_found [OF Some] .
  show ?thesis
    using assms Some t timer_updated_put [of ta "timer\<lparr>tm_arm := None, tm_transition := Some (TransitionExpire (te_generation token))\<rparr>" i]
    by (auto simp: expire_stage_def split: if_splits)
qed

lemma bind_timer_Ok:
  assumes "timers_wf ta" and "bind_timer ta creation = (Ok binding, ta')"
  shows "timer_at ta (cr_id creation) = None \<and> timer_updated ta (cr_id creation) (Some \<lparr>tm_object = cr_id creation, tm_arm_generation = 0,
    tm_arm = None, tm_signaled = False, tm_transition = None\<rparr>) ta'"
proof -
  obtain i where v: "slot_vacant (tau_timers ta) = Some i" and f: "slot_find tm_object (cr_id creation) (tau_timers ta) = None"
    and ta': "ta' = ta\<lparr>tau_timers := (tau_timers ta)[i := Some \<lparr>tm_object = cr_id creation, tm_arm_generation = 0, tm_arm = None,
      tm_signaled = False, tm_transition = None\<rparr>]\<rparr>"
    using assms(2) by (auto simp: bind_timer_def split: if_splits option.splits)
  show ?thesis
    using slot_store [OF _ v, where key = tm_object and r = "\<lparr>tm_object = cr_id creation, tm_arm_generation = 0, tm_arm = None,
      tm_signaled = False, tm_transition = None\<rparr>"] f assms(1)
    by (simp add: ta' timer_updated_def timers_wf_def timer_at_def slot_map_None_iff)
qed

lemma bind_timer_Err: "bind_timer ta creation = (Err e, ta') \<Longrightarrow> ta' = ta"
  by (auto simp: bind_timer_def split: if_splits option.splits)

section \<open>The machine\<close>

text \<open>A call between two of its sections, with what it keeps on its stack.\<close>

datatype timer_call =
    CallSet u64 staged_set
  | CallReplaced staged_set "(deadline_registration option, timer_deadline_error) result"
  | CallReadiness u32
  | CallCollected u32
  | CallCancel staged_cancel
  | CallCancelled timer_arm staged_cancel "(unit, timer_deadline_error) result"
  | CallExpire timer_expiry_token
  | CallFinalize final_release "timer_arm option"
  | CallFinalized timer_arm final_release "(unit, timer_deadline_error) result"

record 'd timer_world =
  mw_timers :: timer_authority
  mw_deadlines :: 'd
  mw_waits :: wait_registry
  mw_calls :: "object_id \<rightharpoonup> timer_call"
  mw_inbox :: "timer_expiry_token list"

definition call_at :: "'d timer_world \<Rightarrow> object_id \<Rightarrow> timer_call option \<Rightarrow> timer_authority \<Rightarrow> 'd timer_world" where
  "call_at w key call ta = w\<lparr>mw_timers := ta, mw_calls := (mw_calls w)(key := call)\<rparr>"

inductive timer_step ::
  "('e \<Rightarrow> 'd replace_call) \<Rightarrow> ('e \<Rightarrow> 'd cancel_call) \<Rightarrow> ('e \<Rightarrow> 'd \<Rightarrow> (timer_expiry_token list \<times> 'd) option) \<Rightarrow>
   'd timer_world \<Rightarrow> 'd timer_world \<Rightarrow> bool"
  for replace cancel expire where
  step_bind: "bind_timer (mw_timers w) creation = (r, ta) \<Longrightarrow> timer_step replace cancel expire w (w\<lparr>mw_timers := ta\<rparr>)"
| step_set_stage: "set_stage (mw_timers w) key deadline = (Ok sg, ta) \<Longrightarrow>
    timer_step replace cancel expire w (call_at w key (Some (CallSet deadline sg)) ta)"
| step_set_replace: "mw_calls w key = Some (CallSet deadline sg) \<Longrightarrow>
    replace e (mw_deadlines w) (map_option ta_registration (sg_old_arm sg)) deadline (set_token (mw_timers w) key (sg_generation sg)) = Some (r, d) \<Longrightarrow>
    timer_step replace cancel expire w (w\<lparr>mw_deadlines := d, mw_calls := (mw_calls w)(key \<mapsto> CallReplaced sg r)\<rparr>)"
| step_set_restore: "mw_calls w key = Some (CallReplaced sg (Err error)) \<Longrightarrow> restore_set (mw_timers w) key sg = Some ta \<Longrightarrow>
    timer_step replace cancel expire w (call_at w key None ta)"
| step_set_armed: "mw_calls w key = Some (CallReplaced sg (Ok (Some registration))) \<Longrightarrow>
    set_commit (mw_timers w) key (sg_generation sg) (Some registration) = Some ta \<Longrightarrow>
    timer_step replace cancel expire w (call_at w key None ta)"
| step_set_expired: "mw_calls w key = Some (CallReplaced sg (Ok None)) \<Longrightarrow>
    set_commit (mw_timers w) key (sg_generation sg) None = Some ta \<Longrightarrow>
    timer_step replace cancel expire w (call_at w key (Some (CallReadiness (sg_generation sg))) ta)"
| step_set_collect: "mw_calls w key = Some (CallReadiness generation) \<Longrightarrow> take_ready (mw_waits w) key DW_SIGNAL_SIGNALED = Some (wakes, waits) \<Longrightarrow>
    timer_step replace cancel expire w (w\<lparr>mw_waits := waits, mw_calls := (mw_calls w)(key \<mapsto> CallCollected generation)\<rparr>)"
| step_set_complete: "mw_calls w key = Some (CallCollected generation) \<Longrightarrow> complete_readiness (mw_timers w) key generation = Some ta \<Longrightarrow>
    timer_step replace cancel expire w (call_at w key None ta)"
| step_cancel_stage: "cancel_stage (mw_timers w) key = (Ok sc, ta) \<Longrightarrow>
    timer_step replace cancel expire w (call_at w key (Some (CallCancel sc)) ta)"
| step_cancel_call: "mw_calls w key = Some (CallCancel sc) \<Longrightarrow> sc_old_arm sc = Some arm \<Longrightarrow>
    cancel e (mw_deadlines w) (ta_registration arm) = Some (r, d) \<Longrightarrow>
    timer_step replace cancel expire w (w\<lparr>mw_deadlines := d, mw_calls := (mw_calls w)(key \<mapsto> CallCancelled arm sc r)\<rparr>)"
| step_cancel_unarmed: "mw_calls w key = Some (CallCancel sc) \<Longrightarrow> sc_old_arm sc = None \<Longrightarrow>
    cancel_commit (mw_timers w) key (sc_next_generation sc) = Some ta \<Longrightarrow> timer_step replace cancel expire w (call_at w key None ta)"
| step_cancel_commit: "mw_calls w key = Some (CallCancelled arm sc (Ok u)) \<Longrightarrow>
    cancel_commit (mw_timers w) key (sc_next_generation sc) = Some ta \<Longrightarrow> timer_step replace cancel expire w (call_at w key None ta)"
| step_cancel_restore: "mw_calls w key = Some (CallCancelled arm sc (Err error)) \<Longrightarrow>
    restore_cancel (mw_timers w) key arm (sc_was_signaled sc) = Some ta \<Longrightarrow> timer_step replace cancel expire w (call_at w key None ta)"
| step_expire_stage: "token \<in> set (mw_inbox w) \<Longrightarrow> expire_stage (mw_timers w) token = (Ok True, ta) \<Longrightarrow>
    timer_step replace cancel expire w
      (call_at w (te_object token) (Some (CallExpire token)) ta\<lparr>mw_inbox := remove1 token (mw_inbox w)\<rparr>)"
| step_expire_drop: "token \<in> set (mw_inbox w) \<Longrightarrow> expire_stage (mw_timers w) token = (r, ta) \<Longrightarrow> r = Ok False \<or> r = Err TimerForeignExpiry \<Longrightarrow>
    timer_step replace cancel expire w (w\<lparr>mw_timers := ta, mw_inbox := remove1 token (mw_inbox w)\<rparr>)"
| step_expire_commit: "mw_calls w key = Some (CallExpire token) \<Longrightarrow> expire_commit (mw_timers w) token = Some ta \<Longrightarrow>
    timer_step replace cancel expire w (call_at w key None ta)"
| step_finalize_stage: "finalize_stage (mw_timers w) f = (Ok arm, ta) \<Longrightarrow>
    timer_step replace cancel expire w (call_at w (fr_id f) (Some (CallFinalize f arm)) ta)"
| step_finalize_call: "mw_calls w key = Some (CallFinalize f (Some arm)) \<Longrightarrow> cancel e (mw_deadlines w) (ta_registration arm) = Some (r, d) \<Longrightarrow>
    timer_step replace cancel expire w (w\<lparr>mw_deadlines := d, mw_calls := (mw_calls w)(key \<mapsto> CallFinalized arm f r)\<rparr>)"
| step_finalize_unarmed: "mw_calls w key = Some (CallFinalize f None) \<Longrightarrow> finalize_commit (mw_timers w) f = Some ta \<Longrightarrow>
    timer_step replace cancel expire w (call_at w key None ta)"
| step_finalize_commit: "mw_calls w key = Some (CallFinalized arm f (Ok u)) \<Longrightarrow> finalize_commit (mw_timers w) f = Some ta \<Longrightarrow>
    timer_step replace cancel expire w (call_at w key None ta)"
| step_finalize_restore: "mw_calls w key = Some (CallFinalized arm f (Err error)) \<Longrightarrow> restore_finalize (mw_timers w) f arm = Some ta \<Longrightarrow>
    timer_step replace cancel expire w (call_at w key None ta)"
| step_interrupt: "expire e (mw_deadlines w) = Some (tokens, d) \<Longrightarrow>
    timer_step replace cancel expire w (w\<lparr>mw_deadlines := d, mw_inbox := mw_inbox w @ tokens\<rparr>)"
| step_waits: "wait_step (mw_waits w) waits \<Longrightarrow> timer_step replace cancel expire w (w\<lparr>mw_waits := waits\<rparr>)"

section \<open>The invariant\<close>

primrec call_transition :: "timer_call \<Rightarrow> timer_transition" where
  "call_transition (CallSet deadline sg) = TransitionSet (sg_generation sg)"
| "call_transition (CallReplaced sg r) = TransitionSet (sg_generation sg)"
| "call_transition (CallReadiness generation) = TransitionReadiness generation"
| "call_transition (CallCollected generation) = TransitionReadiness generation"
| "call_transition (CallCancel sc) = TransitionCancel"
| "call_transition (CallCancelled arm sc r) = TransitionCancel"
| "call_transition (CallExpire token) = TransitionExpire (te_generation token)"
| "call_transition (CallFinalize f arm) = TransitionFinalize"
| "call_transition (CallFinalized arm f r) = TransitionFinalize"

primrec call_for :: "timer_call \<Rightarrow> object_id \<Rightarrow> bool" where
  "call_for (CallSet deadline sg) key = True"
| "call_for (CallReplaced sg r) key = True"
| "call_for (CallReadiness generation) key = True"
| "call_for (CallCollected generation) key = True"
| "call_for (CallCancel sc) key = True"
| "call_for (CallCancelled arm sc r) key = True"
| "call_for (CallExpire token) key = (te_object token = key)"
| "call_for (CallFinalize f arm) key = (fr_id f = key)"
| "call_for (CallFinalized arm f r) key = (fr_id f = key)"

text \<open>The registration and the generation whose expiry the timer still has to see: its own, or the one a call holds.\<close>

fun held_arm :: "timer_call \<Rightarrow> u32 \<Rightarrow> (timer_arm \<times> u32) option" where
  "held_arm (CallSet deadline sg) g = map_option (\<lambda>a. (a, g)) (sg_old_arm sg)"
| "held_arm (CallReplaced sg (Err e)) g = map_option (\<lambda>a. (a, g)) (sg_old_arm sg)"
| "held_arm (CallReplaced sg (Ok r)) g = map_option (\<lambda>r. (\<lparr>ta_registration = r\<rparr>, sg_generation sg)) r"
| "held_arm (CallCancel sc) g = map_option (\<lambda>a. (a, g)) (sc_old_arm sc)"
| "held_arm (CallCancelled arm sc (Err e)) g = Some (arm, g)"
| "held_arm (CallFinalize f arm) g = map_option (\<lambda>a. (a, g)) arm"
| "held_arm (CallFinalized arm f (Err e)) g = Some (arm, g)"
| "held_arm _ g = None"

definition armed :: "timer_record \<Rightarrow> timer_call option \<Rightarrow> (timer_arm \<times> u32) option" where
  "armed timer call =
    (case call of None \<Rightarrow> map_option (\<lambda>a. (a, tm_arm_generation timer)) (tm_arm timer) | Some c \<Rightarrow> held_arm c (tm_arm_generation timer))"

definition covered ::
  "(deadline_registration \<rightharpoonup> timer_expiry_token deadline_entry) \<Rightarrow> (deadline_registration \<Rightarrow> bool) \<Rightarrow> timer_expiry_token list \<Rightarrow>
   deadline_registration \<Rightarrow> timer_expiry_token \<Rightarrow> bool" where
  "covered lives mints inbox r token \<longleftrightarrow> mints r \<and>
    (case lives r of Some entry \<Rightarrow> de_payload entry = token | None \<Rightarrow> token \<in> set inbox)"

definition timer_ok ::
  "('d \<Rightarrow> deadline_registration \<rightharpoonup> timer_expiry_token deadline_entry) \<Rightarrow> ('d \<Rightarrow> deadline_registration \<Rightarrow> bool) \<Rightarrow>
   'd timer_world \<Rightarrow> object_id \<Rightarrow> bool" where
  "timer_ok lives mints w key =
    (case timer_at (mw_timers w) key of
       None \<Rightarrow> mw_calls w key = None
     | Some timer \<Rightarrow> tm_transition timer = map_option call_transition (mw_calls w key) \<and>
        (\<forall>c. mw_calls w key = Some c \<longrightarrow> call_for c key \<and> tm_arm timer = None) \<and>
        (\<forall>a g. armed timer (mw_calls w key) = Some (a, g) \<longrightarrow>
          covered (lives (mw_deadlines w)) (mints (mw_deadlines w)) (mw_inbox w) (ta_registration a) (set_token (mw_timers w) key g)))"

definition timer_inv ::
  "('d \<Rightarrow> deadline_registration \<rightharpoonup> timer_expiry_token deadline_entry) \<Rightarrow> ('d \<Rightarrow> deadline_registration \<Rightarrow> bool) \<Rightarrow> 'd timer_world \<Rightarrow> bool" where
  "timer_inv lives mints w \<longleftrightarrow> timers_wf (mw_timers w) \<and> (\<forall>key. timer_ok lives mints w key)"

end
