(* ===== verification/Timer_Contract.thy ===== *)
theory Timer_Contract
  imports Timer_Machine
begin

text \<open>
  The contract of the deadline authority, as the comments of the trait in \<^verbatim>\<open>kernel/src/time/timer.rs\<close>
  state it, and what the timers get from it: no assertion of a commit fails, and the expiry of an armed
  timer is in the deadline queue or on its way. The queue of the time service fulfils the contract.
\<close>

section \<open>One step changes one timer\<close>

abbreviation covers where
  "covers lives mints w \<equiv> covered (lives (mw_deadlines w)) (mints (mw_deadlines w)) (mw_inbox w)"

definition keeps_others ::
  "('d \<Rightarrow> deadline_registration \<rightharpoonup> timer_expiry_token deadline_entry) \<Rightarrow> ('d \<Rightarrow> deadline_registration \<Rightarrow> bool) \<Rightarrow>
   object_id \<Rightarrow> 'd timer_world \<Rightarrow> 'd timer_world \<Rightarrow> bool" where
  "keeps_others lives mints key w w' \<longleftrightarrow>
    (\<forall>r token. te_object token \<noteq> key \<longrightarrow> covers lives mints w r token \<longrightarrow> covers lives mints w' r token)"

definition timer_fits ::
  "('d \<Rightarrow> deadline_registration \<rightharpoonup> timer_expiry_token deadline_entry) \<Rightarrow> ('d \<Rightarrow> deadline_registration \<Rightarrow> bool) \<Rightarrow>
   'd timer_world \<Rightarrow> object_id \<Rightarrow> timer_record option \<Rightarrow> timer_call option \<Rightarrow> bool" where
  "timer_fits lives mints w key x call =
    (case x of
       None \<Rightarrow> call = None
     | Some timer \<Rightarrow> tm_transition timer = map_option call_transition call \<and>
        (\<forall>c. call = Some c \<longrightarrow> call_for c key \<and> tm_arm timer = None) \<and>
        (\<forall>a g. armed timer call = Some (a, g) \<longrightarrow> covers lives mints w (ta_registration a) (set_token (mw_timers w) key g)))"

lemma timer_ok_fits: "timer_ok lives mints w key = timer_fits lives mints w key (timer_at (mw_timers w) key) (mw_calls w key)"
  by (simp add: timer_ok_def timer_fits_def)

lemma timer_inv_step:
  assumes "timer_inv lives mints w" and "timer_updated (mw_timers w) key x (mw_timers w')" and "mw_calls w' = (mw_calls w)(key := c)"
    and "keeps_others lives mints key w w'" and "timer_fits lives mints w' key x c"
  shows "timer_inv lives mints w'"
proof -
  have "timer_fits lives mints w' k (timer_at (mw_timers w') k) (mw_calls w' k)" for k
  proof (cases "k = key")
    case False
    then have "timer_fits lives mints w k (timer_at (mw_timers w') k) (mw_calls w' k)"
      using assms(1-3) by (auto simp: timer_inv_def timer_ok_fits timer_updated_def)
    moreover have "set_token (mw_timers w') k g = set_token (mw_timers w) k g" "te_object (set_token (mw_timers w) k g) \<noteq> key" for g
      using assms(2) False by (auto simp: set_token_def timer_updated_def)
    ultimately show ?thesis using assms(4) by (auto simp: timer_fits_def keeps_others_def split: option.splits)
  qed (use assms in \<open>simp add: timer_updated_def\<close>)
  then show ?thesis using assms(2) by (simp add: timer_inv_def timer_ok_fits timer_updated_def)
qed

lemma timer_inv_covers:
  assumes "timer_inv lives mints w" and "mw_timers w' = mw_timers w" and "mw_calls w' = mw_calls w"
    and "\<And>key timer a g. timer_at (mw_timers w) key = Some timer \<Longrightarrow> armed timer (mw_calls w key) = Some (a, g) \<Longrightarrow>
      covers lives mints w (ta_registration a) (set_token (mw_timers w) key g) \<Longrightarrow>
      covers lives mints w' (ta_registration a) (set_token (mw_timers w) key g)"
  shows "timer_inv lives mints w'"
proof -
  have "timer_ok lives mints w' key" for key
  proof -
    have "timer_ok lives mints w key" using assms(1) by (simp add: timer_inv_def)
    then show ?thesis using assms(2-4) by (auto simp: timer_ok_def split: option.splits)
  qed
  then show ?thesis using assms(1,2) by (simp add: timer_inv_def)
qed

lemma keeps_others_same: "mw_deadlines w' = mw_deadlines w \<Longrightarrow> mw_inbox w' = mw_inbox w \<Longrightarrow> keeps_others lives mints key w w'"
  by (simp add: keeps_others_def)

lemma call_at_simps [simp]:
  "mw_timers (call_at w key call ta) = ta" "mw_calls (call_at w key call ta) = (mw_calls w)(key := call)"
  "mw_deadlines (call_at w key call ta) = mw_deadlines w" "mw_inbox (call_at w key call ta) = mw_inbox w"
  "mw_waits (call_at w key call ta) = mw_waits w"
  by (simp_all add: call_at_def)

lemma timer_updated_refl: "timers_wf ta \<Longrightarrow> timer_updated ta key (timer_at ta key) ta"
  by (simp add: timer_updated_def)

lemma timer_updated_token: "timer_updated ta key x ta' \<Longrightarrow> set_token ta' k g = set_token ta k g"
  by (simp add: timer_updated_def set_token_def)

text \<open>A call in flight has its timer.\<close>

lemma call_timer:
  assumes "timer_inv lives mints w" and "mw_calls w key = Some c"
  obtains timer where "timer_at (mw_timers w) key = Some timer" and "tm_transition timer = Some (call_transition c)"
    and "call_for c key" and "tm_arm timer = None" and "timers_wf (mw_timers w)"
    and "\<And>a g. held_arm c (tm_arm_generation timer) = Some (a, g) \<Longrightarrow>
      covers lives mints w (ta_registration a) (set_token (mw_timers w) key g)"
proof -
  have "timer_fits lives mints w key (timer_at (mw_timers w) key) (mw_calls w key)" and wf: "timers_wf (mw_timers w)"
    using assms(1) by (auto simp: timer_inv_def timer_ok_fits)
  then show ?thesis using assms(2) that by (auto simp: timer_fits_def armed_def split: option.splits)
qed

lemma call_covered:
  assumes "timer_inv lives mints w" and "mw_calls w key = Some c"
  obtains g where "\<forall>a g'. held_arm c g = Some (a, g') \<longrightarrow> covers lives mints w (ta_registration a) (set_token (mw_timers w) key g')"
  by (rule call_timer [OF assms]) (use that in blast)

text \<open>A timer without a transition has no call, and its own arm is covered.\<close>

lemma idle_timer_inv:
  assumes "timer_inv lives mints w" and "timer_at (mw_timers w) key = Some timer" and "tm_transition timer = None"
  shows "mw_calls w key = None \<and> (\<forall>a. tm_arm timer = Some a \<longrightarrow>
    covers lives mints w (ta_registration a) (set_token (mw_timers w) key (tm_arm_generation timer)))"
proof -
  have "timer_fits lives mints w key (timer_at (mw_timers w) key) (mw_calls w key)"
    using assms(1) by (auto simp: timer_inv_def timer_ok_fits)
  then show ?thesis using assms(2,3) by (auto simp: timer_fits_def armed_def split: option.splits)
qed

text \<open>Staging moves the arm into the call.\<close>

lemma staging_keeps_inv:
  assumes "timer_inv lives mints w" and "timer_at (mw_timers w) key = Some timer" and "tm_transition timer = None"
    and "timer_updated (mw_timers w) key (Some (timer\<lparr>tm_arm := None, tm_transition := Some (call_transition c)\<rparr>)) ta"
    and "call_for c key" and "\<And>a g. held_arm c (tm_arm_generation timer) = Some (a, g) \<Longrightarrow> tm_arm timer = Some a \<and> g = tm_arm_generation timer"
  shows "timer_inv lives mints (call_at w key (Some c) ta)"
proof (rule timer_inv_step [OF assms(1), where key = key and c = "Some c"])
  show "timer_updated (mw_timers w) key (Some (timer\<lparr>tm_arm := None, tm_transition := Some (call_transition c)\<rparr>))
      (mw_timers (call_at w key (Some c) ta))" using assms(4) by simp
  show "timer_fits lives mints (call_at w key (Some c) ta) key (Some (timer\<lparr>tm_arm := None, tm_transition := Some (call_transition c)\<rparr>)) (Some c)"
    using assms(5) idle_timer_inv [OF assms(1-3)] timer_updated_token [OF assms(4)]
    by (auto simp: timer_fits_def armed_def dest!: assms(6))
qed (simp_all add: keeps_others_same)

text \<open>A commit ends the call, or leaves it at a point where it holds no arm.\<close>

lemma commit_keeps_inv:
  assumes "timer_inv lives mints w" and "timer_updated (mw_timers w) key (Some timer) ta" and "tm_transition timer = map_option call_transition c"
    and "\<And>c'. c = Some c' \<Longrightarrow> call_for c' key \<and> tm_arm timer = None"
    and "\<And>a g. armed timer c = Some (a, g) \<Longrightarrow> covers lives mints w (ta_registration a) (set_token (mw_timers w) key g)"
  shows "timer_inv lives mints (call_at w key c ta)"
  by (rule timer_inv_step [OF assms(1), where key = key and c = c])
    (use assms(2-) timer_updated_token [OF assms(2)] in \<open>auto simp: timer_fits_def keeps_others_same\<close>)

text \<open>A call of the authority changes the deadlines and the call only.\<close>

lemma authority_keeps_inv:
  assumes "timer_inv lives mints w" and "mw_calls w key = Some c" and "call_transition c' = call_transition c" and "call_for c' key"
    and "keeps_others lives mints key w (w\<lparr>mw_deadlines := d, mw_calls := (mw_calls w)(key \<mapsto> c')\<rparr>)"
    and "\<And>g a g'. held_arm c' g = Some (a, g') \<Longrightarrow>
      (\<And>a g''. held_arm c g = Some (a, g'') \<Longrightarrow> covers lives mints w (ta_registration a) (set_token (mw_timers w) key g'')) \<Longrightarrow>
      covered (lives d) (mints d) (mw_inbox w) (ta_registration a) (set_token (mw_timers w) key g')"
  shows "timer_inv lives mints (w\<lparr>mw_deadlines := d, mw_calls := (mw_calls w)(key \<mapsto> c')\<rparr>)"
proof -
  obtain timer where t: "timer_at (mw_timers w) key = Some timer" "tm_transition timer = Some (call_transition c)" "call_for c key"
    "tm_arm timer = None" "timers_wf (mw_timers w)"
    "\<And>a g. held_arm c (tm_arm_generation timer) = Some (a, g) \<Longrightarrow> covers lives mints w (ta_registration a) (set_token (mw_timers w) key g)"
    using call_timer [OF assms(1,2)] by metis
  have "timer_updated (mw_timers w) key (Some timer) (mw_timers w)" using timer_updated_refl [OF t(5), of key] t(1) by simp
  moreover have "timer_fits lives mints (w\<lparr>mw_deadlines := d, mw_calls := (mw_calls w)(key \<mapsto> c')\<rparr>) key (Some timer) (Some c')"
    using t assms(3,4) by (auto simp: timer_fits_def armed_def intro: assms(6))
  ultimately show ?thesis
    by (intro timer_inv_step [OF assms(1), where key = key and c = "Some c'" and x = "Some timer"]) (use assms(5) in simp_all)
qed

text \<open>The section that commits a call finds the timer the call has staged.\<close>

lemma section_commits:
  assumes "timer_inv lives mints w" and "mw_calls w key = Some c" and "call_transition c = transition"
    and "\<And>timer. tm_object (f timer) = tm_object timer"
  obtains ta timer where "do { (i, timer) \<leftarrow> staged_timer (mw_timers w) key transition; Some (put_timer (mw_timers w) i (f timer)) } = Some ta"
    and "timer_updated (mw_timers w) key (Some (f timer)) ta" and "tm_arm timer = None"
    and "\<And>a g. held_arm c (tm_arm_generation timer) = Some (a, g) \<Longrightarrow> covers lives mints w (ta_registration a) (set_token (mw_timers w) key g)"
proof (rule call_timer [OF assms(1,2)])
  fix timer
  assume t: "timer_at (mw_timers w) key = Some timer" "tm_transition timer = Some (call_transition c)" "timers_wf (mw_timers w)" "tm_arm timer = None"
    and cov: "\<And>a g. held_arm c (tm_arm_generation timer) = Some (a, g) \<Longrightarrow> covers lives mints w (ta_registration a) (set_token (mw_timers w) key g)"
  then obtain ta where "do { (i, timer) \<leftarrow> staged_timer (mw_timers w) key transition; Some (put_timer (mw_timers w) i (f timer)) } = Some ta"
    and "timer_updated (mw_timers w) key (Some (f timer)) ta"
    using committed [of "mw_timers w" key timer transition f] assms(3,4) by blast
  then show thesis using that t(4) cov by blast
qed

lemma commit_section_keeps_inv:
  assumes "timer_inv lives mints w" and "mw_calls w key = Some c" and "call_transition c = transition"
    and "\<And>timer. tm_object (f timer) = tm_object timer"
    and "do { (i, timer) \<leftarrow> staged_timer (mw_timers w) key transition; Some (put_timer (mw_timers w) i (f timer)) } = Some ta"
    and "\<And>timer. tm_transition (f timer) = map_option call_transition c'"
    and "\<And>timer d. tm_arm timer = None \<Longrightarrow> c' = Some d \<Longrightarrow> call_for d key \<and> tm_arm (f timer) = None"
    and "\<And>timer a g. tm_arm timer = None \<Longrightarrow> armed (f timer) c' = Some (a, g) \<Longrightarrow> held_arm c (tm_arm_generation timer) = Some (a, g)"
  shows "timer_inv lives mints (call_at w key c' ta)"
proof (rule section_commits [OF assms(1-4)])
  fix ta1 timer
  assume "do { (i, timer) \<leftarrow> staged_timer (mw_timers w) key transition; Some (put_timer (mw_timers w) i (f timer)) } = Some ta1"
    and u: "timer_updated (mw_timers w) key (Some (f timer)) ta1" and a: "tm_arm timer = None"
    and cov: "\<And>a g. held_arm c (tm_arm_generation timer) = Some (a, g) \<Longrightarrow> covers lives mints w (ta_registration a) (set_token (mw_timers w) key g)"
  then have "timer_updated (mw_timers w) key (Some (f timer)) ta" using assms(5) by simp
  then show ?thesis by (rule commit_keeps_inv [OF assms(1)]) (use assms(6-8) a cov in blast)+
qed

lemma finalize_section_keeps_inv:
  assumes "timer_inv lives mints w" and "mw_calls w key = Some c" and "call_transition c = TransitionFinalize" and "fr_id f = key"
    and "finalize_commit (mw_timers w) f = Some ta"
  shows "timer_inv lives mints (call_at w key None ta)"
proof (rule call_timer [OF assms(1,2)])
  fix timer
  assume "timer_at (mw_timers w) key = Some timer" "tm_transition timer = Some (call_transition c)" "timers_wf (mw_timers w)"
  then have "timer_updated (mw_timers w) key None ta"
    using finalize_commit_removes [of "mw_timers w" f timer] assms(3-5) by auto
  then show ?thesis by (intro timer_inv_step [OF assms(1), where key = key and c = None and x = None]) (simp_all add: keeps_others_same timer_fits_def)
qed

section \<open>The contract\<close>

definition without :: "deadline_registration option \<Rightarrow> (deadline_registration \<rightharpoonup> 'v) \<Rightarrow> (deadline_registration \<rightharpoonup> 'v)" where
  "without old m = (case old of None \<Rightarrow> m | Some r \<Rightarrow> m(r := None))"

locale timer_deadlines =
  fixes replace :: "'e \<Rightarrow> 'd replace_call"
    and cancel :: "'e \<Rightarrow> 'd cancel_call"
    and expire :: "'e \<Rightarrow> 'd \<Rightarrow> (timer_expiry_token list \<times> 'd) option"
    and lives :: "'d \<Rightarrow> deadline_registration \<rightharpoonup> timer_expiry_token deadline_entry"
    and mints :: "'d \<Rightarrow> deadline_registration \<Rightarrow> bool"
  assumes replace_mints: "replace e d old t token = Some (x, d') \<Longrightarrow> mints d r \<Longrightarrow> mints d' r"
    and replace_error: "replace e d old t token = Some (Err err, d') \<Longrightarrow> lives d' = lives d"
    and replace_armed: "replace e d old t token = Some (Ok (Some r), d') \<Longrightarrow>
      \<not> mints d r \<and> mints d' r \<and> lives d' = (without old (lives d))(r \<mapsto> \<lparr>de_deadline_ns = t, de_payload = token\<rparr>)"
    and replace_expired: "replace e d old t token = Some (Ok None, d') \<Longrightarrow> lives d' = without old (lives d)"
    and cancel_mints: "cancel e d r = Some (y, d') \<Longrightarrow> mints d r' \<Longrightarrow> mints d' r'"
    and cancel_error: "cancel e d r = Some (Err err, d') \<Longrightarrow> lives d' = lives d"
    and cancel_done: "cancel e d r = Some (Ok u, d') \<Longrightarrow> lives d' = (lives d)(r := None)"
    and expire_mints: "expire e d = Some (tokens, d') \<Longrightarrow> mints d r \<Longrightarrow> mints d' r"
    and expire_hands_out: "expire e d = Some (tokens, d') \<Longrightarrow>
      lives d' r = lives d r \<or> lives d' r = None \<and> (\<exists>entry. lives d r = Some entry \<and> de_payload entry \<in> set tokens)"
begin

abbreviation inv where "inv \<equiv> timer_inv lives mints"

lemma covered_without:
  assumes "covered (lives d) (mints d) inbox r token" and "lives d' r = without old (lives d) r" and "mints d' r"
    and "\<And>r'. old = Some r' \<Longrightarrow> \<exists>token'. covered (lives d) (mints d) inbox r' token' \<and> te_object token' \<noteq> te_object token"
  shows "covered (lives d') (mints d') inbox r token"
proof (cases "old = Some r")
  case True
  then obtain token' where "covered (lives d) (mints d) inbox r token'" and "te_object token' \<noteq> te_object token" using assms(4) by blast
  then have "token' \<noteq> token" by auto
  then have "lives d r = None" using assms(1) \<open>covered (lives d) (mints d) inbox r token'\<close> by (auto simp: covered_def split: option.splits)
  then show ?thesis using assms True by (simp add: covered_def without_def)
next
  case False
  then have "lives d' r = lives d r" using assms(2) by (auto simp: without_def split: option.splits)
  then show ?thesis using assms(1,3) by (simp add: covered_def)
qed

lemma keeps_others_without:
  assumes "mw_deadlines w' = d'" and "mw_inbox w' = mw_inbox w"
    and "\<And>r. mints (mw_deadlines w) r \<Longrightarrow> mints d' r \<and> lives d' r = without old (lives (mw_deadlines w)) r"
    and "\<And>r'. old = Some r' \<Longrightarrow> \<exists>token'. covers lives mints w r' token' \<and> te_object token' = key"
  shows "keeps_others lives mints key w w'"
proof -
  have "covered (lives d') (mints d') (mw_inbox w) r token" if "te_object token \<noteq> key" and "covers lives mints w r token" for r token
  proof (rule covered_without [where old = old, OF that(2)])
    have "mints (mw_deadlines w) r" using that(2) by (simp add: covered_def)
    then show "lives d' r = without old (lives (mw_deadlines w)) r" and "mints d' r" using assms(3) by blast+
  next
    fix r' assume "old = Some r'"
    then show "\<exists>token'. covers lives mints w r' token' \<and> te_object token' \<noteq> te_object token" using assms(4) that(1) by metis
  qed
  then show ?thesis using assms(1,2) by (simp add: keeps_others_def)
qed

lemma replace_keeps_inv:
  assumes "inv w" and "mw_calls w key = Some (CallSet deadline sg)"
    and "replace e (mw_deadlines w) (map_option ta_registration (sg_old_arm sg)) deadline (set_token (mw_timers w) key (sg_generation sg)) = Some (r, d)"
  shows "inv (w\<lparr>mw_deadlines := d, mw_calls := (mw_calls w)(key \<mapsto> CallReplaced sg r)\<rparr>)"
proof (rule authority_keeps_inv [OF assms(1,2)])
  obtain g0 where held: "\<forall>a g. held_arm (CallSet deadline sg) g0 = Some (a, g) \<longrightarrow>
      covers lives mints w (ta_registration a) (set_token (mw_timers w) key g)"
    using call_covered [OF assms(1,2)] .
  note m = replace_mints [OF assms(3)]
  show "keeps_others lives mints key w (w\<lparr>mw_deadlines := d, mw_calls := (mw_calls w)(key \<mapsto> CallReplaced sg r)\<rparr>)"
  proof (cases r)
    case (Err x)
    then show ?thesis using replace_error [of e "mw_deadlines w"] assms(3) m by (auto simp: keeps_others_def covered_def)
  next
    case (Ok y)
    let ?old = "map_option ta_registration (sg_old_arm sg)"
    have l: "mints d r' \<and> lives d r' = without ?old (lives (mw_deadlines w)) r'" if "mints (mw_deadlines w) r'" for r'
      using m [OF that] that assms(3) Ok replace_armed [of e "mw_deadlines w" ?old] replace_expired [of e "mw_deadlines w" ?old] by (cases y) auto
    have old: "\<exists>token'. covers lives mints w r' token' \<and> te_object token' = key" if "?old = Some r'" for r'
      using that held by (auto simp: set_token_def)
    show ?thesis
      by (rule keeps_others_without [where old = ?old and d' = d])
        (use l old in simp_all)
  qed
  fix g a g'
  assume new: "held_arm (CallReplaced sg r) g = Some (a, g')"
    and old: "\<And>a g''. held_arm (CallSet deadline sg) g = Some (a, g'') \<Longrightarrow> covers lives mints w (ta_registration a) (set_token (mw_timers w) key g'')"
  show "covered (lives d) (mints d) (mw_inbox w) (ta_registration a) (set_token (mw_timers w) key g')"
  proof (cases r)
    case (Err x)
    then show ?thesis using new old [of a g'] replace_error [of e "mw_deadlines w"] assms(3) m by (auto simp: covered_def)
  next
    case (Ok y)
    then show ?thesis using new replace_armed [of e "mw_deadlines w"] assms(3) by (cases y) (auto simp: covered_def)
  qed
qed simp_all

lemma cancel_keeps_inv:
  assumes "inv w" and "mw_calls w key = Some c" and "cancel e (mw_deadlines w) (ta_registration arm) = Some (r, d)"
    and "\<And>g. held_arm c g = Some (arm, g)" and "\<And>g. held_arm c' g = (case r of Ok _ \<Rightarrow> None | Err _ \<Rightarrow> Some (arm, g))"
    and "call_transition c' = call_transition c" and "call_for c' key"
  shows "inv (w\<lparr>mw_deadlines := d, mw_calls := (mw_calls w)(key \<mapsto> c')\<rparr>)"
proof (rule authority_keeps_inv [OF assms(1,2,6,7)])
  note m = cancel_mints [OF assms(3)]
  obtain g0 where held: "covers lives mints w (ta_registration arm) (set_token (mw_timers w) key g0)"
    by (rule call_covered [OF assms(1,2)]) (use assms(4) in blast)
  show "keeps_others lives mints key w (w\<lparr>mw_deadlines := d, mw_calls := (mw_calls w)(key \<mapsto> c')\<rparr>)"
  proof (cases r)
    case (Err x)
    then show ?thesis using cancel_error [of e "mw_deadlines w"] assms(3) m by (auto simp: keeps_others_def covered_def)
  next
    case (Ok u)
    have held': "\<exists>token'. covers lives mints w (ta_registration arm) token' \<and> te_object token' = key"
      using held by (auto simp: set_token_def)
    have l: "lives d = without (Some (ta_registration arm)) (lives (mw_deadlines w))"
      using cancel_done [of e "mw_deadlines w"] assms(3) Ok by (auto simp: without_def)
    show ?thesis
      by (rule keeps_others_without [where old = "Some (ta_registration arm)" and d' = d]) (use m l held' in simp_all)
  qed
  fix g a g'
  assume new: "held_arm c' g = Some (a, g')"
    and old: "\<And>a g''. held_arm c g = Some (a, g'') \<Longrightarrow> covers lives mints w (ta_registration a) (set_token (mw_timers w) key g'')"
  then obtain x where r: "r = Err x" and "a = arm" "g' = g" using assms(5) by (cases r) auto
  then show "covered (lives d) (mints d) (mw_inbox w) (ta_registration a) (set_token (mw_timers w) key g')"
    using old assms(4) cancel_error [of e "mw_deadlines w"] assms(3) m by (auto simp: covered_def)
qed

lemma interrupt_keeps_inv:
  assumes "inv w" and "expire e (mw_deadlines w) = Some (tokens, d)"
  shows "inv (w\<lparr>mw_deadlines := d, mw_inbox := mw_inbox w @ tokens\<rparr>)"
proof -
  have "covered (lives d) (mints d) (mw_inbox w @ tokens) r token" if "covers lives mints w r token" for r token
    using that expire_mints [OF assms(2), of r] expire_hands_out [OF assms(2), of r] by (auto simp: covered_def split: option.splits)
  then show ?thesis by (intro timer_inv_covers [OF assms(1)]) simp_all
qed

lemma expire_drop_keeps_inv:
  assumes "inv w" and "expire_stage (mw_timers w) token = (r, ta)" and "r = Ok False \<or> r = Err TimerForeignExpiry"
  shows "inv (w\<lparr>mw_timers := ta, mw_inbox := remove1 token (mw_inbox w)\<rparr>)"
proof -
  have wf: "timers_wf (mw_timers w)" using assms(1) by (simp add: timer_inv_def)
  have ta: "ta = mw_timers w" using expire_stage_cases [OF wf assms(2)] assms(3) by auto
  have "set_token (mw_timers w) key g \<noteq> token"
    if "timer_at (mw_timers w) key = Some timer" and "armed timer (mw_calls w key) = Some (a, g)" for key timer a g
  proof
    assume tok: "set_token (mw_timers w) key g = token"
    then have "te_domain token = tau_domain (mw_timers w)" and k: "te_object token = key" "te_generation token = g"
      by (auto simp: set_token_def)
    then have r: "r = Ok False" and stale: "tm_arm_generation timer \<noteq> g \<or> tm_arm timer = None"
      using expire_stage_cases [OF wf assms(2)] assms(3) that(1) by auto
    have "tm_transition timer = None"
      using assms(2) r that(1) k tok timer_found [OF that(1)] by (auto simp: expire_stage_def set_token_def split: if_splits option.splits)
    then have "mw_calls w key = None" using idle_timer_inv [OF assms(1) that(1)] by simp
    then show False using that(2) stale by (auto simp: armed_def)
  qed
  then have "covered (lives (mw_deadlines w)) (mints (mw_deadlines w)) (remove1 token (mw_inbox w)) (ta_registration a) (set_token (mw_timers w) key g)"
    if "timer_at (mw_timers w) key = Some timer" and "armed timer (mw_calls w key) = Some (a, g)"
      and "covers lives mints w (ta_registration a) (set_token (mw_timers w) key g)" for key timer a g
    using that by (fastforce simp: covered_def in_set_remove1 split: option.splits)
  then show ?thesis by (intro timer_inv_covers [OF assms(1)]) (simp_all add: ta)
qed

lemma expire_stage_keeps_inv:
  assumes "inv w" and "expire_stage (mw_timers w) token = (Ok True, ta)"
  shows "inv (call_at w (te_object token) (Some (CallExpire token)) ta\<lparr>mw_inbox := remove1 token (mw_inbox w)\<rparr>)"
proof -
  have wf: "timers_wf (mw_timers w)" using assms(1) by (simp add: timer_inv_def)
  obtain timer where t: "timer_at (mw_timers w) (te_object token) = Some timer"
    "timer_updated (mw_timers w) (te_object token) (Some (timer\<lparr>tm_arm := None, tm_transition := Some (TransitionExpire (te_generation token))\<rparr>)) ta"
    using expire_stage_cases [OF wf assms(2)] by auto
  have other: "t \<in> set (remove1 token (mw_inbox w))" if "te_object t \<noteq> te_object token" and "t \<in> set (mw_inbox w)" for t
    using that by (metis in_set_remove1)
  show ?thesis
    by (rule timer_inv_step [OF assms(1), where key = "te_object token" and c = "Some (CallExpire token)"
        and x = "Some (timer\<lparr>tm_arm := None, tm_transition := Some (TransitionExpire (te_generation token))\<rparr>)"])
      (use t in \<open>auto simp: keeps_others_def covered_def timer_fits_def armed_def intro: other split: option.splits\<close>)
qed

lemma bind_keeps_inv:
  assumes "inv w" and "bind_timer (mw_timers w) creation = (r, ta)"
  shows "inv (w\<lparr>mw_timers := ta\<rparr>)"
proof (cases r)
  case (Err e)
  then show ?thesis using assms bind_timer_Err by (cases e) fastforce
next
  case (Ok binding)
  have wf: "timers_wf (mw_timers w)" using assms(1) by (simp add: timer_inv_def)
  note b = bind_timer_Ok [OF wf, of creation binding ta]
  have none: "mw_calls w (cr_id creation) = None"
    using assms b Ok by (auto simp: timer_inv_def timer_ok_def dest!: spec [of _ "cr_id creation"])
  show ?thesis
    by (rule timer_inv_step [OF assms(1), where key = "cr_id creation" and c = None])
      (use b none assms(2) Ok in \<open>auto simp: keeps_others_same timer_fits_def armed_def\<close>)
qed

lemma step_keeps_inv:
  assumes "timer_step replace cancel expire w w'" and "inv w"
  shows "inv w'"
  using assms
proof (induction rule: timer_step.induct)
  case (step_bind w creation r ta)
  then show ?case using bind_keeps_inv by blast
next
  case (step_set_stage w key deadline sg ta)
  then have "timers_wf (mw_timers w)" by (simp add: timer_inv_def)
  then show ?case
    by (rule set_stage_Ok [OF _ step_set_stage(1)], intro staging_keeps_inv [OF step_set_stage(2)]) auto
next
  case (step_set_replace w key deadline sg e r d)
  then show ?case using replace_keeps_inv by blast
next
  case (step_set_restore w key sg error ta)
  show ?case
    by (rule commit_section_keeps_inv [OF step_set_restore(3,1) _ _ step_set_restore(2) [unfolded restore_set_def]]) (auto simp: armed_def)
next
  case (step_set_armed w key sg registration ta)
  show ?case
    by (rule commit_section_keeps_inv [OF step_set_armed(3,1) _ _ step_set_armed(2) [unfolded set_commit_def]]) (auto simp: armed_def)
next
  case (step_set_expired w key sg ta)
  show ?case
    by (rule commit_section_keeps_inv [OF step_set_expired(3,1) _ _ step_set_expired(2) [unfolded set_commit_def]]) (auto simp: armed_def)
next
  case (step_set_collect w key generation wakes waits)
  have "inv (w\<lparr>mw_deadlines := mw_deadlines w, mw_calls := (mw_calls w)(key \<mapsto> CallCollected generation)\<rparr>)"
    by (rule authority_keeps_inv [OF step_set_collect(3,1)]) (auto intro: keeps_others_same)
  then show ?case by (rule timer_inv_covers) simp_all
next
  case (step_set_complete w key generation ta)
  show ?case
    by (rule commit_section_keeps_inv [OF step_set_complete(3,1) _ _ step_set_complete(2) [unfolded complete_readiness_def]]) (auto simp: armed_def)
next
  case (step_cancel_stage w key sc ta)
  then have "timers_wf (mw_timers w)" by (simp add: timer_inv_def)
  then show ?case
    by (rule cancel_stage_Ok [OF _ step_cancel_stage(1)], intro staging_keeps_inv [OF step_cancel_stage(2)]) auto
next
  case (step_cancel_call w key sc arm e r d)
  show ?case
    by (rule cancel_keeps_inv [OF step_cancel_call(4,1,3)]) (use step_cancel_call(2) in \<open>auto split: result.splits\<close>)
next
  case (step_cancel_unarmed w key sc ta)
  show ?case
    by (rule commit_section_keeps_inv [OF step_cancel_unarmed(4,1) _ _ step_cancel_unarmed(3) [unfolded cancel_commit_def]]) (auto simp: armed_def)
next
  case (step_cancel_commit w key arm sc u ta)
  show ?case
    by (rule commit_section_keeps_inv [OF step_cancel_commit(3,1) _ _ step_cancel_commit(2) [unfolded cancel_commit_def]]) (auto simp: armed_def)
next
  case (step_cancel_restore w key arm sc error ta)
  show ?case
    by (rule commit_section_keeps_inv [OF step_cancel_restore(3,1) _ _ step_cancel_restore(2) [unfolded restore_cancel_def]]) (auto simp: armed_def)
next
  case (step_expire_stage token w ta)
  then show ?case using expire_stage_keeps_inv by blast
next
  case (step_expire_drop token w r ta)
  then show ?case using expire_drop_keeps_inv by blast
next
  case (step_expire_commit w key token ta)
  then have k: "te_object token = key" by (auto elim: call_timer)
  show ?case
    by (rule commit_section_keeps_inv [OF step_expire_commit(3,1) _ _ step_expire_commit(2) [unfolded expire_commit_def k]]) (auto simp: armed_def)
next
  case (step_finalize_stage w f arm ta)
  then have "timers_wf (mw_timers w)" by (simp add: timer_inv_def)
  then show ?case
    by (rule finalize_stage_Ok [OF _ step_finalize_stage(1)], intro staging_keeps_inv [OF step_finalize_stage(2)]) auto
next
  case (step_finalize_call w key f arm e r d)
  then have "fr_id f = key" by (auto elim: call_timer)
  then show ?case
    by (intro cancel_keeps_inv [OF step_finalize_call(3,1,2)]) (auto split: result.splits)
next
  case (step_finalize_unarmed w key f ta)
  then have "fr_id f = key" by (auto elim: call_timer)
  then show ?case using step_finalize_unarmed by (intro finalize_section_keeps_inv [OF step_finalize_unarmed(3,1)]) auto
next
  case (step_finalize_commit w key arm f u ta)
  then have "fr_id f = key" by (auto elim: call_timer)
  then show ?case using step_finalize_commit by (intro finalize_section_keeps_inv [OF step_finalize_commit(3,1)]) auto
next
  case (step_finalize_restore w key arm f error ta)
  then have k: "fr_id f = key" by (auto elim: call_timer)
  show ?case
    by (rule commit_section_keeps_inv [OF step_finalize_restore(3,1) _ _ step_finalize_restore(2) [unfolded restore_finalize_def k]]) (auto simp: armed_def)
next
  case (step_interrupt e w tokens d)
  then show ?case using interrupt_keeps_inv by blast
next
  case (step_waits w waits)
  then show ?case by (intro timer_inv_covers [OF step_waits(2)]) simp_all
qed

lemma run_keeps_inv: "(timer_step replace cancel expire)\<^sup>*\<^sup>* w w' \<Longrightarrow> inv w \<Longrightarrow> inv w'"
  by (induction rule: rtranclp_induct) (auto intro: step_keeps_inv)

end

text \<open>The section that ends a call, or takes it to its last point, does not panic.\<close>

definition call_commits :: "timer_authority \<Rightarrow> object_id \<Rightarrow> timer_call \<Rightarrow> bool" where
  "call_commits ta key c =
    (case c of
       CallReplaced sg (Err error) \<Rightarrow> restore_set ta key sg \<noteq> None
     | CallReplaced sg (Ok registration) \<Rightarrow> set_commit ta key (sg_generation sg) registration \<noteq> None
     | CallCollected generation \<Rightarrow> complete_readiness ta key generation \<noteq> None
     | CallCancel sc \<Rightarrow> cancel_commit ta key (sc_next_generation sc) \<noteq> None
     | CallCancelled arm sc (Ok u) \<Rightarrow> cancel_commit ta key (sc_next_generation sc) \<noteq> None
     | CallCancelled arm sc (Err error) \<Rightarrow> restore_cancel ta key arm (sc_was_signaled sc) \<noteq> None
     | CallExpire token \<Rightarrow> expire_commit ta token \<noteq> None
     | CallFinalize f arm \<Rightarrow> finalize_commit ta f \<noteq> None
     | CallFinalized arm f (Ok u) \<Rightarrow> finalize_commit ta f \<noteq> None
     | CallFinalized arm f (Err error) \<Rightarrow> restore_finalize ta f arm \<noteq> None
     | _ \<Rightarrow> True)"

lemma section_no_panic:
  assumes "timers_wf ta" and "timer_at ta key = Some timer" and "tm_transition timer = Some transition" and "\<And>t. tm_object (f t) = tm_object t"
  shows "\<exists>ta'. do { (i, timer) \<leftarrow> staged_timer ta key transition; Some (put_timer ta i (f timer)) } = Some ta'"
  using committed [OF assms(1-3), of f] assms(4) by auto

lemma calls_commit:
  assumes "timer_inv lives mints w" and "mw_calls w key = Some c"
  shows "call_commits (mw_timers w) key c"
proof (rule call_timer [OF assms])
  fix timer
  assume t: "timer_at (mw_timers w) key = Some timer" "tm_transition timer = Some (call_transition c)" "call_for c key" "timers_wf (mw_timers w)"
  note removes = finalize_commit_removes [OF t(4), of _ timer]
  show ?thesis
  proof (cases c)
    case (CallReplaced sg r)
    then show ?thesis using t by (cases r) (auto simp: call_commits_def section_defs intro!: section_no_panic)
  next
    case (CallCancelled arm sc r)
    then show ?thesis using t by (cases r) (auto simp: call_commits_def section_defs intro!: section_no_panic)
  next
    case (CallFinalized arm f r)
    then show ?thesis using t removes [of f]
      by (cases r) (auto simp: call_commits_def section_defs intro!: section_no_panic)
  next
    case (CallFinalize f arm)
    then show ?thesis using t removes [of f] by (auto simp: call_commits_def)
  qed (use t in \<open>auto simp: call_commits_def section_defs intro!: section_no_panic\<close>)
qed

text \<open>Delivering the token of an armed timer signals it.\<close>

lemma delivery_signals:
  assumes "timers_wf ta" and "timer_at ta key = Some timer" and "tm_transition timer = None" and "tm_arm timer \<noteq> None"
    and "token = set_token ta key (tm_arm_generation timer)"
  shows "\<exists>ta1 ta2. expire_stage ta token = (Ok True, ta1) \<and> expire_commit ta1 token = Some ta2 \<and>
    timer_at ta2 = (timer_at ta)(key \<mapsto> timer\<lparr>tm_arm := None, tm_signaled := True\<rparr>)"
proof -
  obtain r ta1 where e: "expire_stage ta token = (r, ta1)" by fastforce
  have token: "te_object token = key" "te_generation token = tm_arm_generation timer" "te_domain token = tau_domain ta"
    using assms(5) by (simp_all add: set_token_def)
  let ?t1 = "timer\<lparr>tm_arm := None, tm_transition := Some (TransitionExpire (te_generation token))\<rparr>"
  have r: "r = Ok True" and u1: "timer_updated ta key (Some ?t1) ta1"
    using expire_stage_cases [OF assms(1) e] assms(2-4) token by auto
  then obtain ta2 where ta2: "expire_commit ta1 token = Some ta2"
    "timer_updated ta1 key (Some (?t1\<lparr>tm_signaled := True, tm_transition := None\<rparr>)) ta2"
    using committed [of ta1 key ?t1 "TransitionExpire (te_generation token)" "\<lambda>t. t\<lparr>tm_signaled := True, tm_transition := None\<rparr>"]
    by (auto simp: expire_commit_def token timer_updated_def)
  have "?t1\<lparr>tm_signaled := True, tm_transition := None\<rparr> = timer\<lparr>tm_arm := None, tm_signaled := True\<rparr>"
    using assms(3) by (cases timer) simp
  then show ?thesis using e r ta2 u1 by (auto simp: timer_updated_def)
qed

lemma armed_timer_covered:
  assumes "timer_inv lives mints w" and "timer_at (mw_timers w) key = Some timer" and "tm_transition timer = None" and "tm_arm timer = Some arm"
  shows "(\<exists>entry. lives (mw_deadlines w) (ta_registration arm) = Some entry \<and> de_payload entry = set_token (mw_timers w) key (tm_arm_generation timer)) \<or>
    set_token (mw_timers w) key (tm_arm_generation timer) \<in> set (mw_inbox w)"
  using idle_timer_inv [OF assms(1-3)] assms(4) by (auto simp: covered_def split: option.splits)

section \<open>The queue of the time service\<close>

text \<open>The tokens the timer interrupt hands to the expiry target, the processor halting where it fails.\<close>

definition live_expire_tokens :: "clock_sample \<Rightarrow> live_time_state \<Rightarrow> (timer_expiry_token list \<times> live_time_state) option" where
  "live_expire_tokens clock st =
    (case live_interrupt st clock of
       Some (Ok outcome, st') \<Rightarrow> Some (List.map_filter id (take (io_timer_expiry_count outcome) (io_timer_expiries outcome)), st')
     | _ \<Rightarrow> None)"

lemma map_filter_id_prefix: "List.map_filter id (take (length xs) (map Some xs @ ys)) = xs"
  by (simp add: List.map_filter_def)

lemma live_expire_tokens_Some:
  assumes "live_expire_tokens clock st = Some (tokens, st')"
  obtains now where "tokens = map de_payload (filter (entry_due now) (dq_entries (lt_timer_deadlines st)))"
    and "dq_view (lt_timer_deadlines st') = (\<lambda>r. keep_entry now (dq_view (lt_timer_deadlines st) r))"
    and "dq_same (lt_timer_deadlines st) (lt_timer_deadlines st')" and "\<exists>sample. clock = Ok sample \<and> now = ms_nanoseconds sample"
proof (cases clock)
  case (Ok sample)
  let ?now = "ms_nanoseconds sample" and ?due = "filter (entry_due (ms_nanoseconds sample)) (dq_entries (lt_timer_deadlines st))"
  obtain n1 o1 q1 where e1: "dq_expire (lt_deadlines st) ?now = Some (n1, o1, q1)" using dq_expire_spec by blast
  obtain q2 where e2: "dq_expire (lt_timer_deadlines st) ?now = Some (length ?due, map Some (map de_payload ?due) @
        replicate (length (dq_slots (lt_timer_deadlines st)) - length ?due) None, q2)"
    and v: "dq_view q2 = (\<lambda>r. keep_entry ?now (dq_view (lt_timer_deadlines st) r))" "dq_same (lt_timer_deadlines st) q2"
    using dq_expire_spec by metis
  obtain quantum source where e3: "source_take_due (lt_scheduler_quantum st) ?now = (quantum, source)" by fastforce
  have "tokens = List.map_filter id (take (length (map de_payload ?due)) (map Some (map de_payload ?due) @
        replicate (length (dq_slots (lt_timer_deadlines st)) - length ?due) None)) \<and> lt_timer_deadlines st' = q2"
    using assms Ok by (auto simp: live_expire_tokens_def live_interrupt_def e1 e2 e3 mutated_if_def split: Option.bind_splits if_splits
      dest: record_source_mutation_Some)
  then show ?thesis using that [of ?now] v Ok by (simp only: map_filter_id_prefix) blast
qed (use assms in \<open>simp add: live_expire_tokens_def live_interrupt_def\<close>)

lemma mutated_if_Some: "mutated_if b st = Some st' \<Longrightarrow> lt_timer_deadlines st' = lt_timer_deadlines st"
  by (auto simp: mutated_if_def split: if_splits dest: record_source_mutation_Some)

lemma dq_view_entry: "dq_view q r = Some entry \<Longrightarrow> entry \<in> set (dq_entries q)"
  by (auto simp: dq_view_def dq_entries_def map_filter_def image_iff split: if_splits intro!: exI [of _ "dq_slots q ! unat (dr_slot r)"])

lemma replace_or_register_Ok:
  assumes "replace_or_register q old d token = (Ok r, q')"
  shows "\<not> dq_issued q r \<and> dq_issued q' r \<and> (\<forall>r'. dq_issued q r' \<longrightarrow> dq_issued q' r') \<and>
    dq_view q' = (without old (dq_view q))(r \<mapsto> \<lparr>de_deadline_ns = d, de_payload = token\<rparr>)"
proof (cases old)
  case None
  then show ?thesis using assms dq_register_Ok [of q d token r q'] by (simp add: replace_or_register_def without_def)
next
  case (Some old_r)
  obtain x q1 where x: "replace_if_live q old_r d token = (x, q1)" by fastforce
  note c = replace_if_live_cases [OF x]
  consider r1 where "x = Ok (Some r1)" | "x = Ok None" | e where "x = Err e" by (cases x) (metis option.exhaust)+
  then show ?thesis
  proof cases
    case 2
    then have "dq_register q d token = (Ok r, q')" and "dq_view q old_r = None" using assms Some x c by (auto simp: replace_or_register_def)
    then show ?thesis using dq_register_Ok [of q d token r q'] Some by (auto simp: without_def fun_upd_idem)
  qed (use assms Some x c in \<open>auto simp: replace_or_register_def without_def\<close>)
qed

lemma live_replace_cases:
  assumes "live_replace_timer_deadline st clock old d token = Some (x, st')"
  defines "q \<equiv> lt_timer_deadlines st" and "q' \<equiv> lt_timer_deadlines st'"
  shows "(\<forall>r. dq_issued q r \<longrightarrow> dq_issued q' r) \<and> (case x of
      Err _ \<Rightarrow> dq_view q' = dq_view q
    | Ok None \<Rightarrow> dq_view q' = without old (dq_view q)
    | Ok (Some r) \<Rightarrow> \<not> dq_issued q r \<and> dq_issued q' r \<and> dq_view q' = (without old (dq_view q))(r \<mapsto> \<lparr>de_deadline_ns = d, de_payload = token\<rparr>))"
proof (cases clock)
  case (Ok sample)
  show ?thesis
  proof (cases "d \<le> ms_nanoseconds sample")
    case True
    show ?thesis
    proof (cases old)
      case (Some r)
      obtain y q1 where y: "cancel_if_live_ref q r = (y, q1)" by fastforce
      have "x = map_err (\<lambda>_. TdFault) (and_then y (\<lambda>_. Ok None)) \<and> q' = q1"
        using assms(1) Ok True Some y unfolding q_def q'_def
        by (cases y) (auto simp: live_replace_timer_deadline_def split: Option.bind_splits dest: mutated_if_Some)
      then show ?thesis using cancel_if_live_ref_cases [OF y] Some by (cases y) (auto simp: without_def dq_same_def)
    qed (use assms(1) Ok True in \<open>auto simp: live_replace_timer_deadline_def q_def q'_def without_def\<close>)
  next
    case False
    obtain y q1 where y: "replace_or_register q old d token = (y, q1)" by fastforce
    have "x = map_err map_timer_queue_error (and_then y (\<lambda>r. Ok (Some r))) \<and> q' = q1"
      using assms(1) Ok False y unfolding q_def q'_def
      by (cases y) (auto simp: live_replace_timer_deadline_def split: Option.bind_splits dest: record_source_mutation_Some)
    then show ?thesis using replace_or_register_Err [of q old d token _ q1] replace_or_register_Ok [of q old d token _ q1] y
      by (cases y) auto
  qed
qed (use assms(1) in \<open>auto simp: live_replace_timer_deadline_def q_def q'_def\<close>)

lemma live_cancel_cases:
  assumes "live_cancel_timer_deadline st clock r = Some (x, st')"
  defines "q \<equiv> lt_timer_deadlines st" and "q' \<equiv> lt_timer_deadlines st'"
  shows "(\<forall>r'. dq_issued q r' \<longrightarrow> dq_issued q' r') \<and> dq_view q' = (case x of Err _ \<Rightarrow> dq_view q | Ok _ \<Rightarrow> (dq_view q)(r := None))"
proof (cases clock)
  case (Ok sample)
  obtain y q1 where y: "cancel_if_live_ref q r = (y, q1)" by fastforce
  have "x = map_err (\<lambda>_. TdFault) (and_then y (\<lambda>_. Ok ())) \<and> q' = q1"
    using assms(1) Ok y unfolding q_def q'_def
    by (cases y) (auto simp: live_cancel_timer_deadline_def split: Option.bind_splits dest: mutated_if_Some)
  then show ?thesis using cancel_if_live_ref_cases [OF y] by (cases y) (auto simp: dq_same_def)
qed (use assms(1) in \<open>auto simp: live_cancel_timer_deadline_def q_def q'_def\<close>)

interpretation live_timers: timer_deadlines
  "\<lambda>clock st old d token. live_replace_timer_deadline st clock old d token"
  "\<lambda>clock st r. live_cancel_timer_deadline st clock r"
  live_expire_tokens
  "\<lambda>st. dq_view (lt_timer_deadlines st)"
  "\<lambda>st. dq_issued (lt_timer_deadlines st)"
proof
  show "dq_view (lt_timer_deadlines d') r = dq_view (lt_timer_deadlines d) r \<or>
      dq_view (lt_timer_deadlines d') r = None \<and>
      (\<exists>entry. dq_view (lt_timer_deadlines d) r = Some entry \<and> de_payload entry \<in> set tokens)"
    if "live_expire_tokens e d = Some (tokens, d')" for e d tokens d' r
    by (rule live_expire_tokens_Some [OF that])
      (auto simp: keep_entry_def split: option.splits dest: dq_view_entry)
  show "dq_issued (lt_timer_deadlines d') r" if "live_expire_tokens e d = Some (tokens, d')" and "dq_issued (lt_timer_deadlines d) r"
    for e d tokens d' r
    by (rule live_expire_tokens_Some [OF that(1)]) (use that(2) in \<open>auto simp: dq_same_def\<close>)
qed (auto dest: live_replace_cases live_cancel_cases)

end
