(* ===== verification/Ap_Timer.thy ===== *)
theory Ap_Timer
  imports Live_Time
begin

text \<open>
  The scheduler timer of an application processor and the scheduler calls of the time service
  (\<^verbatim>\<open>kernel/src/time/live.rs\<close>): each application processor has one quantum source and one hardware
  one-shot of its own; the boot processor uses the shared state of \<open>Live_Time\<close>.
\<close>

section \<open>The state and its operations\<close>

record ap_scheduler_timer_state =
  ap_cpu :: u8
  ap_timer_hz :: u64
  ap_scheduler_quantum :: "scheduler_quantum_ticket local_deadline_source"
  ap_hardware_arms :: physical_arm_sequence

definition ap_uninitialized :: ap_scheduler_timer_state where
  "ap_uninitialized = \<lparr>ap_cpu = BOOTSTRAP, ap_timer_hz = 0, ap_scheduler_quantum = local_deadline_source_new,
    ap_hardware_arms = physical_arm_initialized\<rparr>"

definition ap_initialize ::
  "ap_scheduler_timer_state \<Rightarrow> u8 \<Rightarrow> u64 \<Rightarrow> (unit, live_time_error) result \<times> ap_scheduler_timer_state" where
  "ap_initialize st cpu timer_hz =
    (if cpu = BOOTSTRAP \<or> timer_hz = 0 \<or> ap_timer_hz st \<noteq> 0 then (Err LtAlreadyInitialized, st)
     else (Ok (), st\<lparr>ap_cpu := cpu, ap_timer_hz := timer_hz\<rparr>))"

definition ap_record_source_mutation ::
  "ap_scheduler_timer_state \<Rightarrow> (unit, live_time_error) result \<times> ap_scheduler_timer_state" where
  "ap_record_source_mutation st =
    (case source_mutated (ap_hardware_arms st) of (r, pa) \<Rightarrow> (map_err (\<lambda>_. LtDeadline) r, st\<lparr>ap_hardware_arms := pa\<rparr>))"

definition ap_arm ::
  "ap_scheduler_timer_state \<Rightarrow> scheduler_quantum_ticket \<Rightarrow> (unit, live_time_error) result \<times> ap_scheduler_timer_state" where
  "ap_arm st ticket =
    (if qt_cpu ticket \<noteq> ap_cpu st \<or> qt_source_arm_generation ticket = 0 \<or> qt_execution_generation ticket = 0 then (Err LtDeadline, st)
     else (case source_replace (ap_scheduler_quantum st) (qt_source_arm_generation ticket) (qt_deadline_ns ticket) ticket of
        (Err _, source) \<Rightarrow> (Err LtDeadline, st\<lparr>ap_scheduler_quantum := source\<rparr>)
      | (Ok _, source) \<Rightarrow> ap_record_source_mutation (st\<lparr>ap_scheduler_quantum := source\<rparr>)))"

definition ap_cancel ::
  "ap_scheduler_timer_state \<Rightarrow> scheduler_quantum_ticket \<Rightarrow> (bool, live_time_error) result \<times> ap_scheduler_timer_state" where
  "ap_cancel st ticket =
    (if qt_cpu ticket \<noteq> ap_cpu st then (Ok False, st)
     else (case source_cancel (ap_scheduler_quantum st) (qt_source_arm_generation ticket) ticket of
        (False, source) \<Rightarrow> (Ok False, st\<lparr>ap_scheduler_quantum := source\<rparr>)
      | (True, source) \<Rightarrow>
         (case ap_record_source_mutation (st\<lparr>ap_scheduler_quantum := source\<rparr>) of
            (Err e, st') \<Rightarrow> (Err e, st') | (Ok _, st') \<Rightarrow> (Ok True, st'))))"

definition ap_take_due ::
  "ap_scheduler_timer_state \<Rightarrow> u64 \<Rightarrow> (scheduler_quantum_ticket option, live_time_error) result \<times> ap_scheduler_timer_state" where
  "ap_take_due st now_ns =
    (case source_take_due (ap_scheduler_quantum st) now_ns of
       (None, source) \<Rightarrow> (Ok None, st\<lparr>ap_scheduler_quantum := source\<rparr>)
     | (Some due, source) \<Rightarrow>
        (case ap_record_source_mutation (st\<lparr>ap_scheduler_quantum := source\<rparr>) of
           (Err e, st') \<Rightarrow> (Err e, st') | (Ok _, st') \<Rightarrow> (Ok (Some due), st')))"

datatype prepared_ap_hardware_intent = ApArm hardware_arm_intent | ApStop hardware_stop_intent

definition ap_prepare_hardware ::
  "ap_scheduler_timer_state \<Rightarrow> u64 \<Rightarrow> (prepared_ap_hardware_intent, live_time_error) result \<times> ap_scheduler_timer_state" where
  "ap_prepare_hardware st now_ns =
    (case source_earliest (ap_scheduler_quantum st) of
       Some deadline_ns \<Rightarrow>
         (case arm_prepare (ap_hardware_arms st) deadline_ns now_ns (ap_timer_hz st) of
            (Err _, pa) \<Rightarrow> (Err LtDeadline, st\<lparr>ap_hardware_arms := pa\<rparr>)
          | (Ok intent, pa) \<Rightarrow> (Ok (ApArm intent), st\<lparr>ap_hardware_arms := pa\<rparr>))
     | None \<Rightarrow>
         (case arm_prepare_stop (ap_hardware_arms st) of
            (Err _, pa) \<Rightarrow> (Err LtDeadline, st\<lparr>ap_hardware_arms := pa\<rparr>)
          | (Ok intent, pa) \<Rightarrow> (Ok (ApStop intent), st\<lparr>ap_hardware_arms := pa\<rparr>)))"

definition hardware_intent_is_current :: "ap_scheduler_timer_state \<Rightarrow> prepared_ap_hardware_intent \<Rightarrow> bool" where
  "hardware_intent_is_current st intent =
    (case intent of ApArm i \<Rightarrow> arm_is_current (ap_hardware_arms st) i | ApStop i \<Rightarrow> arm_is_stop_current (ap_hardware_arms st) i)"

text \<open>The slot of a processor: the life cycle byte beside the state.\<close>

datatype ap_timer_lifecycle = ApTimerUninitialized | ApTimerMaskedReady | ApTimerFaulted

record ap_scheduler_timer_slot =
  as_lifecycle :: ap_timer_lifecycle
  as_state :: ap_scheduler_timer_state

definition ap_slot_initialize ::
  "ap_scheduler_timer_slot \<Rightarrow> u8 \<Rightarrow> u64 \<Rightarrow> (unit, live_time_error) result \<times> ap_scheduler_timer_slot" where
  "ap_slot_initialize slot cpu timer_hz =
    (if as_lifecycle slot \<noteq> ApTimerUninitialized then (Err LtAlreadyInitialized, slot)
     else (case ap_initialize (as_state slot) cpu timer_hz of
        (Err e, st) \<Rightarrow> (Err e, slot\<lparr>as_lifecycle := ApTimerFaulted, as_state := st\<rparr>)
      | (Ok _, st) \<Rightarrow> (Ok (), slot\<lparr>as_lifecycle := ApTimerMaskedReady, as_state := st\<rparr>)))"

definition ap_slot_is_ready :: "ap_scheduler_timer_slot \<Rightarrow> bool" where
  "ap_slot_is_ready slot \<longleftrightarrow> as_lifecycle slot = ApTimerMaskedReady"

section \<open>Reconciling the hardware\<close>

text \<open>
  One round: the clock, what the timer interrupt of the same processor does to the state between the
  two times its lock is held, and the result of programming the local APIC.
\<close>

record ap_round =
  ar_clock :: clock_sample
  ar_after :: "ap_scheduler_timer_state \<Rightarrow> ap_scheduler_timer_state"
  ar_program :: "(unit, live_time_error) result"

text \<open>The last component of the result is the last intent that was programmed.\<close>

fun reconcile_ap_rounds ::
  "nat \<Rightarrow> (nat \<Rightarrow> ap_round) \<Rightarrow> ap_scheduler_timer_state \<Rightarrow> scheduler_quantum_ticket option \<Rightarrow> prepared_ap_hardware_intent option \<Rightarrow>
   (scheduler_quantum_ticket option, live_time_error) result \<times> ap_scheduler_timer_state \<times> prepared_ap_hardware_intent option" where
  "reconcile_ap_rounds 0 env st pending_due programmed = (Err LtFaulted, st, programmed)"
| "reconcile_ap_rounds (Suc rounds) env st pending_due programmed =
    (case ar_clock (env rounds) of
       Err e \<Rightarrow> (Err e, st, programmed)
     | Ok sample \<Rightarrow>
        (case ap_take_due st (ms_nanoseconds sample) of
           (Err e, st1) \<Rightarrow> (Err e, st1, programmed)
         | (Ok due, st1) \<Rightarrow>
            if due \<noteq> None \<and> pending_due \<noteq> None then (Err LtFaulted, st1, programmed)
            else (let pending = (if due \<noteq> None then due else pending_due) in
              case ap_prepare_hardware st1 (ms_nanoseconds sample) of
                (Err e, st2) \<Rightarrow> (Err e, st2, programmed)
              | (Ok intent, st2) \<Rightarrow>
                 (let st3 = ar_after (env rounds) st2 in
                  case ar_program (env rounds) of
                    Err e \<Rightarrow> (Err e, st3, programmed)
                  | Ok _ \<Rightarrow>
                     if hardware_intent_is_current st3 intent then (Ok pending, st3, Some intent)
                     else reconcile_ap_rounds rounds env st3 pending (Some intent)))))"

definition reconcile_ap_scheduler_hardware ::
  "(u8, live_time_error) result \<Rightarrow> u8 \<Rightarrow> (nat \<Rightarrow> ap_round) \<Rightarrow> ap_scheduler_timer_slot \<Rightarrow>
   (scheduler_quantum_ticket option, live_time_error) result \<times> ap_scheduler_timer_slot \<times> prepared_ap_hardware_intent option" where
  "reconcile_ap_scheduler_hardware installed cpu env slot =
    (case installed of
       Err e \<Rightarrow> (Err e, slot, None)
     | Ok current \<Rightarrow>
        if current \<noteq> cpu \<or> cpu = BOOTSTRAP then (Err LtCpuIdentity, slot, None)
        else if \<not> ap_slot_is_ready slot then (Err LtFaulted, slot, None)
        else (case reconcile_ap_rounds 8 env (as_state slot) None None of
           (r, st, intent) \<Rightarrow> (r, slot\<lparr>as_state := st\<rparr>, intent)))"

section \<open>The scheduler's calls\<close>

text \<open>
  The calls of the scheduler on the processor they run on: the boot processor's source is part of the
  shared state, the others have a slot each. Publishing an expired quantum to the scheduler is an
  argument, and gives whether it was accepted.
\<close>

record scheduler_timers =
  ti_live :: live_time_state
  ti_slots :: "ap_scheduler_timer_slot list"

record scheduler_env = live_env +
  se_ap_rounds :: "nat \<Rightarrow> ap_round"
  se_publish :: "scheduler_quantum_ticket \<Rightarrow> bool"

definition publish_due ::
  "('a scheduler_env_scheme) \<Rightarrow> scheduler_quantum_ticket option \<Rightarrow> 'r \<Rightarrow> ('r, live_time_error) result" where
  "publish_due env due r = (case due of None \<Rightarrow> Ok r | Some ticket \<Rightarrow> if se_publish env ticket then Ok r else Err LtFaulted)"

definition reconcile_ap_slot ::
  "('a scheduler_env_scheme) \<Rightarrow> u8 \<Rightarrow> scheduler_timers \<Rightarrow> (scheduler_quantum_ticket option, live_time_error) result \<times> scheduler_timers" where
  "reconcile_ap_slot env cpu ts =
    (case reconcile_ap_scheduler_hardware (le_cpu env) cpu (se_ap_rounds env) (ti_slots ts ! unat cpu) of
       (r, slot, _) \<Rightarrow> (r, ts\<lparr>ti_slots := (ti_slots ts)[unat cpu := slot]\<rparr>))"

definition reconcile_bsp :: "('a scheduler_env_scheme) \<Rightarrow> scheduler_timers \<Rightarrow> (unit, live_time_error) result \<times> scheduler_timers" where
  "reconcile_bsp env ts =
    (case reconcile_bsp_hardware_arm (live_env.truncate env) (ti_live ts) of (r, st, _) \<Rightarrow> (r, ts\<lparr>ti_live := st\<rparr>))"

definition arm_scheduler_quantum ::
  "('a scheduler_env_scheme) \<Rightarrow> scheduler_timers \<Rightarrow> scheduler_quantum_ticket \<Rightarrow> ((bool, live_time_error) result \<times> scheduler_timers) option" where
  "arm_scheduler_quantum env ts ticket =
    (case le_cpu env of
       Err e \<Rightarrow> Some (Err e, ts)
     | Ok cpu \<Rightarrow>
        if qt_cpu ticket \<noteq> cpu then Some (Err LtCpuIdentity, ts)
        else if cpu = BOOTSTRAP
        then do { (r, st) \<leftarrow> live_arm_scheduler_quantum (ti_live ts) (le_clock env) ticket;
                  Some (case r of
                     Err e \<Rightarrow> (Err e, ts\<lparr>ti_live := st\<rparr>)
                   | Ok due \<Rightarrow> (case reconcile_bsp env (ts\<lparr>ti_live := st\<rparr>) of
                       (Err e, ts1) \<Rightarrow> (Err e, ts1)
                     | (Ok _, ts1) \<Rightarrow> (publish_due env due (due \<noteq> None), ts1))) }
        else if \<not> ap_slot_is_ready (ti_slots ts ! unat cpu) then Some (Err LtFaulted, ts)
        else (case ap_arm (as_state (ti_slots ts ! unat cpu)) ticket of
           (r, st) \<Rightarrow>
             (let ts1 = ts\<lparr>ti_slots := (ti_slots ts)[unat cpu := (ti_slots ts ! unat cpu)\<lparr>as_state := st\<rparr>]\<rparr> in
              Some (case r of
                 Err e \<Rightarrow> (Err e, ts1)
               | Ok _ \<Rightarrow> (case reconcile_ap_slot env cpu ts1 of
                   (Err e, ts2) \<Rightarrow> (Err e, ts2)
                 | (Ok due, ts2) \<Rightarrow> (publish_due env due (due \<noteq> None), ts2))))))"

definition cancel_scheduler_quantum ::
  "('a scheduler_env_scheme) \<Rightarrow> scheduler_timers \<Rightarrow> scheduler_quantum_ticket \<Rightarrow> ((bool, live_time_error) result \<times> scheduler_timers) option" where
  "cancel_scheduler_quantum env ts ticket =
    (case le_cpu env of
       Err e \<Rightarrow> Some (Err e, ts)
     | Ok cpu \<Rightarrow>
        if qt_cpu ticket \<noteq> cpu then Some (Err LtCpuIdentity, ts)
        else if cpu = BOOTSTRAP
        then do { (r, st) \<leftarrow> live_cancel_scheduler_quantum (ti_live ts) ticket;
                  Some (case r of
                     Err e \<Rightarrow> (Err e, ts\<lparr>ti_live := st\<rparr>)
                   | Ok cancelled \<Rightarrow>
                      if \<not> cancelled then (Ok False, ts\<lparr>ti_live := st\<rparr>)
                      else (case reconcile_bsp env (ts\<lparr>ti_live := st\<rparr>) of
                         (Err e, ts1) \<Rightarrow> (Err e, ts1) | (Ok _, ts1) \<Rightarrow> (Ok True, ts1))) }
        else if \<not> ap_slot_is_ready (ti_slots ts ! unat cpu) then Some (Err LtFaulted, ts)
        else (case ap_cancel (as_state (ti_slots ts ! unat cpu)) ticket of
           (r, st) \<Rightarrow>
             (let ts1 = ts\<lparr>ti_slots := (ti_slots ts)[unat cpu := (ti_slots ts ! unat cpu)\<lparr>as_state := st\<rparr>]\<rparr> in
              Some (case r of
                 Err e \<Rightarrow> (Err e, ts1)
               | Ok cancelled \<Rightarrow> (case reconcile_ap_slot env cpu ts1 of
                   (Err e, ts2) \<Rightarrow> (Err e, ts2)
                 | (Ok due, ts2) \<Rightarrow> (publish_due env due cancelled, ts2))))))"

definition service_current_scheduler_quantum_deadline ::
  "('a scheduler_env_scheme) \<Rightarrow> scheduler_timers \<Rightarrow> ((bool, live_time_error) result \<times> scheduler_timers) option" where
  "service_current_scheduler_quantum_deadline env ts =
    (case le_cpu env of
       Err e \<Rightarrow> Some (Err e, ts)
     | Ok cpu \<Rightarrow>
        if cpu = BOOTSTRAP
        then do { (r, st) \<leftarrow> take_due_scheduler_quantum (ti_live ts) (le_clock env);
                  Some (case r of
                     Err e \<Rightarrow> (Err e, ts\<lparr>ti_live := st\<rparr>)
                   | Ok None \<Rightarrow> (Ok False, ts\<lparr>ti_live := st\<rparr>)
                   | Ok (Some ticket) \<Rightarrow> (case reconcile_bsp env (ts\<lparr>ti_live := st\<rparr>) of
                       (Err e, ts1) \<Rightarrow> (Err e, ts1)
                     | (Ok _, ts1) \<Rightarrow> (publish_due env (Some ticket) True, ts1))) }
        else Some (case reconcile_ap_slot env cpu ts of
           (Err e, ts1) \<Rightarrow> (Err e, ts1)
         | (Ok due, ts1) \<Rightarrow> (publish_due env due (due \<noteq> None), ts1)))"

lemmas ap_timer_eval [eval_simps] =
  ap_uninitialized_def ap_initialize_def ap_record_source_mutation_def ap_arm_def ap_cancel_def ap_take_due_def ap_prepare_hardware_def
  hardware_intent_is_current_def ap_slot_initialize_def ap_slot_is_ready_def reconcile_ap_scheduler_hardware_def
  publish_due_def reconcile_ap_slot_def reconcile_bsp_def arm_scheduler_quantum_def cancel_scheduler_quantum_def
  service_current_scheduler_quantum_deadline_def

section \<open>Properties\<close>

text \<open>The hardware intent a state asks for: an arm for the quantum's deadline, or a stop.\<close>

definition intends :: "ap_scheduler_timer_state \<Rightarrow> prepared_ap_hardware_intent \<Rightarrow> bool" where
  "intends st intent =
    (case intent of
       ApArm i \<Rightarrow> source_earliest (ap_scheduler_quantum st) = Some (ha_deadline_ns i)
     | ApStop _ \<Rightarrow> source_earliest (ap_scheduler_quantum st) = None)"

definition ap_revision :: "ap_scheduler_timer_state \<Rightarrow> nat" where
  "ap_revision st = unat (pa_source_revision (ap_hardware_arms st))"

definition ap_progress :: "ap_scheduler_timer_state \<Rightarrow> ap_scheduler_timer_state \<Rightarrow> bool" where
  "ap_progress st st' \<longleftrightarrow> ap_revision st < ap_revision st' \<or>
    ap_revision st = ap_revision st' \<and> source_earliest (ap_scheduler_quantum st') = source_earliest (ap_scheduler_quantum st)"

lemma ap_record_Ok:
  "ap_record_source_mutation st = (Ok u, st') \<Longrightarrow> ap_revision st' = ap_revision st + 1 \<and> ap_scheduler_quantum st' = ap_scheduler_quantum st"
  by (auto simp: ap_record_source_mutation_def ap_revision_def split: prod.splits dest: source_mutated_unat)

lemma ap_prepare_current:
  assumes "ap_prepare_hardware st now = (Ok intent, st')"
  shows "intends st' intent \<and> hardware_intent_is_current st' intent \<and> ap_scheduler_quantum st' = ap_scheduler_quantum st \<and>
    ap_revision st' = ap_revision st \<and>
    (case intent of ApArm i \<Rightarrow> ha_source_revision i | ApStop i \<Rightarrow> hs_source_revision i) = pa_source_revision (ap_hardware_arms st)"
  using assms by (auto simp: ap_prepare_hardware_def intends_def hardware_intent_is_current_def arm_is_current_def arm_is_stop_current_def
      ap_revision_def arm_prepare_stop_def dest!: arm_prepare_Ok split: option.splits prod.splits result.splits)

lemma ap_committed_intent:
  assumes "ap_prepare_hardware st now = (Ok intent, st1)" and "ap_progress st1 st2" and "hardware_intent_is_current st2 intent"
  shows "intends st2 intent"
proof -
  have "pa_source_revision (ap_hardware_arms st2) = (case intent of ApArm i \<Rightarrow> ha_source_revision i | ApStop i \<Rightarrow> hs_source_revision i)"
    using assms(3) by (auto simp: hardware_intent_is_current_def arm_is_current_def arm_is_stop_current_def split: prepared_ap_hardware_intent.splits)
  then have "ap_revision st2 = ap_revision st1" using ap_prepare_current [OF assms(1)] by (simp add: ap_revision_def)
  then show ?thesis using assms(2) ap_prepare_current [OF assms(1)] by (auto simp: ap_progress_def intends_def split: prepared_ap_hardware_intent.splits)
qed

lemma reconcile_ap_rounds_programs:
  assumes "reconcile_ap_rounds n env st pending programmed = (Ok due, st', intent)" and "\<And>n st. ap_progress st (ar_after (env n) st)"
  shows "\<exists>i. intent = Some i \<and> intends st' i"
  using assms(1)
proof (induction n arbitrary: st pending programmed)
  case (Suc n)
  obtain sample where s: "ar_clock (env n) = Ok sample" using Suc.prems by (cases "ar_clock (env n)") auto
  obtain x st1 where x: "ap_take_due st (ms_nanoseconds sample) = (Ok x, st1)"
    using Suc.prems s by (cases "ap_take_due st (ms_nanoseconds sample)"; cases "fst (ap_take_due st (ms_nanoseconds sample))") auto
  have ok: "\<not> (x \<noteq> None \<and> pending \<noteq> None)" using Suc.prems s x by (auto split: if_splits)
  let ?pending = "if x \<noteq> None then x else pending"
  obtain i st2 where i: "ap_prepare_hardware st1 (ms_nanoseconds sample) = (Ok i, st2)"
    using Suc.prems s x ok by (cases "ap_prepare_hardware st1 (ms_nanoseconds sample)";
      cases "fst (ap_prepare_hardware st1 (ms_nanoseconds sample))") (auto simp: Let_def split: if_splits)
  have p: "ar_program (env n) = Ok ()"
    using Suc.prems s x ok i by (cases "ar_program (env n)") (auto simp: Let_def split: if_splits)
  have rec: "reconcile_ap_rounds (Suc n) env st pending programmed =
      (if hardware_intent_is_current (ar_after (env n) st2) i then (Ok ?pending, ar_after (env n) st2, Some i)
       else reconcile_ap_rounds n env (ar_after (env n) st2) ?pending (Some i))"
    using s x ok i p by (cases x; cases pending) (simp_all add: Let_def)
  show ?case
  proof (cases "hardware_intent_is_current (ar_after (env n) st2) i")
    case True
    then show ?thesis using Suc.prems rec ap_committed_intent [OF i assms(2) True] by simp
  next
    case False
    then show ?thesis using Suc.prems rec Suc.IH by simp
  qed
qed simp

end
