(* ===== verification/Deadline_Refinement.thy ===== *)
theory Deadline_Refinement
  imports Deadline_Queue
begin

text \<open>
  The deadline queue (\<^verbatim>\<open>kernel/src/time/deadline.rs\<close>) as an implementation of a finite map: a
  specification of its operations on the map from registrations to entries, and the simulation.
\<close>

section \<open>The specification\<close>

datatype 'p deadline_op =
    OpRegister u64 'p | OpCancel deadline_registration | OpCancelIfLive deadline_registration
  | OpReplace deadline_registration u64 'p | OpExpire u64

datatype 'p deadline_reply =
    ReplyRegistered deadline_registration | ReplyPayload 'p | ReplyNotLive | ReplyExpired "'p list" | ReplyRefused deadline_queue_error

type_synonym 'p deadline_map = "deadline_registration \<rightharpoonup> 'p deadline_entry"

text \<open>The state is the map of the live registrations and the set of all that were ever handed out.\<close>

inductive deadline_spec ::
  "'p deadline_op \<Rightarrow> 'p deadline_map \<times> deadline_registration set \<Rightarrow> 'p deadline_reply \<Rightarrow>
   'p deadline_map \<times> deadline_registration set \<Rightarrow> bool" where
  spec_register: "d \<noteq> DW_DEADLINE_NOW \<Longrightarrow> d \<noteq> DW_DEADLINE_INFINITE \<Longrightarrow> r \<notin> used \<Longrightarrow> insert r used \<subseteq> used' \<Longrightarrow>
    deadline_spec (OpRegister d p) (m, used) (ReplyRegistered r) (m(r \<mapsto> \<lparr>de_deadline_ns = d, de_payload = p\<rparr>), used')"
| spec_cancel: "m r = Some e \<Longrightarrow> deadline_spec (OpCancel r) (m, used) (ReplyPayload (de_payload e)) (m(r := None), used)"
| spec_cancel_if_live: "m r = Some e \<Longrightarrow> deadline_spec (OpCancelIfLive r) (m, used) (ReplyPayload (de_payload e)) (m(r := None), used)"
| spec_cancel_not_live: "m r = None \<Longrightarrow> r \<in> used \<Longrightarrow> deadline_spec (OpCancelIfLive r) (m, used) ReplyNotLive (m, used)"
| spec_replace: "m r = Some e \<Longrightarrow> d \<noteq> DW_DEADLINE_NOW \<Longrightarrow> d \<noteq> DW_DEADLINE_INFINITE \<Longrightarrow> r' \<notin> used \<Longrightarrow> insert r' used \<subseteq> used' \<Longrightarrow>
    deadline_spec (OpReplace r d p) (m, used) (ReplyRegistered r') (m(r := None, r' \<mapsto> \<lparr>de_deadline_ns = d, de_payload = p\<rparr>), used')"
| spec_replace_not_live: "m r = None \<Longrightarrow> r \<in> used \<Longrightarrow> deadline_spec (OpReplace r d p) (m, used) ReplyNotLive (m, used)"
| spec_expire: "distinct rs \<Longrightarrow> set rs = {r. \<exists>e. m r = Some e \<and> de_deadline_ns e \<le> now} \<Longrightarrow>
    deadline_spec (OpExpire now) (m, used) (ReplyExpired (map (\<lambda>r. de_payload (the (m r))) rs)) (m |` (- set rs), used)"
| spec_refused: "\<forall>now. op \<noteq> OpExpire now \<Longrightarrow> (\<And>r. op = OpCancel r \<Longrightarrow> m r = None) \<Longrightarrow> (\<And>r. op = OpCancelIfLive r \<Longrightarrow> r \<notin> used) \<Longrightarrow>
    deadline_spec op (m, used) (ReplyRefused error) (m, used)"

fun deadline_apply :: "'p deadline_op \<Rightarrow> 'p deadline_queue \<Rightarrow> ('p deadline_reply \<times> 'p deadline_queue) option" where
  "deadline_apply (OpRegister d p) q =
    Some (case dq_register q d p of (Ok r, q') \<Rightarrow> (ReplyRegistered r, q') | (Err e, q') \<Rightarrow> (ReplyRefused e, q'))"
| "deadline_apply (OpCancel r) q =
    Some (case dq_cancel q r of (Ok p, q') \<Rightarrow> (ReplyPayload p, q') | (Err e, q') \<Rightarrow> (ReplyRefused e, q'))"
| "deadline_apply (OpCancelIfLive r) q =
    Some (case cancel_if_live q r of
      (Ok (Some p), q') \<Rightarrow> (ReplyPayload p, q') | (Ok None, q') \<Rightarrow> (ReplyNotLive, q') | (Err e, q') \<Rightarrow> (ReplyRefused e, q'))"
| "deadline_apply (OpReplace r d p) q =
    Some (case replace_if_live q r d p of
      (Ok (Some r'), q') \<Rightarrow> (ReplyRegistered r', q') | (Ok None, q') \<Rightarrow> (ReplyNotLive, q') | (Err e, q') \<Rightarrow> (ReplyRefused e, q'))"
| "deadline_apply (OpExpire now) q =
    (case dq_expire q now of
       None \<Rightarrow> None
     | Some (n, out, q') \<Rightarrow> Some (ReplyExpired (List.map_filter id (take n out)), q'))"

section \<open>The entries are the map\<close>

definition slot_registration :: "'p deadline_queue \<Rightarrow> nat \<Rightarrow> deadline_registration" where
  "slot_registration q i = \<lparr>dr_domain = dq_domain q, dr_slot = of_nat i, dr_generation = ds_generation (dq_slots q ! i)\<rparr>"

definition live_slots :: "'p deadline_queue \<Rightarrow> nat list" where
  "live_slots q = filter (\<lambda>i. ds_entry (dq_slots q ! i) \<noteq> None) [0..<length (dq_slots q)]"

lemma unat_slot: "i < 2 ^ 16 \<Longrightarrow> unat (of_nat i :: u16) = i"
  by (simp add: unat_of_nat take_bit_nat_eq_self)

lemma dq_view_slot_registration:
  "length (dq_slots q) \<le> 2 ^ 16 \<Longrightarrow> i < length (dq_slots q) \<Longrightarrow> dq_view q (slot_registration q i) = ds_entry (dq_slots q ! i)"
  by (simp add: dq_view_def slot_registration_def unat_slot)

lemma slot_registration_inj: "length (dq_slots q) \<le> 2 ^ 16 \<Longrightarrow> inj_on (slot_registration q) {..<length (dq_slots q)}"
  by (rule inj_onI) (metis deadline_registration.select_convs(2) lessThan_iff order_less_le_trans slot_registration_def unat_slot)

lemma dq_view_registration:
  assumes "dq_view q r = Some e"
  obtains i where "i < length (dq_slots q)" and "r = slot_registration q i" and "ds_entry (dq_slots q ! i) = Some e"
proof
  show "unat (dr_slot r) < length (dq_slots q)" and "ds_entry (dq_slots q ! unat (dr_slot r)) = Some e"
    using assms by (auto simp: dq_view_def split: if_splits)
  show "r = slot_registration q (unat (dr_slot r))"
    using assms by (cases r) (auto simp: dq_view_def slot_registration_def split: if_splits)
qed

lemma dq_entries_slots: "dq_entries q = map (\<lambda>i. the (ds_entry (dq_slots q ! i))) (live_slots q)"
proof -
  have "List.map_filter ds_entry (map (\<lambda>i. dq_slots q ! i) [0..<length (dq_slots q)]) =
      map (\<lambda>i. the (ds_entry (dq_slots q ! i))) (live_slots q)"
    by (simp add: map_filter_def live_slots_def filter_map o_def)
  then show ?thesis by (simp add: dq_entries_def map_nth)
qed

lemma due_registrations:
  fixes q :: "'p deadline_queue" and now :: u64
  assumes "length (dq_slots q) \<le> 2 ^ 16"
  defines "rs \<equiv> map (slot_registration q) (filter (\<lambda>i. entry_due now (the (ds_entry (dq_slots q ! i)))) (live_slots q))"
  shows "distinct rs" and "set rs = {r. \<exists>e. dq_view q r = Some e \<and> de_deadline_ns e \<le> now}"
    and "map de_payload (filter (entry_due now) (dq_entries q)) = map (\<lambda>r. de_payload (the (dq_view q r))) rs"
proof -
  have live: "i \<in> set (live_slots q) \<longleftrightarrow> i < length (dq_slots q) \<and> ds_entry (dq_slots q ! i) \<noteq> None" for i
    by (auto simp: live_slots_def)
  have "distinct (live_slots q)" by (simp add: live_slots_def)
  moreover have "inj_on (slot_registration q) (set (live_slots q))"
    by (rule inj_on_subset [OF slot_registration_inj [OF assms(1)]]) (auto simp: live)
  ultimately show "distinct rs" by (auto simp: rs_def distinct_map intro: inj_on_subset)
  show "map de_payload (filter (entry_due now) (dq_entries q)) = map (\<lambda>r. de_payload (the (dq_view q r))) rs"
    by (auto simp: rs_def dq_entries_slots filter_map o_def live dq_view_slot_registration [OF assms(1)])
  show "set rs = {r. \<exists>e. dq_view q r = Some e \<and> de_deadline_ns e \<le> now}"
    by (auto simp: rs_def live entry_due_def dq_view_slot_registration [OF assms(1)] elim!: dq_view_registration)
qed

section \<open>The simulation\<close>

abbreviation deadline_abs :: "'p deadline_queue \<Rightarrow> 'p deadline_map \<times> deadline_registration set" where
  "deadline_abs q \<equiv> (dq_view q, Collect (dq_issued q))"

lemma map_filter_some_prefix: "List.map_filter id (take (length xs) (map Some xs @ ys)) = xs"
  by (simp add: map_filter_def)

lemma expire_simulates:
  assumes "length (dq_slots q) \<le> 2 ^ 16"
  shows "\<exists>reply q'. deadline_apply (OpExpire now) q = Some (reply, q') \<and> length (dq_slots q') = length (dq_slots q) \<and>
    deadline_spec (OpExpire now) (deadline_abs q) reply (deadline_abs q')"
proof -
  let ?due = "filter (entry_due now) (dq_entries q)"
  obtain q' where e: "dq_expire q now = Some (length (map de_payload ?due), map Some (map de_payload ?due) @
        replicate (length (dq_slots q) - length ?due) None, q')"
    and v: "dq_view q' = (\<lambda>r. keep_entry now (dq_view q r))" and same: "dq_same q q'"
    using dq_expire_spec [of q now] by (auto simp: length_map)
  note due = due_registrations [OF assms, of now]
  let ?rs = "map (slot_registration q) (filter (\<lambda>i. entry_due now (the (ds_entry (dq_slots q ! i)))) (live_slots q))"
  have "dq_view q' = dq_view q |` (- set ?rs)"
    unfolding v due(2) by (auto simp: fun_eq_iff keep_entry_def restrict_map_def entry_due_def split: option.splits)
  moreover have "dq_issued q' = dq_issued q" using same by (auto simp: dq_same_def)
  moreover have "deadline_spec (OpExpire now) (deadline_abs q) (ReplyExpired (map (\<lambda>r. de_payload (the (dq_view q r))) ?rs))
      (dq_view q |` (- set ?rs), Collect (dq_issued q))"
    by (rule spec_expire) (use due in blast)+
  ultimately show ?thesis using e same due(3) map_filter_some_prefix [of "map de_payload ?due"] by (auto simp: dq_same_def)
qed

lemma register_simulates:
  "\<exists>reply q'. deadline_apply (OpRegister d p) q = Some (reply, q') \<and> length (dq_slots q') = length (dq_slots q) \<and>
    deadline_spec (OpRegister d p) (deadline_abs q) reply (deadline_abs q')"
proof -
  obtain r q' where r: "dq_register q d p = (r, q')" by fastforce
  have valid: "d \<noteq> DW_DEADLINE_NOW \<and> d \<noteq> DW_DEADLINE_INFINITE" if "r = Ok x" for x
    using r that by (auto simp: dq_register_def split: if_splits)
  show ?thesis
    using r dq_register_Ok [of q d p _ q'] dq_register_Err [of q d p _ q'] valid
    by (cases r) (auto intro: spec_register spec_refused)
qed

lemma cancel_simulates:
  "\<exists>reply q'. deadline_apply (OpCancel r) q = Some (reply, q') \<and> length (dq_slots q') = length (dq_slots q) \<and>
    deadline_spec (OpCancel r) (deadline_abs q) reply (deadline_abs q')"
proof -
  obtain x q' where x: "dq_cancel q r = (x, q')" by fastforce
  then have "dq_issued q' = dq_issued q" and "length (dq_slots q') = length (dq_slots q)" using dq_cancel_cases [OF x] by (auto simp: dq_same_def)
  then show ?thesis using x dq_cancel_cases [OF x] by (cases x) (auto intro: spec_cancel spec_refused)
qed

lemma cancel_if_live_simulates:
  "\<exists>reply q'. deadline_apply (OpCancelIfLive r) q = Some (reply, q') \<and> length (dq_slots q') = length (dq_slots q) \<and>
    deadline_spec (OpCancelIfLive r) (deadline_abs q) reply (deadline_abs q')"
proof -
  obtain x q' where x: "cancel_if_live q r = (x, q')" by fastforce
  note c = cancel_if_live_ref_cases [OF x [unfolded cancel_if_live_def]]
  then have same: "dq_issued q' = dq_issued q" "length (dq_slots q') = length (dq_slots q)" by (auto simp: dq_same_def)
  show ?thesis
  proof (cases x)
    case (Ok y)
    show ?thesis
    proof (cases "dq_view q r")
      case None
      then have "dq_view q' = dq_view q" using c Ok by (auto simp: fun_upd_idem)
      then show ?thesis using x c Ok None same by (auto intro: spec_cancel_not_live)
    next
      case (Some e)
      then show ?thesis using x c Ok same by (auto intro: spec_cancel_if_live)
    qed
  qed (use x c in \<open>auto intro: spec_refused\<close>)
qed

lemma replace_simulates:
  "\<exists>reply q'. deadline_apply (OpReplace r d p) q = Some (reply, q') \<and> length (dq_slots q') = length (dq_slots q) \<and>
    deadline_spec (OpReplace r d p) (deadline_abs q) reply (deadline_abs q')"
proof -
  obtain x q' where x: "replace_if_live q r d p = (x, q')" by fastforce
  note c = replace_if_live_cases [OF x]
  have valid: "d \<noteq> DW_DEADLINE_NOW \<and> d \<noteq> DW_DEADLINE_INFINITE" if "x = Ok y" for y
    using x that by (auto simp: replace_if_live_def split: if_splits)
  consider r' where "x = Ok (Some r')" | "x = Ok None" | e where "x = Err e" by (cases x) (metis option.exhaust)+
  then show ?thesis
  proof cases
    case (1 r')
    then obtain e where "dq_view q r = Some e" using c by auto
    then show ?thesis using x c 1 valid by (auto intro!: spec_replace)
  qed (use x c in \<open>auto intro: spec_replace_not_live spec_refused\<close>)
qed

lemma deadline_step_simulates:
  assumes "length (dq_slots q) \<le> 2 ^ 16"
  shows "\<exists>reply q'. deadline_apply op q = Some (reply, q') \<and> length (dq_slots q') = length (dq_slots q) \<and>
    deadline_spec op (deadline_abs q) reply (deadline_abs q')"
  by (cases op)
    (blast intro: register_simulates cancel_simulates cancel_if_live_simulates replace_simulates expire_simulates [OF assms])+

text \<open>Sequences of operations.\<close>

fun deadline_run :: "'p deadline_op list \<Rightarrow> 'p deadline_queue \<Rightarrow> ('p deadline_reply list \<times> 'p deadline_queue) option" where
  "deadline_run [] q = Some ([], q)"
| "deadline_run (op # ops) q =
    (case deadline_apply op q of
       None \<Rightarrow> None
     | Some (reply, q1) \<Rightarrow> (case deadline_run ops q1 of None \<Rightarrow> None | Some (replies, q2) \<Rightarrow> Some (reply # replies, q2)))"

inductive deadline_spec_run ::
  "'p deadline_op list \<Rightarrow> 'p deadline_map \<times> deadline_registration set \<Rightarrow> 'p deadline_reply list \<Rightarrow>
   'p deadline_map \<times> deadline_registration set \<Rightarrow> bool" where
  spec_run_nil: "deadline_spec_run [] s [] s"
| spec_run_cons: "deadline_spec op s reply s1 \<Longrightarrow> deadline_spec_run ops s1 replies s2 \<Longrightarrow>
    deadline_spec_run (op # ops) s (reply # replies) s2"

lemma deadline_run_simulates:
  assumes "length (dq_slots q) \<le> 2 ^ 16"
  shows "\<exists>replies q'. deadline_run ops q = Some (replies, q') \<and> deadline_spec_run ops (deadline_abs q) replies (deadline_abs q')"
  using assms
proof (induction ops arbitrary: q)
  case (Cons op ops)
  obtain reply q1 where step: "deadline_apply op q = Some (reply, q1)" "length (dq_slots q1) = length (dq_slots q)"
    "deadline_spec op (deadline_abs q) reply (deadline_abs q1)" using deadline_step_simulates [OF Cons.prems] by blast
  then obtain replies q' where "deadline_run ops q1 = Some (replies, q')" "deadline_spec_run ops (deadline_abs q1) replies (deadline_abs q')"
    using Cons by metis
  then show ?case using step spec_run_cons by fastforce
qed (simp add: spec_run_nil)

end
