(* ===== verification/Time_Claims.thy ===== *)
theory Time_Claims
  imports Timer_Contract Ap_Timer Deadline_Refinement
begin

text \<open>
  The properties of the time service and the timers, each with a concrete instance: the clock is
  exact, the deadline queue is a finite map, the hardware timer is armed for the earliest deadline,
  and the expiry of an armed timer is not lost while the authority keeps its contract.
\<close>

section \<open>The clock\<close>

text \<open>Readings of the counter, each with the time in ticks at which it was taken.\<close>

fun counter_trace :: "pm_timer_width \<Rightarrow> nat \<Rightarrow> (u32 \<times> nat) list \<Rightarrow> bool" where
  "counter_trace width t [] = True"
| "counter_trace width t ((raw, t') # rest) =
    (t \<le> t' \<and> t' - t \<le> 2 ^ pm_bits width div 2 \<and> unat (raw AND pm_mask width) = t' mod 2 ^ pm_bits width \<and> counter_trace width t' rest)"

fun sample_run :: "pm_timer_state \<Rightarrow> u32 list \<Rightarrow> (monotonic_sample, pm_timer_error) result list" where
  "sample_run st [] = []"
| "sample_run st (raw # raws) = (case pm_sample st raw of (r, st') \<Rightarrow> r # sample_run st' raws)"

definition ideal_sample :: "pm_timer_width \<Rightarrow> nat \<Rightarrow> monotonic_sample" where
  "ideal_sample width ticks =
    \<lparr>ms_nanoseconds = of_nat (tick_ns ticks), ms_maintenance_deadline = of_nat (tick_ns ticks + tick_ns (2 ^ pm_bits width div 4))\<rparr>"

lemma counter_trace_le: "counter_trace width t xs \<Longrightarrow> (raw, t') \<in> set xs \<Longrightarrow> t \<le> t'"
  by (induction width t xs rule: counter_trace.induct) fastforce+

lemma sample_run_exact:
  assumes "clock_follows st start t" and "pd_width (pm_descriptor st) = width" and "counter_trace width t xs"
    and "\<forall>(raw, t') \<in> set xs. tick_ns (t' - start) + tick_ns (2 ^ pm_bits width div 4) < 2 ^ 64 - 1"
  shows "sample_run st (map fst xs) = map (\<lambda>(raw, t'). Ok (ideal_sample width (t' - start))) xs"
  using assms
proof (induction xs arbitrary: st t)
  case (Cons x xs)
  obtain raw t' where x: "x = (raw, t')" by fastforce
  have tr: "t \<le> t'" "t' - t \<le> 2 ^ pm_bits width div 2" "reads_counter st raw t'" "counter_trace width t' xs"
    using Cons.prems x by (auto simp: reads_counter_def)
  have le: "(2 ^ pm_bits width div 2 < t' - t) = False" "t' - t < 2 ^ pm_bits width"
    using tr(2) by (simp_all add: le_less_trans [OF _ div_less_dividend])
  have fits: "(tick_ns (t' - start) + tick_ns (2 ^ pm_bits width div 4) < 2 ^ 64 - 1) = True" using Cons.prems(4) x by simp
  have "\<exists>st'. pm_sample st raw = (Ok (ideal_sample width (t' - start)), st') \<and> clock_follows st' start t' \<and> pm_descriptor st' = pm_descriptor st"
    using pm_sample_follows [OF Cons.prems(1) tr(3,1)] le fits Cons.prems(2)
    by (simp only: ideal_sample_def if_True if_False)
  then obtain st' where "pm_sample st raw = (Ok (ideal_sample width (t' - start)), st')" "clock_follows st' start t'" "pm_descriptor st' = pm_descriptor st"
    by blast
  then show ?case using Cons.IH [of st' t'] Cons.prems tr x by simp
qed simp

text \<open>
  C32: The monotonic clock is exact. A clock initialised from a reading of the 24- or 32-bit ACPI
  counter, and then sampled at any times that are no more than half a wrap of the counter apart,
  returns at each sample the nanoseconds of all the ticks since its start, across any number of wraps
  and without error, as long as these fit the 64 bits below the infinite deadline; each sample's
  maintenance deadline is a quarter of a wrap later.
\<close>

theorem clock_is_exact:
  assumes "unat (raw AND pm_mask (pd_width d)) = start mod 2 ^ pm_bits (pd_width d)"
    and "counter_trace (pd_width d) start xs"
    and "\<forall>(raw, t) \<in> set xs. tick_ns (t - start) + tick_ns (2 ^ pm_bits (pd_width d) div 4) < 2 ^ 64 - 1"
  shows "sample_run (pm_timer_state_new d raw) (map fst xs) = map (\<lambda>(raw, t). Ok (ideal_sample (pd_width d) (t - start))) xs"
proof (rule sample_run_exact)
  show "clock_follows (pm_timer_state_new d raw) start start"
    using assms(1) by (simp add: clock_follows_def pm_timer_state_new_def)
qed (use assms in \<open>simp_all add: pm_timer_state_new_def\<close>)

theorem clock_is_exact_witness:
  "sample_run (pm_timer_state_new \<lparr>pd_port = 0x608, pd_width = Bits24\<rparr> 0xFFFFF0) [0x10, 0x800010] =
    [Ok (ideal_sample Bits24 32), Ok (ideal_sample Bits24 8388640)]"
  using clock_is_exact [where raw = "0xFFFFF0" and d = "\<lparr>pd_port = 0x608, pd_width = Bits24\<rparr>" and start = "0xFFFFF0"
      and xs = "[(0x10, 0x1000010), (0x800010, 0x1800010)]"]
  by (simp add: pm_mask_def tick_ns_def)

section \<open>The deadline queue\<close>

lemma dq_view_new: "deadline_queue_new capacity domain = Some (q, domain') \<Longrightarrow> dq_view q = Map.empty \<and> length (dq_slots q) = capacity"
  by (auto simp: deadline_queue_new_def dq_view_def split: Option.bind_splits)

text \<open>
  C33: The deadline queue implements a finite map from registrations to deadlines. Any sequence of
  operations on a new queue of at most 2^16 slots runs without a panic and answers as the
  specification does: a registration is new each time, cancelling or replacing one that is no longer
  live changes nothing, a refusal changes nothing, and an expiry hands out the payload of each entry
  whose deadline has passed, exactly once, and of no other.
\<close>

theorem deadline_queue_is_a_map:
  assumes "deadline_queue_new capacity domain = Some (q, domain')" and "capacity \<le> 2 ^ 16"
  shows "\<exists>replies q'. deadline_run ops q = Some (replies, q') \<and>
    deadline_spec_run ops (Map.empty, Collect (dq_issued q)) replies (deadline_abs q')"
  using deadline_run_simulates [of q ops] dq_view_new [OF assms(1)] assms(2) by simp

definition sample_queue :: "nat deadline_queue" where
  "sample_queue = \<lparr>dq_domain = 1, dq_slots = [\<lparr>ds_generation = 0, ds_entry = None\<rparr>, \<lparr>ds_generation = 0, ds_entry = None\<rparr>]\<rparr>"

definition sample_deadline_ops :: "nat deadline_op list" where
  "sample_deadline_ops = [OpRegister 50 7, OpRegister 30 8, OpRegister 60 9, OpExpire 40]"

theorem deadline_queue_is_a_map_witness:
  "\<exists>replies q'. deadline_run sample_deadline_ops sample_queue = Some (replies, q') \<and>
    deadline_spec_run sample_deadline_ops (Map.empty, Collect (dq_issued sample_queue)) replies (deadline_abs q') \<and>
    replies = [ReplyRegistered \<lparr>dr_domain = 1, dr_slot = 0, dr_generation = 1\<rparr>, ReplyRegistered \<lparr>dr_domain = 1, dr_slot = 1, dr_generation = 1\<rparr>,
      ReplyRefused DqCapacity, ReplyExpired [8]]"
proof -
  have new: "deadline_queue_new (Suc (Suc 0)) 1 = Some (sample_queue, 2)" by (simp add: eval_simps sample_queue_def)
  have "deadline_run sample_deadline_ops sample_queue =
      Some ([ReplyRegistered \<lparr>dr_domain = 1, dr_slot = 0, dr_generation = 1\<rparr>, ReplyRegistered \<lparr>dr_domain = 1, dr_slot = 1, dr_generation = 1\<rparr>,
        ReplyRefused DqCapacity, ReplyExpired [8]], q')"
    if "deadline_run sample_deadline_ops sample_queue = Some (replies, q')" for replies q'
    using that by (auto simp: eval_simps sample_queue_def sample_deadline_ops_def map_filter_def)
  then show ?thesis using deadline_queue_is_a_map [OF new, of sample_deadline_ops] by fastforce
qed

section \<open>The hardware timer\<close>



















section \<open>The timers\<close>













section \<open>The live authority and its contract\<close>



end
