(* ===== verification/Page_Arithmetic.thy ===== *)
theory Page_Arithmetic
  imports Kernel_Prelude
begin

text \<open>
  The \<open>u64\<close> arithmetic of the memory components: checked multiplication, powers of two, and rounding an
  address down to a power-of-two boundary with a mask.
\<close>

definition checked_mul :: "u64 \<Rightarrow> u64 \<Rightarrow> u64 option" where
  "checked_mul a b = (if unat a * unat b < 2 ^ 64 then Some (a * b) else None)"

definition is_power_of_two :: "u64 \<Rightarrow> bool" where
  "is_power_of_two w \<longleftrightarrow> list_ex (\<lambda>k. w = push_bit k 1) [0..<64]"

text \<open>\<open>w & !(unit - 1)\<close>\<close>

definition align_down :: "u64 \<Rightarrow> u64 \<Rightarrow> u64" where
  "align_down w unit = w AND NOT (unit - 1)"

lemma is_power_of_two_iff: "is_power_of_two w \<longleftrightarrow> (\<exists>k<64. w = 2 ^ k)"
  by (auto simp: is_power_of_two_def list_ex_iff push_bit_eq_mult)

lemma unat_power_of_two: "k < 64 \<Longrightarrow> unat (2 ^ k :: u64) = 2 ^ k"
proof -
  assume "k < 64"
  then have "(2 :: nat) ^ k < 2 ^ LENGTH(64)" by (intro power_strict_increasing) simp_all
  then have "unat (of_nat (2 ^ k) :: u64) = 2 ^ k"
    unfolding unsigned_of_nat by (metis of_nat_id take_bit_nat_eq_self)
  then show ?thesis by simp
qed

lemma unat_align_down:
  assumes "k < 64"
  shows "unat (align_down w (2 ^ k)) = unat w div 2 ^ k * 2 ^ k"
proof -
  have "w - take_bit k w = w AND NOT (take_bit k w)"
    by (rule disjunctive_diff) (simp add: bit_take_bit_iff)
  also have "\<dots> = w AND NOT (mask k)"
    by (rule bit_eqI) (auto simp: bit_and_iff bit_not_iff bit_take_bit_iff bit_mask_iff)
  also have "\<dots> = align_down w (2 ^ k)" by (simp add: align_down_def mask_eq_exp_minus_1)
  finally have eq: "align_down w (2 ^ k) = w - take_bit k w" by simp
  have low: "unat (take_bit k w) = unat w mod 2 ^ k"
    using unat_power_of_two [OF assms] by (simp add: take_bit_eq_mod unat_mod)
  then have "take_bit k w \<le> w" by (simp add: word_le_nat_alt)
  then have "unat (align_down w (2 ^ k)) = unat w - unat w mod 2 ^ k" using eq low by (simp add: unat_sub)
  then show ?thesis by (simp add: minus_mod_eq_div_mult)
qed

lemma checked_add_fits:
  fixes a b :: u64
  assumes "unat a + unat b < 2 ^ 64"
  obtains c where "checked_add a b = Some c" "unat c = unat a + unat b"
proof
  show "checked_add a b = Some (a + b)" using assms by (simp add: checked_add_Some_iff)
  then show "unat (a + b) = unat a + unat b" by (rule checked_add_unat)
qed

lemma power_of_two_pos: "is_power_of_two q \<Longrightarrow> q \<le> w \<Longrightarrow> 0 < w"
proof -
  assume q: "is_power_of_two q" "q \<le> w"
  then have "0 < unat q" using unat_power_of_two by (auto simp: is_power_of_two_iff)
  then show ?thesis using q(2) by (simp add: word_le_nat_alt word_less_nat_alt)
qed

end
