(* ===== verification/Physical_Frames.thy ===== *)
theory Physical_Frames
  imports Page_Arithmetic
begin

text \<open>
  The physical-frame allocator (\<^verbatim>\<open>kernel/src/memory/physical.rs\<close>): checked physical ranges, the address
  limit, page ranges, and the first-fit allocator over a sorted array of free ranges. An index out of
  the array is the panic \<^const>\<open>None\<close>. The test-only single-frame calls are left out; the in-place constructor
  does the steps of \<open>from_candidates\<close> on static storage.
\<close>

section \<open>Ranges\<close>

abbreviation (input) BASE_PAGE_SIZE :: u64 where "BASE_PAGE_SIZE \<equiv> 4096"

definition is_multiple_of_page :: "u64 \<Rightarrow> bool" where
  "is_multiple_of_page w \<longleftrightarrow> w mod BASE_PAGE_SIZE = 0"

record physical_range =
  pr_physical_start :: u64
  pr_byte_len :: u64

datatype physical_range_error = EmptyRange | RangeAddressOverflow | InvalidAddressLimit

definition physical_range_new :: "u64 \<Rightarrow> u64 \<Rightarrow> (physical_range, physical_range_error) result" where
  "physical_range_new physical_start byte_len =
    (if byte_len = 0 then Err EmptyRange
     else and_then (ok_or RangeAddressOverflow (checked_add physical_start byte_len)) (\<lambda>_.
       Ok \<lparr>pr_physical_start = physical_start, pr_byte_len = byte_len\<rparr>))"

definition physical_range_end :: "physical_range \<Rightarrow> (u64, physical_range_error) result" where
  "physical_range_end r = ok_or RangeAddressOverflow (checked_add (pr_physical_start r) (pr_byte_len r))"

definition physical_range_contains :: "physical_range \<Rightarrow> u64 \<Rightarrow> bool" where
  "physical_range_contains r a =
    (case physical_range_end r of Ok e \<Rightarrow> pr_physical_start r \<le> a \<and> a < e | Err _ \<Rightarrow> False)"

record physical_address_limit =
  pl_exclusive :: u64

definition address_limit_new :: "u64 \<Rightarrow> (physical_address_limit, physical_range_error) result" where
  "address_limit_new exclusive =
    (if exclusive < BASE_PAGE_SIZE \<or> \<not> is_power_of_two exclusive \<or> push_bit 52 1 < exclusive then Err InvalidAddressLimit
     else Ok \<lparr>pl_exclusive = exclusive\<rparr>)"

definition from_address_bits :: "u8 \<Rightarrow> (physical_address_limit, physical_range_error) result" where
  "from_address_bits bits =
    (if \<not> (12 \<le> bits \<and> bits \<le> 52) then Err InvalidAddressLimit else address_limit_new (push_bit (unat bits) 1))"

record page_range =
  pg_start :: u64
  pg_end :: u64

definition EMPTY_RANGE :: page_range where
  "EMPTY_RANGE = \<lparr>pg_start = 0, pg_end = 0\<rparr>"

definition contains_page_range :: "physical_address_limit \<Rightarrow> page_range \<Rightarrow> bool" where
  "contains_page_range limit rng \<longleftrightarrow> pg_end rng \<le> pl_exclusive limit"

datatype physical_memory_error =
  InvalidPageRange | AddressOverflow | OutsidePhysicalLimit | CapacityExceeded | NoFramesAvailable | InvalidFrame | DoubleFree

definition from_page_count :: "u64 \<Rightarrow> u64 \<Rightarrow> physical_address_limit \<Rightarrow> (page_range, physical_memory_error) result" where
  "from_page_count physical_start page_count limit =
    (if page_count = 0 \<or> \<not> is_multiple_of_page physical_start then Err InvalidPageRange
     else and_then (ok_or AddressOverflow (checked_mul page_count BASE_PAGE_SIZE)) (\<lambda>byte_len.
       and_then (ok_or AddressOverflow (checked_add physical_start byte_len)) (\<lambda>e.
       let rng = \<lparr>pg_start = physical_start, pg_end = e\<rparr> in
       if \<not> contains_page_range limit rng then Err OutsidePhysicalLimit else Ok rng)))"

definition page_cover :: "physical_range \<Rightarrow> physical_address_limit \<Rightarrow> (page_range, physical_memory_error) result" where
  "page_cover rng limit =
    and_then (map_err (\<lambda>_. AddressOverflow) (physical_range_end rng)) (\<lambda>e.
      and_then (ok_or AddressOverflow (checked_add e (BASE_PAGE_SIZE - 1))) (\<lambda>padded.
        let page_range = \<lparr>pg_start = align_down (pr_physical_start rng) BASE_PAGE_SIZE, pg_end = align_down padded BASE_PAGE_SIZE\<rparr> in
        if pg_start page_range = pg_end page_range then Err InvalidPageRange
        else if \<not> contains_page_range limit page_range then Err OutsidePhysicalLimit
        else Ok page_range))"

definition page_contains :: "page_range \<Rightarrow> page_range \<Rightarrow> bool" where
  "page_contains a b \<longleftrightarrow> pg_start a \<le> pg_start b \<and> pg_end b \<le> pg_end a"

definition page_overlaps :: "page_range \<Rightarrow> page_range \<Rightarrow> bool" where
  "page_overlaps a b \<longleftrightarrow> pg_start a < pg_end b \<and> pg_start b < pg_end a"

definition page_count :: "page_range \<Rightarrow> u64" where
  "page_count r = (pg_end r - pg_start r) div BASE_PAGE_SIZE"

section \<open>The allocator\<close>

record frame_allocator =
  fa_initial :: "page_range list"
  fa_initial_len :: nat
  fa_free :: "page_range list"
  fa_free_len :: nat
  fa_limit :: physical_address_limit

definition array_set :: "'a list \<Rightarrow> nat \<Rightarrow> 'a \<Rightarrow> 'a list option" where
  "array_set xs i x = (if i < length xs then Some (xs[i := x]) else None)"

text \<open>The slice \<open>xs[..n]\<close>, and an element of the free array.\<close>

definition slice_to :: "'a list \<Rightarrow> nat \<Rightarrow> 'a list option" where
  "slice_to xs n = (if n \<le> length xs then Some (take n xs) else None)"

definition free_at :: "frame_allocator \<Rightarrow> nat \<Rightarrow> page_range option" where
  "free_at fa i = slice_get (fa_free fa) i"

definition free_set :: "frame_allocator \<Rightarrow> nat \<Rightarrow> page_range \<Rightarrow> frame_allocator option" where
  "free_set fa i r = do { free \<leftarrow> array_set (fa_free fa) i r; Some (fa\<lparr>fa_free := free\<rparr>) }"

definition validate_candidate :: "frame_allocator \<Rightarrow> page_range \<Rightarrow> (unit, physical_memory_error) result" where
  "validate_candidate fa rng =
    (if pg_end rng \<le> pg_start rng \<or> \<not> is_multiple_of_page (pg_start rng) \<or> \<not> is_multiple_of_page (pg_end rng)
     then Err InvalidPageRange
     else if \<not> contains_page_range (fa_limit fa) rng then Err OutsidePhysicalLimit
     else Ok ())"

text \<open>The loop of \<open>shift_right\<close>: the positions \<open>index + k - 1\<close> down to \<open>index\<close>.\<close>

primrec shift_loop :: "nat \<Rightarrow> nat \<Rightarrow> page_range list \<Rightarrow> page_range list option" where
  "shift_loop index 0 free = Some free"
| "shift_loop index (Suc k) free =
    do { r \<leftarrow> slice_get free (index + k);
         free' \<leftarrow> array_set free (index + k + 1) r;
         shift_loop index k free' }"

definition shift_right :: "frame_allocator \<Rightarrow> nat \<Rightarrow> frame_allocator option" where
  "shift_right fa index = do { free \<leftarrow> shift_loop index (fa_free_len fa - index) (fa_free fa); Some (fa\<lparr>fa_free := free\<rparr>) }"

text \<open>The loop of \<open>remove_free\<close>: \<open>k\<close> positions from \<open>position\<close> on.\<close>

primrec remove_loop :: "nat \<Rightarrow> nat \<Rightarrow> page_range list \<Rightarrow> page_range list option" where
  "remove_loop pos 0 free = Some free"
| "remove_loop pos (Suc k) free =
    do { r \<leftarrow> slice_get free (pos + 1);
         free' \<leftarrow> array_set free pos r;
         remove_loop (pos + 1) k free' }"

definition remove_free :: "frame_allocator \<Rightarrow> nat \<Rightarrow> frame_allocator option" where
  "remove_free fa index =
    do { free_len \<leftarrow> checked_sub_usize (fa_free_len fa) 1;
         free \<leftarrow> remove_loop index (free_len - index) (fa_free fa);
         free' \<leftarrow> array_set free free_len EMPTY_RANGE;
         Some (fa\<lparr>fa_free := free', fa_free_len := free_len\<rparr>) }"

text \<open>The search loop of \<open>insert_free\<close>: the first free range that does not start below \<open>start\<close>.\<close>

function insertion_loop :: "frame_allocator \<Rightarrow> u64 \<Rightarrow> nat \<Rightarrow> nat option" where
  "insertion_loop fa start insertion =
    (if insertion < fa_free_len fa
     then do { r \<leftarrow> free_at fa insertion;
               if pg_start r < start then insertion_loop fa start (insertion + 1) else Some insertion }
     else Some insertion)"
  by pat_completeness auto
termination by (relation "measure (\<lambda>(fa, start, i). fa_free_len fa - i)") auto

declare insertion_loop.simps [simp del]

text \<open>A neighbour of the insertion point: the element at \<open>i\<close> where the guard \<open>present\<close> lets the code read it.\<close>

definition neighbour :: "frame_allocator \<Rightarrow> bool \<Rightarrow> nat \<Rightarrow> page_range option option" where
  "neighbour fa present i = (if present then map_option Some (free_at fa i) else Some None)"

text \<open>A range with a free slot of its own.\<close>

definition insert_new ::
  "frame_allocator \<Rightarrow> nat \<Rightarrow> page_range \<Rightarrow> ((unit, physical_memory_error) result \<times> frame_allocator) option" where
  "insert_new fa insertion rng =
    (if fa_free_len fa = length (fa_free fa) then Some (Err CapacityExceeded, fa)
     else do {
       fa1 \<leftarrow> shift_right fa insertion;
       fa2 \<leftarrow> free_set fa1 insertion rng;
       Some (Ok (), fa2\<lparr>fa_free_len := fa_free_len fa2 + 1\<rparr>) })"

text \<open>A range that continues its left neighbour, and closes the gap to the right one when it ends there.\<close>

definition merge_left ::
  "frame_allocator \<Rightarrow> nat \<Rightarrow> page_range \<Rightarrow> page_range option \<Rightarrow> page_range \<Rightarrow>
   ((unit, physical_memory_error) result \<times> frame_allocator) option" where
  "merge_left fa insertion l right rng =
    do { fa1 \<leftarrow> free_set fa (insertion - 1) (l\<lparr>pg_end := pg_end rng\<rparr>);
         (case right of
            Some r \<Rightarrow>
              if pg_end rng = pg_start r
              then do { fa2 \<leftarrow> free_set fa1 (insertion - 1) (l\<lparr>pg_end := pg_end r\<rparr>);
                        fa3 \<leftarrow> remove_free fa2 insertion;
                        Some (Ok (), fa3) }
              else Some (Ok (), fa1)
          | None \<Rightarrow> Some (Ok (), fa1)) }"

text \<open>The tail of \<open>insert_free\<close>, reached when the range does not continue its left neighbour.\<close>

definition insert_apart ::
  "frame_allocator \<Rightarrow> nat \<Rightarrow> page_range option \<Rightarrow> page_range \<Rightarrow> ((unit, physical_memory_error) result \<times> frame_allocator) option" where
  "insert_apart fa insertion right rng =
    (case right of
       Some r \<Rightarrow>
         if pg_end rng = pg_start r
         then do { fa' \<leftarrow> free_set fa insertion (r\<lparr>pg_start := pg_start rng\<rparr>); Some (Ok (), fa') }
         else insert_new fa insertion rng
     | None \<Rightarrow> insert_new fa insertion rng)"

definition insert_free ::
  "frame_allocator \<Rightarrow> page_range \<Rightarrow> ((unit, physical_memory_error) result \<times> frame_allocator) option" where
  "insert_free fa rng =
    (case validate_candidate fa rng of
       Err e \<Rightarrow> Some (Err e, fa)
     | Ok _ \<Rightarrow>
       if pg_start rng = pg_end rng then Some (Ok (), fa)
       else do {
         insertion \<leftarrow> insertion_loop fa (pg_start rng) 0;
         left \<leftarrow> neighbour fa (0 < insertion) (insertion - 1);
         right \<leftarrow> neighbour fa (insertion < fa_free_len fa) insertion;
         if (case left of Some l \<Rightarrow> pg_start rng < pg_end l | None \<Rightarrow> False) then Some (Err DoubleFree, fa)
         else if (case right of Some r \<Rightarrow> pg_start r < pg_end rng | None \<Rightarrow> False) then Some (Err DoubleFree, fa)
         else (case left of
             Some l \<Rightarrow>
               if pg_end l = pg_start rng then merge_left fa insertion l right rng
               else insert_apart fa insertion right rng
           | None \<Rightarrow> insert_apart fa insertion right rng) })"

section \<open>Reservations\<close>

lemma remove_free_len: "remove_free fa index = Some fa' \<Longrightarrow> fa_free_len fa' = fa_free_len fa - 1 \<and> 0 < fa_free_len fa"
  by (auto simp: remove_free_def checked_sub_usize_def bind_eq_Some_conv split: if_splits)

lemma shift_right_len: "shift_right fa index = Some fa' \<Longrightarrow> fa_free_len fa' = fa_free_len fa"
  by (auto simp: shift_right_def bind_eq_Some_conv)

lemma free_set_len: "free_set fa i r = Some fa' \<Longrightarrow> fa_free_len fa' = fa_free_len fa"
  by (auto simp: free_set_def bind_eq_Some_conv)

text \<open>
  One round of the loop of \<open>subtract\<close>: the code's four cases, with the index of the next round, or the
  error that ends the loop.
\<close>

definition split_free :: "frame_allocator \<Rightarrow> nat \<Rightarrow> page_range \<Rightarrow> page_range \<Rightarrow> frame_allocator option" where
  "split_free fa index free reservation =
    do { fa1 \<leftarrow> shift_right fa (index + 1);
         fa2 \<leftarrow> free_set fa1 index \<lparr>pg_start = pg_start free, pg_end = pg_start reservation\<rparr>;
         fa3 \<leftarrow> free_set fa2 (index + 1) \<lparr>pg_start = pg_end reservation, pg_end = pg_end free\<rparr>;
         Some (fa3\<lparr>fa_free_len := fa_free_len fa3 + 1\<rparr>) }"

lemma split_free_len: "split_free fa index free reservation = Some fa' \<Longrightarrow> fa_free_len fa' = fa_free_len fa + 1"
  by (auto simp: split_free_def bind_eq_Some_conv dest!: free_set_len shift_right_len)

function subtract_loop ::
  "frame_allocator \<Rightarrow> nat \<Rightarrow> page_range \<Rightarrow> ((unit, physical_memory_error) result \<times> frame_allocator) option" where
  "subtract_loop fa index reservation =
    (if index < fa_free_len fa
     then do {
       free \<leftarrow> free_at fa index;
       if \<not> page_overlaps free reservation then subtract_loop fa (index + 1) reservation
       else if pg_start reservation \<le> pg_start free \<and> pg_end free \<le> pg_end reservation
       then do { fa' \<leftarrow> remove_free fa index; subtract_loop fa' index reservation }
       else if pg_start free < pg_start reservation \<and> pg_end reservation < pg_end free
       then if fa_free_len fa = length (fa_free fa) then Some (Err CapacityExceeded, fa)
            else do { fa' \<leftarrow> split_free fa index free reservation; subtract_loop fa' (index + 2) reservation }
       else do {
         fa' \<leftarrow> free_set fa index
           (if pg_start reservation \<le> pg_start free then free\<lparr>pg_start := pg_end reservation\<rparr>
            else free\<lparr>pg_end := pg_start reservation\<rparr>);
         subtract_loop fa' (index + 1) reservation } }
     else Some (Ok (), fa))"
  by pat_completeness auto
termination
  by (relation "measure (\<lambda>(fa, index, r). fa_free_len fa - index)")
    (auto dest: remove_free_len split_free_len free_set_len)

declare subtract_loop.simps [simp del]

definition subtract ::
  "frame_allocator \<Rightarrow> page_range \<Rightarrow> ((unit, physical_memory_error) result \<times> frame_allocator) option" where
  "subtract fa reservation = subtract_loop fa 0 reservation"

section \<open>Construction\<close>

primrec insert_candidates ::
  "page_range list \<Rightarrow> frame_allocator \<Rightarrow> ((unit, physical_memory_error) result \<times> frame_allocator) option" where
  "insert_candidates [] fa = Some (Ok (), fa)"
| "insert_candidates (c # cs) fa =
    (case validate_candidate fa c of
       Err e \<Rightarrow> Some (Err e, fa)
     | Ok _ \<Rightarrow> do { (res, fa') \<leftarrow> insert_free fa c;
                     case res of Err e \<Rightarrow> Some (Err e, fa') | Ok _ \<Rightarrow> insert_candidates cs fa' })"

primrec subtract_all ::
  "physical_range list \<Rightarrow> frame_allocator \<Rightarrow> ((unit, physical_memory_error) result \<times> frame_allocator) option" where
  "subtract_all [] fa = Some (Ok (), fa)"
| "subtract_all (r # rs) fa =
    (case page_cover r (fa_limit fa) of
       Err e \<Rightarrow> Some (Err e, fa)
     | Ok covered \<Rightarrow> do { (res, fa') \<leftarrow> subtract fa covered;
                           case res of Err e \<Rightarrow> Some (Err e, fa') | Ok _ \<Rightarrow> subtract_all rs fa' })"

definition copy_initial :: "frame_allocator \<Rightarrow> frame_allocator option" where
  "copy_initial fa =
    do { free \<leftarrow> slice_to (fa_free fa) (fa_free_len fa);
         _ \<leftarrow> slice_to (fa_initial fa) (fa_free_len fa);
         Some (fa\<lparr>fa_initial := free @ drop (fa_free_len fa) (fa_initial fa), fa_initial_len := fa_free_len fa\<rparr>) }"

definition from_candidates ::
  "nat \<Rightarrow> page_range list \<Rightarrow> physical_address_limit \<Rightarrow> physical_range list \<Rightarrow>
   (frame_allocator, physical_memory_error) result option" where
  "from_candidates capacity candidates limit reservations =
    do { (res, fa) \<leftarrow> insert_candidates candidates
           \<lparr>fa_initial = replicate capacity EMPTY_RANGE, fa_initial_len = 0, fa_free = replicate capacity EMPTY_RANGE,
            fa_free_len = 0, fa_limit = limit\<rparr>;
         case res of Err e \<Rightarrow> Some (Err e) | Ok _ \<Rightarrow> do {
         (res, fa) \<leftarrow> subtract fa \<lparr>pg_start = 0, pg_end = BASE_PAGE_SIZE\<rparr>;
         case res of Err e \<Rightarrow> Some (Err e) | Ok _ \<Rightarrow> do {
         (res, fa) \<leftarrow> subtract_all reservations fa;
         case res of Err e \<Rightarrow> Some (Err e) | Ok _ \<Rightarrow> do {
         fa \<leftarrow> copy_initial fa;
         Some (Ok fa) } } } }"

section \<open>Allocation and release\<close>

text \<open>The end both allocation calls share: the run is cut off the front of the range at \<open>index\<close>.\<close>

definition take_front ::
  "frame_allocator \<Rightarrow> nat \<Rightarrow> u64 \<Rightarrow> ((page_range, physical_memory_error) result \<times> frame_allocator) option" where
  "take_front fa index byte_len =
    do { r \<leftarrow> free_at fa index;
         case checked_add (pg_start r) byte_len of
           None \<Rightarrow> Some (Err AddressOverflow, fa)
         | Some e \<Rightarrow> do {
             fa' \<leftarrow> free_set fa index (r\<lparr>pg_start := e\<rparr>);
             fa'' \<leftarrow> (if e = pg_end r then remove_free fa' index else Some fa');
             Some (Ok \<lparr>pg_start = pg_start r, pg_end = e\<rparr>, fa'') } }"

definition allocate_run ::
  "frame_allocator \<Rightarrow> u64 \<Rightarrow> ((page_range, physical_memory_error) result \<times> frame_allocator) option" where
  "allocate_run fa pages =
    (if pages = 0 then Some (Err InvalidPageRange, fa)
     else case checked_mul pages BASE_PAGE_SIZE of
       None \<Rightarrow> Some (Err AddressOverflow, fa)
     | Some byte_len \<Rightarrow> do {
         free \<leftarrow> slice_to (fa_free fa) (fa_free_len fa);
         case position (\<lambda>rng. byte_len \<le> pg_end rng - pg_start rng) free of
           None \<Rightarrow> Some (Err NoFramesAvailable, fa)
         | Some index \<Rightarrow> take_front fa index byte_len })"

definition allocate_run_below ::
  "frame_allocator \<Rightarrow> u64 \<Rightarrow> u64 \<Rightarrow> ((page_range, physical_memory_error) result \<times> frame_allocator) option" where
  "allocate_run_below fa pages exclusive_ceiling =
    (if pages = 0 then Some (Err InvalidPageRange, fa)
     else case checked_mul pages BASE_PAGE_SIZE of
       None \<Rightarrow> Some (Err AddressOverflow, fa)
     | Some byte_len \<Rightarrow> do {
         let ceiling = min exclusive_ceiling (pl_exclusive (fa_limit fa));
         free \<leftarrow> slice_to (fa_free fa) (fa_free_len fa);
         case position (\<lambda>rng. case checked_sub (min (pg_end rng) ceiling) (pg_start rng) of
                None \<Rightarrow> False | Some available \<Rightarrow> byte_len \<le> available) free of
           None \<Rightarrow> Some (Err NoFramesAvailable, fa)
         | Some index \<Rightarrow> take_front fa index byte_len })"

definition contains_initial :: "frame_allocator \<Rightarrow> page_range \<Rightarrow> bool option" where
  "contains_initial fa rng =
    map_option (list_ex (\<lambda>i. page_contains i rng)) (slice_to (fa_initial fa) (fa_initial_len fa))"

definition overlaps_initial :: "frame_allocator \<Rightarrow> page_range \<Rightarrow> bool option" where
  "overlaps_initial fa rng =
    map_option (list_ex (\<lambda>i. page_overlaps i rng)) (slice_to (fa_initial fa) (fa_initial_len fa))"

definition overlaps_free :: "frame_allocator \<Rightarrow> page_range \<Rightarrow> bool option" where
  "overlaps_free fa rng =
    map_option (list_ex (\<lambda>f. page_overlaps f rng)) (slice_to (fa_free fa) (fa_free_len fa))"

definition free_run ::
  "frame_allocator \<Rightarrow> page_range \<Rightarrow> ((unit, physical_memory_error) result \<times> frame_allocator) option" where
  "free_run fa rng =
    (case validate_candidate fa rng of
       Err e \<Rightarrow> Some (Err e, fa)
     | Ok _ \<Rightarrow> do {
         known \<leftarrow> contains_initial fa rng;
         if \<not> known then Some (Err InvalidFrame, fa)
         else do {
           double \<leftarrow> overlaps_free fa rng;
           if double then Some (Err DoubleFree, fa) else insert_free fa rng } })"

definition total_pages :: "page_range list \<Rightarrow> u64" where
  "total_pages ranges = fold (\<lambda>rng total. total + page_count rng) ranges 0"

definition available_frames :: "frame_allocator \<Rightarrow> u64 option" where
  "available_frames fa = map_option total_pages (slice_to (fa_free fa) (fa_free_len fa))"

definition initial_frames :: "frame_allocator \<Rightarrow> u64 option" where
  "initial_frames fa = map_option total_pages (slice_to (fa_initial fa) (fa_initial_len fa))"

end
