(* ===== verification/Frame_Ranges.thy ===== *)
theory Frame_Ranges
  imports Physical_Frames
begin

text \<open>
  What the free array of the frame allocator means: the array operations as operations on the list of
  live ranges, the invariant of that list, and the set of byte addresses it stands for.
\<close>

section \<open>The array operations on the list of free ranges\<close>

abbreviation free_ranges :: "frame_allocator \<Rightarrow> page_range list" where
  "free_ranges fa \<equiv> take (fa_free_len fa) (fa_free fa)"

abbreviation initial_ranges :: "frame_allocator \<Rightarrow> page_range list" where
  "initial_ranges fa \<equiv> take (fa_initial_len fa) (fa_initial fa)"

definition arrays_ok :: "frame_allocator \<Rightarrow> bool" where
  "arrays_ok fa \<longleftrightarrow> fa_free_len fa \<le> length (fa_free fa) \<and> fa_initial_len fa \<le> length (fa_initial fa)
    \<and> length (fa_initial fa) = length (fa_free fa)"

text \<open>\<open>fa'\<close> is \<open>fa\<close> with the free ranges \<open>rs\<close>.\<close>

definition holds_ranges :: "frame_allocator \<Rightarrow> frame_allocator \<Rightarrow> page_range list \<Rightarrow> bool" where
  "holds_ranges fa fa' rs \<longleftrightarrow> arrays_ok fa' \<and> free_ranges fa' = rs \<and> fa_limit fa' = fa_limit fa
    \<and> fa_initial fa' = fa_initial fa \<and> fa_initial_len fa' = fa_initial_len fa \<and> length (fa_free fa') = length (fa_free fa)"

lemma holds_ranges_refl: "arrays_ok fa \<Longrightarrow> holds_ranges fa fa (free_ranges fa)"
  by (simp add: holds_ranges_def)

lemma holds_ranges_trans: "holds_ranges fa fa' rs \<Longrightarrow> holds_ranges fa' fa'' rs' \<Longrightarrow> holds_ranges fa fa'' rs'"
  by (simp add: holds_ranges_def)

lemma remove_loop_eq:
  "pos + k < length free \<Longrightarrow>
    remove_loop pos k free = Some (take pos free @ take k (drop (Suc pos) free) @ drop (pos + k) free)"
proof (induction k arbitrary: pos free)
  case 0
  then show ?case by simp
next
  case (Suc k)
  let ?free = "free[pos := free ! Suc pos]"
  have "remove_loop pos (Suc k) free = remove_loop (Suc pos) k ?free"
    using Suc.prems by (simp add: array_set_def)
  also have "\<dots> = Some (take (Suc pos) ?free @ take k (drop (Suc (Suc pos)) ?free) @ drop (Suc pos + k) ?free)"
    using Suc.prems by (intro Suc.IH) simp
  finally have loop: "remove_loop pos (Suc k) free
    = Some (take (Suc pos) ?free @ take k (drop (Suc (Suc pos)) ?free) @ drop (Suc pos + k) ?free)" .
  have "take (Suc pos) ?free = take pos free @ [free ! Suc pos]"
    using Suc.prems by (simp add: take_Suc_conv_app_nth)
  moreover have "take (Suc k) (drop (Suc pos) free) = free ! Suc pos # take k (drop (Suc (Suc pos)) free)"
    using Suc.prems by (simp add: Cons_nth_drop_Suc [symmetric])
  ultimately show ?case using loop by simp
qed

lemma shift_loop_eq:
  "index + k < length free \<Longrightarrow>
    shift_loop index k free = Some (take (Suc index) free @ take k (drop index free) @ drop (Suc (index + k)) free)"
proof (induction k arbitrary: free)
  case 0
  then show ?case by simp
next
  case (Suc k)
  let ?free = "free[Suc (index + k) := free ! (index + k)]"
  have "shift_loop index (Suc k) free = shift_loop index k ?free"
    using Suc.prems by (simp add: array_set_def)
  also have "\<dots> = Some (take (Suc index) ?free @ take k (drop index ?free) @ drop (Suc (index + k)) ?free)"
    using Suc.prems by (intro Suc.IH) simp
  finally have loop: "shift_loop index (Suc k) free
    = Some (take (Suc index) ?free @ take k (drop index ?free) @ drop (Suc (index + k)) ?free)" .
  have "take k (drop index ?free) = take k (drop index free)" by (simp add: drop_update_swap)
  moreover have "take (Suc index) ?free = take (Suc index) free" by simp
  moreover have "drop (Suc (index + k)) ?free = free ! (index + k) # drop (Suc (index + Suc k)) free"
    using Suc.prems by (simp add: Cons_nth_drop_Suc [symmetric])
  moreover have "take (Suc k) (drop index free) = take k (drop index free) @ [free ! (index + k)]"
    using Suc.prems by (simp add: take_Suc_conv_app_nth)
  ultimately show ?case using loop by simp
qed

lemma free_len_split: "arrays_ok fa \<Longrightarrow> free_ranges fa = rs \<Longrightarrow> fa_free_len fa = length rs"
  by (auto simp: arrays_ok_def)

lemma free_at_split: "free_ranges fa = as @ x # bs \<Longrightarrow> free_at fa (length as) = Some x"
proof -
  assume *: "free_ranges fa = as @ x # bs"
  then have "length as < length (free_ranges fa)" by simp
  moreover have "free_ranges fa ! length as = x" using * by simp
  ultimately show ?thesis by (simp add: free_at_def)
qed

lemma free_set_split:
  assumes "arrays_ok fa" "free_ranges fa = as @ x # bs"
  shows "\<exists>fa'. free_set fa (length as) y = Some fa' \<and> holds_ranges fa fa' (as @ y # bs)"
proof -
  have "length as < fa_free_len fa" using free_len_split [OF assms] by simp
  moreover have "take (fa_free_len fa) ((fa_free fa)[length as := y]) = as @ y # bs"
    using assms(2) by (simp add: take_update_swap)
  ultimately show ?thesis
    using assms(1) by (auto simp: free_set_def array_set_def holds_ranges_def arrays_ok_def)
qed

lemma remove_free_split:
  assumes "arrays_ok fa" "free_ranges fa = as @ x # bs"
  shows "\<exists>fa'. remove_free fa (length as) = Some fa' \<and> holds_ranges fa fa' (as @ bs)"
proof -
  obtain n where n: "fa_free_len fa = Suc n" "n = length as + length bs"
    using free_len_split [OF assms] by simp
  have len: "n < length (fa_free fa)" using assms(1) n(1) by (simp add: arrays_ok_def)
  have free: "fa_free fa = (as @ x # bs) @ drop (Suc n) (fa_free fa)"
    using assms(2) n(1) by (metis append_take_drop_id)
  have loop: "remove_loop (length as) (n - length as) (fa_free fa)
      = Some (take (length as) (fa_free fa) @ take (length bs) (drop (Suc (length as)) (fa_free fa)) @ drop n (fa_free fa))"
    using remove_loop_eq [of "length as" "n - length as" "fa_free fa"] len n(2) by simp
  have "take (length as) (fa_free fa) @ take (length bs) (drop (Suc (length as)) (fa_free fa)) = as @ bs"
    by (subst (1 2) free) simp
  then have eq: "remove_loop (length as) (n - length as) (fa_free fa) = Some ((as @ bs) @ drop n (fa_free fa))"
    using loop by (metis append_assoc)
  have "take n (((as @ bs) @ drop n (fa_free fa))[n := EMPTY_RANGE]) = as @ bs" using n(2) by simp
  then show ?thesis
    using assms(1) eq n len
    by (auto simp: remove_free_def checked_sub_usize_def array_set_def holds_ranges_def arrays_ok_def)
qed

lemma shift_right_split:
  assumes "arrays_ok fa" "free_ranges fa = as @ bs" "fa_free_len fa < length (fa_free fa)"
  shows "\<exists>fa'. shift_right fa (length as) = Some fa' \<and> fa_free_len fa' = fa_free_len fa \<and> fa_limit fa' = fa_limit fa
    \<and> fa_initial fa' = fa_initial fa \<and> fa_initial_len fa' = fa_initial_len fa \<and> length (fa_free fa') = length (fa_free fa)
    \<and> (\<exists>y. take (Suc (fa_free_len fa)) (fa_free fa') = as @ y # bs)"
proof -
  let ?n = "fa_free_len fa" and ?f = "fa_free fa"
  have n: "?n = length as + length bs" using free_len_split [OF assms(1,2)] by simp
  have free: "?f = (as @ bs) @ drop ?n ?f" using assms(2) by (metis append_take_drop_id)
  have loop: "shift_loop (length as) (?n - length as) ?f
      = Some (take (Suc (length as)) ?f @ take (length bs) (drop (length as) ?f) @ drop (Suc ?n) ?f)"
    using shift_loop_eq [of "length as" "?n - length as" ?f] assms(3) n by simp
  have mid: "take (length bs) (drop (length as) ?f) = bs" by (subst free) simp
  have front: "take (Suc (length as)) ?f = as @ [?f ! length as]"
    using assms(3) n by (subst take_Suc_conv_app_nth) (simp, subst (1) free, simp)
  show ?thesis using loop assms(3) n unfolding shift_right_def mid front by auto
qed

lemma open_slot:
  assumes "arrays_ok fa" "free_ranges fa = as @ bs" "fa_free_len fa < length (fa_free fa)"
  shows "\<exists>fa1 fa2. shift_right fa (length as) = Some fa1 \<and> free_set fa1 (length as) r = Some fa2
    \<and> holds_ranges fa (fa2\<lparr>fa_free_len := fa_free_len fa2 + 1\<rparr>) (as @ r # bs)"
proof -
  obtain fa1 y where fa1: "shift_right fa (length as) = Some fa1" "fa_free_len fa1 = fa_free_len fa"
      "fa_limit fa1 = fa_limit fa" "fa_initial fa1 = fa_initial fa" "fa_initial_len fa1 = fa_initial_len fa"
      "length (fa_free fa1) = length (fa_free fa)" "take (Suc (fa_free_len fa)) (fa_free fa1) = as @ y # bs"
    using shift_right_split [OF assms] by blast
  have n: "fa_free_len fa = length as + length bs" using free_len_split [OF assms(1,2)] by simp
  have "take (Suc (fa_free_len fa)) ((fa_free fa1)[length as := r]) = as @ r # bs"
    using fa1(7) by (simp add: take_update_swap)
  then show ?thesis
    using fa1(1-6) assms(1,3) n by (auto simp: free_set_def array_set_def holds_ranges_def arrays_ok_def)
qed

lemma insert_new_result:
  assumes "arrays_ok fa" "free_ranges fa = as @ bs"
  shows "insert_new fa (length as) r = Some (Err CapacityExceeded, fa) \<and> fa_free_len fa = length (fa_free fa)
    \<or> (\<exists>fa'. insert_new fa (length as) r = Some (Ok (), fa') \<and> holds_ranges fa fa' (as @ r # bs))"
proof (cases "fa_free_len fa = length (fa_free fa)")
  case True
  then show ?thesis by (simp add: insert_new_def)
next
  case False
  then have "fa_free_len fa < length (fa_free fa)" using assms(1) by (simp add: arrays_ok_def)
  then show ?thesis using open_slot [OF assms, of r] False by (auto simp: insert_new_def)
qed

lemma split_free_split:
  assumes "arrays_ok fa" "free_ranges fa = as @ x # bs" "fa_free_len fa < length (fa_free fa)"
  shows "\<exists>fa'. split_free fa (length as) x r = Some fa'
    \<and> holds_ranges fa fa' (as @ \<lparr>pg_start = pg_start x, pg_end = pg_start r\<rparr> # \<lparr>pg_start = pg_end r, pg_end = pg_end x\<rparr> # bs)"
proof -
  have eq: "free_ranges fa = (as @ [x]) @ bs" using assms(2) by simp
  obtain fa1 y where fa1: "shift_right fa (Suc (length as)) = Some fa1" "fa_free_len fa1 = fa_free_len fa"
      "fa_limit fa1 = fa_limit fa" "fa_initial fa1 = fa_initial fa" "fa_initial_len fa1 = fa_initial_len fa"
      "length (fa_free fa1) = length (fa_free fa)" "take (Suc (fa_free_len fa)) (fa_free fa1) = as @ x # y # bs"
    using shift_right_split [OF assms(1) eq assms(3)] by auto
  have n: "fa_free_len fa = Suc (length as + length bs)" using free_len_split [OF assms(1,2)] by simp
  have "take (Suc (fa_free_len fa)) ((fa_free fa1)[length as := u, Suc (length as) := v]) = as @ u # v # bs" for u v
    using fa1(7) by (simp add: take_update_swap list_update_append)
  then show ?thesis
    using fa1(1-6) assms(1,3) n by (auto simp: split_free_def free_set_def array_set_def holds_ranges_def arrays_ok_def)
qed

lemma insertion_loop_from:
  assumes "arrays_ok fa" "free_ranges fa = as @ bs"
  shows "insertion_loop fa start (length as) = Some (length as + length (takeWhile (\<lambda>r. pg_start r < start) bs))"
  using assms
proof (induction bs arbitrary: as)
  case Nil
  have "fa_free_len fa = length as" using free_len_split [OF Nil.prems] by simp
  then show ?case by (simp add: insertion_loop.simps [of fa start "length as"])
next
  case (Cons b bs)
  have "fa_free_len fa = length (as @ b # bs)" by (rule free_len_split [OF Cons.prems])
  moreover have "free_at fa (length as) = Some b" using Cons.prems(2) by (rule free_at_split)
  moreover have "insertion_loop fa start (Suc (length as))
      = Some (Suc (length as) + length (takeWhile (\<lambda>r. pg_start r < start) bs))"
    using Cons.IH [of "as @ [b]"] Cons.prems by simp
  ultimately show ?case by (simp add: insertion_loop.simps [of fa start "length as"])
qed

section \<open>The invariant and the set of free addresses\<close>

definition page_ok :: "physical_address_limit \<Rightarrow> page_range \<Rightarrow> bool" where
  "page_ok limit r \<longleftrightarrow> pg_start r < pg_end r \<and> is_multiple_of_page (pg_start r) \<and> is_multiple_of_page (pg_end r)
    \<and> pg_end r \<le> pl_exclusive limit"

text \<open>Sorted, disjoint and with a gap between neighbours, so that no two free ranges could be one.\<close>

definition ranges_ok :: "physical_address_limit \<Rightarrow> page_range list \<Rightarrow> bool" where
  "ranges_ok limit rs \<longleftrightarrow> sorted_wrt (\<lambda>a b. pg_end a < pg_start b) rs \<and> list_all (page_ok limit) rs"

definition bytes :: "page_range \<Rightarrow> u64 set" where
  "bytes r = {a. pg_start r \<le> a \<and> a < pg_end r}"

definition bytes_of :: "page_range list \<Rightarrow> u64 set" where
  "bytes_of rs = \<Union> (bytes ` set rs)"

lemma bytes_of_simps [simp]:
  "bytes_of [] = {}" "bytes_of (r # rs) = bytes r \<union> bytes_of rs" "bytes_of (rs @ ss) = bytes_of rs \<union> bytes_of ss"
  by (auto simp: bytes_of_def)

lemma validate_candidate_Ok_iff: "validate_candidate fa r = Ok () \<longleftrightarrow> page_ok (fa_limit fa) r"
  by (auto simp: validate_candidate_def page_ok_def contains_page_range_def)

lemma ranges_ok_append:
  "ranges_ok limit (as @ bs) \<longleftrightarrow> ranges_ok limit as \<and> ranges_ok limit bs
    \<and> (\<forall>a\<in>set as. \<forall>b\<in>set bs. pg_end a < pg_start b)"
  by (auto simp: ranges_ok_def sorted_wrt_append)

lemma ranges_ok_Cons:
  "ranges_ok limit (r # rs) \<longleftrightarrow> page_ok limit r \<and> ranges_ok limit rs \<and> (\<forall>b\<in>set rs. pg_end r < pg_start b)"
  by (auto simp: ranges_ok_def)

lemma ranges_ok_Nil [simp]: "ranges_ok limit []"
  by (simp add: ranges_ok_def)

lemma ranges_ok_in: "ranges_ok limit rs \<Longrightarrow> r \<in> set rs \<Longrightarrow> page_ok limit r"
  by (auto simp: ranges_ok_def list_all_iff)

end
