(* ===== verification/Frame_Operations.thy ===== *)
theory Frame_Operations
  imports Frame_Ranges
begin

text \<open>
  What the operations of the frame allocator do to the set of free addresses: insertion adds a range
  and merges it, subtraction removes one, allocation takes the lowest run that fits.
\<close>

section \<open>Sets of addresses\<close>

lemma bytes_join:
  "pg_start l \<le> pg_end l \<Longrightarrow> pg_end l = pg_start r \<Longrightarrow> pg_start r \<le> pg_end r \<Longrightarrow>
    bytes (l\<lparr>pg_end := pg_end r\<rparr>) = bytes l \<union> bytes r"
  by (auto simp: bytes_def)

lemma bytes_join_right:
  "pg_start l \<le> pg_end l \<Longrightarrow> pg_end l = pg_start r \<Longrightarrow> pg_start r \<le> pg_end r \<Longrightarrow>
    bytes (r\<lparr>pg_start := pg_start l\<rparr>) = bytes l \<union> bytes r"
  by (auto simp: bytes_def)

lemma bytes_before: "pg_end a \<le> pg_start b \<Longrightarrow> bytes a \<inter> bytes b = {}"
  by (auto simp: bytes_def)

lemma bytes_of_before: "\<forall>a\<in>set as. pg_end a \<le> pg_start r \<Longrightarrow> bytes r \<inter> bytes_of as = {}"
  by (fastforce simp: bytes_def bytes_of_def)

lemma bytes_of_after: "\<forall>b\<in>set bs. pg_end r \<le> pg_start b \<Longrightarrow> bytes r \<inter> bytes_of bs = {}"
  by (fastforce simp: bytes_def bytes_of_def)

lemma bytes_start: "pg_start r < pg_end r \<Longrightarrow> pg_start r \<in> bytes r"
  by (simp add: bytes_def)

lemma bytes_subset_iff: "pg_start r < pg_end r \<Longrightarrow> bytes r \<subseteq> bytes s \<longleftrightarrow> page_contains s r"
proof
  assume r: "pg_start r < pg_end r" and sub: "bytes r \<subseteq> bytes s"
  have start: "pg_start s \<le> pg_start r" "pg_start r < pg_end s" using sub bytes_start [OF r] by (auto simp: bytes_def)
  have "\<not> pg_end s < pg_end r"
  proof
    assume "pg_end s < pg_end r"
    then have "pg_end s \<in> bytes r" using start by (simp add: bytes_def)
    then show False using sub by (auto simp: bytes_def)
  qed
  then show "page_contains s r" using start by (simp add: page_contains_def)
next
  assume "page_contains s r"
  then show "bytes r \<subseteq> bytes s" by (auto simp: bytes_def page_contains_def)
qed

lemma page_overlaps_iff:
  "pg_start a < pg_end a \<Longrightarrow> pg_start b < pg_end b \<Longrightarrow> page_overlaps a b \<longleftrightarrow> bytes a \<inter> bytes b \<noteq> {}"
proof
  assume ne: "pg_start a < pg_end a" "pg_start b < pg_end b" and "page_overlaps a b"
  then have "max (pg_start a) (pg_start b) \<in> bytes a \<inter> bytes b" by (auto simp: bytes_def page_overlaps_def max_def)
  then show "bytes a \<inter> bytes b \<noteq> {}" by blast
qed (auto simp: bytes_def page_overlaps_def)

section \<open>Insertion\<close>

definition insert_outcome ::
  "frame_allocator \<Rightarrow> page_range \<Rightarrow> ((unit, physical_memory_error) result \<times> frame_allocator) option \<Rightarrow> bool" where
  "insert_outcome fa r out \<longleftrightarrow>
    (\<exists>fa' rs. out = Some (Ok (), fa') \<and> holds_ranges fa fa' rs \<and> ranges_ok (fa_limit fa) rs
       \<and> bytes_of rs = bytes_of (free_ranges fa) \<union> bytes r \<and> bytes r \<inter> bytes_of (free_ranges fa) = {})
    \<or> out = Some (Err DoubleFree, fa) \<and> bytes r \<inter> bytes_of (free_ranges fa) \<noteq> {}
    \<or> out = Some (Err CapacityExceeded, fa) \<and> bytes r \<inter> bytes_of (free_ranges fa) = {} \<and> fa_free_len fa = length (fa_free fa)"

lemma insert_outcome_Ok:
  "out = Some (Ok (), fa') \<Longrightarrow> holds_ranges fa fa' rs \<Longrightarrow> ranges_ok (fa_limit fa) rs \<Longrightarrow>
    bytes_of rs = bytes_of (free_ranges fa) \<union> bytes r \<Longrightarrow> bytes r \<inter> bytes_of (free_ranges fa) = {} \<Longrightarrow> insert_outcome fa r out"
  by (auto simp: insert_outcome_def)

definition first_of :: "'a list \<Rightarrow> 'a option" where
  "first_of xs = (case xs of [] \<Rightarrow> None | x # _ \<Rightarrow> Some x)"

lemma starts_increase: "ranges_ok limit (b # bs) \<Longrightarrow> c \<in> set bs \<Longrightarrow> pg_start b < pg_start c"
  by (auto simp: ranges_ok_Cons page_ok_def intro: less_trans)

lemma gap_after:
  "ranges_ok limit bs \<Longrightarrow> \<forall>b\<in>set bs. pg_end r \<le> pg_start b \<Longrightarrow> \<not> (\<exists>b bs'. bs = b # bs' \<and> pg_end r = pg_start b) \<Longrightarrow>
    \<forall>b\<in>set bs. pg_end r < pg_start b"
  by (cases bs) (auto simp: order.order_iff_strict dest: starts_increase)

lemma insert_apart_outcome:
  assumes fa: "arrays_ok fa" "free_ranges fa = as @ bs" and ok: "ranges_ok (fa_limit fa) (as @ bs)" "page_ok (fa_limit fa) r"
    and before: "\<forall>a\<in>set as. pg_end a < pg_start r" and after: "\<forall>b\<in>set bs. pg_end r \<le> pg_start b"
  shows "insert_outcome fa r (insert_apart fa (length as) (first_of bs) r)"
proof -
  have disjoint: "bytes r \<inter> bytes_of (free_ranges fa) = {}"
    using before after bytes_of_before [of as r] bytes_of_after [of bs r] fa(2) by (auto simp: less_imp_le)
  show ?thesis
  proof (cases "\<exists>b bs'. bs = b # bs' \<and> pg_end r = pg_start b")
    case True
    then obtain b bs' where bs: "bs = b # bs'" "pg_end r = pg_start b" by blast
    obtain fa' where fa': "free_set fa (length as) (b\<lparr>pg_start := pg_start r\<rparr>) = Some fa'"
        "holds_ranges fa fa' (as @ b\<lparr>pg_start := pg_start r\<rparr> # bs')"
      using free_set_split [OF fa(1)] fa(2) bs(1) by blast
    have page: "pg_start r < pg_end r" "pg_start b < pg_end b"
      using ok bs(1) by (auto simp: ranges_ok_append ranges_ok_Cons page_ok_def)
    show ?thesis
    proof (rule insert_outcome_Ok [OF _ fa'(2) _ _ disjoint])
      show "insert_apart fa (length as) (first_of bs) r = Some (Ok (), fa')"
        using bs fa'(1) by (simp add: insert_apart_def first_of_def)
      show "ranges_ok (fa_limit fa) (as @ b\<lparr>pg_start := pg_start r\<rparr> # bs')"
        using ok before bs page by (auto simp: ranges_ok_append ranges_ok_Cons page_ok_def)
      show "bytes_of (as @ b\<lparr>pg_start := pg_start r\<rparr> # bs') = bytes_of (free_ranges fa) \<union> bytes r"
        using bytes_join_right [of r b] page bs fa(2) by auto
    qed
  next
    case False
    then have new: "insert_apart fa (length as) (first_of bs) r = insert_new fa (length as) r"
      by (auto simp: insert_apart_def first_of_def split: list.splits)
    have "\<forall>b\<in>set bs. pg_end r < pg_start b"
      using gap_after [OF _ after False] ok(1) by (auto simp: ranges_ok_append)
    then have "ranges_ok (fa_limit fa) (as @ r # bs)" using ok before by (auto simp: ranges_ok_append ranges_ok_Cons)
    then show ?thesis
      using insert_new_result [OF fa, of r] disjoint fa(2) unfolding new insert_outcome_def by fastforce
  qed
qed

lemma merge_left_outcome:
  assumes fa: "arrays_ok fa" "free_ranges fa = as @ l # bs" and ok: "ranges_ok (fa_limit fa) (as @ l # bs)" "page_ok (fa_limit fa) r"
    and meets: "pg_end l = pg_start r" and after: "\<forall>b\<in>set bs. pg_end r \<le> pg_start b"
  shows "insert_outcome fa r (merge_left fa (Suc (length as)) l (first_of bs) r)"
proof -
  have page: "pg_start r < pg_end r" "pg_start l < pg_end l" using ok by (auto simp: ranges_ok_append ranges_ok_Cons page_ok_def)
  have before: "\<forall>a\<in>set as. pg_end a \<le> pg_start r"
    using ok(1) page meets by (force simp: ranges_ok_append ranges_ok_Cons)
  have disjoint: "bytes r \<inter> bytes_of (free_ranges fa) = {}"
    using bytes_of_before [OF before] bytes_of_after [OF after] bytes_before [of l r] meets fa(2) by auto
  obtain fa1 where fa1: "free_set fa (length as) (l\<lparr>pg_end := pg_end r\<rparr>) = Some fa1"
      "holds_ranges fa fa1 (as @ l\<lparr>pg_end := pg_end r\<rparr> # bs)"
    using free_set_split [OF fa] by blast
  then have fa1_ok: "arrays_ok fa1" "free_ranges fa1 = as @ l\<lparr>pg_end := pg_end r\<rparr> # bs" by (auto simp: holds_ranges_def)
  show ?thesis
  proof (cases "\<exists>b bs'. bs = b # bs' \<and> pg_end r = pg_start b")
    case True
    then obtain b bs' where bs: "bs = b # bs'" "pg_end r = pg_start b" by blast
    have pageb: "pg_start b < pg_end b" using ok(1) bs by (auto simp: ranges_ok_append ranges_ok_Cons page_ok_def)
    obtain fa2 where fa2: "free_set fa1 (length as) (l\<lparr>pg_end := pg_end b\<rparr>) = Some fa2"
        "holds_ranges fa1 fa2 (as @ l\<lparr>pg_end := pg_end b\<rparr> # bs)"
      using free_set_split [OF fa1_ok] by blast
    then have "arrays_ok fa2" "free_ranges fa2 = (as @ [l\<lparr>pg_end := pg_end b\<rparr>]) @ b # bs'"
      using bs(1) by (auto simp: holds_ranges_def)
    then obtain fa3 where fa3: "remove_free fa2 (Suc (length as)) = Some fa3"
        "holds_ranges fa2 fa3 (as @ l\<lparr>pg_end := pg_end b\<rparr> # bs')"
      using remove_free_split [of fa2 "as @ [l\<lparr>pg_end := pg_end b\<rparr>]" b bs'] by auto
    show ?thesis
    proof (rule insert_outcome_Ok [OF _ holds_ranges_trans [OF fa1(2) holds_ranges_trans [OF fa2(2) fa3(2)]] _ _ disjoint])
      show "merge_left fa (Suc (length as)) l (first_of bs) r = Some (Ok (), fa3)"
        using bs fa1(1) fa2(1) fa3(1) by (simp add: merge_left_def first_of_def)
      show "ranges_ok (fa_limit fa) (as @ l\<lparr>pg_end := pg_end b\<rparr> # bs')"
        using ok bs page pageb meets by (auto simp: ranges_ok_append ranges_ok_Cons page_ok_def)
      show "bytes_of (as @ l\<lparr>pg_end := pg_end b\<rparr> # bs') = bytes_of (free_ranges fa) \<union> bytes r"
        using bytes_join [of l r] bytes_join [of "l\<lparr>pg_end := pg_end r\<rparr>" b] page pageb meets bs fa(2) by auto
    qed
  next
    case False
    have "\<forall>b\<in>set bs. pg_end r < pg_start b"
      using gap_after [OF _ after False] ok(1) by (auto simp: ranges_ok_append ranges_ok_Cons)
    then have "ranges_ok (fa_limit fa) (as @ l\<lparr>pg_end := pg_end r\<rparr> # bs)"
      using ok page meets by (auto simp: ranges_ok_append ranges_ok_Cons page_ok_def)
    moreover have "merge_left fa (Suc (length as)) l (first_of bs) r = Some (Ok (), fa1)"
      using False fa1(1) by (auto simp: merge_left_def first_of_def split: list.splits)
    ultimately show ?thesis
      using insert_outcome_Ok [OF _ fa1(2) _ _ disjoint] bytes_join [of l r] page meets fa(2) by auto
  qed
qed

lemma neighbour_right:
  assumes "arrays_ok fa" "free_ranges fa = as @ bs"
  shows "neighbour fa (length as < fa_free_len fa) (length as) = Some (first_of bs)"
proof (cases bs)
  case Nil
  then show ?thesis using free_len_split [OF assms] by (simp add: neighbour_def first_of_def)
next
  case (Cons b bs')
  then show ?thesis
    using free_len_split [OF assms] free_at_split [of fa as b bs'] assms(2) by (simp add: neighbour_def first_of_def)
qed

lemma ranges_split_at:
  assumes "ranges_ok limit rs"
  obtains as bs where "rs = as @ bs" "length (takeWhile (\<lambda>r. pg_start r < start) rs) = length as"
    "\<forall>a\<in>set as. pg_start a < start" "\<forall>b\<in>set bs. start \<le> pg_start b"
proof
  let ?as = "takeWhile (\<lambda>r. pg_start r < start) rs" and ?bs = "dropWhile (\<lambda>r. pg_start r < start) rs"
  show eq: "rs = ?as @ ?bs" by simp
  show "\<forall>a\<in>set ?as. pg_start a < start" by (auto dest: set_takeWhileD)
  have bs: "ranges_ok limit ?bs" using assms eq ranges_ok_append by metis
  show "\<forall>b\<in>set ?bs. start \<le> pg_start b"
  proof (cases ?bs)
    case (Cons b bs)
    have "\<not> pg_start b < start" using Cons hd_dropWhile [of "\<lambda>r. pg_start r < start" rs] by auto
    moreover have "\<forall>c\<in>set bs. pg_start b < pg_start c"
      using bs unfolding Cons by (auto simp: ranges_ok_Cons page_ok_def intro: less_trans)
    ultimately show ?thesis unfolding Cons by auto
  next
    case Nil
    show ?thesis unfolding Nil by simp
  qed
qed simp

lemma overlap_left: "ranges_ok limit rs \<Longrightarrow> l \<in> set rs \<Longrightarrow> pg_start l < pg_start r \<Longrightarrow> pg_start r < pg_end l \<Longrightarrow>
    pg_start r < pg_end r \<Longrightarrow> bytes r \<inter> bytes_of rs \<noteq> {}"
  using bytes_start [of r] by (force simp: bytes_of_def bytes_def)

lemma overlap_right: "ranges_ok limit rs \<Longrightarrow> b \<in> set rs \<Longrightarrow> pg_start r \<le> pg_start b \<Longrightarrow> pg_start b < pg_end r \<Longrightarrow>
    bytes r \<inter> bytes_of rs \<noteq> {}"
  using bytes_start [of b] ranges_ok_in [of limit rs b] by (force simp: bytes_of_def bytes_def page_ok_def)

lemma neighbour_left:
  assumes "free_ranges fa = as @ l # bs"
  shows "neighbour fa (0 < Suc (length as)) (Suc (length as) - 1) = Some (Some l)"
  using free_at_split [OF assms] by (simp add: neighbour_def)

lemma insert_free_outcome:
  assumes fa: "arrays_ok fa" and ok: "ranges_ok (fa_limit fa) (free_ranges fa)" "page_ok (fa_limit fa) r"
  shows "insert_outcome fa r (insert_free fa r)"
proof -
  obtain as bs where split: "free_ranges fa = as @ bs"
      "length (takeWhile (\<lambda>x. pg_start x < pg_start r) (free_ranges fa)) = length as"
      "\<forall>a\<in>set as. pg_start a < pg_start r" "\<forall>b\<in>set bs. pg_start r \<le> pg_start b"
    by (rule ranges_split_at [OF ok(1)])
  have loop: "insertion_loop fa (pg_start r) 0 = Some (length as)"
    using insertion_loop_from [OF fa, of "[]" "free_ranges fa" "pg_start r"] split(2) by simp
  note right = neighbour_right [OF fa split(1)]
  have page: "pg_start r < pg_end r" using ok(2) by (simp add: page_ok_def)
  have valid: "validate_candidate fa r = Ok ()" using ok(2) by (simp add: validate_candidate_Ok_iff)
  have okab: "ranges_ok (fa_limit fa) (as @ bs)" using ok(1) split(1) by simp
  have after: "\<forall>b\<in>set bs. pg_end r \<le> pg_start b" if "\<not> (case first_of bs of Some b \<Rightarrow> pg_start b < pg_end r | None \<Rightarrow> False)"
  proof (cases bs)
    case (Cons b bs')
    then have "pg_end r \<le> pg_start b" using that by (simp add: first_of_def not_less)
    moreover have "\<forall>c\<in>set bs'. pg_start b < pg_start c"
      using okab Cons by (auto simp: ranges_ok_append ranges_ok_Cons page_ok_def intro: less_trans)
    ultimately show ?thesis using Cons by (auto intro: order.trans less_imp_le)
  qed simp
  have clash: "bytes r \<inter> bytes_of (free_ranges fa) \<noteq> {}" if "case first_of bs of Some b \<Rightarrow> pg_start b < pg_end r | None \<Rightarrow> False"
    using that overlap_right [OF ok(1), of _ r] split(1,4) by (auto simp: first_of_def split: list.splits)
  show ?thesis
  proof (cases as rule: rev_cases)
    case Nil
    then have "neighbour fa (0 < length as) (length as - 1) = Some None" by (simp add: neighbour_def)
    then show ?thesis
      using loop right valid page clash insert_apart_outcome [OF fa split(1) okab ok(2)] after Nil
      by (auto simp: insert_free_def insert_outcome_def [of fa r "Some (Err DoubleFree, fa)"])
  next
    case (snoc as' l)
    have eq: "free_ranges fa = as' @ l # bs" using split(1) snoc by simp
    have left: "neighbour fa (0 < length as) (length as - 1) = Some (Some l)"
      using neighbour_left [OF eq] snoc by simp
    have clashl: "bytes r \<inter> bytes_of (free_ranges fa) \<noteq> {}" if "pg_start r < pg_end l"
      using that overlap_left [OF ok(1), of l r] split(3) eq snoc page by auto
    have before: "\<forall>a\<in>set as. pg_end a < pg_start r" if "pg_end l < pg_start r"
      using that okab snoc split(3) by (auto simp: ranges_ok_append ranges_ok_Cons page_ok_def intro: less_trans)
    have merge: "insert_outcome fa r (merge_left fa (length as) l (first_of bs) r)"
      if "pg_end l = pg_start r" "\<forall>b\<in>set bs. pg_end r \<le> pg_start b"
      using merge_left_outcome [OF fa eq _ ok(2) that] ok(1) eq snoc by simp
    have apart: "insert_outcome fa r (insert_apart fa (length as) (first_of bs) r)"
      if "pg_end l < pg_start r" "\<forall>b\<in>set bs. pg_end r \<le> pg_start b"
      by (rule insert_apart_outcome [OF fa split(1) okab ok(2) before [OF that(1)] that(2)])
    show ?thesis
      using loop left right valid page clash clashl merge apart after
      by (auto simp: insert_free_def insert_outcome_def [of fa r "Some (Err DoubleFree, fa)"] not_less)
  qed
qed

section \<open>Subtraction\<close>

text \<open>What a reservation leaves of one free range.\<close>

definition pieces :: "page_range \<Rightarrow> page_range \<Rightarrow> page_range list" where
  "pieces x r =
    (if \<not> page_overlaps x r then [x]
     else if pg_start r \<le> pg_start x \<and> pg_end x \<le> pg_end r then []
     else if pg_start x < pg_start r \<and> pg_end r < pg_end x
     then [\<lparr>pg_start = pg_start x, pg_end = pg_start r\<rparr>, \<lparr>pg_start = pg_end r, pg_end = pg_end x\<rparr>]
     else [if pg_start r \<le> pg_start x then x\<lparr>pg_start := pg_end r\<rparr> else x\<lparr>pg_end := pg_start r\<rparr>])"

definition reservation_ok :: "page_range \<Rightarrow> bool" where
  "reservation_ok r \<longleftrightarrow> pg_start r < pg_end r \<and> is_multiple_of_page (pg_start r) \<and> is_multiple_of_page (pg_end r)"

lemma pieces_ok: "page_ok limit x \<Longrightarrow> reservation_ok r \<Longrightarrow> ranges_ok limit (pieces x r)"
  by (auto simp: pieces_def ranges_ok_def page_ok_def reservation_ok_def page_overlaps_def)

lemma pieces_inside:
  "page_ok limit x \<Longrightarrow> p \<in> set (pieces x r) \<Longrightarrow> pg_start x \<le> pg_start p \<and> pg_end p \<le> pg_end x"
  by (auto simp: pieces_def page_ok_def page_overlaps_def split: if_splits)

lemma pieces_bytes: "page_ok limit x \<Longrightarrow> reservation_ok r \<Longrightarrow> bytes_of (pieces x r) = bytes x - bytes r"
  by (auto simp: pieces_def page_ok_def reservation_ok_def page_overlaps_def bytes_def)

definition subtract_outcome ::
  "frame_allocator \<Rightarrow> u64 set \<Rightarrow> ((unit, physical_memory_error) result \<times> frame_allocator) option \<Rightarrow> bool" where
  "subtract_outcome fa S out \<longleftrightarrow>
    (\<exists>fa' rs. out = Some (Ok (), fa') \<and> holds_ranges fa fa' rs \<and> ranges_ok (fa_limit fa) rs \<and> bytes_of rs = S)
    \<or> (\<exists>fa'. out = Some (Err CapacityExceeded, fa'))"

lemma subtract_outcome_trans:
  assumes "holds_ranges fa fa1 rs" "subtract_outcome fa1 S out"
  shows "subtract_outcome fa S out"
proof -
  have "fa_limit fa1 = fa_limit fa" using assms(1) by (simp add: holds_ranges_def)
  then show ?thesis using assms holds_ranges_trans unfolding subtract_outcome_def by metis
qed

lemma subtract_round:
  assumes fa: "arrays_ok fa" "free_ranges fa = as @ x # bs"
  shows "(\<exists>fa'. subtract_loop fa (length as) r = Some (Err CapacityExceeded, fa'))
    \<or> (\<exists>fa'. holds_ranges fa fa' (as @ pieces x r @ bs)
        \<and> subtract_loop fa (length as) r = subtract_loop fa' (length (as @ pieces x r)) r)"
proof -
  have n: "length as < fa_free_len fa" using free_len_split [OF fa] by simp
  note step = subtract_loop.simps [of fa "length as" r] free_at_split [OF fa(2)] n
  consider "\<not> page_overlaps x r" | "page_overlaps x r" "pg_start r \<le> pg_start x \<and> pg_end x \<le> pg_end r"
    | "page_overlaps x r" "\<not> (pg_start r \<le> pg_start x \<and> pg_end x \<le> pg_end r)" "pg_start x < pg_start r \<and> pg_end r < pg_end x"
    | "page_overlaps x r" "\<not> (pg_start r \<le> pg_start x \<and> pg_end x \<le> pg_end r)" "\<not> (pg_start x < pg_start r \<and> pg_end r < pg_end x)"
    by blast
  then show ?thesis
  proof cases
    case 1
    then show ?thesis using step holds_ranges_refl [OF fa(1)] fa(2) by (auto simp: pieces_def intro!: exI [of _ fa])
  next
    case 2
    then show ?thesis using step remove_free_split [OF fa] by (auto simp: pieces_def)
  next
    case 3
    show ?thesis
    proof (cases "fa_free_len fa = length (fa_free fa)")
      case True
      then show ?thesis using step 3 by auto
    next
      case False
      then have "fa_free_len fa < length (fa_free fa)" using fa(1) by (simp add: arrays_ok_def)
      then show ?thesis using step 3 False split_free_split [OF fa, of r] by (auto simp: pieces_def)
    qed
  next
    case 4
    let ?y = "if pg_start r \<le> pg_start x then x\<lparr>pg_start := pg_end r\<rparr> else x\<lparr>pg_end := pg_start r\<rparr>"
    have "pieces x r = [?y]" using 4 by (simp add: pieces_def)
    moreover obtain fa' where fa': "free_set fa (length as) ?y = Some fa'" "holds_ranges fa fa' (as @ ?y # bs)"
      using free_set_split [OF fa] by blast
    moreover have "subtract_loop fa (length as) r = subtract_loop fa' (Suc (length as)) r"
      using step(1-2) n 4 fa'(1) by simp
    ultimately show ?thesis by auto
  qed
qed

lemma subtract_loop_outcome:
  assumes "arrays_ok fa" "free_ranges fa = as @ bs" "ranges_ok (fa_limit fa) (as @ bs)" "reservation_ok r" "bytes_of as \<inter> bytes r = {}"
  shows "subtract_outcome fa (bytes_of (as @ bs) - bytes r) (subtract_loop fa (length as) r)"
  using assms
proof (induction bs arbitrary: fa as)
  case Nil
  have "fa_free_len fa = length as" using free_len_split [OF Nil.prems(1,2)] by simp
  then have "subtract_loop fa (length as) r = Some (Ok (), fa)" by (simp add: subtract_loop.simps [of fa "length as"])
  moreover have "bytes_of as - bytes r = bytes_of as" using Nil.prems(5) by blast
  ultimately show ?case
    using Nil.prems holds_ranges_refl [OF Nil.prems(1)] by (auto simp: subtract_outcome_def)
next
  case (Cons x bs)
  have x: "page_ok (fa_limit fa) x" using Cons.prems(3) by (simp add: ranges_ok_append ranges_ok_Cons)
  note inside = pieces_inside [OF x, of _ r]
  have ok: "ranges_ok (fa_limit fa) ((as @ pieces x r) @ bs)"
    using Cons.prems(3) pieces_ok [OF x Cons.prems(4)] inside
    by (fastforce simp: ranges_ok_append ranges_ok_Cons intro: less_le_trans le_less_trans)
  have left: "bytes_of (as @ pieces x r) \<inter> bytes r = {}" using Cons.prems(5) pieces_bytes [OF x Cons.prems(4)] by auto
  have sets: "bytes_of ((as @ pieces x r) @ bs) - bytes r = bytes_of (as @ x # bs) - bytes r"
    using pieces_bytes [OF x Cons.prems(4)] by auto
  consider fa' where "subtract_loop fa (length as) r = Some (Err CapacityExceeded, fa')"
    | fa' where "holds_ranges fa fa' (as @ pieces x r @ bs)"
        "subtract_loop fa (length as) r = subtract_loop fa' (length (as @ pieces x r)) r"
    using subtract_round [OF Cons.prems(1,2)] by blast
  then show ?case
  proof cases
    case 1
    then show ?thesis by (simp add: subtract_outcome_def)
  next
    case 2
    then have "arrays_ok fa'" "free_ranges fa' = (as @ pieces x r) @ bs" "fa_limit fa' = fa_limit fa"
      by (auto simp: holds_ranges_def)
    then show ?thesis
      using Cons.IH [of fa' "as @ pieces x r"] ok left Cons.prems(4) subtract_outcome_trans [OF 2(1)] sets 2(2) by simp
  qed
qed

lemma subtract_result:
  assumes "arrays_ok fa" "ranges_ok (fa_limit fa) (free_ranges fa)" "reservation_ok r"
  shows "subtract_outcome fa (bytes_of (free_ranges fa) - bytes r) (subtract fa r)"
  using subtract_loop_outcome [OF assms(1), of "[]" "free_ranges fa" r] assms by (simp add: subtract_def)

end
