(* ===== verification/Frame_Contract.thy ===== *)
theory Frame_Contract
  imports Frame_Operations
begin

text \<open>
  The construction of the frame allocator: the pages a reservation touches, and that the constructor
  yields exactly the candidate addresses outside page zero and outside those pages, in a state that
  satisfies the invariant \<open>frames_ok\<close>.
\<close>

section \<open>Page covers\<close>

lemma unat_page_floor: "unat (align_down w 4096) = unat w div 4096 * 4096"
  using unat_align_down [of 12 w] by simp

lemma is_multiple_of_page_unat: "is_multiple_of_page w \<longleftrightarrow> unat w mod 4096 = 0"
proof -
  have "unat (w mod 4096) = unat w mod 4096" by (simp add: unat_mod)
  then show ?thesis unfolding is_multiple_of_page_def by (metis unat_0 unsigned_eq_0_iff)
qed

text \<open>The addresses on the pages that hold a byte of the range.\<close>

definition pages_touched :: "physical_range \<Rightarrow> u64 set" where
  "pages_touched r = {a. \<exists>b. physical_range_contains r b \<and> b div BASE_PAGE_SIZE = a div BASE_PAGE_SIZE}"

lemma page_div_eq: "(b :: u64) div 4096 = a div 4096 \<longleftrightarrow> unat b div 4096 = unat a div 4096"
proof -
  have "unat (x div 4096) = unat x div 4096" for x :: u64 by (simp add: unat_div)
  then show ?thesis by (metis word_unat_eq_iff)
qed

lemma page_interval:
  fixes S E a :: nat
  assumes "S < E"
  shows "S div 4096 * 4096 \<le> a \<and> a < (E + 4095) div 4096 * 4096 \<longleftrightarrow> (\<exists>b. S \<le> b \<and> b < E \<and> b div 4096 = a div 4096)"
proof
  assume l: "S div 4096 * 4096 \<le> a \<and> a < (E + 4095) div 4096 * 4096"
  let ?b = "max S (a div 4096 * 4096)"
  have low: "S div 4096 \<le> a div 4096" using div_le_mono [of "S div 4096 * 4096" a 4096] l by simp
  have "a div 4096 < (E + 4095) div 4096" using l by (simp add: less_mult_imp_div_less)
  moreover have "(E + 4095) div 4096 * 4096 \<le> E + 4095" by (rule div_times_less_eq_dividend)
  ultimately have "a div 4096 * 4096 < E" by linarith
  moreover have "?b div 4096 = a div 4096"
    using low div_le_mono [of "a div 4096 * 4096" S 4096] by (auto simp: max_def)
  ultimately show "\<exists>b. S \<le> b \<and> b < E \<and> b div 4096 = a div 4096" using assms by (intro exI [of _ ?b]) auto
next
  assume "\<exists>b. S \<le> b \<and> b < E \<and> b div 4096 = a div 4096"
  then obtain b where b: "S \<le> b" "b < E" "b div 4096 = a div 4096" by blast
  have "S div 4096 * 4096 \<le> a div 4096 * 4096" using div_le_mono [OF b(1), of 4096] b(3) by simp
  moreover have "a div 4096 * 4096 \<le> a" by (rule div_times_less_eq_dividend)
  moreover have "a div 4096 + 1 \<le> (E + 4095) div 4096" using div_le_mono [of "b + 4096" "E + 4095" 4096] b by simp
  moreover have "a < (a div 4096 + 1) * 4096" using dividend_less_div_times [of 4096 a] by simp
  ultimately show "S div 4096 * 4096 \<le> a \<and> a < (E + 4095) div 4096 * 4096" by linarith
qed

lemma page_cover_Ok:
  assumes "page_cover r limit = Ok c" "pr_byte_len r \<noteq> 0"
  shows "reservation_ok c \<and> bytes c = pages_touched r"
proof -
  obtain e p where e: "checked_add (pr_physical_start r) (pr_byte_len r) = Some e"
      and p: "checked_add e (BASE_PAGE_SIZE - 1) = Some p"
      and c: "c = \<lparr>pg_start = align_down (pr_physical_start r) BASE_PAGE_SIZE, pg_end = align_down p BASE_PAGE_SIZE\<rparr>"
    using assms(1) by (auto simp: page_cover_def physical_range_end_def panic_simps Let_def split: if_splits)
  let ?S = "unat (pr_physical_start r)" and ?E = "unat e"
  have up: "unat p = ?E + 4095" using checked_add_unat [OF p] by simp
  have SE: "?S < ?E" using checked_add_unat [OF e] assms(2) by (simp add: unat_gt_0)
  have mem: "a \<in> bytes c \<longleftrightarrow> ?S div 4096 * 4096 \<le> unat a \<and> unat a < (?E + 4095) div 4096 * 4096" for a
    using c up by (simp add: bytes_def word_le_nat_alt word_less_nat_alt unat_page_floor)
  have "physical_range_contains r b \<longleftrightarrow> ?S \<le> unat b \<and> unat b < ?E" for b
    using e by (simp add: physical_range_contains_def physical_range_end_def word_le_nat_alt word_less_nat_alt)
  then have touched: "a \<in> pages_touched r \<longleftrightarrow> (\<exists>b :: u64. ?S \<le> unat b \<and> unat b < ?E \<and> unat b div 4096 = unat a div 4096)" for a
    by (simp add: pages_touched_def page_div_eq conj_assoc)
  have nats: "(\<exists>b :: u64. ?S \<le> unat b \<and> unat b < ?E \<and> unat b div 4096 = n)
      \<longleftrightarrow> (\<exists>b. ?S \<le> b \<and> b < ?E \<and> b div 4096 = n)" for n
  proof
    assume "\<exists>b. ?S \<le> b \<and> b < ?E \<and> b div 4096 = n"
    then obtain b where b: "?S \<le> b" "b < ?E" "b div 4096 = n" by blast
    then have "unat (of_nat b :: u64) = b" using unsigned_less [of e, where ?'a = nat] by (simp add: unsigned_of_nat take_bit_nat_eq_self_iff)
    then show "\<exists>b :: u64. ?S \<le> unat b \<and> unat b < ?E \<and> unat b div 4096 = n" using b by metis
  qed blast
  have "a \<in> bytes c \<longleftrightarrow> a \<in> pages_touched r" for a
    unfolding mem [of a] touched [of a] nats [of "unat a div 4096"] by (rule page_interval [OF SE])
  then have "bytes c = pages_touched r" by blast
  moreover have "?S div 4096 * 4096 < (?E + 4095) div 4096 * 4096"
  proof -
    have "?S < (?E + 4095) div 4096 * 4096" using page_interval [OF SE, of ?S] SE by blast
    then show ?thesis using div_times_less_eq_dividend [of ?S 4096] by linarith
  qed
  ultimately show ?thesis
    using c up by (simp add: reservation_ok_def is_multiple_of_page_unat word_less_nat_alt unat_page_floor)
qed

section \<open>Construction\<close>

definition build_outcome ::
  "frame_allocator \<Rightarrow> u64 set \<Rightarrow> ((unit, physical_memory_error) result \<times> frame_allocator) option \<Rightarrow> bool" where
  "build_outcome fa S out \<longleftrightarrow>
    (\<exists>fa' rs. out = Some (Ok (), fa') \<and> holds_ranges fa fa' rs \<and> ranges_ok (fa_limit fa) rs \<and> bytes_of rs = S)
    \<or> (\<exists>e fa'. out = Some (Err e, fa'))"

lemma build_outcome_trans:
  assumes "holds_ranges fa fa1 rs" "build_outcome fa1 S out"
  shows "build_outcome fa S out"
proof -
  have "fa_limit fa1 = fa_limit fa" using assms(1) by (simp add: holds_ranges_def)
  then show ?thesis using assms holds_ranges_trans unfolding build_outcome_def by metis
qed

lemma build_outcome_Err: "build_outcome fa S (Some (Err e, fa'))"
  by (simp add: build_outcome_def)

lemma insert_candidates_outcome:
  assumes "arrays_ok fa" "ranges_ok (fa_limit fa) (free_ranges fa)"
  shows "build_outcome fa (bytes_of (free_ranges fa) \<union> bytes_of cs) (insert_candidates cs fa)"
  using assms
proof (induction cs arbitrary: fa)
  case Nil
  then show ?case using holds_ranges_refl by (auto simp: build_outcome_def)
next
  case (Cons c cs)
  show ?case
  proof (cases "validate_candidate fa c")
    case (Err e)
    then show ?thesis by (simp add: build_outcome_Err)
  next
    case (Ok u)
    then have "insert_outcome fa c (insert_free fa c)"
      using insert_free_outcome [OF Cons.prems] validate_candidate_Ok_iff [of fa c] by simp
    then consider fa' rs where "insert_free fa c = Some (Ok (), fa')" "holds_ranges fa fa' rs" "ranges_ok (fa_limit fa) rs"
          "bytes_of rs = bytes_of (free_ranges fa) \<union> bytes c"
      | e fa' where "insert_free fa c = Some (Err e, fa')"
      unfolding insert_outcome_def by blast
    then show ?thesis
    proof cases
      case 1
      then have fa': "arrays_ok fa'" "free_ranges fa' = rs" "fa_limit fa' = fa_limit fa" by (auto simp: holds_ranges_def)
      have "build_outcome fa' (bytes_of rs \<union> bytes_of cs) (insert_candidates cs fa')"
        using Cons.IH [of fa'] fa' 1(3) by simp
      then show ?thesis
        using build_outcome_trans [OF 1(2)] Ok 1(1,4) by (simp add: Un_assoc)
    qed (simp add: Ok build_outcome_Err)
  qed
qed

lemma subtract_cases:
  assumes "arrays_ok fa" "ranges_ok (fa_limit fa) (free_ranges fa)" "reservation_ok r"
  obtains fa' where "subtract fa r = Some (Ok (), fa')" "holds_ranges fa fa' (free_ranges fa')" "arrays_ok fa'"
      "ranges_ok (fa_limit fa') (free_ranges fa')" "bytes_of (free_ranges fa') = bytes_of (free_ranges fa) - bytes r"
    | e fa' where "subtract fa r = Some (Err e, fa')"
  using subtract_result [OF assms] unfolding subtract_outcome_def holds_ranges_def by metis

lemma subtract_all_outcome:
  assumes "arrays_ok fa" "ranges_ok (fa_limit fa) (free_ranges fa)" "\<forall>r\<in>set rs. pr_byte_len r \<noteq> 0"
  shows "build_outcome fa (bytes_of (free_ranges fa) - \<Union> (pages_touched ` set rs)) (subtract_all rs fa)"
  using assms
proof (induction rs arbitrary: fa)
  case Nil
  then show ?case using holds_ranges_refl by (auto simp: build_outcome_def)
next
  case (Cons r rs)
  show ?case
  proof (cases "page_cover r (fa_limit fa)")
    case (Err e)
    then show ?thesis by (simp add: build_outcome_Err)
  next
    case (Ok c)
    then have c: "reservation_ok c" "bytes c = pages_touched r" using page_cover_Ok Cons.prems(3) by auto
    show ?thesis
    proof (rule subtract_cases [OF Cons.prems(1,2) c(1)])
      fix fa' assume *: "subtract fa c = Some (Ok (), fa')" "holds_ranges fa fa' (free_ranges fa')" "arrays_ok fa'"
        "ranges_ok (fa_limit fa') (free_ranges fa')" "bytes_of (free_ranges fa') = bytes_of (free_ranges fa) - bytes c"
      have "build_outcome fa (bytes_of (free_ranges fa') - \<Union> (pages_touched ` set rs)) (subtract_all rs fa')"
        using build_outcome_trans [OF *(2)] Cons.IH [OF *(3,4)] Cons.prems(3) by simp
      moreover have "bytes_of (free_ranges fa') - \<Union> (pages_touched ` set rs)
          = bytes_of (free_ranges fa) - \<Union> (pages_touched ` set (r # rs))"
        using *(5) c(2) by auto
      ultimately show ?thesis using Ok *(1) by simp
    qed (simp add: Ok build_outcome_Err)
  qed
qed

text \<open>The state invariant: both arrays hold canonical ranges, and what is free was free at construction.\<close>

definition frames_ok :: "frame_allocator \<Rightarrow> bool" where
  "frames_ok fa \<longleftrightarrow> arrays_ok fa \<and> ranges_ok (fa_limit fa) (free_ranges fa) \<and> ranges_ok (fa_limit fa) (initial_ranges fa)
    \<and> bytes_of (free_ranges fa) \<subseteq> bytes_of (initial_ranges fa)"

definition usable_bytes :: "page_range list \<Rightarrow> physical_range list \<Rightarrow> u64 set" where
  "usable_bytes candidates reservations =
    bytes_of candidates - {a. a < BASE_PAGE_SIZE} - \<Union> (pages_touched ` set reservations)"

lemma copy_initial_result:
  assumes "arrays_ok fa" "ranges_ok (fa_limit fa) (free_ranges fa)"
  shows "\<exists>fa'. copy_initial fa = Some fa' \<and> frames_ok fa' \<and> free_ranges fa' = free_ranges fa
    \<and> initial_ranges fa' = free_ranges fa \<and> fa_limit fa' = fa_limit fa"
  using assms by (auto simp: copy_initial_def slice_to_def arrays_ok_def frames_ok_def)

lemma from_candidates_result:
  assumes "\<forall>r\<in>set reservations. pr_byte_len r \<noteq> 0"
  shows "(\<exists>fa. from_candidates capacity candidates limit reservations = Some (Ok fa) \<and> frames_ok fa \<and> fa_limit fa = limit
      \<and> initial_ranges fa = free_ranges fa \<and> bytes_of (free_ranges fa) = usable_bytes candidates reservations)
    \<or> (\<exists>e. from_candidates capacity candidates limit reservations = Some (Err e))"
proof -
  define fa0 where "fa0 = \<lparr>fa_initial = replicate capacity EMPTY_RANGE, fa_initial_len = 0,
    fa_free = replicate capacity EMPTY_RANGE, fa_free_len = 0, fa_limit = limit\<rparr>"
  have fa0: "arrays_ok fa0" "free_ranges fa0 = []" "fa_limit fa0 = limit" by (auto simp: fa0_def arrays_ok_def)
  let ?zero = "\<lparr>pg_start = 0, pg_end = BASE_PAGE_SIZE\<rparr>"
  have zero: "reservation_ok ?zero" "bytes ?zero = {a. a < BASE_PAGE_SIZE}"
    by (auto simp: reservation_ok_def is_multiple_of_page_def bytes_def)
  note def = from_candidates_def [of capacity candidates limit reservations, folded fa0_def]
  show ?thesis
  proof (cases "\<exists>e fa1. insert_candidates candidates fa0 = Some (Err e, fa1)")
    case True
    then show ?thesis using def by auto
  next
    case False
    then obtain fa1 where fa1: "insert_candidates candidates fa0 = Some (Ok (), fa1)" "arrays_ok fa1"
        "ranges_ok (fa_limit fa1) (free_ranges fa1)" "bytes_of (free_ranges fa1) = bytes_of candidates" "fa_limit fa1 = limit"
      using insert_candidates_outcome [OF fa0(1), of candidates] fa0(2,3)
      by (auto simp: build_outcome_def holds_ranges_def)
    show ?thesis
    proof (rule subtract_cases [OF fa1(2,3) zero(1)])
      fix fa2 assume fa2: "subtract fa1 ?zero = Some (Ok (), fa2)" "holds_ranges fa1 fa2 (free_ranges fa2)" "arrays_ok fa2"
        "ranges_ok (fa_limit fa2) (free_ranges fa2)" "bytes_of (free_ranges fa2) = bytes_of (free_ranges fa1) - bytes ?zero"
      have limit2: "fa_limit fa2 = limit" using fa2(2) fa1(5) by (simp add: holds_ranges_def)
      from subtract_all_outcome [OF fa2(3,4) assms]
      consider fa3 where "subtract_all reservations fa2 = Some (Ok (), fa3)" "arrays_ok fa3" "fa_limit fa3 = limit"
          "ranges_ok (fa_limit fa3) (free_ranges fa3)" "bytes_of (free_ranges fa3) = usable_bytes candidates reservations"
        | e fa3 where "subtract_all reservations fa2 = Some (Err e, fa3)"
        using fa2(5) fa1(4) zero(2) limit2 by (auto simp: build_outcome_def holds_ranges_def usable_bytes_def)
      then show ?thesis
      proof cases
        case 1
        then show ?thesis using copy_initial_result [OF 1(2,4)] def fa1(1) fa2(1) by auto
      qed (use def fa1(1) fa2(1) in auto)
    qed (use def fa1(1) in auto)
  qed
qed

end
