(* ===== verification/Frame_Refinement.thy ===== *)
theory Frame_Refinement
  imports Frame_Contract
begin

text \<open>
  The frame allocator against its specification: a set of free addresses, from which an allocation
  takes the lowest run that fits and to which a release returns addresses that were handed out.
\<close>

section \<open>The specification\<close>

datatype frame_op = AllocateRun u64 | AllocateRunBelow u64 u64 | FreeRun page_range

type_synonym frame_reply = "(page_range option, physical_memory_error) result"

text \<open>A run of \<open>len\<close> free bytes at \<open>s\<close> that ends at or below \<open>ceiling\<close>.\<close>

definition fits :: "u64 set \<Rightarrow> nat \<Rightarrow> nat \<Rightarrow> u64 \<Rightarrow> bool" where
  "fits S ceiling len s \<longleftrightarrow> unat s + len \<le> ceiling \<and> (\<forall>a. s \<le> a \<and> unat a < unat s + len \<longrightarrow> a \<in> S)"

definition allocate_spec :: "u64 set \<Rightarrow> nat \<Rightarrow> u64 \<Rightarrow> frame_reply \<Rightarrow> u64 set \<Rightarrow> bool" where
  "allocate_spec S ceiling n reply S' \<longleftrightarrow>
    (if n = 0 then reply = Err InvalidPageRange \<and> S' = S
     else if 2 ^ 64 \<le> unat n * 4096 then reply = Err AddressOverflow \<and> S' = S
     else if \<forall>s. \<not> fits S ceiling (unat n * 4096) s then reply = Err NoFramesAvailable \<and> S' = S
     else \<exists>r. reply = Ok (Some r) \<and> unat (pg_end r) = unat (pg_start r) + unat n * 4096 \<and> is_multiple_of_page (pg_start r)
       \<and> fits S ceiling (unat n * 4096) (pg_start r) \<and> (\<forall>s. fits S ceiling (unat n * 4096) s \<longrightarrow> pg_start r \<le> s)
       \<and> S' = S - bytes r)"

text \<open>
  A release fails when the range is malformed, was never handed out, or is partly free; a full array of
  ranges may also refuse it.
\<close>

definition free_spec :: "physical_address_limit \<Rightarrow> u64 set \<Rightarrow> u64 set \<Rightarrow> page_range \<Rightarrow> frame_reply \<Rightarrow> u64 set \<Rightarrow> bool" where
  "free_spec limit I S r reply S' \<longleftrightarrow>
    (if pg_end r \<le> pg_start r \<or> \<not> is_multiple_of_page (pg_start r) \<or> \<not> is_multiple_of_page (pg_end r)
     then reply = Err InvalidPageRange \<and> S' = S
     else if pl_exclusive limit < pg_end r then reply = Err OutsidePhysicalLimit \<and> S' = S
     else if \<not> bytes r \<subseteq> I then reply = Err InvalidFrame \<and> S' = S
     else if bytes r \<inter> S \<noteq> {} then reply = Err DoubleFree \<and> S' = S
     else reply = Ok None \<and> S' = S \<union> bytes r \<or> reply = Err CapacityExceeded \<and> S' = S)"

fun frame_spec :: "physical_address_limit \<Rightarrow> u64 set \<Rightarrow> u64 set \<Rightarrow> frame_op \<Rightarrow> frame_reply \<Rightarrow> u64 set \<Rightarrow> bool" where
  "frame_spec limit I S (AllocateRun n) reply S' = allocate_spec S (2 ^ 64) n reply S'"
| "frame_spec limit I S (AllocateRunBelow n c) reply S' = allocate_spec S (unat c) n reply S'"
| "frame_spec limit I S (FreeRun r) reply S' = free_spec limit I S r reply S'"

fun frame_spec_run ::
  "physical_address_limit \<Rightarrow> u64 set \<Rightarrow> u64 set \<Rightarrow> frame_op list \<Rightarrow> frame_reply list \<Rightarrow> u64 set \<Rightarrow> bool" where
  "frame_spec_run limit I S [] replies S' \<longleftrightarrow> replies = [] \<and> S' = S"
| "frame_spec_run limit I S (x # xs) replies S' \<longleftrightarrow>
    (\<exists>reply rest T. replies = reply # rest \<and> frame_spec limit I S x reply T \<and> frame_spec_run limit I T xs rest S')"

text \<open>The calls of the code.\<close>

primrec map_ok :: "('a \<Rightarrow> 'b) \<Rightarrow> ('a, 'e) result \<Rightarrow> ('b, 'e) result" where
  "map_ok f (Ok a) = Ok (f a)"
| "map_ok f (Err e) = Err e"

fun frame_apply :: "frame_op \<Rightarrow> frame_allocator \<Rightarrow> (frame_reply \<times> frame_allocator) option" where
  "frame_apply (AllocateRun n) fa = map_option (apfst (map_ok Some)) (allocate_run fa n)"
| "frame_apply (AllocateRunBelow n c) fa = map_option (apfst (map_ok Some)) (allocate_run_below fa n c)"
| "frame_apply (FreeRun r) fa = map_option (apfst (map_ok (\<lambda>_. None))) (free_run fa r)"

primrec frame_run :: "frame_op list \<Rightarrow> frame_allocator \<Rightarrow> (frame_reply list \<times> frame_allocator) option" where
  "frame_run [] fa = Some ([], fa)"
| "frame_run (x # xs) fa =
    do { (reply, fa') \<leftarrow> frame_apply x fa; (rest, fa'') \<leftarrow> frame_run xs fa'; Some (reply # rest, fa'') }"

section \<open>Allocation\<close>

lemma ranges_apart:
  "ranges_ok limit rs \<Longrightarrow> a \<in> set rs \<Longrightarrow> b \<in> set rs \<Longrightarrow> a = b \<or> pg_end a < pg_start b \<or> pg_end b < pg_start a"
  by (induction rs) (auto simp: ranges_ok_Cons)

text \<open>Because neighbours never touch, a run of free bytes lies inside one free range.\<close>

lemma run_in_one_range:
  assumes "ranges_ok limit rs" "0 < len" "fits (bytes_of rs) ceiling len s"
  obtains r where "r \<in> set rs" "pg_start r \<le> s" "unat s + len \<le> unat (pg_end r)"
proof -
  have run: "a \<in> bytes_of rs" if "s \<le> a" "unat a < unat s + len" for a using assms(3) that by (simp add: fits_def)
  then have "s \<in> bytes_of rs" using assms(2) by simp
  then obtain r where r: "r \<in> set rs" "pg_start r \<le> s" "s < pg_end r" by (auto simp: bytes_of_def bytes_def)
  have "unat s + len \<le> unat (pg_end r)"
  proof (rule ccontr)
    assume "\<not> unat s + len \<le> unat (pg_end r)"
    then have "pg_end r \<in> bytes_of rs" using run r(3) by simp
    then obtain q where "q \<in> set rs" "pg_start q \<le> pg_end r" "pg_end r < pg_end q" by (auto simp: bytes_of_def bytes_def)
    then show False using ranges_apart [OF assms(1) r(1), of q] ranges_ok_in [OF assms(1) r(1)] by (auto simp: page_ok_def)
  qed
  then show thesis using that r by blast
qed

lemma ranges_disjoint:
  assumes "ranges_ok limit (as @ x # bs)"
  shows "bytes x \<inter> bytes_of as = {} \<and> bytes x \<inter> bytes_of bs = {}"
  using assms bytes_of_before [of as x] bytes_of_after [of bs x] by (simp add: ranges_ok_append ranges_ok_Cons less_imp_le)

lemma unat_page_sum: "is_multiple_of_page s \<Longrightarrow> unat e = unat s + k * 4096 \<Longrightarrow> is_multiple_of_page e"
  by (simp add: is_multiple_of_page_unat mod_add_eq [symmetric])

lemma take_front_result:
  assumes fa: "frames_ok fa" and rs: "free_ranges fa = as @ x # bs"
    and len: "unat len = k * 4096" "0 < k" and room: "unat (pg_start x) + unat len \<le> unat (pg_end x)"
  shows "\<exists>r fa'. take_front fa (length as) len = Some (Ok r, fa') \<and> pg_start r = pg_start x
    \<and> unat (pg_end r) = unat (pg_start x) + unat len \<and> frames_ok fa' \<and> fa_limit fa' = fa_limit fa
    \<and> initial_ranges fa' = initial_ranges fa \<and> bytes_of (free_ranges fa') = bytes_of (free_ranges fa) - bytes r"
proof -
  have ok: "ranges_ok (fa_limit fa) (as @ x # bs)" "arrays_ok fa" using fa rs by (auto simp: frames_ok_def)
  have x: "page_ok (fa_limit fa) x" using ok(1) by (simp add: ranges_ok_append ranges_ok_Cons)
  obtain e where e: "checked_add (pg_start x) len = Some e" "unat e = unat (pg_start x) + unat len"
    using room unsigned_less [of "pg_end x", where ?'a = nat] checked_add_unat by (auto simp: checked_add_def unat_word_ariths)
  let ?r = "\<lparr>pg_start = pg_start x, pg_end = e\<rparr>" and ?y = "x\<lparr>pg_start := e\<rparr>"
  have cmp: "pg_start x < e" "e \<le> pg_end x" using e(2) len room by (auto simp: word_less_nat_alt word_le_nat_alt)
  have res: "reservation_ok ?r"
    using cmp x unat_page_sum [of "pg_start x" e k] e(2) len(1) by (simp add: reservation_ok_def page_ok_def)
  have pieces: "pieces x ?r = (if e = pg_end x then [] else [?y])"
    using cmp x by (auto simp: pieces_def page_overlaps_def page_ok_def)
  obtain fa1 where fa1: "free_set fa (length as) ?y = Some fa1" "holds_ranges fa fa1 (as @ ?y # bs)"
    using free_set_split [OF ok(2) rs] by blast
  then have fa1_ok: "arrays_ok fa1" "free_ranges fa1 = as @ ?y # bs" by (auto simp: holds_ranges_def)
  obtain fa2 where fa2: "(if e = pg_end x then remove_free fa1 (length as) else Some fa1) = Some fa2"
      "holds_ranges fa fa2 (as @ pieces x ?r @ bs)"
    using remove_free_split [OF fa1_ok] holds_ranges_trans [OF fa1(2)] fa1(2) that unfolding pieces
    by (cases "e = pg_end x") auto
  have "ranges_ok (fa_limit fa) (as @ pieces x ?r @ bs)"
    using ok(1) pieces_ok [OF x res] pieces_inside [OF x, of _ ?r]
    by (fastforce simp: ranges_ok_append ranges_ok_Cons intro: less_le_trans le_less_trans)
  moreover have "bytes ?r \<subseteq> bytes x" using cmp by (auto simp: bytes_def)
  then have "bytes_of (as @ pieces x ?r @ bs) = bytes_of (free_ranges fa) - bytes ?r"
    using ranges_disjoint [OF ok(1)] pieces_bytes [OF x res] rs by auto
  ultimately have "frames_ok fa2 \<and> fa_limit fa2 = fa_limit fa \<and> initial_ranges fa2 = initial_ranges fa
      \<and> bytes_of (free_ranges fa2) = bytes_of (free_ranges fa) - bytes ?r"
    using fa2(2) fa by (auto simp: holds_ranges_def frames_ok_def)
  moreover have "take_front fa (length as) len = Some (Ok ?r, fa2)"
    using free_at_split [OF rs] e(1) fa1(1) fa2(1) by (simp add: take_front_def)
  ultimately show ?thesis using e(2) by auto
qed

text \<open>
  Both allocation calls: a first range that satisfies the code's test \<open>P\<close>, which holds of a range just when
  a run of \<open>len\<close> bytes from its start stays in it and below the ceiling.
\<close>

lemma first_fit_result:
  assumes fa: "frames_ok fa" and len: "unat len = unat n * 4096" "0 < unat n"
    and P: "\<And>r. r \<in> set (free_ranges fa) \<Longrightarrow> P r \<longleftrightarrow> unat (pg_start r) + unat len \<le> min (unat (pg_end r)) ceiling"
  shows "\<exists>reply fa'. (case position P (free_ranges fa) of None \<Rightarrow> Some (Err NoFramesAvailable, fa) | Some i \<Rightarrow> take_front fa i len)
      = Some (reply, fa') \<and> frames_ok fa' \<and> fa_limit fa' = fa_limit fa \<and> initial_ranges fa' = initial_ranges fa
    \<and> allocate_spec (bytes_of (free_ranges fa)) ceiling n (map_ok Some reply) (bytes_of (free_ranges fa'))"
proof -
  let ?rs = "free_ranges fa" and ?fits = "fits (bytes_of (free_ranges fa)) ceiling (unat n * 4096)"
  have ok: "ranges_ok (fa_limit fa) ?rs" using fa by (simp add: frames_ok_def)
  have small: "n \<noteq> 0" "\<not> 2 ^ 64 \<le> unat n * 4096"
    using len unsigned_less [of len, where ?'a = nat] by auto
  have witness: "\<exists>r\<in>set ?rs. P r \<and> pg_start r \<le> s" if s: "?fits s" for s
  proof -
    obtain r where r: "r \<in> set ?rs" "pg_start r \<le> s" "unat s + unat n * 4096 \<le> unat (pg_end r)"
      using run_in_one_range [OF ok _ s] len(2) by auto
    then have "P r" using P [OF r(1)] s len(1) by (auto simp: fits_def word_le_nat_alt)
    then show ?thesis using r by blast
  qed
  show ?thesis
  proof (cases "position P ?rs")
    case None
    then have "\<forall>s. \<not> ?fits s" using witness by (auto simp: position_None_iff)
    then show ?thesis using None fa small by (simp add: allocate_spec_def)
  next
    case (Some i)
    have i: "i < length ?rs" "P (?rs ! i)" "\<forall>j<i. \<not> P (?rs ! j)" using Some by (auto simp: position_Some_iff)
    define as x bs where "as = take i ?rs" and "x = ?rs ! i" and "bs = drop (Suc i) ?rs"
    have rs: "?rs = as @ x # bs" "length as = i" using i(1) id_take_nth_drop [OF i(1)] by (auto simp: as_def x_def bs_def)
    have x: "x \<in> set ?rs" using rs by simp
    have room: "unat (pg_start x) + unat len \<le> min (unat (pg_end x)) ceiling" using P [OF x] i(2) x_def by simp
    obtain r fa' where r: "take_front fa i len = Some (Ok r, fa')" "pg_start r = pg_start x"
        "unat (pg_end r) = unat (pg_start x) + unat len" "frames_ok fa'" "fa_limit fa' = fa_limit fa"
        "initial_ranges fa' = initial_ranges fa" "bytes_of (free_ranges fa') = bytes_of ?rs - bytes r"
      using take_front_result [OF fa rs(1) len(1)] len(2) room rs(2) by auto
    have "?fits (pg_start x)"
      using room x len(1) by (fastforce simp: fits_def bytes_of_def bytes_def word_less_nat_alt)
    moreover have "pg_start x \<le> s" if s: "?fits s" for s
    proof -
      obtain q where q: "q \<in> set ?rs" "P q" "pg_start q \<le> s" using witness [OF s] by blast
      have "q \<notin> set as" using i(3) q(2) by (auto simp: as_def in_set_conv_nth)
      then have "q = x \<or> q \<in> set bs" using q(1) rs(1) by auto
      then have "pg_start x \<le> pg_start q"
        using ok unfolding rs(1) by (auto simp: ranges_ok_append dest: starts_increase)
      then show ?thesis using q(3) by simp
    qed
    moreover have "is_multiple_of_page (pg_start x)" using ranges_ok_in [OF ok x] by (simp add: page_ok_def)
    ultimately show ?thesis using r Some small len(1) by (auto simp: allocate_spec_def)
  qed
qed

lemma checked_mul_cases:
  "checked_mul n 4096 = (if unat n * 4096 < 2 ^ 64 then Some (n * 4096) else None)"
  by (simp add: checked_mul_def)

lemma checked_mul_unat: "unat n * 4096 < 2 ^ 64 \<Longrightarrow> unat (n * 4096 :: u64) = unat n * 4096"
  by (simp add: unat_word_ariths)

lemma slice_free: "frames_ok fa \<Longrightarrow> slice_to (fa_free fa) (fa_free_len fa) = Some (free_ranges fa)"
  by (simp add: slice_to_def frames_ok_def arrays_ok_def)

lemma slice_initial: "frames_ok fa \<Longrightarrow> slice_to (fa_initial fa) (fa_initial_len fa) = Some (initial_ranges fa)"
  by (simp add: slice_to_def frames_ok_def arrays_ok_def)

definition step_ok :: "frame_allocator \<Rightarrow> frame_op \<Rightarrow> bool" where
  "step_ok fa x \<longleftrightarrow> (\<exists>reply fa'. frame_apply x fa = Some (reply, fa') \<and> frames_ok fa' \<and> fa_limit fa' = fa_limit fa
    \<and> initial_ranges fa' = initial_ranges fa
    \<and> frame_spec (fa_limit fa) (bytes_of (initial_ranges fa)) (bytes_of (free_ranges fa)) x reply (bytes_of (free_ranges fa')))"

lemma allocate_run_step:
  assumes "frames_ok fa"
  shows "step_ok fa (AllocateRun n)"
proof (cases "n = 0 \<or> 2 ^ 64 \<le> unat n * 4096")
  case True
  then show ?thesis using assms by (auto simp: step_ok_def allocate_run_def allocate_spec_def checked_mul_cases)
next
  case False
  have P: "n * 4096 \<le> pg_end r - pg_start r \<longleftrightarrow> unat (pg_start r) + unat (n * 4096) \<le> min (unat (pg_end r)) (2 ^ 64)"
    if "r \<in> set (free_ranges fa)" for r
  proof -
    have "pg_start r \<le> pg_end r" using that assms ranges_ok_in by (fastforce simp: frames_ok_def page_ok_def)
    moreover have "unat (pg_end r) < 2 ^ 64" using unsigned_less [of "pg_end r", where ?'a = nat] by simp
    ultimately show ?thesis by (auto simp: word_le_nat_alt unat_sub)
  qed
  have "allocate_run fa n = (case position (\<lambda>r. n * 4096 \<le> pg_end r - pg_start r) (free_ranges fa) of
      None \<Rightarrow> Some (Err NoFramesAvailable, fa) | Some i \<Rightarrow> take_front fa i (n * 4096))"
    using False slice_free [OF assms] by (simp add: allocate_run_def checked_mul_cases)
  then show ?thesis
    using first_fit_result [OF assms _ _ P, of n] checked_mul_unat [of n] False by (auto simp: step_ok_def unat_gt_0)
qed

lemma allocate_run_below_step:
  assumes "frames_ok fa"
  shows "step_ok fa (AllocateRunBelow n c)"
proof (cases "n = 0 \<or> 2 ^ 64 \<le> unat n * 4096")
  case True
  then show ?thesis using assms by (auto simp: step_ok_def allocate_run_below_def allocate_spec_def checked_mul_cases)
next
  case False
  let ?P = "\<lambda>r. case checked_sub (min (pg_end r) (min c (pl_exclusive (fa_limit fa)))) (pg_start r) of
      None \<Rightarrow> False | Some available \<Rightarrow> n * 4096 \<le> available"
  have P: "?P r \<longleftrightarrow> unat (pg_start r) + unat (n * 4096) \<le> min (unat (pg_end r)) (unat c)"
    if "r \<in> set (free_ranges fa)" for r
  proof -
    have "pg_end r \<le> pl_exclusive (fa_limit fa)" using that assms ranges_ok_in by (fastforce simp: frames_ok_def page_ok_def)
    then have "min (pg_end r) (min c (pl_exclusive (fa_limit fa))) = min (pg_end r) c" by (auto simp: min_def)
    then show ?thesis by (auto simp: checked_sub_def word_le_nat_alt unat_sub min_def)
  qed
  have "allocate_run_below fa n c = (case position ?P (free_ranges fa) of
      None \<Rightarrow> Some (Err NoFramesAvailable, fa) | Some i \<Rightarrow> take_front fa i (n * 4096))"
    using False slice_free [OF assms] by (simp add: allocate_run_below_def checked_mul_cases Let_def)
  then show ?thesis
    using first_fit_result [OF assms _ _ P, of n] checked_mul_unat [of n] False by (auto simp: step_ok_def unat_gt_0)
qed

section \<open>Release\<close>

lemma contained_iff:
  assumes "ranges_ok limit rs" "pg_start r < pg_end r"
  shows "list_ex (\<lambda>i. page_contains i r) rs \<longleftrightarrow> bytes r \<subseteq> bytes_of rs"
proof
  assume "list_ex (\<lambda>i. page_contains i r) rs"
  then obtain i where "i \<in> set rs" "page_contains i r" by (auto simp: list_ex_iff)
  then show "bytes r \<subseteq> bytes_of rs" using bytes_subset_iff [OF assms(2), of i] by (auto simp: bytes_of_def)
next
  assume sub: "bytes r \<subseteq> bytes_of rs"
  define len where "len = unat (pg_end r) - unat (pg_start r)"
  have end_r: "unat (pg_start r) + len = unat (pg_end r)" "0 < len" using assms(2) by (auto simp: len_def word_less_nat_alt)
  have "fits (bytes_of rs) (2 ^ 64) len (pg_start r)"
    using sub end_r unsigned_less [of "pg_end r", where ?'a = nat] by (auto simp: fits_def bytes_def word_less_nat_alt)
  then obtain i where i: "i \<in> set rs" "pg_start i \<le> pg_start r" "unat (pg_start r) + len \<le> unat (pg_end i)"
    using run_in_one_range [OF assms(1) end_r(2)] by blast
  then have "page_contains i r" using end_r(1) by (simp add: page_contains_def word_le_nat_alt)
  then show "list_ex (\<lambda>i. page_contains i r) rs" using i(1) by (auto simp: list_ex_iff)
qed

lemma overlapping_iff:
  assumes "ranges_ok limit rs" "pg_start r < pg_end r"
  shows "list_ex (\<lambda>f. page_overlaps f r) rs \<longleftrightarrow> bytes r \<inter> bytes_of rs \<noteq> {}"
proof -
  have "page_overlaps f r \<longleftrightarrow> bytes f \<inter> bytes r \<noteq> {}" if "f \<in> set rs" for f
    using page_overlaps_iff [OF _ assms(2), of f] ranges_ok_in [OF assms(1) that] by (simp add: page_ok_def)
  then show ?thesis by (auto simp: list_ex_iff bytes_of_def)
qed

lemma free_run_step:
  assumes fa: "frames_ok fa"
  shows "step_ok fa (FreeRun r)"
proof (cases "validate_candidate fa r")
  case (Err e)
  then show ?thesis
    using fa by (auto simp: step_ok_def free_run_def free_spec_def validate_candidate_def contains_page_range_def split: if_splits)
next
  case (Ok u)
  then have page: "page_ok (fa_limit fa) r" using validate_candidate_Ok_iff [of fa r] by simp
  then have r: "pg_start r < pg_end r" by (simp add: page_ok_def)
  have ok: "arrays_ok fa" "ranges_ok (fa_limit fa) (free_ranges fa)" "ranges_ok (fa_limit fa) (initial_ranges fa)"
    using fa by (auto simp: frames_ok_def)
  let ?I = "bytes_of (initial_ranges fa)" and ?S = "bytes_of (free_ranges fa)"
  have valid: "\<not> (pg_end r \<le> pg_start r \<or> \<not> is_multiple_of_page (pg_start r) \<or> \<not> is_multiple_of_page (pg_end r))"
      "\<not> pl_exclusive (fa_limit fa) < pg_end r"
    using page by (auto simp: page_ok_def)
  have code: "free_run fa r = (if \<not> bytes r \<subseteq> ?I then Some (Err InvalidFrame, fa)
      else if bytes r \<inter> ?S \<noteq> {} then Some (Err DoubleFree, fa) else insert_free fa r)"
    using Ok slice_free [OF fa] slice_initial [OF fa] contained_iff [OF ok(3) r] overlapping_iff [OF ok(2) r]
    by (simp add: free_run_def contains_initial_def overlaps_free_def)
  show ?thesis
  proof (cases "bytes r \<subseteq> ?I \<and> bytes r \<inter> ?S = {}")
    case True
    then show ?thesis
      using insert_free_outcome [OF ok(1,2) page] code fa valid
      by (fastforce simp: insert_outcome_def step_ok_def free_spec_def holds_ranges_def frames_ok_def)
  next
    case False
    then show ?thesis using code fa valid by (auto simp: step_ok_def free_spec_def)
  qed
qed

section \<open>Sequences of calls\<close>

lemma frame_step: "frames_ok fa \<Longrightarrow> step_ok fa x"
  by (cases x) (simp_all add: allocate_run_step allocate_run_below_step free_run_step)

lemma frame_run_refines:
  assumes "frames_ok fa"
  shows "\<exists>replies fa'. frame_run xs fa = Some (replies, fa') \<and> frames_ok fa' \<and> initial_ranges fa' = initial_ranges fa
    \<and> fa_limit fa' = fa_limit fa
    \<and> frame_spec_run (fa_limit fa) (bytes_of (initial_ranges fa)) (bytes_of (free_ranges fa)) xs replies (bytes_of (free_ranges fa'))"
  using assms
proof (induction xs arbitrary: fa)
  case Nil
  then show ?case by simp
next
  case (Cons x xs)
  obtain reply fa1 where fa1: "frame_apply x fa = Some (reply, fa1)" "frames_ok fa1" "fa_limit fa1 = fa_limit fa"
      "initial_ranges fa1 = initial_ranges fa"
      "frame_spec (fa_limit fa) (bytes_of (initial_ranges fa)) (bytes_of (free_ranges fa)) x reply (bytes_of (free_ranges fa1))"
    using frame_step [OF Cons.prems, of x] unfolding step_ok_def by blast
  then show ?case using Cons.IH [OF fa1(2)] by auto
qed

section \<open>Counting frames\<close>

lemma card_bytes: "card (bytes r) = unat (pg_end r) - unat (pg_start r)"
proof -
  have "unat ` bytes r = {unat (pg_start r)..<unat (pg_end r)}"
  proof (intro equalityI subsetI)
    fix n assume n: "n \<in> {unat (pg_start r)..<unat (pg_end r)}"
    then have "unat (of_nat n :: u64) = n"
      using unsigned_less [of "pg_end r", where ?'a = nat] by (simp add: unsigned_of_nat take_bit_nat_eq_self_iff)
    then have "of_nat n \<in> bytes r" "unat (of_nat n :: u64) = n"
      using n by (simp_all add: bytes_def word_le_nat_alt word_less_nat_alt)
    then show "n \<in> unat ` bytes r" by (metis imageI)
  qed (auto simp: bytes_def word_le_nat_alt word_less_nat_alt)
  moreover have "inj_on unat (bytes r)" by (simp add: inj_on_def word_unat_eq_iff)
  ultimately show ?thesis by (metis card_atLeastLessThan card_image)
qed

lemma finite_u64 [simp]: "finite (S :: u64 set)"
  by (rule finite_subset [of _ UNIV]) simp_all

lemma unat_page_count:
  assumes "page_ok limit r"
  shows "unat (page_count r) * 4096 = card (bytes r)"
proof -
  have le: "pg_start r \<le> pg_end r" and al: "unat (pg_start r) mod 4096 = 0" "unat (pg_end r) mod 4096 = 0"
    using assms by (auto simp: page_ok_def is_multiple_of_page_unat)
  have "(unat (pg_end r) - unat (pg_start r)) mod 4096 = 0"
    using al by (metis dvd_diff_nat mod_0_imp_dvd dvd_imp_mod_0)
  then show ?thesis using le by (simp add: page_count_def card_bytes unat_div unat_sub mod_0_imp_dvd)
qed

text \<open>The sums of the code never wrap: the free addresses are at most \<open>2 ^ 64\<close>.\<close>

lemma total_pages_exact:
  assumes "ranges_ok limit rs" "unat acc * 4096 + card (bytes_of rs) < 2 ^ 64"
  shows "unat (fold (\<lambda>rng total. total + page_count rng) rs acc) * 4096 = unat acc * 4096 + card (bytes_of rs)"
  using assms
proof (induction rs arbitrary: acc)
  case Nil
  then show ?case by simp
next
  case (Cons r rs)
  have r: "page_ok limit r" "bytes r \<inter> bytes_of rs = {}"
    using Cons.prems(1) bytes_of_after [of rs r] by (auto simp: ranges_ok_Cons less_imp_le)
  have card: "card (bytes_of (r # rs)) = unat (page_count r) * 4096 + card (bytes_of rs)"
    using r(2) unat_page_count [OF r(1)] by (simp add: card_Un_disjoint)
  have "unat acc + unat (page_count r) < 2 ^ 64" using Cons.prems(2) card by simp
  then have "unat (acc + page_count r) = unat acc + unat (page_count r)" by (simp add: unat_word_ariths)
  then show ?case
    using Cons.IH [of "acc + page_count r"] Cons.prems card by (simp add: ranges_ok_Cons distrib_right)
qed

lemma available_frames_exact:
  assumes "frames_ok fa"
  shows "\<exists>n. available_frames fa = Some n \<and> unat n * 4096 = card (bytes_of (free_ranges fa))"
proof -
  have ok: "ranges_ok (fa_limit fa) (free_ranges fa)" using assms by (simp add: frames_ok_def)
  let ?top = "pl_exclusive (fa_limit fa)"
  have "bytes_of (free_ranges fa) \<subseteq> bytes \<lparr>pg_start = 0, pg_end = ?top\<rparr>"
    using ranges_ok_in [OF ok] by (fastforce simp: bytes_of_def bytes_def page_ok_def)
  then have "card (bytes_of (free_ranges fa)) \<le> card (bytes \<lparr>pg_start = 0, pg_end = ?top\<rparr>)"
    by (rule card_mono [OF finite_u64])
  then have "card (bytes_of (free_ranges fa)) \<le> unat ?top" by (simp add: card_bytes)
  then have "card (bytes_of (free_ranges fa)) < 2 ^ 64" using unsigned_less [of ?top, where ?'a = nat] by simp
  then show ?thesis
    using total_pages_exact [OF ok, of 0] slice_free [OF assms] by (simp add: available_frames_def total_pages_def)
qed

end
