(* ===== verification/User_Range.thy ===== *)
theory User_Range
  imports Page_Arithmetic
begin

text \<open>
  Checked userspace ranges (\<^verbatim>\<open>kernel/src/memory/user_range.rs\<close>): the address-space layout, the range
  constructors with their zero-length policies, prefixes, and the iterator that cuts a range at page
  boundaries. The code adds and subtracts with Rust's overflow check, so an overflow is the panic \<open>None\<close>.
\<close>

section \<open>Layout and ranges\<close>

definition X86_64_USER_END_EXCLUSIVE :: u64 where
  "X86_64_USER_END_EXCLUSIVE = 0x0000800000000000"

type_synonym user_access = u8

definition access_includes :: "user_access \<Rightarrow> user_access \<Rightarrow> bool" where
  "access_includes self required \<longleftrightarrow> self AND required = required"

datatype empty_address_rule = Reject | NullOnly | UserOnly | NullOrUser | Ignored

record user_address_space =
  us_minimum_address :: u64
  us_end_exclusive :: u64
  us_page_size :: u64

datatype user_range_error =
  InvalidAddressSpace | InvalidAlignment | InvalidStride | EmptyUserRange | NullRequired | NullAddress
  | OutsideUserAddressSpace | UserAddressOverflow | ByteLengthOverflow

definition user_address_space_new :: "u64 \<Rightarrow> u64 \<Rightarrow> u64 \<Rightarrow> (user_address_space, user_range_error) result" where
  "user_address_space_new minimum_address end_exclusive page_size =
    (if page_size = 0 \<or> \<not> is_power_of_two page_size \<or> minimum_address < page_size
       \<or> minimum_address AND (page_size - 1) \<noteq> 0 \<or> end_exclusive AND (page_size - 1) \<noteq> 0
       \<or> end_exclusive \<le> minimum_address \<or> X86_64_USER_END_EXCLUSIVE < end_exclusive
     then Err InvalidAddressSpace
     else Ok \<lparr>us_minimum_address = minimum_address, us_end_exclusive = end_exclusive, us_page_size = page_size\<rparr>)"

definition x86_64_four_level :: "u64 \<Rightarrow> (user_address_space, user_range_error) result" where
  "x86_64_four_level page_size = user_address_space_new page_size X86_64_USER_END_EXCLUSIVE page_size"

record user_range =
  ur_address_space :: user_address_space
  ur_start :: u64
  ur_byte_len :: u64
  ur_access :: user_access

definition validate_empty_user_address :: "user_address_space \<Rightarrow> u64 \<Rightarrow> u64 \<Rightarrow> (unit, user_range_error) result" where
  "validate_empty_user_address space start alignment =
    (if start AND (alignment - 1) \<noteq> 0 then Err InvalidAlignment
     else if start < us_minimum_address space \<or> us_end_exclusive space \<le> start then Err OutsideUserAddressSpace
     else Ok ())"

definition user_range_empty ::
  "user_address_space \<Rightarrow> u64 \<Rightarrow> u64 \<Rightarrow> user_access \<Rightarrow> empty_address_rule \<Rightarrow> (user_range, user_range_error) result" where
  "user_range_empty space start alignment access rule =
    and_then
      (case rule of
         Reject \<Rightarrow> Err EmptyUserRange
       | NullOnly \<Rightarrow> if start \<noteq> 0 then Err NullRequired else Ok ()
       | UserOnly \<Rightarrow> if start = 0 then Err NullAddress else validate_empty_user_address space start alignment
       | NullOrUser \<Rightarrow> if start \<noteq> 0 then validate_empty_user_address space start alignment else Ok ()
       | Ignored \<Rightarrow> Ok ())
      (\<lambda>_. Ok \<lparr>ur_address_space = space, ur_start = start, ur_byte_len = 0, ur_access = access\<rparr>)"

definition user_range_new ::
  "user_address_space \<Rightarrow> u64 \<Rightarrow> u64 \<Rightarrow> u64 \<Rightarrow> user_access \<Rightarrow> empty_address_rule \<Rightarrow> (user_range, user_range_error) result" where
  "user_range_new space start byte_len alignment access rule =
    (if alignment = 0 \<or> \<not> is_power_of_two alignment then Err InvalidAlignment
     else if byte_len = 0 then user_range_empty space start alignment access rule
     else if start = 0 then Err NullAddress
     else if start AND (alignment - 1) \<noteq> 0 then Err InvalidAlignment
     else case checked_add start byte_len of
       None \<Rightarrow> Err UserAddressOverflow
     | Some e \<Rightarrow>
         if start < us_minimum_address space \<or> us_end_exclusive space < e then Err OutsideUserAddressSpace
         else Ok \<lparr>ur_address_space = space, ur_start = start, ur_byte_len = byte_len, ur_access = access\<rparr>)"

definition from_count_stride ::
  "user_address_space \<Rightarrow> u64 \<Rightarrow> u64 \<Rightarrow> u64 \<Rightarrow> u64 \<Rightarrow> user_access \<Rightarrow> empty_address_rule \<Rightarrow> (user_range, user_range_error) result" where
  "from_count_stride space start items stride alignment access rule =
    (if stride = 0 then Err InvalidStride
     else case checked_mul items stride of
       None \<Rightarrow> Err ByteLengthOverflow
     | Some byte_len \<Rightarrow> user_range_new space start byte_len alignment access rule)"

definition range_end_exclusive :: "user_range \<Rightarrow> u64 option" where
  "range_end_exclusive r = checked_add (ur_start r) (ur_byte_len r)"

definition range_prefix :: "user_range \<Rightarrow> nat \<Rightarrow> user_range option" where
  "range_prefix r n =
    (if 2 ^ 64 \<le> n then None
     else if ur_byte_len r < of_nat n then None
     else Some (r\<lparr>ur_byte_len := of_nat n\<rparr>))"

section \<open>The page chunks of a range\<close>

record user_page_chunk =
  uc_page_start :: u64
  uc_address :: u64
  uc_byte_len :: u64
  uc_access :: user_access

record user_page_chunks =
  uk_range :: user_range
  uk_cursor :: u64

definition page_chunks :: "user_range \<Rightarrow> user_page_chunks" where
  "page_chunks r = \<lparr>uk_range = r, uk_cursor = ur_start r\<rparr>"

definition chunks_next :: "user_page_chunks \<Rightarrow> (user_page_chunk option \<times> user_page_chunks) option" where
  "chunks_next it =
    do { e \<leftarrow> range_end_exclusive (uk_range it);
         if uk_cursor it = e then Some (None, it)
         else do {
           let page_size = us_page_size (ur_address_space (uk_range it));
           let page_start = align_down (uk_cursor it) page_size;
           page_end \<leftarrow> checked_add page_start page_size;
           let chunk_end = min page_end e;
           byte_len \<leftarrow> checked_sub chunk_end (uk_cursor it);
           Some (Some \<lparr>uc_page_start = page_start, uc_address = uk_cursor it, uc_byte_len = byte_len,
                       uc_access = ur_access (uk_range it)\<rparr>,
                 it\<lparr>uk_cursor := chunk_end\<rparr>) } }"

text \<open>The \<open>for\<close> loop over the iterator, with fuel: at most \<open>n\<close> calls of \<open>next\<close>.\<close>

primrec collect_chunks :: "nat \<Rightarrow> user_page_chunks \<Rightarrow> user_page_chunk list option" where
  "collect_chunks 0 it = None"
| "collect_chunks (Suc n) it =
    do { (chunk, it') \<leftarrow> chunks_next it;
         case chunk of
           None \<Rightarrow> Some []
         | Some c \<Rightarrow> do { rest \<leftarrow> collect_chunks n it'; Some (c # rest) } }"

section \<open>Well-formed ranges\<close>

definition space_ok :: "user_address_space \<Rightarrow> bool" where
  "space_ok space \<longleftrightarrow> is_power_of_two (us_page_size space) \<and> us_page_size space \<le> us_minimum_address space
    \<and> us_minimum_address space < us_end_exclusive space \<and> us_end_exclusive space \<le> X86_64_USER_END_EXCLUSIVE
    \<and> unat (us_end_exclusive space) mod unat (us_page_size space) = 0"

text \<open>Every byte of the range lies in the user part of the address space, off page zero.\<close>

definition user_range_ok :: "user_range \<Rightarrow> bool" where
  "user_range_ok r \<longleftrightarrow> space_ok (ur_address_space r) \<and>
    (ur_byte_len r \<noteq> 0 \<longrightarrow> us_minimum_address (ur_address_space r) \<le> ur_start r
       \<and> unat (ur_start r) + unat (ur_byte_len r) \<le> unat (us_end_exclusive (ur_address_space r)))"

lemma and_mask_zero:
  assumes "is_power_of_two p" "w AND (p - 1) = 0"
  shows "unat w mod unat p = 0"
proof -
  obtain k where k: "k < 64" "p = 2 ^ k" using assms(1) by (auto simp: is_power_of_two_iff)
  have "take_bit k w = 0" using assms(2) k(2) by (simp add: take_bit_eq_mask mask_eq_exp_minus_1)
  then have "w mod p = 0" using k(2) by (simp add: take_bit_eq_mod)
  then have "unat (w mod p) = 0" by simp
  then show ?thesis by (simp only: unat_mod)
qed

lemma user_address_space_new_ok: "user_address_space_new m e p = Ok space \<Longrightarrow> space_ok space"
  by (auto simp: user_address_space_new_def space_ok_def and_mask_zero not_less not_le split: if_splits)

lemma user_range_new_ok:
  "space_ok space \<Longrightarrow> user_range_new space start byte_len alignment access rule = Ok r \<Longrightarrow>
    user_range_ok r \<and> ur_address_space r = space \<and> ur_start r = start \<and> ur_byte_len r = byte_len"
  by (auto simp: user_range_new_def user_range_empty_def user_range_ok_def panic_simps not_less word_le_nat_alt
      dest!: checked_add_unat split: if_splits option.splits)

lemma range_prefix_ok:
  assumes "user_range_ok r" "range_prefix r n = Some p"
  shows "user_range_ok p"
proof -
  have p: "p = r\<lparr>ur_byte_len := of_nat n\<rparr>" "of_nat n \<le> ur_byte_len r"
    using assms(2) by (auto simp: range_prefix_def not_less split: if_splits)
  moreover have "unat (of_nat n :: u64) \<le> unat (ur_byte_len r)" using p(2) by (simp add: word_le_nat_alt)
  moreover have "ur_byte_len r = 0 \<Longrightarrow> of_nat n = (0 :: u64)" using p(2) by simp
  ultimately show ?thesis using assms(1) by (auto simp: user_range_ok_def)
qed

section \<open>The chunks partition the range\<close>

definition chunk_bytes :: "user_page_chunk \<Rightarrow> nat list" where
  "chunk_bytes c = [unat (uc_address c)..<unat (uc_address c) + unat (uc_byte_len c)]"

definition chunk_in_page :: "user_range \<Rightarrow> user_page_chunk \<Rightarrow> bool" where
  "chunk_in_page r c \<longleftrightarrow> uc_byte_len c \<noteq> 0 \<and> uc_access c = ur_access r
    \<and> unat (uc_page_start c) mod unat (us_page_size (ur_address_space r)) = 0
    \<and> uc_page_start c \<le> uc_address c
    \<and> unat (uc_address c) + unat (uc_byte_len c) \<le> unat (uc_page_start c) + unat (us_page_size (ur_address_space r))"

lemma page_fits_below:
  fixes c E P :: nat
  assumes "c < E" "E mod P = 0"
  shows "c div P * P + P \<le> E"
proof -
  obtain q where q: "E = q * P" using assms(2) by (metis mod_0_imp_dvd dvd_def mult.commute)
  then have "c div P < q" using assms(1) by (simp add: less_mult_imp_div_less)
  then have "Suc (c div P) * P \<le> q * P" by (intro mult_le_mono1) simp
  then show ?thesis using q by simp
qed

lemma chunks_next_inside:
  assumes r: "user_range_ok r" "ur_byte_len r \<noteq> 0" and e: "range_end_exclusive r = Some e"
    and cursor: "c < e"
  shows "\<exists>chunk c'. chunks_next \<lparr>uk_range = r, uk_cursor = c\<rparr> = Some (Some chunk, \<lparr>uk_range = r, uk_cursor = c'\<rparr>)
    \<and> chunk_in_page r chunk \<and> uc_address chunk = c \<and> unat c + unat (uc_byte_len chunk) = unat c' \<and> c < c' \<and> c' \<le> e"
proof -
  let ?space = "ur_address_space r"
  let ?P = "us_page_size ?space" and ?E = "us_end_exclusive ?space"
  obtain k where k: "k < 64" "?P = 2 ^ k" using r(1) by (auto simp: user_range_ok_def space_ok_def is_power_of_two_iff)
  have P: "unat ?P = 2 ^ k" using k unat_power_of_two by simp
  have eE: "unat e \<le> unat ?E" using checked_add_unat [OF e [unfolded range_end_exclusive_def]] r by (simp add: user_range_ok_def)
  define ps where "ps = align_down c ?P"
  have ps: "unat ps = unat c div 2 ^ k * 2 ^ k" using unat_align_down [OF k(1)] k(2) by (simp add: ps_def)
  have "unat c < unat ?E" using cursor eE by (simp add: word_less_nat_alt)
  then have below: "unat ps + unat ?P \<le> unat ?E"
    using page_fits_below [of "unat c" "unat ?E" "2 ^ k"] r(1) P ps by (simp add: user_range_ok_def space_ok_def)
  then have "unat ps + unat ?P < 2 ^ 64" using unsigned_less [of ?E, where ?'a = nat] by simp
  then obtain pe where pe: "checked_add ps ?P = Some pe" "unat pe = unat ps + unat ?P"
    by (rule checked_add_fits)
  have "unat c < unat pe" using dividend_less_div_times [of "2 ^ k" "unat c"] pe(2) P ps by simp
  then have ce: "c < min pe e" using cursor by (simp add: word_less_nat_alt)
  then have "checked_sub (min pe e) c = Some (min pe e - c)" by (simp add: checked_sub_def less_imp_le)
  then obtain n where n: "checked_sub (min pe e) c = Some n" "unat n + unat c = unat (min pe e)"
    using checked_sub_unat by blast
  let ?chunk = "\<lparr>uc_page_start = ps, uc_address = c, uc_byte_len = n, uc_access = ur_access r\<rparr>"
  have "n \<noteq> 0" using n(2) ce by (auto simp: word_less_nat_alt)
  moreover have "ps \<le> c" using ps div_times_less_eq_dividend [of "unat c" "2 ^ k"] by (simp add: word_le_nat_alt)
  moreover have "unat (min pe e) \<le> unat pe" by (simp add: word_le_nat_alt [symmetric])
  ultimately have "chunk_in_page r ?chunk" using P ps pe(2) n(2) by (simp add: chunk_in_page_def)
  moreover have "chunks_next \<lparr>uk_range = r, uk_cursor = c\<rparr> = Some (Some ?chunk, \<lparr>uk_range = r, uk_cursor = min pe e\<rparr>)"
    using e cursor pe(1) n(1) by (simp add: chunks_next_def ps_def Let_def)
  ultimately show ?thesis using n(2) ce by (intro exI [of _ ?chunk] exI [of _ "min pe e"]) simp
qed

lemma collect_chunks_from:
  assumes r: "user_range_ok r" "ur_byte_len r \<noteq> 0" and e: "range_end_exclusive r = Some e"
    and c: "c \<le> e" "unat e - unat c < n"
  shows "\<exists>chunks. collect_chunks n \<lparr>uk_range = r, uk_cursor = c\<rparr> = Some chunks
    \<and> concat (map chunk_bytes chunks) = [unat c..<unat e] \<and> list_all (chunk_in_page r) chunks"
  using c
proof (induction n arbitrary: c)
  case 0
  then show ?case by simp
next
  case (Suc n)
  show ?case
  proof (cases "c = e")
    case True
    then show ?thesis using e by (simp add: chunks_next_def)
  next
    case False
    then have "c < e" using Suc.prems(1) by simp
    then obtain chunk c' where step: "chunks_next \<lparr>uk_range = r, uk_cursor = c\<rparr> = Some (Some chunk, \<lparr>uk_range = r, uk_cursor = c'\<rparr>)"
        "chunk_in_page r chunk" "uc_address chunk = c" "unat c + unat (uc_byte_len chunk) = unat c'" "c < c'" "c' \<le> e"
      using chunks_next_inside [OF r e] by blast
    then have "unat e - unat c' < n" using Suc.prems(2) by (simp add: word_less_nat_alt word_le_nat_alt)
    then obtain chunks where rest: "collect_chunks n \<lparr>uk_range = r, uk_cursor = c'\<rparr> = Some chunks"
        "concat (map chunk_bytes chunks) = [unat c'..<unat e]" "list_all (chunk_in_page r) chunks"
      using Suc.IH [OF step(6)] by blast
    have "chunk_bytes chunk @ [unat c'..<unat e] = [unat c..<unat e]"
      using step(3-6) upt_add_eq_append [of "unat c" "unat c'" "unat e - unat c'"]
      by (simp add: chunk_bytes_def word_le_nat_alt word_less_nat_alt)
    then show ?thesis using step(1,2) rest by simp
  qed
qed

lemma collect_chunks_result:
  assumes "user_range_ok r"
  shows "\<exists>chunks. collect_chunks (Suc (unat (ur_byte_len r))) (page_chunks r) = Some chunks
    \<and> concat (map chunk_bytes chunks) = [unat (ur_start r)..<unat (ur_start r) + unat (ur_byte_len r)]
    \<and> list_all (chunk_in_page r) chunks"
proof -
  have "unat (ur_start r) + unat (ur_byte_len r) < 2 ^ 64"
    using assms unsigned_less [of "us_end_exclusive (ur_address_space r)", where ?'a = nat]
      unsigned_less [of "ur_start r", where ?'a = nat] by (cases "ur_byte_len r = 0") (auto simp: user_range_ok_def)
  then obtain e where e: "range_end_exclusive r = Some e" "unat e = unat (ur_start r) + unat (ur_byte_len r)"
    unfolding range_end_exclusive_def by (rule checked_add_fits)
  show ?thesis
  proof (cases "ur_byte_len r = 0")
    case True
    then have "e = ur_start r" using e(2) by (simp add: word_unat_eq_iff)
    then show ?thesis using True e by (simp add: page_chunks_def chunks_next_def)
  next
    case False
    show ?thesis
      using collect_chunks_from [OF assms False e(1), of "ur_start r" "Suc (unat (ur_byte_len r))"] e(2)
      by (simp add: page_chunks_def word_le_nat_alt del: collect_chunks.simps)
  qed
qed

end
