(* ===== verification/Memory_Claims.thy ===== *)
theory Memory_Claims
  imports Frame_Refinement User_Range
begin

text \<open>
  The properties of the memory components: what the frame allocator owns after construction, that its
  calls behave as a set of free addresses, and what a checked userspace range guarantees.
\<close>

lemma reservations_nonempty:
  "\<forall>r\<in>set rs. \<exists>start n. physical_range_new start n = Ok r \<Longrightarrow> \<forall>r\<in>set rs. pr_byte_len r \<noteq> 0"
  by (fastforce simp: physical_range_new_def panic_simps split: if_splits)

text \<open>The loops one round at a time, for evaluation on a concrete allocator.\<close>

lemmas insertion_rounds = insertion_loop.simps [THEN trans, OF if_P] insertion_loop.simps [THEN trans, OF if_not_P]

lemmas subtract_rounds = subtract_loop.simps [THEN trans, OF if_P] subtract_loop.simps [THEN trans, OF if_not_P]

lemmas frame_eval = eval_simps from_candidates_def validate_candidate_def contains_page_range_def is_multiple_of_page_def
  insert_free_def insertion_rounds neighbour_def insert_apart_def insert_new_def merge_left_def
  subtract_def subtract_rounds split_free_def shift_right_def remove_free_def free_set_def free_at_def array_set_def
  page_overlaps_def page_cover_def physical_range_end_def align_down_def copy_initial_def slice_to_def EMPTY_RANGE_def

section \<open>The frame allocator\<close>

text \<open>
  C37: construction of the frame allocator never panics, and an allocator it returns owns exactly the
  candidate addresses that lie outside page zero and share no page with a reservation.
\<close>

theorem construction_owns_usable_frames:
  assumes "\<forall>r\<in>set reservations. \<exists>start n. physical_range_new start n = Ok r"
  shows "(\<exists>fa. from_candidates capacity candidates limit reservations = Some (Ok fa) \<and> frames_ok fa
      \<and> bytes_of (free_ranges fa) = usable_bytes candidates reservations
      \<and> bytes_of (initial_ranges fa) = usable_bytes candidates reservations)
    \<or> (\<exists>e. from_candidates capacity candidates limit reservations = Some (Err e))"
  using from_candidates_result [OF reservations_nonempty [OF assms], of capacity candidates limit] by auto

definition sample_limit :: physical_address_limit where
  "sample_limit = \<lparr>pl_exclusive = 0x100000\<rparr>"

definition sample_candidates :: "page_range list" where
  "sample_candidates = [\<lparr>pg_start = 0, pg_end = 0x8000\<rparr>]"

definition sample_reservations :: "physical_range list" where
  "sample_reservations = [\<lparr>pr_physical_start = 0x2100, pr_byte_len = 0x10\<rparr>]"

definition sample_frames :: frame_allocator where
  "sample_frames =
    \<lparr>fa_initial = [\<lparr>pg_start = 0x1000, pg_end = 0x2000\<rparr>, \<lparr>pg_start = 0x3000, pg_end = 0x8000\<rparr>, EMPTY_RANGE],
     fa_initial_len = Suc (Suc 0),
     fa_free = [\<lparr>pg_start = 0x1000, pg_end = 0x2000\<rparr>, \<lparr>pg_start = 0x3000, pg_end = 0x8000\<rparr>, EMPTY_RANGE],
     fa_free_len = Suc (Suc 0), fa_limit = sample_limit\<rparr>"

lemma sample_construction:
  "from_candidates (Suc (Suc (Suc 0))) sample_candidates sample_limit sample_reservations = Some (Ok sample_frames)"
  by (simp add: frame_eval sample_candidates_def sample_limit_def sample_reservations_def sample_frames_def)

lemma sample_reservations_checked: "\<forall>r\<in>set sample_reservations. \<exists>start n. physical_range_new start n = Ok r"
proof -
  have "physical_range_new 0x2100 0x10 = Ok \<lparr>pr_physical_start = 0x2100, pr_byte_len = 0x10\<rparr>"
    by (simp add: physical_range_new_def checked_add_def)
  then show ?thesis unfolding sample_reservations_def by auto
qed

theorem construction_owns_usable_frames_witness:
  "from_candidates (Suc (Suc (Suc 0))) sample_candidates sample_limit sample_reservations = Some (Ok sample_frames)
    \<and> bytes_of (free_ranges sample_frames) = usable_bytes sample_candidates sample_reservations"
  using construction_owns_usable_frames [OF sample_reservations_checked, of "Suc (Suc (Suc 0))" sample_candidates sample_limit]
  by (simp add: sample_construction)

text \<open>
  C38: every sequence of allocation and release calls on a constructed allocator returns without a
  panic and behaves as the specification over the set of free addresses: an allocation takes the lowest
  run that fits and fails only when none does, and a release accepts only addresses that are owned and
  not free.
\<close>

theorem frame_allocator_is_a_set_of_frames:
  assumes "\<forall>r\<in>set reservations. \<exists>start n. physical_range_new start n = Ok r"
    and "from_candidates capacity candidates limit reservations = Some (Ok fa)"
  shows "\<exists>replies fa'. frame_run calls fa = Some (replies, fa') \<and> frames_ok fa'
    \<and> frame_spec_run limit (usable_bytes candidates reservations) (usable_bytes candidates reservations)
        calls replies (bytes_of (free_ranges fa'))"
proof -
  have "frames_ok fa \<and> fa_limit fa = limit \<and> initial_ranges fa = free_ranges fa
      \<and> bytes_of (free_ranges fa) = usable_bytes candidates reservations"
    using from_candidates_result [OF reservations_nonempty [OF assms(1)], of capacity candidates limit] assms(2) by auto
  then show ?thesis using frame_run_refines [of fa calls] by auto
qed

definition sample_calls :: "frame_op list" where
  "sample_calls = [AllocateRun 2, AllocateRun 1, FreeRun \<lparr>pg_start = 0x4000, pg_end = 0x5000\<rparr>,
     FreeRun \<lparr>pg_start = 0x2000, pg_end = 0x3000\<rparr>, AllocateRunBelow 1 0x3000]"

definition sample_replies :: "frame_reply list" where
  "sample_replies = [Ok (Some \<lparr>pg_start = 0x3000, pg_end = 0x5000\<rparr>), Ok (Some \<lparr>pg_start = 0x1000, pg_end = 0x2000\<rparr>),
     Ok None, Err InvalidFrame, Err NoFramesAvailable]"

lemmas call_eval = frame_eval allocate_run_def allocate_run_below_def free_run_def contains_initial_def overlaps_free_def
  page_contains_def take_front_def checked_mul_def

lemma sample_calls_run: "map_option fst (frame_run sample_calls sample_frames) = Some sample_replies"
  by (simp add: call_eval sample_calls_def sample_replies_def sample_frames_def sample_limit_def)

theorem frame_allocator_is_a_set_of_frames_witness:
  "\<exists>fa'. frame_run sample_calls sample_frames = Some (sample_replies, fa') \<and> frames_ok fa'
    \<and> frame_spec_run sample_limit (usable_bytes sample_candidates sample_reservations)
        (usable_bytes sample_candidates sample_reservations) sample_calls sample_replies (bytes_of (free_ranges fa'))"
  using frame_allocator_is_a_set_of_frames [OF sample_reservations_checked sample_construction, of sample_calls] sample_calls_run
  by auto

section \<open>Userspace ranges\<close>

text \<open>
  C39: a range accepted by either constructor, over a layout accepted by its constructor, and every prefix of
  it is well formed: unless it is empty, all its bytes lie between the layout's minimum address and its
  end, in the lower canonical half and off page zero, without address overflow.
\<close>

theorem user_ranges_stay_in_user_half:
  assumes "user_address_space_new minimum end_exclusive page_size = Ok space"
    and "user_range_new space start byte_len alignment access rule = Ok r
      \<or> from_count_stride space start items stride alignment access rule = Ok r"
    and "p = r \<or> range_prefix r n = Some p"
  shows "user_range_ok p \<and> (ur_byte_len p \<noteq> 0 \<longrightarrow> 0 < ur_start p
    \<and> unat (ur_start p) + unat (ur_byte_len p) \<le> 2 ^ 47)"
proof -
  have space: "space_ok space" using assms(1) by (rule user_address_space_new_ok)
  then have "user_range_ok r"
    using assms(2) user_range_new_ok [OF space]
    by (auto simp: from_count_stride_def split: if_splits option.splits)
  then have p: "user_range_ok p" using assms(3) range_prefix_ok by blast
  show ?thesis
    using p power_of_two_pos order.trans
    by (fastforce simp: user_range_ok_def space_ok_def X86_64_USER_END_EXCLUSIVE_def word_le_nat_alt)
qed

definition sample_space :: user_address_space where
  "sample_space = \<lparr>us_minimum_address = 0x1000, us_end_exclusive = 0x800000000000, us_page_size = 0x1000\<rparr>"

definition sample_range :: user_range where
  "sample_range = \<lparr>ur_address_space = sample_space, ur_start = 0x1ff0, ur_byte_len = 0x20, ur_access = 1\<rparr>"

lemma sample_space_new: "user_address_space_new 0x1000 0x800000000000 0x1000 = Ok sample_space"
  by (simp add: user_address_space_new_def is_power_of_two_def upt_rec X86_64_USER_END_EXCLUSIVE_def sample_space_def)

lemma sample_range_new: "user_range_new sample_space 0x1ff0 0x20 8 1 Reject = Ok sample_range"
  by (simp add: user_range_new_def is_power_of_two_def upt_rec checked_add_def sample_range_def sample_space_def)

lemma sample_prefix: "range_prefix sample_range 16 = Some (sample_range\<lparr>ur_byte_len := 0x10\<rparr>)"
  by (simp add: range_prefix_def sample_range_def)

theorem user_ranges_stay_in_user_half_witness:
  "range_prefix sample_range 16 = Some (sample_range\<lparr>ur_byte_len := 0x10\<rparr>)
    \<and> user_range_ok (sample_range\<lparr>ur_byte_len := 0x10\<rparr>) \<and> 0 < ur_start (sample_range\<lparr>ur_byte_len := 0x10\<rparr>)"
  using user_ranges_stay_in_user_half [OF sample_space_new disjI1 [OF sample_range_new] disjI2 [OF sample_prefix]] sample_prefix
  by simp

text \<open>
  C40: iterating the page chunks of a well-formed range terminates within one call per byte and one more,
  never overflows, and yields non-empty chunks that list the bytes of the range exactly once and in order, each
  inside one aligned page and with the access of the range.
\<close>

theorem page_chunks_partition_range:
  assumes "user_address_space_new minimum end_exclusive page_size = Ok space"
    and "user_range_new space start byte_len alignment access rule = Ok r"
  shows "\<exists>chunks. collect_chunks (Suc (unat byte_len)) (page_chunks r) = Some chunks
    \<and> concat (map chunk_bytes chunks) = [unat start..<unat start + unat byte_len] \<and> list_all (chunk_in_page r) chunks"
  using collect_chunks_result [of r] user_range_new_ok [OF user_address_space_new_ok [OF assms(1)] assms(2)] by auto

theorem page_chunks_partition_range_witness:
  "\<exists>chunks. collect_chunks (Suc (unat (0x20 :: u64))) (page_chunks sample_range) = Some chunks
    \<and> concat (map chunk_bytes chunks) = [unat (0x1ff0 :: u64)..<unat (0x1ff0 :: u64) + unat (0x20 :: u64)]
    \<and> list_all (chunk_in_page sample_range) chunks"
  by (rule page_chunks_partition_range [OF sample_space_new sample_range_new])

end
