(* ===== verification/Spec2Isabelle.thy ===== *)
theory Spec2Isabelle
  imports Handle_Claims Channel_Claims Time_Claims Memory_Claims
begin

text \<open>
  A verification development of the authorities of the deepwyrm kernel (\<^verbatim>\<open>src/kernel/src\<close>).

  \<^bold>\<open>The program.\<close> Deepwyrm is a capability microkernel in Rust. Its core is a set of fixed-size authorities,
  each an array of generation-numbered slots behind a lock. The object registry gives every kernel object an
  identity and counts its references; the handle table of a process maps handles with rights to such references;
  events, channels and timers are typed objects whose records live in an authority each; the wait registry holds
  the threads that wait for a signal of such an object; the time service drives the deadlines of blocked threads,
  timers and the scheduler from one hardware one-shot per processor; the frame allocator owns physical memory and the
  user-range checks guard every user pointer. An operation on a typed object takes references from the registry,
  updates the record under its lock and reports changed signals to the wait registry, which returns the
  threads to wake.

  \<^bold>\<open>Conventions\<close> (\<^verbatim>\<open>Kernel_Prelude\<close>). A Rust \<open>Result\<close> is the type \<open>result\<close>; a panic, a failed \<open>expect\<close> or assertion, an index out
  of range and a halt of the machine are \<open>None\<close> of an option, so freedom from panics is a theorem. A method on
  \<open>&mut self\<close> returns the new state beside its result, also with an error. Machine integers are words; \<open>usize\<close> and
  \<open>u128\<close> values are natural numbers with the bound written out where the code checks it. A struct is a record whose
  fields carry a prefix, an enum a datatype, a const generic the length of a list, a static an argument. Each
  method that holds its lock throughout is one atomic step; where a method releases it, each section is a definition.
  Debug assertions are left out. Readings of hardware and the effects of other processors are arguments.

  \<^bold>\<open>Theories and sources.\<close>

  \<^item> Vocabulary, \<^verbatim>\<open>abi/generated/deepwyrm_abi.rs\<close>: \<^verbatim>\<open>Abi\<close> has the constants and masks the kernel core uses.
    \<^verbatim>\<open>Generation_Codec\<close> is the interface of a slot and generation packed in a word, \<^verbatim>\<open>Slot_Map\<close> that of a searched
    array of optional records, \<^verbatim>\<open>Page_Arithmetic\<close> the mask arithmetic of pages.

  \<^item> Object registry, \<^verbatim>\<open>object/mod.rs\<close>: \<^verbatim>\<open>Object_Registry\<close> has the slots, the move-only tokens as values and every operation.
    \<^verbatim>\<open>Object_Ledger\<close> reads the slots as a map from identities to phases and relates the counters to the multiset of
    outstanding tokens; \<^verbatim>\<open>Object_Lifetime\<close> has the locales of the token operations, their interpretations and the
    properties of whole runs: identities are never reused, counts are exact, the last release finalizes once.

  \<^item> Handle table, \<^verbatim>\<open>handle/table.rs\<close> and \<^verbatim>\<open>handle/rights.rs\<close>: \<^verbatim>\<open>Rights\<close>, \<^verbatim>\<open>Handle_Table\<close> (lookup, install, close, duplicate,
    drain) and \<^verbatim>\<open>Handle_Transfer\<close> (prepared moves, batches, destination reservations). \<^verbatim>\<open>Handle_View\<close> and \<^verbatim>\<open>Handle_Ops\<close> give
    each operation as an update of the map from handles to entries, \<^verbatim>\<open>Handle_Lifetime\<close> shows that a closed handle stays
    dead, \<^verbatim>\<open>Handle_Moves\<close> and \<^verbatim>\<open>Handle_Publish\<close> that transactions are all or nothing; \<^verbatim>\<open>Handle_Properties\<close> and
    \<^verbatim>\<open>Handle_Claims\<close> state the properties with samples.

  \<^item> Waits and events, \<^verbatim>\<open>wait/mod.rs\<close>: \<^verbatim>\<open>Wait_Registry\<close>, \<^verbatim>\<open>Wait_View\<close> and the locale of \<^verbatim>\<open>Wait_Service\<close>, on which the signal
    sources rest; \<^verbatim>\<open>Event_Authority\<close>; \<^verbatim>\<open>Wait_Claims\<close>. A block generation is claimed once with all its pins, and no thread
    waits for a signal that its event already shows.

  \<^item> Channels, \<^verbatim>\<open>ipc/mod.rs\<close>: \<^verbatim>\<open>Payload_Pool\<close> (two classes of payload slots), \<^verbatim>\<open>Byte_Queue\<close> with \<^verbatim>\<open>Byte_Queue_View\<close> (a ring as a
    FIFO with reservations), \<^verbatim>\<open>Channel\<close> and \<^verbatim>\<open>Channel_Ops\<close> (pairs, transactions, signals, the queue-cycle check). The
    theories \<^verbatim>\<open>Channel_View\<close> to \<^verbatim>\<open>Channel_Closing\<close> give each operation on invariant and mailboxes, \<^verbatim>\<open>Channel_Graph\<close> the cycle
    check as reachability, \<^verbatim>\<open>Channel_Machine\<close> the runs, \<^verbatim>\<open>Channel_Mail\<close> the abstract mailboxes they implement,
    \<^verbatim>\<open>Channel_Calls\<close> complete calls and \<^verbatim>\<open>Channel_Claims\<close> the properties.

  \<^item> Time, \<^verbatim>\<open>time/*.rs\<close>: \<^verbatim>\<open>Deadline_Queue\<close> and \<^verbatim>\<open>Deadline_Refinement\<close> (a finite map), \<^verbatim>\<open>Monotonic_Clock\<close>, \<^verbatim>\<open>Deadline_Arbiter\<close>,
    \<^verbatim>\<open>Live_Time\<close> (the boot processor and its hardware reconciliation), \<^verbatim>\<open>Ap_Timer\<close> (the other processors),
    \<^verbatim>\<open>Timer_Authority\<close> (timer objects), \<^verbatim>\<open>Timer_Machine\<close> (their interleavings) and \<^verbatim>\<open>Timer_Contract\<close> (the contract of the
    deadline authority as a locale, interpreted on the queue of the time service); \<^verbatim>\<open>Time_Claims\<close>.

  \<^item> Memory, \<^verbatim>\<open>memory/physical.rs\<close> and \<^verbatim>\<open>memory/user_range.rs\<close>: \<^verbatim>\<open>Physical_Frames\<close> has the allocator with its arrays and loops;
    \<^verbatim>\<open>Frame_Ranges\<close> reads the arrays as a sorted list of separated ranges, \<^verbatim>\<open>Frame_Operations\<close> gives insertion and
    subtraction on the set of addresses, \<^verbatim>\<open>Frame_Contract\<close> the constructor, \<^verbatim>\<open>Frame_Refinement\<close> the allocator as a set of
    free addresses and its count of frames as exact. \<^verbatim>\<open>User_Range\<close> has the checked ranges and their page chunks; \<^verbatim>\<open>Memory_Claims\<close> the properties.

  \<^bold>\<open>Bounds and fuel.\<close> The queue-cycle search \<open>cycle_loop\<close> is a total function; \<open>cycle_loop_fuel\<close> is the same search with a
  bound on its rounds, and \<open>2 * PAIRS + 1\<close> rounds are shown to be enough, since each round marks an endpoint that was
  not marked. The reconciliation of the hardware timer has the eight rounds of the code, after which it fails as the
  code does. The busy wait has the 20000000 readings of the code. \<open>collect_chunks\<close> takes fuel for the loop over an iterator; one
  more than the byte length is shown to be enough, because no chunk is empty. The loops of the frame allocator
  terminate by the number of ranges not yet visited.

  \<^bold>\<open>Points of the code the model brings out.\<close> A handle duplication whose reference count overflows leaks a slot;
  a batch move takes a handle that a prepared single move has pinned; a small payload slot with a used-up generation
  hides the free small slots behind it; and on the boot processor a timer whose reprogramming fails keeps an arm whose
  registration is gone. Cancelling a send or abandoning a commit frees capacity without collecting wakeups, so absence of lost
  wakeups holds between complete calls and not inside one. A release of frames can be refused with a full array of
  ranges, and the specification of release allows that. Subtractions of the frame allocator are word subtractions,
  guarded by the invariant that a range does not end before it starts.

  \<^bold>\<open>Not modelled.\<close> The rest of the time service: set-up and calibration of the local APIC, the interrupt entry and the
  publication of static references; the state is taken as initialised. Memory objects, address regions, frame roles and the
  boot map, whose bookkeeping is outside the scope of this development, and user copies and kernel stacks, which
  work on page tables and raw memory. The scheduler, the task authorities and the blocking wait engine, of which only the block
  key is used. The system-call layer, the handle service and the finalizer, which compose authorities most of which are
  not modelled. Devices, interrupts, the x86-64 layer and start-up code: hardware registers, inline assembly and
  one-shot construction. Locks, which the atomic steps stand for. The ABI generator, the wire-format crates,
  diagnostics, build scripts and host tools, which have no run-time state of the kernel.
\<close>

end
